(* ===== verification/Prelude.thy ===== *)
theory Prelude
  imports Main
begin

text \<open>
  What every component shares: the tables of the PostgreSQL database as lists of rows with a
  key, the two TypeORM calls the services make on them (look one row up, save one row), the
  contract of these calls as the locale \<open>repository\<close>, and lemmas on lists and maps.

  A table is the list of its rows in storage order. \<open>find_row\<close> is
  \<open>findOne({ where: { id } })\<close>; \<open>save_row\<close> is \<open>save(entity)\<close>, an UPDATE when
  a row with the key exists and an INSERT at the end otherwise; \<open>delete_rows\<close> is
  \<open>delete(criteria)\<close>. A foreign key is the key of the referenced row, \<open>None\<close> where
  the column is NULL, and loading a relation is a lookup of that key.
\<close>

named_theorems table_simps "lookups in tables after a save"

subsection \<open>Rows and keys\<close>

definition find_row :: "('r \<Rightarrow> 'k) \<Rightarrow> 'k \<Rightarrow> 'r list \<Rightarrow> 'r option" where
  "find_row key k t = find (\<lambda>r. key r = k) t"

definition save_row :: "('r \<Rightarrow> 'k) \<Rightarrow> 'r \<Rightarrow> 'r list \<Rightarrow> 'r list" where
  "save_row key r t =
     (if key r \<in> set (map key t) then map (\<lambda>x. if key x = key r then r else x) t else t @ [r])"

definition delete_rows :: "('r \<Rightarrow> bool) \<Rightarrow> 'r list \<Rightarrow> 'r list" where
  "delete_rows P t = filter (\<lambda>r. \<not> P r) t"

definition unique_keys :: "('r \<Rightarrow> 'k) \<Rightarrow> 'r list \<Rightarrow> bool" where
  "unique_keys key t \<longleftrightarrow> distinct (map key t)"

text \<open>The relation of a nullable foreign key: the row it names, if there is one.\<close>

definition find_opt :: "('r \<Rightarrow> 'k) \<Rightarrow> 'k option \<Rightarrow> 'r list \<Rightarrow> 'r option" where
  "find_opt key ko t = (case ko of None \<Rightarrow> None | Some k \<Rightarrow> find_row key k t)"

lemma find_row_Nil [simp]: "find_row key k [] = None"
  by (simp add: find_row_def)

lemma find_row_Cons: "find_row key k (r # t) = (if key r = k then Some r else find_row key k t)"
  by (simp add: find_row_def)

lemma find_row_SomeD: "find_row key k t = Some r \<Longrightarrow> r \<in> set t \<and> key r = k"
  by (auto simp: find_row_def find_Some_iff)

lemma find_row_None_iff: "find_row key k t = None \<longleftrightarrow> k \<notin> key ` set t"
  by (auto simp: find_row_def find_None_iff)

lemma find_row_in_set: "unique_keys key t \<Longrightarrow> r \<in> set t \<Longrightarrow> find_row key (key r) t = Some r"
  by (induction t) (auto simp: find_row_Cons unique_keys_def)

lemma find_row_append:
  "find_row key k (s @ t) = (case find_row key k s of None \<Rightarrow> find_row key k t | Some r \<Rightarrow> Some r)"
  by (induction s) (auto simp: find_row_Cons)

lemma find_row_map:
  "(\<And>r. r \<in> set t \<Longrightarrow> key (f r) = key r) \<Longrightarrow> find_row key k (map f t) = map_option f (find_row key k t)"
  by (induction t) (auto simp: find_row_Cons)

lemma find_row_save:
  "find_row key k (save_row key r t) = (if k = key r then Some r else find_row key k t)"
proof (cases "key r \<in> key ` set t")
  case True
  then have ex: "key r \<in> set (map key t)" by simp
  have "find_row key k (save_row key r t)
      = map_option (\<lambda>x. if key x = key r then r else x) (find_row key k t)"
    unfolding save_row_def using ex by (simp only: if_True) (rule find_row_map, auto)
  moreover have "find_row key (key r) t \<noteq> None" using True by (simp add: find_row_None_iff)
  ultimately show ?thesis
    by (cases "find_row key k t") (auto dest: find_row_SomeD)
next
  case False
  then have "find_row key (key r) t = None" by (simp add: find_row_None_iff)
  with False show ?thesis
    by (auto simp: save_row_def find_row_append find_row_Cons split: option.splits)
qed

lemma key_set_save_row: "key ` set (save_row key r t) = insert (key r) (key ` set t)"
proof -
  have "key r \<in> key ` set t \<Longrightarrow>
      key ` set (map (\<lambda>x. if key x = key r then r else x) t) = key ` set t"
    unfolding set_map image_image by (intro image_cong) auto
  then show ?thesis by (auto simp: save_row_def)
qed

lemma save_row_keys_same: "key r \<in> key ` set t \<Longrightarrow> map key (save_row key r t) = map key t"
  by (force simp: save_row_def)

lemma unique_keys_save: "unique_keys key t \<Longrightarrow> unique_keys key (save_row key r t)"
proof (cases "key r \<in> key ` set t")
  case True
  then show "unique_keys key t \<Longrightarrow> ?thesis" by (simp only: unique_keys_def save_row_keys_same)
next
  case False
  then show "unique_keys key t \<Longrightarrow> ?thesis" by (simp add: unique_keys_def save_row_def)
qed

lemma unique_keys_delete: "unique_keys key t \<Longrightarrow> unique_keys key (delete_rows P t)"
  by (induction t) (auto simp: unique_keys_def delete_rows_def)

lemma in_set_save_row:
  "unique_keys key t \<Longrightarrow> x \<in> set (save_row key r t) \<longleftrightarrow> x = r \<or> x \<in> set t \<and> key x \<noteq> key r"
  by (auto simp: save_row_def image_iff)

lemma set_save_row_subset: "set (save_row key r t) \<subseteq> insert r (set t)"
  by (auto simp: save_row_def)

lemma set_delete_rows [simp]: "set (delete_rows P t) = {r \<in> set t. \<not> P r}"
  by (auto simp: delete_rows_def)

text \<open>
  The services load entities into an array, mutate some of them in place and save the array.
  \<open>update_row\<close> is the mutation of the loaded row with a key, \<open>save_rows\<close> the save of the array.
\<close>

definition update_row :: "('r \<Rightarrow> 'k) \<Rightarrow> 'k \<Rightarrow> ('r \<Rightarrow> 'r) \<Rightarrow> 'r list \<Rightarrow> 'r list" where
  "update_row key k f t = map (\<lambda>r. if key r = k then f r else r) t"

definition save_rows :: "('r \<Rightarrow> 'k) \<Rightarrow> 'r list \<Rightarrow> 'r list \<Rightarrow> 'r list" where
  "save_rows key rs t = fold (save_row key) rs t"

lemma find_row_update_row:
  "(\<And>r. key (f r) = key r) \<Longrightarrow>
   find_row key k' (update_row key k f t) =
     map_option (\<lambda>r. if k' = k then f r else r) (find_row key k' t)"
  by (induction t) (auto simp: update_row_def find_row_Cons)

lemma map_key_update_row: "(\<And>r. key (f r) = key r) \<Longrightarrow> map key (update_row key k f t) = map key t"
  by (auto simp: update_row_def)

lemma foldl_update_row:
  assumes "\<And>q r. key (f q r) = key r" "distinct (map fst m)"
  shows "foldl (\<lambda>t (k, q). update_row key k (f q) t) t m =
           map (\<lambda>r. case map_of m (key r) of None \<Rightarrow> r | Some q \<Rightarrow> f q r) t"
  using assms(2)
proof (induction m arbitrary: t)
  case (Cons kq m)
  obtain k q where kq: "kq = (k, q)" by fastforce
  have "map_of m k = None" using Cons.prems by (auto simp: kq map_of_eq_None_iff)
  then show ?case using Cons by (auto simp: kq update_row_def assms(1))
qed simp

lemma save_rows_present:
  assumes "unique_keys key rs" "key ` set rs \<subseteq> key ` set t"
  shows "save_rows key rs t = map (\<lambda>r. case find_row key (key r) rs of None \<Rightarrow> r | Some r' \<Rightarrow> r') t"
  using assms
proof (induction rs arbitrary: t)
  case (Cons x rs)
  have x: "key x \<in> set (map key t)" using Cons.prems by auto
  have ks: "map key (save_row key x t) = map key t" using x by (simp add: save_row_keys_same)
  then have ks': "key ` set (save_row key x t) = key ` set t" by (metis list.set_map)
  have nx: "find_row key (key x) rs = None"
    using Cons.prems(1) by (auto simp: unique_keys_def find_row_None_iff)
  have "save_rows key (x # rs) t = save_rows key rs (save_row key x t)"
    by (simp add: save_rows_def)
  also have "\<dots> = map (\<lambda>r. case find_row key (key r) rs of None \<Rightarrow> r | Some r' \<Rightarrow> r') (save_row key x t)"
    using Cons.prems ks' by (intro Cons.IH) (auto simp: unique_keys_def)
  also have "\<dots> = map (\<lambda>r. case find_row key (key r) (x # rs) of None \<Rightarrow> r | Some r' \<Rightarrow> r') t"
    using x nx by (auto simp: save_row_def find_row_Cons)
  finally show ?case .
qed (simp add: save_rows_def)

lemma map_save_same:
  "find_row key (key r) t = Some old \<Longrightarrow> unique_keys key t \<Longrightarrow> f r = f old \<Longrightarrow>
   map f (save_row key r t) = map f t"
proof (induction t)
  case (Cons x t)
  show ?case
  proof (cases "key x = key r")
    case True
    with Cons.prems have "old = x" "key r \<notin> key ` set t"
      by (auto simp: find_row_Cons unique_keys_def)
    with True Cons.prems(3) show ?thesis by (auto simp: save_row_def image_iff)
  next
    case False
    with Cons.prems have old: "find_row key (key r) t = Some old" by (simp add: find_row_Cons)
    then have "key r \<in> key ` set t" using find_row_None_iff [of key "key r" t] by auto
    with False Cons.IH [OF old] Cons.prems show ?thesis by (auto simp: save_row_def unique_keys_def)
  qed
qed simp

lemma save_row_self: "unique_keys key t \<Longrightarrow> find_row key (key r) t = Some r \<Longrightarrow> save_row key r t = t"
  by (induction t) (auto simp: save_row_def find_row_Cons unique_keys_def image_iff split: if_splits intro!: map_idI)

lemma save_row_twice: "key r = key s \<Longrightarrow> save_row key r (save_row key s t) = save_row key r t"
proof (cases "key s \<in> set (map key t)")
  case False
  moreover assume "key r = key s"
  moreover from False have "map (\<lambda>x. if key x = key s then r else x) t = t"
    by (intro map_idI) (auto simp: image_iff)
  ultimately show ?thesis by (simp add: save_row_def)
qed (auto simp: save_row_def)

subsection \<open>The contract of a repository\<close>

text \<open>
  What the services rely on when they save an entity and read it back. The laws are those of
  \<open>EntityManager.findOne\<close> by primary key and \<open>EntityManager.save\<close> inside one
  transaction.
\<close>

locale repository =
  fixes key :: "'r \<Rightarrow> 'k"
    and findOne :: "'k \<Rightarrow> 't \<Rightarrow> 'r option"
    and save :: "'r \<Rightarrow> 't \<Rightarrow> 't"
  assumes findOne_save: "findOne k (save r t) = (if k = key r then Some r else findOne k t)"
    and findOne_key: "findOne k t = Some r \<Longrightarrow> key r = k"
begin

lemma save_same [simp]: "findOne (key r) (save r t) = Some r"
  by (simp add: findOne_save)

lemma save_other [simp]: "k \<noteq> key r \<Longrightarrow> findOne k (save r t) = findOne k t"
  by (simp add: findOne_save)

text \<open>Writing two different rows commutes, as far as any reader can tell.\<close>

lemma save_commute:
  "key r \<noteq> key s \<Longrightarrow> findOne k (save r (save s t)) = findOne k (save s (save r t))"
  by (simp add: findOne_save)

text \<open>A run of saves touches only the keys it writes.\<close>

lemma findOne_save_all:
  "k \<notin> key ` set rs \<Longrightarrow> findOne k (fold save rs t) = findOne k t"
  by (induction rs arbitrary: t) (auto simp: findOne_save)

end

lemma list_repository: "repository key (find_row key) (save_row key)"
  by unfold_locales (auto simp: find_row_save dest: find_row_SomeD)

declare find_row_save [table_simps] find_opt_def [table_simps]

subsection \<open>Runs and what they refine\<close>

text \<open>
  A component that runs by steps keeps what each step keeps, and when each step is a step of a simpler
  machine, or leaves its state alone, a run is a run of that machine.
\<close>

locale preserved =
  fixes step :: "'s \<Rightarrow> 's \<Rightarrow> bool"
    and inv :: "'s \<Rightarrow> bool"
  assumes keeps: "step s s' \<Longrightarrow> inv s \<Longrightarrow> inv s'"
begin

lemma run_keeps: "step\<^sup>*\<^sup>* s s' \<Longrightarrow> inv s \<Longrightarrow> inv s'"
  by (induction rule: rtranclp_induct) (blast intro: keeps)+

end

locale simulation = preserved step inv for step :: "'s \<Rightarrow> 's \<Rightarrow> bool" and inv +
  fixes view :: "'s \<Rightarrow> 'a"
    and abstract_step :: "'a \<Rightarrow> 'a \<Rightarrow> bool"
  assumes simulates: "step s s' \<Longrightarrow> inv s \<Longrightarrow> abstract_step\<^sup>=\<^sup>= (view s) (view s')"
begin

lemma run_simulates: "step\<^sup>*\<^sup>* s s' \<Longrightarrow> inv s \<Longrightarrow> abstract_step\<^sup>*\<^sup>* (view s) (view s')"
proof (induction rule: rtranclp_induct)
  case (step y z)
  then have "inv y" using run_keeps by blast
  then have "abstract_step\<^sup>=\<^sup>= (view y) (view z)" using simulates step.hyps(2) by blast
  then show ?case using step.IH step.prems by (auto intro: rtranclp.rtrancl_into_rtrancl)
qed simp

end

subsection \<open>Sums over tables\<close>

lemma sum_list_save_row:
  fixes f :: "'r \<Rightarrow> int"
  assumes "unique_keys key t" "find_row key (key r) t = Some old"
  shows "sum_list (map f (save_row key r t)) = sum_list (map f t) - f old + f r"
  using assms
proof (induction t)
  case (Cons x t)
  show ?case
  proof (cases "key x = key r")
    case True
    with Cons.prems have "old = x" and "key r \<notin> key ` set t"
      by (auto simp: find_row_Cons unique_keys_def)
    moreover from this have "map (\<lambda>y. if key y = key r then r else y) t = t"
      by (intro map_idI) (auto simp: image_iff)
    ultimately show ?thesis using True by (simp add: save_row_def)
  next
    case False
    with Cons.prems have "find_row key (key r) t = Some old" "unique_keys key t"
      by (auto simp: find_row_Cons unique_keys_def)
    with Cons.IH have IH: "sum_list (map f (save_row key r t)) = sum_list (map f t) - f old + f r"
      by simp
    have "key r \<in> set (map key t)"
      using \<open>find_row key (key r) t = Some old\<close> find_row_None_iff [of key "key r" t] by auto
    then have "save_row key r (x # t) = x # save_row key r t"
      using False by (simp add: save_row_def)
    then show ?thesis using IH by simp
  qed
qed simp

lemma sum_list_save_new:
  fixes f :: "'r \<Rightarrow> int"
  assumes "find_row key (key r) t = None"
  shows "sum_list (map f (save_row key r t)) = sum_list (map f t) + f r"
  using assms by (simp add: save_row_def find_row_None_iff)

subsection \<open>Grouping\<close>

text \<open>
  A \<open>Map\<close> from keys to arrays filled in one pass: groups in the order in which their keys first
  appear, each in the order of the list.
\<close>

definition group_add :: "('a \<Rightarrow> 'k) \<Rightarrow> ('k \<times> 'a list) list \<Rightarrow> 'a \<Rightarrow> ('k \<times> 'a list) list" where
  "group_add f gs x =
     (if f x \<in> set (map fst gs) then map (\<lambda>(k, xs). if k = f x then (k, xs @ [x]) else (k, xs)) gs
      else gs @ [(f x, [x])])"

definition group_by :: "('a \<Rightarrow> 'k) \<Rightarrow> 'a list \<Rightarrow> ('k \<times> 'a list) list" where
  "group_by f xs = foldl (group_add f) [] xs"

lemma group_by_Nil [simp]: "group_by f [] = []"
  by (simp add: group_by_def)

lemma group_by_snoc: "group_by f (xs @ [x]) = group_add f (group_by f xs) x"
  by (simp add: group_by_def)

lemma keys_group_add: "set (map fst (group_add f gs x)) = insert (f x) (set (map fst gs))"
  by (force simp: group_add_def split: if_splits)

lemma distinct_group_add: "distinct (map fst gs) \<Longrightarrow> distinct (map fst (group_add f gs x))"
  by (auto simp: group_add_def comp_def case_prod_beta split_beta if_distrib cong: if_cong)

lemma distinct_group_by: "distinct (map fst (group_by f xs))"
  by (induction xs rule: rev_induct) (simp_all add: group_by_snoc distinct_group_add)

lemma keys_group_by: "set (map fst (group_by f xs)) = f ` set xs"
  by (induction xs rule: rev_induct) (simp_all add: group_by_snoc keys_group_add del: set_map)

lemma group_by_members: "(k, ys) \<in> set (group_by f xs) \<Longrightarrow> ys = filter (\<lambda>x. f x = k) xs"
proof (induction xs arbitrary: k ys rule: rev_induct)
  case (snoc x xs)
  show ?case
  proof (cases "f x \<in> set (map fst (group_by f xs))")
    case True
    with snoc.prems obtain zs where "(k, zs) \<in> set (group_by f xs)"
        "ys = (if k = f x then zs @ [x] else zs)"
      by (auto simp: group_by_snoc group_add_def split: if_splits)
    with snoc.IH show ?thesis by auto
  next
    case False
    then have none: "filter (\<lambda>y. f y = f x) xs = []"
      unfolding keys_group_by by (auto simp: filter_empty_conv image_iff)
    from False snoc.prems consider "(k, ys) \<in> set (group_by f xs)" | "k = f x" "ys = [x]"
      by (auto simp: group_by_snoc group_add_def)
    then show ?thesis
    proof cases
      case 1
      then have "k \<in> set (map fst (group_by f xs))" by force
      with False have "k \<noteq> f x" by blast
      with snoc.IH [OF 1] show ?thesis by simp
    qed (use none in simp)
  qed
qed simp

lemma group_by_nonempty: "(k, ys) \<in> set (group_by f xs) \<Longrightarrow> ys \<noteq> []"
proof -
  assume g: "(k, ys) \<in> set (group_by f xs)"
  then have "k \<in> f ` set xs" using keys_group_by [of f xs] by force
  with group_by_members [OF g] show ?thesis by (auto simp: filter_empty_conv)
qed

text \<open>Nothing is lost or duplicated by grouping, so sums agree.\<close>

lemma sum_group_add:
  fixes w :: "'a \<Rightarrow> int"
  assumes "distinct (map fst gs)"
  shows "(\<Sum>g\<leftarrow>group_add f gs x. sum_list (map w (snd g))) = (\<Sum>g\<leftarrow>gs. sum_list (map w (snd g))) + w x"
  using assms
proof (induction gs)
  case (Cons g gs)
  show ?case
  proof (cases "fst g = f x")
    case True
    then have "f x \<notin> set (map fst gs)" using Cons.prems by auto
    then have "map (\<lambda>(k, xs). if k = f x then (k, xs @ [x]) else (k, xs)) gs = gs"
      by (intro map_idI) (auto simp: image_iff)
    with True show ?thesis by (auto simp: group_add_def case_prod_beta)
  next
    case False
    with Cons show ?thesis by (auto simp: group_add_def case_prod_beta split: if_splits)
  qed
qed (simp add: group_add_def)

lemma sum_group_by:
  fixes w :: "'a \<Rightarrow> int"
  shows "(\<Sum>g\<leftarrow>group_by f xs. sum_list (map w (snd g))) = sum_list (map w xs)"
  by (induction xs rule: rev_induct) (simp_all add: group_by_snoc sum_group_add distinct_group_by)

lemma members_group_by: "x \<in> set (concat (map snd (group_by f xs))) \<Longrightarrow> x \<in> set xs"
  using group_by_members [of _ _ f xs] by fastforce

lemma length_group_by: "length (concat (map snd (group_by f xs))) = length xs"
proof -
  have "int (length (concat (map snd gs))) = (\<Sum>g\<leftarrow>gs. sum_list (map (\<lambda>_. 1) (snd g)))"
    for gs :: "('b \<times> 'a list) list"
    by (induction gs) (auto simp: sum_list_triv)
  then have "int (length (concat (map snd (group_by f xs)))) = (\<Sum>g\<leftarrow>group_by f xs. sum_list (map (\<lambda>_. 1) (snd g)))" .
  also have "\<dots> = int (length xs)" by (simp only: sum_group_by) (simp add: sum_list_triv)
  finally show ?thesis by simp
qed

lemma sum_concat_groups:
  fixes w :: "'a \<Rightarrow> int"
  shows "sum_list (map w (concat (map snd gs))) = (\<Sum>g\<leftarrow>gs. sum_list (map w (snd g)))"
  by (induction gs) auto

lemma sum_filter_if:
  fixes w :: "'a \<Rightarrow> int"
  shows "sum_list (map w (filter P xs)) = sum_list (map (\<lambda>x. if P x then w x else 0) xs)"
  by (induction xs) auto

subsection \<open>Loops that may throw\<close>

text \<open>A \<open>for\<close> loop that collects a result per element and stops at the first exception.\<close>

fun map_result :: "('a \<Rightarrow> 'e + 'b) \<Rightarrow> 'a list \<Rightarrow> 'e + 'b list" where
  "map_result f [] = Inr []"
| "map_result f (x # xs) =
     (case f x of
        Inl e \<Rightarrow> Inl e
      | Inr y \<Rightarrow> (case map_result f xs of Inl e \<Rightarrow> Inl e | Inr ys \<Rightarrow> Inr (y # ys)))"

lemma map_result_Inr_iff: "map_result f xs = Inr ys \<longleftrightarrow> list_all2 (\<lambda>x y. f x = Inr y) xs ys"
proof (induction xs arbitrary: ys)
  case (Cons x xs)
  show ?case
  proof (cases "map_result f xs")
    case (Inl e)
    then show ?thesis using Cons by (auto simp: list_all2_Cons1 split: sum.splits)
  next
    case (Inr zs)
    then have "list_all2 (\<lambda>x y. f x = Inr y) xs ws \<longleftrightarrow> ws = zs" for ws
      using Cons [of ws] by auto
    with Inr show ?thesis by (auto simp: list_all2_Cons1 split: sum.splits)
  qed
qed auto

lemma map_result_length: "map_result f xs = Inr ys \<Longrightarrow> length ys = length xs"
  by (simp add: map_result_Inr_iff list_all2_lengthD)

lemma map_result_member:
  "map_result f xs = Inr ys \<Longrightarrow> y \<in> set ys \<Longrightarrow> \<exists>x \<in> set xs. f x = Inr y"
proof (induction xs arbitrary: ys)
  case (Cons x xs)
  then show ?case by (fastforce split: sum.splits)
qed simp

lemma map_result_cong: "(\<And>x. x \<in> set xs \<Longrightarrow> f x = g x) \<Longrightarrow> map_result f xs = map_result g xs"
  by (induction xs) (auto split: sum.split)

subsection \<open>Numbers in strings\<close>

text \<open>A number in a template literal, and \<open>Number(text)\<close> of decimal digits.\<close>

definition digit_char :: "nat \<Rightarrow> char" where
  "digit_char k = char_of (48 + k)"

fun show_nat :: "nat \<Rightarrow> string" where
  "show_nat n = (if n < 10 then [digit_char n] else show_nat (n div 10) @ [digit_char (n mod 10)])"

declare show_nat.simps [simp del]

definition is_digit :: "char \<Rightarrow> bool" where
  "is_digit c \<longleftrightarrow> 48 \<le> (of_char c :: nat) \<and> (of_char c :: nat) \<le> 57"

definition read_digits :: "string \<Rightarrow> nat" where
  "read_digits s = foldl (\<lambda>acc c. 10 * acc + (of_char c - 48)) 0 s"

lemma of_digit_char [simp]: "k < 10 \<Longrightarrow> (of_char (digit_char k) :: nat) = 48 + k"
  by (simp add: digit_char_def)

lemma digit_char_is_digit [simp]: "k < 10 \<Longrightarrow> is_digit (digit_char k)"
  by (simp add: is_digit_def)

lemma show_nat_digits: "list_all is_digit (show_nat n)"
proof (induction n rule: show_nat.induct)
  case (1 n)
  then show ?case by (subst show_nat.simps) simp
qed

lemma show_nat_nonempty: "show_nat n \<noteq> []"
  by (subst show_nat.simps) simp

lemma read_show_nat: "read_digits (show_nat n) = n"
proof (induction n rule: show_nat.induct)
  case (1 n)
  show ?case
  proof (cases "n < 10")
    case True
    then show ?thesis by (subst show_nat.simps) (simp add: read_digits_def)
  next
    case False
    have "n mod 10 < 10" by simp
    with 1 False show ?thesis
      by (subst show_nat.simps) (simp add: read_digits_def)
  qed
qed

lemma show_nat_inj: "show_nat m = show_nat n \<longleftrightarrow> m = n"
  by (metis read_show_nat)

end
