(* ===== verification/JsNumber.thy ===== *)
theory JsNumber
  imports Main "HOL-Library.Log_Nat"
begin

text \<open>
  JavaScript numbers. Every amount the services compute is an IEEE 754 binary64 value, so the model
  computes in rationals and rounds after each operation, to nearest with ties to even, as ECMA-262
  prescribes (\<open>fl\<close>). NaN, the infinities and the sign of zero are left out: the amounts are
  finite, and the one place where a NaN can appear (the haversine fee) has it as \<open>None\<close>.

  The second half is the bridge between the numbers and the \<open>decimal(12,2)\<close> columns: reading a
  column (\<open>js_of_dec\<close>), writing one (\<open>dec_of_js\<close>, PostgreSQL rounds half away from zero), the
  services' \<open>round2\<close>, and the error bounds under which arithmetic in doubles followed by
  \<open>round2\<close> is exact in hundredths (\<open>round2_near\<close>, \<open>round2_rnear\<close>). \<open>dec_bound\<close>, two to the fortieth hundredths (about
  1.1e12), covers every value a \<open>decimal(12,2)\<close> column holds.
\<close>

subsection \<open>Rounding\<close>

text \<open>
  \<open>binade x\<close> is the exponent of \<open>x\<close>, from the bit lengths of numerator and denominator;
  \<open>quantum x\<close> the exponent of its last place, bounded below for the subnormal numbers.
\<close>

definition round_even :: "rat \<Rightarrow> int" where
  "round_even y =
     (let f = \<lfloor>y\<rfloor>; d = y - of_int f
      in if d < 1/2 then f else if 1/2 < d then f + 1 else if even f then f else f + 1)"

definition binade :: "rat \<Rightarrow> int" where
  "binade x =
     (let (p, q) = quotient_of \<bar>x\<bar>; k = bitlen p - bitlen q
      in if 2 powi k \<le> \<bar>x\<bar> then k else k - 1)"

definition quantum :: "rat \<Rightarrow> int" where
  "quantum x = max (binade x - 52) (- 1074)"

definition fl :: "rat \<Rightarrow> rat" where
  "fl x = (if x = 0 then 0 else of_int (round_even (x / 2 powi quantum x)) * 2 powi quantum x)"

subsection \<open>Rounding to an integer\<close>

lemma round_even_of_int [simp]: "round_even (of_int k) = k"
  by (simp add: round_even_def)

lemma round_even_bounds: "of_int (round_even y) \<le> y + 1/2" "y - 1/2 \<le> of_int (round_even y)"
  by (auto simp: round_even_def Let_def) linarith+

lemma round_even_err: "\<bar>of_int (round_even y) - y\<bar> \<le> 1/2"
  using round_even_bounds [of y] by linarith

lemma round_even_mono: "x \<le> y \<Longrightarrow> round_even x \<le> round_even y"
proof -
  assume le: "x \<le> y"
  show ?thesis
  proof (cases "\<lfloor>x\<rfloor> = \<lfloor>y\<rfloor>")
    case True
    with le show ?thesis by (auto simp: round_even_def Let_def)
  next
    case False
    with le have "\<lfloor>x\<rfloor> + 1 \<le> \<lfloor>y\<rfloor>" by (meson floor_mono int_one_le_iff_zero_less less_le add1_zle_eq)
    moreover have "round_even x \<le> \<lfloor>x\<rfloor> + 1" and "\<lfloor>y\<rfloor> \<le> round_even y"
      by (auto simp: round_even_def Let_def)
    ultimately show ?thesis by linarith
  qed
qed

lemma round_even_minus: "round_even (- y) = - round_even y"
proof (cases "y \<in> \<int>")
  case True
  then obtain k where "y = of_int k" by (elim Ints_cases)
  then show ?thesis by (metis of_int_minus round_even_of_int)
next
  case False
  then have fl: "\<lfloor>- y\<rfloor> = - \<lfloor>y\<rfloor> - 1"
    by (smt (verit) Ints_of_int ceiling_altdef ceiling_def)
  define f where "f = \<lfloor>y\<rfloor>"
  define d where "d = y - of_int f"
  have y: "y = of_int f + d" by (simp add: d_def)
  have "- y - of_int (- f - 1) = 1 - d" by (simp add: y)
  then show ?thesis
    using fl unfolding round_even_def Let_def f_def [symmetric] d_def [symmetric]
    by auto
qed

subsection \<open>Binades\<close>

lemma power_int_2_mono: "m \<le> n \<Longrightarrow> (2::rat) powi m \<le> 2 powi n"
  by (rule power_int_increasing) auto

lemma power_int_2_strict_mono: "m < n \<Longrightarrow> (2::rat) powi m < 2 powi n"
  by (rule power_int_strict_increasing) auto

lemma power_int_2_cancel: "(2::rat) powi m < 2 powi n \<Longrightarrow> m < n"
  by (meson leD leI power_int_2_mono)

lemma two_powi_add: "(2::rat) powi (m + n) = 2 powi m * 2 powi n"
  by (simp add: power_int_add)

lemma two_powi_diff: "(2::rat) powi (m - n) = 2 powi m / 2 powi n"
  by (simp add: power_int_diff)

lemma bitlen_powi_bounds:
  assumes "0 < p"
  shows "(2::rat) powi (bitlen p - 1) \<le> of_int p" "of_int p < (2::rat) powi bitlen p"
proof -
  from bitlen_bounds [OF assms]
  have b: "2 ^ nat (bitlen p - 1) \<le> p" "p < 2 ^ nat (bitlen p)" by auto
  have nn: "0 \<le> bitlen p" "0 \<le> bitlen p - 1"
    using bitlen_nonneg [of p] bitlen_eq_zero_iff [of p] assms by auto
  have "(2::rat) powi (bitlen p - 1) = of_int (2 ^ nat (bitlen p - 1))"
    using nn by (simp add: power_int_def)
  also have "\<dots> \<le> of_int p" using b(1) by (simp only: of_int_le_iff)
  finally show "(2::rat) powi (bitlen p - 1) \<le> of_int p" .
  have "of_int p < (of_int (2 ^ nat (bitlen p)) :: rat)" using b(2) by (simp only: of_int_less_iff)
  also have "\<dots> = (2::rat) powi bitlen p" using nn by (simp add: power_int_def)
  finally show "of_int p < (2::rat) powi bitlen p" .
qed

lemma binade_bounds:
  assumes "x \<noteq> 0"
  shows "2 powi binade x \<le> \<bar>x\<bar>" "\<bar>x\<bar> < 2 powi (binade x + 1)"
proof -
  obtain p q where pq: "quotient_of \<bar>x\<bar> = (p, q)" by fastforce
  have q: "0 < q" using pq by (rule quotient_of_denom_pos)
  have x: "\<bar>x\<bar> = of_int p / of_int q" using pq by (rule quotient_of_div)
  have p: "0 < p" using x q assms
    by (metis divide_nonpos_pos linorder_not_le of_int_0_less_iff of_int_le_0_iff zero_less_abs_iff)
  define k where "k = bitlen p - bitlen q"
  have hi: "\<bar>x\<bar> < 2 powi (k + 1)"
  proof -
    have "of_int p / of_int q < (2 powi bitlen p / 2 powi (bitlen q - 1) :: rat)"
      by (rule frac_less) (use p q bitlen_powi_bounds [OF p] bitlen_powi_bounds [OF q] in auto)
    also have "\<dots> = 2 powi (k + 1)"
      unfolding two_powi_diff [symmetric] k_def by (simp add: algebra_simps)
    finally show ?thesis using x by simp
  qed
  have lo: "2 powi (k - 1) \<le> \<bar>x\<bar>"
  proof -
    have "2 powi (k - 1) = (2 powi (bitlen p - 1) / 2 powi bitlen q :: rat)"
      unfolding two_powi_diff [symmetric] k_def by (simp add: algebra_simps)
    also have "\<dots> \<le> of_int p / of_int q"
      by (rule frac_le) (use p q bitlen_powi_bounds [OF p] bitlen_powi_bounds [OF q] in auto)
    finally show ?thesis using x by simp
  qed
  have b: "binade x = (if 2 powi k \<le> \<bar>x\<bar> then k else k - 1)"
    by (simp add: binade_def pq k_def)
  show "2 powi binade x \<le> \<bar>x\<bar>" using lo by (simp add: b)
  show "\<bar>x\<bar> < 2 powi (binade x + 1)" using hi by (simp add: b)
qed

lemma binade_mono: "x \<noteq> 0 \<Longrightarrow> \<bar>x\<bar> \<le> \<bar>y\<bar> \<Longrightarrow> binade x \<le> binade y"
proof -
  assume x: "x \<noteq> 0" and le: "\<bar>x\<bar> \<le> \<bar>y\<bar>"
  from x le have y: "y \<noteq> 0" by auto
  have "2 powi binade x < (2 powi (binade y + 1) :: rat)"
    using binade_bounds(1) [OF x] binade_bounds(2) [OF y] le by linarith
  then show ?thesis using power_int_2_cancel by fastforce
qed

lemma binade_minus [simp]: "binade (- x) = binade x"
  by (simp add: binade_def)

lemma quantum_minus [simp]: "quantum (- x) = quantum x"
  by (simp add: quantum_def)

subsection \<open>Rounding to binary64\<close>

lemma fl_0 [simp]: "fl 0 = 0"
  by (simp add: fl_def)

lemma fl_minus: "fl (- x) = - fl x"
  by (simp add: fl_def round_even_minus)

lemma fl_alt: "fl x = of_int (round_even (x / 2 powi quantum x)) * 2 powi quantum x"
  by (cases "x = 0") (simp_all add: fl_def, metis of_int_0 round_even_of_int)

lemma fl_nonneg: "0 \<le> x \<Longrightarrow> 0 \<le> fl x"
proof -
  assume "0 \<le> x"
  then have "round_even 0 \<le> round_even (x / 2 powi quantum x)"
    by (intro round_even_mono) simp
  then have "0 \<le> round_even (x / 2 powi quantum x)"
    by (metis of_int_0 round_even_of_int)
  then show ?thesis by (simp add: fl_alt)
qed

text \<open>A value on a grid at least as coarse as its quantum is its own rounding.\<close>

lemma fl_on_grid:
  assumes "x = of_int m * 2 powi s" "quantum x \<le> s"
  shows "fl x = x"
proof -
  have "x / 2 powi quantum x = of_int m * 2 powi (s - quantum x)"
    by (simp add: assms(1) two_powi_diff)
  also have "\<dots> = of_int (m * 2 ^ nat (s - quantum x))"
    using assms(2) by (simp add: power_int_def)
  finally have g: "x / 2 powi quantum x = of_int (m * 2 ^ nat (s - quantum x))" .
  then have "of_int (m * 2 ^ nat (s - quantum x)) * 2 powi quantum x = x"
    by (metis nonzero_eq_divide_eq power_int_not_zero zero_neq_numeral)
  with g show ?thesis by (simp only: fl_alt round_even_of_int)
qed

lemma quantum_le:
  assumes "x \<noteq> 0" "\<bar>x\<bar> < 2 powi (s + 53)" "- 1074 \<le> s"
  shows "quantum x \<le> s"
proof -
  from binade_bounds(1) [OF assms(1)] assms(2) have "2 powi binade x < (2 powi (s + 53) :: rat)"
    by linarith
  then have "binade x < s + 53" by (rule power_int_2_cancel)
  with assms(3) show ?thesis by (simp add: quantum_def)
qed

text \<open>Every number with at most 53 significant bits and an exponent in range is exact.\<close>

lemma fl_exact:
  assumes "\<bar>m\<bar> \<le> 2 ^ 53" "- 1074 \<le> s"
  shows "fl (of_int m * 2 powi s) = of_int m * 2 powi s"
proof (cases "\<bar>m\<bar> = 2 ^ 53")
  case True
  then have "m = sgn m * 2 ^ 53" by (metis sgn_mult_abs)
  then have "(of_int m :: rat) = of_int (sgn m) * 2 ^ 53"
    by (metis of_int_mult of_int_numeral of_int_power)
  then have x: "of_int m * 2 powi s = of_int (sgn m) * (2 powi (s + 53) :: rat)"
    by (simp add: two_powi_add)
  show ?thesis
  proof (rule fl_on_grid [OF x])
    show "quantum (of_int m * 2 powi s) \<le> s + 53"
    proof (rule quantum_le)
      show "of_int m * 2 powi s \<noteq> (0::rat)" using True by auto
      have "\<bar>of_int m * 2 powi s\<bar> = (2 powi (s + 53) :: rat)"
        using True by (simp add: abs_mult two_powi_add flip: of_int_abs)
      also have "\<dots> < 2 powi (s + 53 + 53)" by (rule power_int_2_strict_mono) simp
      finally show "\<bar>of_int m * 2 powi s\<bar> < (2 powi (s + 53 + 53) :: rat)" .
    qed (use assms(2) in simp)
  qed
next
  case False
  show ?thesis
  proof (cases "m = 0")
    case False
    show ?thesis
    proof (rule fl_on_grid [OF refl], rule quantum_le)
      have "\<bar>m\<bar> < 2 ^ 53" using assms(1) \<open>\<bar>m\<bar> \<noteq> 2 ^ 53\<close> by simp
      then have "of_int \<bar>m\<bar> < (of_int (2 ^ 53) :: rat)" by (simp only: of_int_less_iff)
      then have "\<bar>of_int m\<bar> * 2 powi s < (2 ^ 53 * 2 powi s :: rat)"
        by (intro mult_strict_right_mono) auto
      then show "\<bar>of_int m * 2 powi s\<bar> < (2 powi (s + 53) :: rat)"
        by (simp add: abs_mult two_powi_add mult.commute)
    qed (use False assms(2) in auto)
  qed simp
qed

lemma fl_of_int: "\<bar>m\<bar> \<le> 2 ^ 53 \<Longrightarrow> fl (of_int m) = of_int m"
  using fl_exact [of m 0] by simp

lemma fl_numeral [simp]:
  assumes "(numeral n :: rat) \<le> 2 ^ 53" shows "fl (numeral n) = numeral n"
proof -
  have "(of_int (numeral n) :: rat) \<le> of_int (2 ^ 53)" using assms by simp
  then have "(numeral n :: int) \<le> 2 ^ 53" by (simp only: of_int_le_iff)
  then show ?thesis using fl_of_int [of "numeral n"] by simp
qed

lemma fl_1 [simp]: "fl 1 = 1"
  using fl_of_int [of 1] by simp

text \<open>The rounding error: half a quantum, hence a relative error of \<open>2 powi - 53\<close> in the
  normal range.\<close>

lemma fl_err_quantum: "\<bar>fl x - x\<bar> \<le> 2 powi quantum x / 2"
proof -
  define u where "u = (2 powi quantum x :: rat)"
  have u: "0 < u" by (simp add: u_def)
  have "\<bar>fl x - x\<bar> = \<bar>of_int (round_even (x / u)) - x / u\<bar> * u"
    using u unfolding fl_alt u_def [symmetric]
    by (simp add: left_diff_distrib abs_mult_pos less_imp_le flip: u_def)
  also have "\<dots> \<le> 1/2 * u"
    using u by (intro mult_right_mono round_even_err) simp
  finally show ?thesis by (simp add: u_def)
qed

lemma fl_err:
  assumes "x = 0 \<or> 2 powi (- 1022) \<le> \<bar>x\<bar>"
  shows "\<bar>fl x - x\<bar> \<le> \<bar>x\<bar> * 2 powi (- 53)"
proof (cases "x = 0")
  case False
  with assms have "2 powi (- 1022) < (2 powi (binade x + 1) :: rat)"
    using binade_bounds(2) [OF False] by linarith
  then have "- 1022 < binade x + 1" by (rule power_int_2_cancel)
  then have q: "quantum x = binade x - 52" by (simp add: quantum_def)
  have "2 powi quantum x / 2 = (2 powi binade x * 2 powi (- 53) :: rat)"
    unfolding q two_powi_add [symmetric] by (simp add: two_powi_diff power_int_minus field_simps)
  also have "\<dots> \<le> \<bar>x\<bar> * 2 powi (- 53)"
    by (intro mult_right_mono binade_bounds(1) False) simp
  finally show ?thesis using fl_err_quantum [of x] by linarith
qed simp

lemma fl_err_abs:
  assumes "\<bar>x\<bar> \<le> 2 powi b" "- 1022 \<le> b"
  shows "\<bar>fl x - x\<bar> \<le> 2 powi (b - 53)"
proof (cases "x = 0")
  case False
  have "2 powi binade x < (2 powi (b + 1) :: rat)"
    using binade_bounds(1) [OF False] assms(1) power_int_2_strict_mono [of b "b + 1"] by linarith
  then have "binade x < b + 1" by (rule power_int_2_cancel)
  then have "quantum x \<le> b - 52" using assms(2) by (simp add: quantum_def)
  then have "(2 powi quantum x :: rat) \<le> 2 powi (b - 52)" by (rule power_int_2_mono)
  also have "\<dots> = 2 * 2 powi (b - 53)" by (simp add: two_powi_diff)
  finally show ?thesis using fl_err_quantum [of x] by linarith
qed simp

lemma fl_le_grid:
  assumes "quantum x \<le> s" "x \<le> of_int m * 2 powi s"
  shows "fl x \<le> of_int m * 2 powi s"
proof -
  define q where "q = quantum x"
  have "(2 powi (s - q) :: rat) = 2 ^ nat (s - q)"
    using assms(1) by (simp add: q_def power_int_def)
  moreover have "(2 powi s :: rat) = 2 powi (s - q) * 2 powi q"
    by (simp flip: two_powi_add)
  ultimately have g: "of_int m * 2 powi s = of_int (m * 2 ^ nat (s - q)) * (2 powi q :: rat)"
    by simp
  have "x / 2 powi q \<le> of_int (m * 2 ^ nat (s - q))"
    using assms(2) unfolding g by (simp add: divide_le_eq)
  then have "round_even (x / 2 powi q) \<le> m * 2 ^ nat (s - q)"
    using round_even_mono round_even_of_int by metis
  then have "of_int (round_even (x / 2 powi q)) * 2 powi q
      \<le> of_int (m * 2 ^ nat (s - q)) * (2 powi q :: rat)"
    by (intro mult_right_mono) (simp only: of_int_le_iff, simp)
  then show ?thesis by (simp only: g fl_alt q_def)
qed

lemma fl_ge_grid:
  assumes "quantum x \<le> s" "of_int m * 2 powi s \<le> x"
  shows "of_int m * 2 powi s \<le> fl x"
  using fl_le_grid [of "- x" s "- m"] assms by (simp add: fl_minus)

lemma fl_mono_pos:
  assumes "0 < x" "x \<le> y" shows "fl x \<le> fl y"
proof (cases "quantum x = quantum y")
  case True
  have "round_even (x / 2 powi quantum y) \<le> round_even (y / 2 powi quantum y)"
    using assms by (intro round_even_mono divide_right_mono) auto
  then have "of_int (round_even (x / 2 powi quantum y)) * 2 powi quantum y
      \<le> of_int (round_even (y / 2 powi quantum y)) * (2 powi quantum y :: rat)"
    by (intro mult_right_mono) auto
  with True show ?thesis by (simp only: fl_alt)
next
  case False
  have b: "binade x \<le> binade y" using assms by (intro binade_mono) auto
  with False have lt: "binade x < binade y" and qy: "quantum y = binade y - 52"
    and bnd: "- 1022 < binade y"
    by (auto simp: quantum_def max_def split: if_splits)
  have x: "x < 2 powi (binade x + 1)" and y: "2 powi binade y \<le> y"
    using binade_bounds [of x] binade_bounds [of y] assms by auto
  have "(2 powi (binade x + 1) :: rat) \<le> 2 powi binade y"
    using lt by (intro power_int_2_mono) simp
  with x have "x \<le> of_int 1 * 2 powi binade y" by simp
  moreover have "quantum x \<le> binade y" using lt bnd by (simp add: quantum_def)
  ultimately have "fl x \<le> of_int 1 * 2 powi binade y" by (intro fl_le_grid)
  moreover have "of_int 1 * 2 powi binade y \<le> fl y"
    using y qy by (intro fl_ge_grid) auto
  ultimately show ?thesis by linarith
qed

lemma fl_nonpos: "x \<le> 0 \<Longrightarrow> fl x \<le> 0"
  using fl_nonneg [of "- x"] by (simp add: fl_minus)

lemma fl_mono: "x \<le> y \<Longrightarrow> fl x \<le> fl y"
proof -
  assume le: "x \<le> y"
  consider "0 < x" | "x \<le> 0" "0 \<le> y" | "y < 0" using le by linarith
  then show ?thesis
  proof cases
    case 2
    then show ?thesis using fl_nonneg fl_nonpos order_trans by blast
  next
    case 3
    then show ?thesis using fl_mono_pos [of "- y" "- x"] le by (simp add: fl_minus)
  qed (use le fl_mono_pos in simp)
qed

subsection \<open>The Number operations the services use\<close>

text \<open>\<open>Math.round\<close> rounds halves up; \<open>round2\<close> is the helper of \<open>orders.service.ts\<close>, repeated in
  the payouts and carts services.\<close>

definition js_add :: "rat \<Rightarrow> rat \<Rightarrow> rat" where
  "js_add x y = fl (x + y)"

definition js_sub :: "rat \<Rightarrow> rat \<Rightarrow> rat" where
  "js_sub x y = fl (x - y)"

definition js_mul :: "rat \<Rightarrow> rat \<Rightarrow> rat" where
  "js_mul x y = fl (x * y)"

definition js_div :: "rat \<Rightarrow> rat \<Rightarrow> rat" where
  "js_div x y = fl (x / y)"

definition js_round :: "rat \<Rightarrow> rat" where
  "js_round x = of_int \<lfloor>x + 1/2\<rfloor>"

definition round2 :: "rat \<Rightarrow> rat" where
  "round2 v = js_div (js_round (js_mul v 100)) 100"

lemma js_round_of_int [simp]: "js_round (of_int k) = of_int k"
proof -
  have "\<lfloor>of_int k + (1/2 :: rat)\<rfloor> = k" by (rule floor_unique) auto
  then show ?thesis by (simp add: js_round_def)
qed

lemma js_round_numeral [simp]: "js_round (numeral n) = numeral n"
  using js_round_of_int [of "numeral n"] by simp

lemma js_round_0 [simp]: "js_round 0 = 0"
  using js_round_of_int [of 0] by simp

lemma js_round_1 [simp]: "js_round 1 = 1"
  using js_round_of_int [of 1] by simp

lemma js_round_mono: "x \<le> y \<Longrightarrow> js_round x \<le> js_round y"
  by (simp add: js_round_def floor_mono)

lemma js_round_nonneg: "0 \<le> x \<Longrightarrow> 0 \<le> js_round x"
  using js_round_mono [of 0 x] by simp

lemma round2_mono: "v \<le> w \<Longrightarrow> round2 v \<le> round2 w"
  unfolding round2_def js_div_def js_mul_def
  by (intro fl_mono divide_right_mono js_round_mono mult_right_mono) auto

lemma round2_0 [simp]: "round2 0 = 0"
  by (simp add: round2_def js_div_def js_mul_def)

lemma round2_nonneg: "0 \<le> v \<Longrightarrow> 0 \<le> round2 v"
  using round2_mono [of 0 v] by simp

subsection \<open>The decimal(12,2) columns\<close>

text \<open>
  The driver returns a column as its decimal text, and \<open>Number(text)\<close> is the double nearest to
  it; writing a number sends its shortest decimal text, which PostgreSQL rounds to two places.
\<close>

type_synonym dec2 = int

definition js_of_dec :: "dec2 \<Rightarrow> rat" where
  "js_of_dec k = fl (of_int k / 100)"

definition dec_of_js :: "rat \<Rightarrow> dec2" where
  "dec_of_js v = (if 0 \<le> v then \<lfloor>v * 100 + 1/2\<rfloor> else - \<lfloor>- v * 100 + 1/2\<rfloor>)"

definition dec_bound :: int where
  "dec_bound = 2 ^ 40"

lemma js_of_dec_0 [simp]: "js_of_dec 0 = 0"
  by (simp add: js_of_dec_def)

lemma js_of_dec_mono: "k \<le> l \<Longrightarrow> js_of_dec k \<le> js_of_dec l"
  unfolding js_of_dec_def by (intro fl_mono divide_right_mono) auto

lemma js_of_dec_nonneg: "0 \<le> k \<Longrightarrow> 0 \<le> js_of_dec k"
  using js_of_dec_mono [of 0 k] by simp

lemma round2_js_of_dec_floor: "round2 v = js_of_dec \<lfloor>fl (v * 100) + 1/2\<rfloor>"
  by (simp add: round2_def js_div_def js_mul_def js_round_def js_of_dec_def)

text \<open>\<open>near e k v\<close>: the double \<open>v\<close> is within \<open>e\<close> of the amount of \<open>k\<close> hundredths.\<close>

definition near :: "rat \<Rightarrow> int \<Rightarrow> rat \<Rightarrow> bool" where
  "near e k v \<longleftrightarrow> \<bar>v - of_int k / 100\<bar> \<le> e"

lemma near_iff: "near e k v \<longleftrightarrow> of_int k / 100 - e \<le> v \<and> v \<le> of_int k / 100 + e"
  by (auto simp: near_def abs_le_iff)

lemma dec_bound_rat: "\<bar>k\<bar> \<le> dec_bound \<Longrightarrow> - (2 ^ 40) \<le> (of_int k :: rat) \<and> of_int k \<le> (2 ^ 40 :: rat)"
proof -
  assume "\<bar>k\<bar> \<le> dec_bound"
  then have "(of_int (- (2 ^ 40)) :: rat) \<le> of_int k" "(of_int k :: rat) \<le> of_int (2 ^ 40)"
    by (simp_all only: of_int_le_iff dec_bound_def)
  then show ?thesis by simp
qed

lemma near_dec: "\<bar>k\<bar> \<le> dec_bound \<Longrightarrow> near (1 / 2 ^ 19) k (js_of_dec k)"
proof -
  assume "\<bar>k\<bar> \<le> dec_bound"
  from dec_bound_rat [OF this] have "\<bar>of_int k / 100\<bar> \<le> (2 powi 34 :: rat)"
    by (simp add: abs_le_iff)
  from fl_err_abs [OF this] show ?thesis
    by (simp add: near_def js_of_dec_def power_int_minus inverse_eq_divide)
qed

lemma near_fl:
  assumes "near e k x" "\<bar>k\<bar> \<le> dec_bound" "e \<le> 1 / 256"
  shows "near (e + 1 / 2 ^ 18) k (fl x)"
proof -
  have "\<bar>x\<bar> \<le> (2 powi 35 :: rat)"
    using dec_bound_rat [OF assms(2)] assms(1,3) by (simp add: near_iff abs_le_iff)
  from fl_err_abs [OF this] have "\<bar>fl x - x\<bar> \<le> 1 / 2 ^ 18"
    by (simp add: power_int_minus inverse_eq_divide)
  then have "x - 1 / 2 ^ 18 \<le> fl x" "fl x \<le> x + 1 / 2 ^ 18" by (simp_all only: abs_le_iff) linarith+
  with assms(1) show ?thesis unfolding near_iff by linarith
qed

lemma near_mono: "near e k v \<Longrightarrow> e \<le> e' \<Longrightarrow> near e' k v"
  by (simp add: near_def)

lemma near_add:
  assumes "near d k v" "near e l w" "\<bar>k + l\<bar> \<le> dec_bound" "d + e \<le> 1 / 256"
  shows "near (d + e + 1 / 2 ^ 18) (k + l) (js_add v w)"
  unfolding js_add_def using assms
  by (intro near_fl) (auto simp: near_def add_divide_distrib abs_le_iff)

lemma near_sub:
  assumes "near d k v" "near e l w" "\<bar>k - l\<bar> \<le> dec_bound" "d + e \<le> 1 / 256"
  shows "near (d + e + 1 / 2 ^ 18) (k - l) (js_sub v w)"
  unfolding js_sub_def using assms
  by (intro near_fl) (auto simp: near_def diff_divide_distrib abs_le_iff)

lemma near_max0: "near e k v \<Longrightarrow> near e (max 0 k) (max 0 v)"
proof -
  assume "near e k v"
  moreover have "of_int (max 0 k) / 100 = max (0 :: rat) (of_int k / 100)" by (simp add: max_def)
  ultimately show ?thesis by (auto simp: near_iff max_def)
qed

text \<open>\<open>round2\<close> always lands on an amount of whole hundredths, \<open>cents_of\<close>.\<close>

definition cents_of :: "rat \<Rightarrow> int" where
  "cents_of v = \<lfloor>fl (v * 100) + 1/2\<rfloor>"

lemma round2_cents: "round2 v = js_of_dec (cents_of v)"
  by (simp only: round2_js_of_dec_floor cents_of_def)

lemma cents_of_mono: "v \<le> w \<Longrightarrow> cents_of v \<le> cents_of w"
  unfolding cents_of_def by (intro floor_mono add_right_mono fl_mono mult_right_mono) auto

lemma cents_of_near:
  assumes "near (1 / 256) k v" "\<bar>k\<bar> \<le> dec_bound"
  shows "cents_of v = k"
proof -
  have v: "of_int k / 100 - 1 / 256 \<le> v" "v \<le> of_int k / 100 + 1 / 256"
    using assms(1) by (auto simp only: near_iff)
  then have "\<bar>v * 100\<bar> \<le> (2 powi 41 :: rat)"
    using dec_bound_rat [OF assms(2)] by (simp add: abs_le_iff)
  from fl_err_abs [OF this] have "\<bar>fl (v * 100) - v * 100\<bar> \<le> 1 / 2 ^ 12"
    by (simp add: power_int_minus inverse_eq_divide)
  then have "v * 100 - 1 / 2 ^ 12 \<le> fl (v * 100)" "fl (v * 100) \<le> v * 100 + 1 / 2 ^ 12"
    by (simp_all only: abs_le_iff) linarith+
  with v have "of_int k - 1/2 \<le> fl (v * 100)" "fl (v * 100) < of_int k + (1/2 :: rat)"
    by (simp_all add: field_simps)
  then show ?thesis unfolding cents_of_def by (intro floor_unique) auto
qed

lemma round2_near:
  "near (1 / 256) k v \<Longrightarrow> \<bar>k\<bar> \<le> dec_bound \<Longrightarrow> round2 v = js_of_dec k"
  by (simp only: round2_cents cents_of_near)

lemma cents_of_dec: "\<bar>k\<bar> \<le> dec_bound \<Longrightarrow> cents_of (js_of_dec k) = k"
  by (rule cents_of_near) (auto intro: near_mono [OF near_dec])

lemma round2_js_of_dec: "\<bar>k\<bar> \<le> dec_bound \<Longrightarrow> round2 (js_of_dec k) = js_of_dec k"
  by (rule round2_near) (auto intro: near_mono [OF near_dec])

lemma dec_of_js_near:
  assumes "near (1 / 256) k v" shows "dec_of_js v = k"
proof -
  have "of_int k / 100 - 1 / 256 \<le> v" "v \<le> of_int k / 100 + 1 / 256"
    using assms by (auto simp only: near_iff)
  then have b: "of_int k - 1/2 < v * 100" "v * 100 < of_int k + (1/2 :: rat)"
    by (simp_all add: field_simps)
  have "\<lfloor>v * 100 + 1/2\<rfloor> = k" "\<lfloor>- v * 100 + 1/2\<rfloor> = - k"
    using b by (auto intro!: floor_unique)
  then show ?thesis by (simp add: dec_of_js_def)
qed

lemma dec_of_js_of_dec [simp]: "\<bar>k\<bar> \<le> dec_bound \<Longrightarrow> dec_of_js (js_of_dec k) = k"
  by (rule dec_of_js_near) (auto intro: near_mono [OF near_dec])

lemma js_of_dec_le_iff:
  assumes "\<bar>k\<bar> \<le> dec_bound" "\<bar>l\<bar> \<le> dec_bound"
  shows "js_of_dec k \<le> js_of_dec l \<longleftrightarrow> k \<le> l"
  by (metis assms dec_of_js_of_dec js_of_dec_mono linorder_le_cases order_antisym)

lemma js_of_dec_eq_iff:
  assumes "\<bar>k\<bar> \<le> dec_bound" "\<bar>l\<bar> \<le> dec_bound"
  shows "js_of_dec k = js_of_dec l \<longleftrightarrow> k = l"
  by (metis assms dec_of_js_of_dec)

subsection \<open>Relative errors of sums and products of amounts\<close>

text \<open>
  \<open>rnear n k v\<close>: the double \<open>v\<close> is within \<open>n\<close> units of relative error of the amount of \<open>k\<close>
  hundredths; each operation adds one unit, so a cart of hundreds of lines stays far below the
  half hundredth that \<open>round2\<close> forgives.
\<close>

definition rnear :: "nat \<Rightarrow> int \<Rightarrow> rat \<Rightarrow> bool" where
  "rnear n k v \<longleftrightarrow> 0 \<le> k \<and> \<bar>v - of_int k / 100\<bar> \<le> of_nat n / 2 ^ 52 * (of_int k / 100)"

lemma rnear_fl:
  assumes "rnear n k x" "n \<le> 1024" shows "rnear (Suc n) k (fl x)"
proof -
  define K :: rat where "K = of_int k / 100"
  have k: "0 \<le> k" and e: "\<bar>x - K\<bar> \<le> of_nat n / 2 ^ 52 * K"
    using assms(1) by (auto simp: rnear_def K_def)
  then have K: "0 \<le> K" by (simp add: K_def)
  have n: "(of_nat n / 2 ^ 52 :: rat) \<le> 1 / 2" using assms(2) by simp
  have e2: "of_nat n / 2 ^ 52 * K \<le> 1 / 2 * K" using n K by (rule mult_right_mono)
  have "x = 0 \<or> 2 powi (- 1022) \<le> \<bar>x\<bar>"
  proof (cases "k = 0")
    case True
    then show ?thesis using e by (simp add: K_def)
  next
    case False
    with k have "1 \<le> k" by simp
    then have "1 / 100 \<le> K" unfolding K_def by (simp add: divide_right_mono)
    then have "1 / 200 \<le> \<bar>x\<bar>" using e e2 by linarith
    moreover have "(2 powi (- 1022) :: rat) \<le> 2 powi (- 8)" by (rule power_int_2_mono) simp
    then have "(2 powi (- 1022) :: rat) \<le> 1 / 256" by (simp add: power_int_minus inverse_eq_divide)
    ultimately have "2 powi (- 1022) \<le> \<bar>x\<bar>" by linarith
    then show ?thesis ..
  qed
  from fl_err [OF this] have "\<bar>fl x - x\<bar> \<le> \<bar>x\<bar> * (1 / 2 ^ 53)"
    by (simp add: power_int_minus inverse_eq_divide)
  also have "\<dots> \<le> (2 * K) * (1 / 2 ^ 53)"
  proof (rule mult_right_mono)
    show "\<bar>x\<bar> \<le> 2 * K" using e e2 K by linarith
  qed simp
  finally have "\<bar>fl x - x\<bar> \<le> 1 / 2 ^ 52 * K" by simp
  then have "\<bar>fl x - K\<bar> \<le> of_nat n / 2 ^ 52 * K + 1 / 2 ^ 52 * K" using e by linarith
  also have "\<dots> = of_nat (Suc n) / 2 ^ 52 * K" by (simp add: field_simps)
  finally show ?thesis using k by (simp add: rnear_def K_def)
qed

lemma rnear_exact: "0 \<le> k \<Longrightarrow> rnear 0 k (of_int k / 100)"
  by (simp add: rnear_def)

lemma rnear_dec: "0 \<le> k \<Longrightarrow> rnear 1 k (js_of_dec k)"
  unfolding js_of_dec_def One_nat_def by (intro rnear_fl rnear_exact) auto

lemma rnear_mono: "rnear m k v \<Longrightarrow> m \<le> n \<Longrightarrow> rnear n k v"
  unfolding rnear_def
  by (auto elim!: order_trans intro!: mult_right_mono divide_right_mono)

lemma rnear_add:
  assumes "rnear n k v" "rnear n l w" "n \<le> 1024"
  shows "rnear (Suc n) (k + l) (js_add v w)"
  unfolding js_add_def
proof (rule rnear_fl)
  define c :: rat where "c = of_nat n / 2 ^ 52"
  have "\<bar>v - of_int k / 100\<bar> \<le> c * (of_int k / 100)" "\<bar>w - of_int l / 100\<bar> \<le> c * (of_int l / 100)"
    using assms(1,2) by (simp_all only: rnear_def c_def)
  then have "\<bar>v + w - (of_int k / 100 + of_int l / 100)\<bar> \<le> c * (of_int k / 100 + of_int l / 100)"
    unfolding distrib_left by linarith
  then show "rnear n (k + l) (v + w)"
    using assms(1,2) unfolding rnear_def c_def of_int_add add_divide_distrib by simp
qed (fact assms(3))

lemma rnear_mul_int:
  assumes "rnear n k v" "0 \<le> q" "n \<le> 1024"
  shows "rnear (Suc n) (k * q) (js_mul v (of_int q))"
  unfolding js_mul_def
proof (intro rnear_fl)
  have k: "0 \<le> k" and e: "\<bar>v - of_int k / 100\<bar> \<le> of_nat n / 2 ^ 52 * (of_int k / 100)"
    using assms(1) by (auto simp: rnear_def)
  have "\<bar>v * of_int q - of_int (k * q) / 100\<bar> = \<bar>v - of_int k / 100\<bar> * of_int q"
    using assms(2) by (simp add: abs_mult_pos left_diff_distrib)
  also have "\<dots> \<le> of_nat n / 2 ^ 52 * (of_int k / 100) * of_int q"
    using e assms(2) by (intro mult_right_mono) auto
  finally show "rnear n (k * q) (v * of_int q)" using k assms(2) by (simp add: rnear_def)
qed (fact assms(3))

lemma rnear_near:
  assumes "rnear n k v" "n \<le> 1024" "k \<le> dec_bound" shows "near (1 / 256) k v"
proof -
  have k: "0 \<le> k" and e: "\<bar>v - of_int k / 100\<bar> \<le> of_nat n / 2 ^ 52 * (of_int k / 100)"
    using assms(1) by (auto simp: rnear_def)
  have "(of_int k :: rat) \<le> of_int (2 ^ 40)" using assms(3) by (simp only: of_int_le_iff dec_bound_def)
  moreover have "(of_nat n :: rat) \<le> of_nat 1024" using assms(2) by (simp only: of_nat_le_iff)
  ultimately have "of_nat n / 2 ^ 52 * (of_int k / 100) \<le> 1024 / 2 ^ 52 * ((2 ^ 40 :: rat) / 100)"
    using k by (intro mult_mono divide_right_mono) auto
  also have "\<dots> \<le> 1 / 256" by simp
  finally show ?thesis using e unfolding near_def by (rule order_trans [rotated])
qed

lemma round2_rnear: "rnear n k v \<Longrightarrow> n \<le> 1024 \<Longrightarrow> k \<le> dec_bound \<Longrightarrow> round2 v = js_of_dec k"
  by (rule round2_near) (auto intro: rnear_near simp: rnear_def)

lemma rnear_near_half:
  assumes "rnear n k v" "n \<le> 512" "k \<le> dec_bound" shows "near (1 / 512) k v"
proof -
  have k: "0 \<le> k" and e: "\<bar>v - of_int k / 100\<bar> \<le> of_nat n / 2 ^ 52 * (of_int k / 100)"
    using assms(1) by (auto simp: rnear_def)
  have "(of_int k :: rat) \<le> of_int (2 ^ 40)" using assms(3) by (simp only: of_int_le_iff dec_bound_def)
  moreover have "(of_nat n :: rat) \<le> of_nat 512" using assms(2) by (simp only: of_nat_le_iff)
  ultimately have "of_nat n / 2 ^ 52 * (of_int k / 100) \<le> 512 / 2 ^ 52 * ((2 ^ 40 :: rat) / 100)"
    using k by (intro mult_mono divide_right_mono) auto
  also have "\<dots> \<le> 1 / 512" by simp
  finally show ?thesis using e unfolding near_def by (rule order_trans [rotated])
qed

text \<open>A running sum of amounts that are each within \<open>n\<close> units.\<close>

lemma rnear_foldl:
  assumes "\<forall>x \<in> set xs. rnear n (k x) (v x)" "rnear n l a" "n + length xs \<le> 1024"
  shows "rnear (n + length xs) (l + (\<Sum>x\<leftarrow>xs. k x)) (foldl (\<lambda>acc x. js_add acc (v x)) a xs)"
  using assms
proof (induction xs rule: rev_induct)
  case (snoc x xs)
  have "rnear (n + length xs) (l + (\<Sum>x\<leftarrow>xs. k x)) (foldl (\<lambda>acc x. js_add acc (v x)) a xs)"
    using snoc by simp
  moreover have "rnear (n + length xs) (k x) (v x)"
    using snoc.prems by (auto intro: rnear_mono)
  ultimately have "rnear (Suc (n + length xs)) (l + (\<Sum>x\<leftarrow>xs. k x) + k x)
      (js_add (foldl (\<lambda>acc x. js_add acc (v x)) a xs) (v x))"
    using snoc.prems(3) by (intro rnear_add) auto
  then show ?case by (simp add: add.assoc)
qed simp

lemma rnear_0: "rnear n 0 0"
  by (simp add: rnear_def)

lemma round2_add_dec:
  assumes "0 \<le> k" "0 \<le> l" "k + l \<le> dec_bound"
  shows "round2 (js_add (js_of_dec k) (js_of_dec l)) = js_of_dec (k + l)"
proof -
  have "rnear (Suc 1) (k + l) (js_add (js_of_dec k) (js_of_dec l))"
    using assms by (intro rnear_add rnear_dec) auto
  then show ?thesis using assms(3) by (intro round2_rnear) auto
qed

text \<open>Rounding twice is rounding once.\<close>

lemma fl_idem: "fl (fl x) = fl x"
proof (cases "x = 0")
  case False
  let ?q = "quantum x"
  define y where "y = x / 2 powi ?q"
  have "\<bar>x\<bar> < 2 powi (binade x + 1)" using binade_bounds(2) [OF False] .
  also have "\<dots> \<le> 2 powi (?q + 53)" by (rule power_int_2_mono) (simp add: quantum_def)
  finally have "\<bar>y\<bar> \<le> 2 ^ 53" unfolding y_def
    by (simp add: two_powi_add abs_divide field_simps)
  then have "- (2 ^ 53) \<le> y" "y \<le> 2 ^ 53" unfolding abs_le_iff by linarith+
  then have "round_even (of_int (- (2 ^ 53))) \<le> round_even y" "round_even y \<le> round_even (of_int (2 ^ 53))"
    by (intro round_even_mono; simp)+
  then have "\<bar>round_even y\<bar> \<le> 2 ^ 53" unfolding round_even_of_int by simp
  moreover have "- 1074 \<le> ?q" by (simp add: quantum_def)
  ultimately show ?thesis unfolding fl_alt [of x] y_def [symmetric] by (rule fl_exact)
qed simp

lemma js_of_dec_double: "fl (js_of_dec k) = js_of_dec k"
  by (simp add: js_of_dec_def fl_idem)

text \<open>Dividing an amount by a double and multiplying with it again costs one unit.\<close>

lemma rnear_div_mul:
  assumes "rnear n k P" "n \<le> 1024" "0 < s" "P = 0 \<or> 2 powi (- 1022) \<le> \<bar>P / s\<bar>"
  shows "rnear (Suc n) k (js_div P s * s)"
proof -
  define K :: rat where "K = of_int k / 100"
  have K: "0 \<le> K" "\<bar>P - K\<bar> \<le> of_nat n / 2 ^ 52 * K" using assms(1) by (auto simp: rnear_def K_def)
  have n: "(of_nat n / 2 ^ 52 :: rat) \<le> 1" using assms(2) by simp
  have e2: "of_nat n / 2 ^ 52 * K \<le> 1 * K" using n K(1) by (rule mult_right_mono)
  define D where "D = fl (P / s) - P / s"
  have "\<bar>D\<bar> \<le> \<bar>P / s\<bar> * (1 / 2 ^ 53)"
    using fl_err [of "P / s"] assms(3,4) unfolding D_def by (simp add: power_int_minus inverse_eq_divide)
  then have "\<bar>D\<bar> * s \<le> \<bar>P / s\<bar> * (1 / 2 ^ 53) * s" using assms(3) by (intro mult_right_mono) auto
  moreover have "\<bar>P / s\<bar> * (1 / 2 ^ 53) * s = \<bar>P\<bar> / 2 ^ 53" using assms(3) by simp
  moreover have "\<bar>D\<bar> * s = \<bar>D * s\<bar>" using assms(3) by (simp add: abs_mult)
  moreover have "D * s = fl (P / s) * s - P" using assms(3) by (simp add: D_def left_diff_distrib)
  ultimately have e: "\<bar>fl (P / s) * s - P\<bar> \<le> \<bar>P\<bar> / 2 ^ 53" by simp
  have "\<bar>P\<bar> \<le> 2 * K" using K e2 by linarith
  then have "\<bar>P\<bar> / 2 ^ 53 \<le> K / 2 ^ 52" by simp
  then have "\<bar>fl (P / s) * s - K\<bar> \<le> of_nat n / 2 ^ 52 * K + K / 2 ^ 52" using K(2) e by linarith
  also have "\<dots> = of_nat (Suc n) / 2 ^ 52 * K" by (simp add: field_simps)
  finally show ?thesis using assms(1) by (simp add: rnear_def K_def js_div_def)
qed

end
