(* ===== verification/Enums.thy ===== *)
theory Enums
  imports Prelude
begin

text \<open>
  The enumerations of \<open>src/backend/src/common/enums.ts\<close>, the limits the services import from
  \<open>common/limits.ts\<close>, and the exceptions they throw.

  A service method that throws inside a transaction leaves the database unchanged, so an
  operation of the model returns \<open>http_error + 'a\<close>: \<open>Inl\<close> the exception with its message,
  \<open>Inr\<close> the new database and the result. A message is a constructor of the module's reason
  type; a message that carries data carries it as an argument.
\<close>

subsection \<open>Enumerations\<close>

datatype user_role = RoleAdmin | RoleCustomer | RoleSeller

datatype account_status =
  AccPendingVerification | AccPendingApproval | AccNewSeller | AccActive | AccSuspended | AccBanned
  | AccRejected

datatype order_status = Pending | Processing | Shipping | Delivered | Cancelled | Returned

datatype payment_method = COD | VNPAY

datatype payment_status = PayPending | PayCompleted | PayFailed | PayRefunded

datatype coupon_type = GlobalCoupon | ShopCoupon

datatype discount_type = Percentage | FixedAmount

datatype product_status = ProductActive | ProductDeleted | ProductSuspended

datatype unavailable_reason =
  OutOfStock | InsufficientStock | ProductHidden | ProductIsDeleted | ProductIsSuspended | ShopInactive

datatype idempotency_status = KeyPending | KeyCompleted

datatype payout_status = PayoutPending | PayoutProcessing | PayoutCompleted | PayoutFailed | PayoutRejected

datatype return_status = Requested | Approved | ReturnRejected | Received | ReturnCancelled

datatype return_reason = Damaged | WrongItem | NotAsDescribed | MissingParts | ChangedMind | OtherReason

datatype notification_type =
  TypeOrderCreated | TypeOrderStatusChanged | TypeReviewCreated | TypeReviewReplied | TypePayoutCreated
  | TypePayoutStatusChanged | TypeShopRegistered | TypeReturnRequested | TypeReturnStatusChanged | TypeProductModerated

datatype moderation_action = TakenDown | Restored

subsection \<open>Messages and exceptions\<close>

text \<open>One line of the list that comes with the message of a stock failure, and of an item that
  can no longer be bought.\<close>

record insufficient =
  ins_product_id :: nat
  ins_product_name :: "string option"
  ins_variant_id :: "nat option"
  ins_variant_name :: "string option"
  ins_requested :: int
  ins_available :: int

record unavailable_item =
  ua_cart_item_id :: nat
  ua_product_id :: "nat option"
  ua_product_name :: "string option"
  ua_reason :: unavailable_reason

datatype stock_reason = NotEnoughStock "insufficient list"

datatype coupon_reason =
  PercentOutOfRange | StartAfterEnd | CodeExists string | SellerHasNoShop | CouponNotFound
  | CouponNotOwned | CouponExpired | CouponExhausted | CouponAlreadyClaimed | CodeUnknown string
  | CodeWrongType string | CodeWrongShop string | CodeNotYetActive string | CodeExpired string
  | CodeExhausted string | BelowMinimum string

datatype cart_reason =
  SelfPurchaseInCart | VariantRequired | VariantNotOfProduct | NoVariantExpected | SoldOut
  | QuantityOverLimit | QuantityOverStock int | TooManyDistinct | CartItemNotFound | ProductGone
  | ProductBlocked | ProductNotVisible | ShopNotActive | ProductNotFound

datatype order_reason =
  OrderNotFound | SubOrderNotFound | NotSelfCancellable | MasterNotFound | KeyClaimFailed
  | KeyBeingCleaned | KeyOfOtherUser | KeyInProgress | NoCachedBody | ItemsUnavailable "unavailable_item list"
  | CartEmpty | SelfPurchase | RecoveredOrderMissing | OrderNumberExhausted | UnpaidOnline
  | IllegalTransition order_status order_status | CheckoutFailed | KeyMissing | KeyNotUuid

datatype payment_reason =
  VnpayNotConfigured | PaymentOrderNotFound | NotVnpay | OrderCancelledNoPay | AlreadyPaid
  | AlreadyRefunded | InvalidAmount | HoldExpiring

datatype return_msg =
  ReturnSubOrderNotFound | NotDelivered | NoDeliveryDate | WindowPassed | ActiveReturnExists
  | BadSubTotal | DuplicateLine | LineNotInSubOrder | OverAvailable int | ReturnNotFound
  | OnlyRequestedCancellable | IllegalReturnTransition return_status return_status

datatype payout_reason =
  PayoutShopMissing | NoBankInfo | OpenPayoutExists | OverBalance | PayoutNotFound
  | IllegalPayoutTransition payout_status payout_status

datatype common_reason = ShopOfSellerNotFound | AddressNotFound

datatype reason =
  StockMsg stock_reason | CouponMsg coupon_reason | CartMsg cart_reason | OrderMsg order_reason
  | PaymentMsg payment_reason | ReturnMsg return_msg | PayoutMsg payout_reason
  | CommonMsg common_reason

text \<open>
  \<open>UniqueViolation\<close> is PostgreSQL's SQLSTATE 23505 on the named constraint, \<open>CheckViolation\<close>
  its 23514; both come from the driver, not from a service. \<open>TransactionAborted\<close> is 25P02, what every
  statement gets after another one of the same transaction has failed. \<open>JsTypeError\<close> is the
  runtime's error for a property of null. \<open>AmountNaN\<close> marks the edge of the model: an amount that
  is NaN, which the code would go on computing with.
\<close>

datatype db_constraint =
  OrderNumberUnique | OrderIdempotencyUnique | KeyPrimary | TxnRefUnique | CouponCodeUnique
  | UserCouponUnique | ProductStockCheck | VariantStockCheck

datatype http_error =
  BadRequest reason | Forbidden reason | NotFound reason | Conflict reason
  | InternalServerError reason | ServiceUnavailable reason
  | UniqueViolation db_constraint | CheckViolation db_constraint
  | TransactionAborted | JsTypeError | AmountNaN

subsection \<open>Limits\<close>

definition min_quantity_per_item :: int where "min_quantity_per_item = 1"

definition max_quantity_per_item :: int where "max_quantity_per_item = 99"

definition max_distinct_items :: nat where "max_distinct_items = 50"

definition return_window_days :: int where "return_window_days = 14"

definition payout_min_amount :: int where "payout_min_amount = 50000"

definition free_shipping_threshold :: int where "free_shipping_threshold = 500000"

end
