(* ===== verification/Entities.thy ===== *)
theory Entities
  imports Enums JsNumber
begin

text \<open>
  The TypeORM entities under \<open>src/backend/src/modules/*/entities\<close> as records, one field per
  column the modelled services read or write, and the database as the record of their tables.

  A primary key is a generated uuid, a 128-bit number whose canonical text orders as the number
  does; it is a \<open>nat\<close>. A \<open>@ManyToOne\<close> relation is the foreign key column behind it, \<open>None\<close> when
  the column is NULL; the relation object is looked up where the code loads it. A
  \<open>decimal(12,2)\<close> column is its value in hundredths (\<open>dec2\<close>), a coordinate (\<open>decimal(10,6)\<close>) its
  value in millionths, a timestamp milliseconds since the epoch. Columns that the code writes
  on every insert are not optional even where the DDL allows NULL (the amounts of orders and
  sub-orders, quantities). A prefix per table keeps the field names apart.
\<close>

type_synonym uuid = nat
type_synonym millis = int
type_synonym coord = int

subsection \<open>Catalogue, shops, users\<close>

record product =
  p_id :: uuid
  p_shop_id :: "uuid option"
  p_name :: string
  p_price :: dec2
  p_thumbnail_url :: "string option"
  p_stock_quantity :: int
  p_has_variants :: bool
  p_is_hidden :: bool
  p_status :: product_status

record variant =
  v_id :: uuid
  v_product_id :: "uuid option"
  v_name :: "string option"
  v_attributes :: "(string \<times> string) list option"
  v_additional_price :: dec2
  v_stock_quantity :: int

record bank_account =
  bank_name :: string
  bank_account_number :: string
  bank_account_holder :: string

record shop =
  s_id :: uuid
  s_seller_id :: uuid
  s_name :: string
  s_status :: account_status
  s_lat :: "coord option"
  s_lng :: "coord option"
  s_is_coordinates_verified :: bool
  s_bank_account_info :: "bank_account option"

record user =
  u_id :: uuid
  u_username :: string
  u_email :: string
  u_role :: user_role
  u_status :: account_status

record address =
  a_id :: uuid
  a_user_id :: "uuid option"
  a_address_line :: "string option"
  a_lat :: "coord option"
  a_lng :: "coord option"
  a_is_default :: bool
  a_recipient_name :: "string option"
  a_phone :: "string option"

subsection \<open>Coupons and carts\<close>

record coupon =
  c_id :: uuid
  c_code :: string
  c_type :: coupon_type
  c_shop_id :: "uuid option"
  c_discount_type :: "discount_type option"
  c_discount_value :: "dec2 option"
  c_min_order_value :: "dec2 option"
  c_max_discount_value :: "dec2 option"
  c_start_date :: "millis option"
  c_end_date :: "millis option"
  c_usage_limit :: "int option"
  c_used_count :: int

record user_coupon =
  uc_id :: uuid
  uc_user_id :: uuid
  uc_coupon_id :: uuid
  uc_is_used :: bool
  uc_used_at :: "millis option"

record cart_item =
  ci_id :: uuid
  ci_user_id :: "uuid option"
  ci_variant_id :: "uuid option"
  ci_product_id :: "uuid option"
  ci_quantity :: int
  ci_added_at :: millis

subsection \<open>Orders\<close>

text \<open>\<open>ShippingAddressSnapshot\<close>: the jsonb copy of the address, its coordinates as numbers.\<close>

record address_snapshot =
  sa_recipient_name :: "string option"
  sa_phone :: "string option"
  sa_address_line :: "string option"
  sa_lat :: "rat option"
  sa_lng :: "rat option"

record order_row =
  o_id :: uuid
  o_customer_id :: "uuid option"
  o_global_coupon_id :: "uuid option"
  o_total_amount :: dec2
  o_global_discount_amount :: "dec2 option"
  o_global_coupon_code :: "string option"
  o_shipping_address :: "address_snapshot option"
  o_status :: order_status
  o_idempotency_key :: "string option"
  o_order_number :: string
  o_created_at :: millis

record sub_order =
  so_id :: uuid
  so_shop_id :: "uuid option"
  so_order_id :: "uuid option"
  so_shop_coupon_id :: "uuid option"
  so_sub_total :: dec2
  so_shipping_fee :: dec2
  so_shop_discount_amount :: dec2
  so_shop_coupon_code :: "string option"
  so_total_amount :: dec2
  so_status :: order_status
  so_delivered_at :: "millis option"
  so_created_at :: millis

record order_item =
  oi_id :: uuid
  oi_variant_id :: "uuid option"
  oi_sub_order_id :: uuid
  oi_product_id :: "uuid option"
  oi_quantity :: int
  oi_price_at_purchase :: dec2
  oi_product_name :: string
  oi_variant_name :: "string option"
  oi_product_thumbnail :: "string option"
  oi_variant_attributes :: "(string \<times> string) list option"

text \<open>\<open>CheckoutResponseDto\<close> and its parts, with numbers as JavaScript has them; an id that is absent
  (the code writes the empty string) is \<open>None\<close>.\<close>

record response_item =
  rsi_product_id :: "uuid option"
  rsi_product_name :: string
  rsi_variant_id :: "uuid option"
  rsi_variant_name :: "string option"
  rsi_quantity :: int
  rsi_price_at_purchase :: rat

record response_sub_order =
  rss_sub_order_id :: uuid
  rss_shop_id :: "uuid option"
  rss_shop_name :: string
  rss_sub_total :: rat
  rss_shipping_fee :: rat
  rss_shop_discount_amount :: rat
  rss_shop_coupon_code :: "string option"
  rss_total_amount :: rat
  rss_items :: "response_item list"

record checkout_response =
  rs_order_id :: uuid
  rs_order_number :: string
  rs_total_amount :: rat
  rs_global_discount_amount :: "rat option"
  rs_global_coupon_code :: "string option"
  rs_payment_method :: payment_method
  rs_shipping_address :: address_snapshot
  rs_sub_orders :: "response_sub_order list"
  rs_created_at :: millis

record idempotency =
  ik_key :: string
  ik_status :: idempotency_status
  ik_response_code :: "int option"
  ik_response_body :: "checkout_response option"
  ik_user_id :: uuid
  ik_created_at :: millis

subsection \<open>Payments\<close>

record payment =
  pay_id :: uuid
  pay_order_id :: uuid
  pay_method :: payment_method
  pay_status :: payment_status
  pay_amount :: dec2
  pay_vnp_txn_ref :: "string option"
  pay_vnp_transaction_no :: "string option"
  pay_vnp_response_code :: "string option"
  pay_paid_at :: "millis option"
  pay_raw :: "(string \<times> string) list option"
  pay_created_at :: millis

record payment_attempt =
  pa_id :: uuid
  pa_payment_id :: uuid
  pa_vnp_txn_ref :: string
  pa_amount :: dec2
  pa_status :: payment_status
  pa_vnp_transaction_no :: "string option"
  pa_vnp_response_code :: "string option"
  pa_ipn_received_at :: "millis option"
  pa_raw :: "(string \<times> string) list option"
  pa_created_at :: millis

subsection \<open>Returns and payouts\<close>

record return_request =
  rr_id :: uuid
  rr_sub_order_id :: uuid
  rr_customer_id :: uuid
  rr_shop_id :: "uuid option"
  rr_status :: return_status
  rr_reason :: return_reason
  rr_customer_note :: "string option"
  rr_refund_total :: dec2
  rr_seller_note :: "string option"
  rr_resolved_at :: "millis option"
  rr_created_at :: millis

record return_item =
  ri_id :: uuid
  ri_return_request_id :: uuid
  ri_order_item_id :: uuid
  ri_quantity :: int
  ri_refund_amount :: dec2

record payout =
  po_id :: uuid
  po_shop_id :: "uuid option"
  po_amount :: dec2
  po_commission_fee :: dec2
  po_status :: payout_status
  po_reject_reason :: "string option"
  po_bank_info_snapshot :: bank_account
  po_resolved_by :: "uuid option"
  po_resolved_at :: "millis option"
  po_created_at :: millis

subsection \<open>The outbox\<close>

text \<open>
  An event of \<open>common/constants/outbox.constants.ts\<close>: its type is the constructor, its payload
  the arguments in the order of the payload interface. Every row is written with status
  PENDING in the transaction of the change it reports.
\<close>

record product_snapshot =
  ps_product_id :: uuid
  ps_name :: string
  ps_slug :: string
  ps_description :: "string option"
  ps_price :: dec2
  ps_shop_id :: "uuid option"
  ps_category_id :: "uuid option"
  ps_thumbnail_url :: "string option"
  ps_status :: product_status
  ps_is_hidden :: bool
  ps_updated_at :: millis

datatype outbox_event =
    OrderCreated uuid string "(uuid \<times> uuid option \<times> uuid) list" uuid rat
  | OrderCancelledEv uuid string uuid uuid "uuid option" "uuid option"
  | OrderStatusUpdated uuid string uuid "uuid option" "uuid option" order_status
  | ReturnRequested uuid uuid string "uuid option" "uuid option" uuid
  | ReturnStatusChanged uuid uuid string uuid return_status "string option"
  | PayoutCreated uuid rat uuid string "uuid list"
  | PayoutStatusChanged uuid uuid string string string rat payout_status "string option"
  | ReviewCreated uuid uuid string "uuid option" "uuid option" int
  | ReviewReplied uuid uuid string "uuid option"
  | ShopRegistered uuid string bool "uuid list"
  | ProductModerated uuid string "uuid option" "uuid option" "string option" "string option" moderation_action "string option"
  | ProductCreated product_snapshot
  | ProductUpdated product_snapshot
  | ProductDeletedEv uuid

subsection \<open>The database\<close>

text \<open>
  One field per table, plus the supply of fresh uuids. Rows of every table are kept in the order of
  insertion.
\<close>

record db =
  products :: "product list"
  variants :: "variant list"
  shops :: "shop list"
  users :: "user list"
  addresses :: "address list"
  coupons :: "coupon list"
  user_coupons :: "user_coupon list"
  cart_items :: "cart_item list"
  orders :: "order_row list"
  sub_orders :: "sub_order list"
  order_items :: "order_item list"
  idempotency_keys :: "idempotency list"
  payments :: "payment list"
  payment_attempts :: "payment_attempt list"
  return_requests :: "return_request list"
  return_items :: "return_item list"
  payouts :: "payout list"
  outbox :: "outbox_event list"
  next_uuid :: uuid

definition empty_db :: db where
  "empty_db = \<lparr>products = [], variants = [], shops = [], users = [], addresses = [], coupons = [],
     user_coupons = [], cart_items = [], orders = [], sub_orders = [], order_items = [],
     idempotency_keys = [], payments = [], payment_attempts = [], return_requests = [],
     return_items = [], payouts = [], outbox = [], next_uuid = 0\<rparr>"

text \<open>A table and the supply: every key was drawn from it, so the next one is new.\<close>

definition fresh_keys :: "('r \<Rightarrow> uuid) \<Rightarrow> 'r list \<Rightarrow> uuid \<Rightarrow> bool" where
  "fresh_keys key t n \<longleftrightarrow> (\<forall>r \<in> set t. key r < n)"

definition wf_db :: "db \<Rightarrow> bool" where
  "wf_db d \<longleftrightarrow>
     unique_keys p_id (products d) \<and> unique_keys v_id (variants d) \<and> unique_keys s_id (shops d)
   \<and> unique_keys c_id (coupons d) \<and> unique_keys c_code (coupons d)
   \<and> unique_keys o_id (orders d) \<and> unique_keys so_id (sub_orders d)
   \<and> unique_keys oi_id (order_items d) \<and> unique_keys pay_id (payments d)
   \<and> unique_keys pay_order_id (payments d)
   \<and> fresh_keys o_id (orders d) (next_uuid d) \<and> fresh_keys so_id (sub_orders d) (next_uuid d)
   \<and> fresh_keys oi_id (order_items d) (next_uuid d) \<and> fresh_keys pay_id (payments d) (next_uuid d)"

interpretation product_table: repository p_id "find_row p_id" "save_row p_id"
  by (rule list_repository)

interpretation variant_table: repository v_id "find_row v_id" "save_row v_id"
  by (rule list_repository)

interpretation coupon_table: repository c_id "find_row c_id" "save_row c_id"
  by (rule list_repository)

interpretation sub_order_table: repository so_id "find_row so_id" "save_row so_id"
  by (rule list_repository)

interpretation order_table: repository o_id "find_row o_id" "save_row o_id"
  by (rule list_repository)

interpretation payment_table: repository pay_id "find_row pay_id" "save_row pay_id"
  by (rule list_repository)

subsection \<open>A small database\<close>

text \<open>Two shops, one product without and one with variants, a customer with a cart: the state the
  concrete instances of the theorems start from.\<close>

definition demo_db :: db where
  "demo_db = empty_db\<lparr>
     users := [\<lparr>u_id = 1, u_username = ''an'', u_email = ''an@x'', u_role = RoleCustomer, u_status = AccActive\<rparr>,
               \<lparr>u_id = 2, u_username = ''binh'', u_email = ''b@x'', u_role = RoleSeller, u_status = AccActive\<rparr>,
               \<lparr>u_id = 3, u_username = ''chi'', u_email = ''c@x'', u_role = RoleSeller, u_status = AccActive\<rparr>,
               \<lparr>u_id = 4, u_username = ''root'', u_email = ''r@x'', u_role = RoleAdmin, u_status = AccActive\<rparr>],
     shops := [\<lparr>s_id = 11, s_seller_id = 2, s_name = ''A'', s_status = AccActive, s_lat = Some 10777353,
                s_lng = Some 106698089, s_is_coordinates_verified = True,
                s_bank_account_info = Some \<lparr>bank_name = ''VCB'', bank_account_number = ''0123456'',
                                            bank_account_holder = ''BINH''\<rparr>\<rparr>,
               \<lparr>s_id = 12, s_seller_id = 3, s_name = ''B'', s_status = AccActive, s_lat = None, s_lng = None,
                s_is_coordinates_verified = False, s_bank_account_info = None\<rparr>],
     products := [\<lparr>p_id = 21, p_shop_id = Some 11, p_name = ''Lamp'', p_price = 10000000,
                   p_thumbnail_url = None, p_stock_quantity = 5, p_has_variants = False,
                   p_is_hidden = False, p_status = ProductActive\<rparr>,
                  \<lparr>p_id = 22, p_shop_id = Some 12, p_name = ''Shirt'', p_price = 5000000,
                   p_thumbnail_url = None, p_stock_quantity = 7, p_has_variants = True,
                   p_is_hidden = False, p_status = ProductActive\<rparr>],
     variants := [\<lparr>v_id = 31, v_product_id = Some 22, v_name = Some ''M'', v_attributes = None,
                   v_additional_price = 0, v_stock_quantity = 3\<rparr>,
                  \<lparr>v_id = 32, v_product_id = Some 22, v_name = Some ''L'', v_attributes = None,
                   v_additional_price = 1000000, v_stock_quantity = 4\<rparr>],
     addresses := [\<lparr>a_id = 41, a_user_id = Some 1, a_address_line = Some ''135 NH'', a_lat = Some 10800000,
                    a_lng = Some 106700000, a_is_default = True, a_recipient_name = Some ''An'',
                    a_phone = Some ''0901''\<rparr>],
     coupons := [\<lparr>c_id = 51, c_code = ''SALE10'', c_type = GlobalCoupon, c_shop_id = None,
                  c_discount_type = Some Percentage, c_discount_value = Some 1000,
                  c_min_order_value = Some 10000000, c_max_discount_value = Some 3000000,
                  c_start_date = None, c_end_date = None, c_usage_limit = Some 5, c_used_count = 0\<rparr>,
                 \<lparr>c_id = 52, c_code = ''SHOPA'', c_type = ShopCoupon, c_shop_id = Some 11,
                  c_discount_type = Some FixedAmount, c_discount_value = Some 2000000,
                  c_min_order_value = None, c_max_discount_value = None,
                  c_start_date = None, c_end_date = None, c_usage_limit = None, c_used_count = 0\<rparr>],
     cart_items := [\<lparr>ci_id = 61, ci_user_id = Some 1, ci_variant_id = None, ci_product_id = Some 21,
                     ci_quantity = 2, ci_added_at = 10\<rparr>,
                    \<lparr>ci_id = 62, ci_user_id = Some 1, ci_variant_id = Some 31, ci_product_id = Some 22,
                     ci_quantity = 1, ci_added_at = 20\<rparr>],
     next_uuid := 100\<rparr>"

end
