(* ===== verification/Pagination.thy ===== *)
theory Pagination
  imports Prelude JsNumber
begin

text \<open>
  \<open>src/backend/src/common/helpers/pagination.helper.ts\<close>: one page of a query's rows and its
  counts. The query is the list of its rows in the order of its ORDER BY; \<open>skip\<close> and \<open>take\<close> are
  OFFSET and LIMIT. \<open>page\<close> and \<open>limit\<close> come from a query string and may be missing or 0.
\<close>

record 'r paginated =
  pg_items :: "'r list"
  pg_page :: nat
  pg_limit :: nat
  pg_totalItems :: nat
  pg_totalPages :: int

text \<open>\<open>queryDto.page || 1\<close>.\<close>

definition or_default :: "nat option \<Rightarrow> nat \<Rightarrow> nat" where
  "or_default v dflt = (case v of None \<Rightarrow> dflt | Some 0 \<Rightarrow> dflt | Some n \<Rightarrow> n)"

definition paginate :: "nat option \<Rightarrow> nat option \<Rightarrow> 'r list \<Rightarrow> 'r paginated" where
  "paginate qpage qlimit rows =
     (let page = or_default qpage 1;
          limit = or_default qlimit 10;
          skip = (page - 1) * limit;
          items = take limit (drop skip rows);
          totalItems = length rows;
          ratio = js_div (of_nat totalItems) (of_nat limit)
      in \<lparr>pg_items = items, pg_page = page, pg_limit = limit, pg_totalItems = totalItems,
          pg_totalPages = \<lceil>ratio\<rceil>\<rparr>)"

text \<open>ORDER BY on a nullable column: PostgreSQL sorts NULL above every value.\<close>

definition order_asc :: "('r \<Rightarrow> int option) \<Rightarrow> 'r list \<Rightarrow> 'r list" where
  "order_asc f rows =
     sort_key (\<lambda>r. the (f r)) (filter (\<lambda>r. f r \<noteq> None) rows) @ filter (\<lambda>r. f r = None) rows"

definition order_desc :: "('r \<Rightarrow> int option) \<Rightarrow> 'r list \<Rightarrow> 'r list" where
  "order_desc f rows =
     filter (\<lambda>r. f r = None) rows @ sort_key (\<lambda>r. - the (f r)) (filter (\<lambda>r. f r \<noteq> None) rows)"

lemma set_order [simp]: "set (order_asc f rows) = set rows" "set (order_desc f rows) = set rows"
  by (auto simp: order_asc_def order_desc_def)

lemma or_default_pos: "0 < dflt \<Longrightarrow> 0 < or_default v dflt"
  by (auto simp: or_default_def split: option.split nat.split)

lemma or_default_Some [simp]: "0 < n \<Longrightarrow> or_default (Some n) dflt = n"
  by (auto simp: or_default_def split: nat.split)

lemma fl_div_ceiling:
  assumes "0 < l" "l \<le> 2 ^ 53" "n < 2 ^ 53"
  shows "\<lceil>js_div (of_nat n) (of_nat l)\<rceil> = \<lceil>of_nat n / (of_nat l :: rat)\<rceil>"
proof (cases "n = 0")
  case False
  define q :: rat where "q = of_nat n / of_nat l"
  define c where "c = \<lceil>q\<rceil>"
  have l: "(1 :: rat) \<le> of_nat l" using assms(1) by simp
  have n: "(of_nat n :: rat) < 2 ^ 53"
  proof -
    have "(of_nat n :: rat) < of_nat (2 ^ 53)" using assms(3) by (simp only: of_nat_less_iff)
    then show ?thesis by simp
  qed
  have q0: "0 < q" using False assms(1) by (simp add: q_def)
  have "q \<le> of_nat n" unfolding q_def using l by (simp add: divide_le_eq mult_le_cancel_left1)
  with n have "q \<le> of_int (2 ^ 53)" by simp
  then have "c \<le> 2 ^ 53" unfolding c_def by (simp only: ceiling_le_iff)
  moreover have "0 \<le> c" using q0 by (simp add: c_def)
  ultimately have "fl (of_int c) = of_int c" by (intro fl_of_int) simp
  moreover have "fl q \<le> fl (of_int c)" unfolding c_def by (intro fl_mono) simp
  ultimately have hi: "fl q \<le> of_int c" by simp
  have "of_int (c - 1) < q" unfolding c_def by (metis ceiling_correct of_int_diff of_int_1)
  then have "of_int (c - 1) * of_nat l < (of_nat n :: rat)"
    using assms(1) by (simp add: q_def less_divide_eq)
  then have "of_int ((c - 1) * int l) < (of_int (int n) :: rat)" by simp
  then have "(c - 1) * int l + 1 \<le> int n" by (simp only: of_int_less_iff)
  then have "of_int ((c - 1) * int l + 1) \<le> (of_int (int n) :: rat)" by (simp only: of_int_le_iff)
  then have "(of_int (c - 1) * of_nat l + 1) / of_nat l \<le> q"
    unfolding q_def by (intro divide_right_mono) auto
  then have gap: "of_int (c - 1) + 1 / of_nat l \<le> q"
    using assms(1) by (simp add: add_divide_distrib)
  have "1 \<le> n" using False by simp
  then have "(1 :: rat) / of_nat l \<le> q" unfolding q_def by (intro divide_right_mono) auto
  moreover have "(1 :: rat) / 2 ^ 53 \<le> 1 / of_nat l"
  proof (rule divide_left_mono)
    have "(of_nat l :: rat) \<le> of_nat (2 ^ 53)" using assms(2) by (simp only: of_nat_le_iff)
    then show "(of_nat l :: rat) \<le> 2 ^ 53" by simp
  qed (use assms(1) in auto)
  moreover have "(2 powi (- 1022) :: rat) \<le> 2 powi (- 53)" by (rule power_int_2_mono) simp
  then have "(2 powi (- 1022) :: rat) \<le> 1 / 2 ^ 53" by (simp add: power_int_minus inverse_eq_divide)
  ultimately have "q = 0 \<or> 2 powi (- 1022) \<le> \<bar>q\<bar>" using q0 by linarith
  from fl_err [OF this] have err: "\<bar>fl q - q\<bar> \<le> q / 2 ^ 53"
    using q0 by (simp add: power_int_minus inverse_eq_divide)
  have "q / 2 ^ 53 < 1 / of_nat l"
  proof -
    have "of_nat n / 2 ^ 53 < (1 :: rat)" using n by simp
    then have "of_nat n / 2 ^ 53 / of_nat l < (1 :: rat) / of_nat l"
      using assms(1) by (intro divide_strict_right_mono) auto
    then show ?thesis by (simp add: q_def mult.commute)
  qed
  then have "of_int (c - 1) < fl q" using err gap by linarith
  with hi have "\<lceil>fl q\<rceil> = c" by (intro ceiling_unique) auto
  then show ?thesis by (simp add: js_div_def c_def q_def)
qed (simp add: js_div_def)

text \<open>Cutting a list in pages of \<open>l\<close>.\<close>

lemma concat_pages:
  "0 < l \<Longrightarrow> concat (map (\<lambda>p. take l (drop (p * l) xs)) [0..<k]) = take (k * l) xs"
proof (induction k)
  case (Suc k)
  have "take (Suc k * l) xs = take (k * l) xs @ take l (drop (k * l) xs)"
    by (metis add.commute mult_Suc take_add)
  then show ?case using Suc by simp
qed simp

lemma ceiling_pages:
  assumes "0 < l" "int k = \<lceil>of_nat n / (of_nat l :: rat)\<rceil>"
  shows "n \<le> k * l" "k \<noteq> 0 \<Longrightarrow> (k - 1) * l < n"
proof -
  have "of_nat n / of_nat l \<le> (of_int (int k) :: rat)" unfolding assms(2) by simp
  then have "of_nat n \<le> (of_nat (k * l) :: rat)" using assms(1) by (simp add: divide_le_eq)
  then show "n \<le> k * l" by (simp only: of_nat_le_iff)
  assume k: "k \<noteq> 0"
  have "of_int (int k - 1) < of_nat n / (of_nat l :: rat)"
    unfolding assms(2) by (metis ceiling_correct of_int_diff of_int_1)
  moreover have "int k - 1 = int (k - 1)" using k by simp
  ultimately have "of_nat ((k - 1) * l) < (of_nat n :: rat)"
    using assms(1) by (simp only: of_int_of_nat_eq) (simp add: less_divide_eq)
  then show "(k - 1) * l < n" by (simp only: of_nat_less_iff)
qed

text \<open>
  The pages of a listing are the listing: read one after the other up to \<open>totalPages\<close> they
  give every row exactly once and in order, and the last of them is not empty.
\<close>

theorem pages_partition:
  assumes "0 < limit" "limit \<le> 2 ^ 53" "length rows < 2 ^ 53"
    and "int k = pg_totalPages (paginate (Some page) (Some limit) rows)"
  shows "concat (map (\<lambda>p. pg_items (paginate (Some (p + 1)) (Some limit) rows)) [0..<k]) = rows
       \<and> (rows \<noteq> [] \<longrightarrow> pg_items (paginate (Some k) (Some limit) rows) \<noteq> [])"
proof -
  have k: "int k = \<lceil>of_nat (length rows) / (of_nat limit :: rat)\<rceil>"
    using assms fl_div_ceiling [OF assms(1-3)] by (simp add: paginate_def Let_def)
  note b = ceiling_pages [OF assms(1) k]
  have "pg_items (paginate (Some (p + 1)) (Some limit) rows) = take limit (drop (p * limit) rows)" for p
    using assms(1) by (simp add: paginate_def Let_def)
  then have "concat (map (\<lambda>p. pg_items (paginate (Some (p + 1)) (Some limit) rows)) [0..<k]) = rows"
    using concat_pages [OF assms(1), where xs = rows and k = k] b(1) by simp
  moreover have "pg_items (paginate (Some k) (Some limit) rows) \<noteq> []" if "rows \<noteq> []"
  proof -
    have "k \<noteq> 0" using b(1) that by (cases k) auto
    with b(2) assms(1) show ?thesis by (simp add: paginate_def Let_def)
  qed
  ultimately show ?thesis by blast
qed

theorem pages_partition_witness:
  "concat (map (\<lambda>p. pg_items (paginate (Some (p + 1)) (Some 2) [1, 2, 3::nat])) [0..<2]) = [1, 2, 3]
   \<and> pg_items (paginate (Some 2) (Some 2) [1, 2, 3::nat]) \<noteq> []"
proof -
  have "\<lceil>3 / 2 :: rat\<rceil> = 2" by (rule ceiling_unique) auto
  then have "\<lceil>js_div 3 2\<rceil> = 2" using fl_div_ceiling [of 2 3] by simp
  then have "int 2 = pg_totalPages (paginate (Some 1) (Some 2) [1, 2, 3::nat])"
    by (simp add: paginate_def Let_def)
  from pages_partition [OF _ _ _ this] show ?thesis by simp
qed

end
