(* ===== verification/ProductStock.thy ===== *)
theory ProductStock
  imports Entities "HOL-Library.AList"
begin

text \<open>
  \<open>src/backend/src/modules/products/product-stock.service.ts\<close>: locking rows of products and
  variants, deducting stock for a checkout, putting it back for a cancellation. A line with a
  variant counts against the variant and against the parent product.
\<close>

subsection \<open>Requested quantities\<close>

record stock_item =
  si_product_id :: uuid
  si_variant_id :: "uuid option"
  si_quantity :: int

text \<open>The two \<open>Map\<close>s of totals: insertion-ordered association lists.\<close>

definition add_qty :: "uuid \<Rightarrow> int \<Rightarrow> (uuid \<times> int) list \<Rightarrow> (uuid \<times> int) list" where
  "add_qty k q m = AList.update k ((case map_of m k of None \<Rightarrow> 0 | Some p \<Rightarrow> p) + q) m"

definition count_item ::
  "(uuid \<times> int) list \<times> (uuid \<times> int) list \<Rightarrow> stock_item \<Rightarrow> (uuid \<times> int) list \<times> (uuid \<times> int) list" where
  "count_item totals item =
     (add_qty (si_product_id item) (si_quantity item) (fst totals),
      case si_variant_id item of
        None \<Rightarrow> snd totals
      | Some vid \<Rightarrow> add_qty vid (si_quantity item) (snd totals))"

definition total_quantities :: "stock_item list \<Rightarrow> (uuid \<times> int) list \<times> (uuid \<times> int) list" where
  "total_quantities items = foldl count_item ([], []) items"

subsection \<open>Locking\<close>

text \<open>
  \<open>find(Entity, { where: { id: In(ids) }, lock, order: { id: 'ASC' } })\<close>: the rows that exist,
  ascending. The trace of the locks taken is the order in which the rows come back.
\<close>

definition find_locked :: "('r \<Rightarrow> uuid) \<Rightarrow> uuid list \<Rightarrow> 'r list \<Rightarrow> 'r list" where
  "find_locked key ids t =
     (if ids = [] then [] else sort_key key (filter (\<lambda>r. key r \<in> set ids) t))"

definition locked_products :: "stock_item list \<Rightarrow> db \<Rightarrow> product list" where
  "locked_products items d =
     find_locked p_id (sort (map fst (fst (total_quantities items)))) (products d)"

definition locked_variants :: "stock_item list \<Rightarrow> db \<Rightarrow> variant list" where
  "locked_variants items d =
     find_locked v_id (sort (map fst (snd (total_quantities items)))) (variants d)"

datatype lock_target = LockProduct uuid | LockVariant uuid

definition lock_trace :: "stock_item list \<Rightarrow> db \<Rightarrow> lock_target list" where
  "lock_trace items d =
     map (LockProduct \<circ> p_id) (locked_products items d)
     @ map (LockVariant \<circ> v_id) (locked_variants items d)"

subsection \<open>Deducting for a checkout\<close>

text \<open>The check of one line against the locked rows.\<close>

definition check_item ::
  "product list \<Rightarrow> variant list \<Rightarrow> (uuid \<times> int) list \<Rightarrow> (uuid \<times> int) list \<Rightarrow> stock_item
    \<Rightarrow> insufficient list" where
  "check_item ps vs byProduct byVariant item =
     (case find_row p_id (si_product_id item) ps of
        None \<Rightarrow>
          [\<lparr>ins_product_id = si_product_id item, ins_product_name = None,
            ins_variant_id = si_variant_id item, ins_variant_name = None,
            ins_requested = si_quantity item, ins_available = 0\<rparr>]
      | Some product \<Rightarrow>
          (case si_variant_id item of
             Some vid \<Rightarrow>
               (case find_row v_id vid vs of
                  None \<Rightarrow>
                    [\<lparr>ins_product_id = si_product_id item, ins_product_name = Some (p_name product),
                      ins_variant_id = Some vid, ins_variant_name = None,
                      ins_requested = si_quantity item, ins_available = 0\<rparr>]
                | Some variant \<Rightarrow>
                    (let required = (case map_of byVariant vid of None \<Rightarrow> 0 | Some q \<Rightarrow> q)
                     in if v_stock_quantity variant < required then
                          [\<lparr>ins_product_id = si_product_id item, ins_product_name = Some (p_name product),
                            ins_variant_id = Some vid, ins_variant_name = v_name variant,
                            ins_requested = required, ins_available = v_stock_quantity variant\<rparr>]
                        else []))
           | None \<Rightarrow>
               (let required = (case map_of byProduct (si_product_id item) of None \<Rightarrow> 0 | Some q \<Rightarrow> q)
                in if p_stock_quantity product < required then
                     [\<lparr>ins_product_id = si_product_id item, ins_product_name = Some (p_name product),
                       ins_variant_id = None, ins_variant_name = None,
                       ins_requested = required, ins_available = p_stock_quantity product\<rparr>]
                   else [])))"

definition add_product_stock :: "int \<Rightarrow> product \<Rightarrow> product" where
  "add_product_stock q p = p\<lparr>p_stock_quantity := p_stock_quantity p + q\<rparr>"

definition add_variant_stock :: "int \<Rightarrow> variant \<Rightarrow> variant" where
  "add_variant_stock q v = v\<lparr>v_stock_quantity := v_stock_quantity v + q\<rparr>"

text \<open>
  \<open>save(ProductVariant, lockedVariants)\<close> then \<open>save(Product, lockedProducts)\<close>, each under the
  table's \<open>@Check('stock_quantity >= 0')\<close>.
\<close>

definition save_stock :: "product list \<Rightarrow> variant list \<Rightarrow> db \<Rightarrow> http_error + db" where
  "save_stock ps vs d =
     (if \<exists>v \<in> set vs. v_stock_quantity v < 0 then Inl (CheckViolation VariantStockCheck)
      else if \<exists>p \<in> set ps. p_stock_quantity p < 0 then Inl (CheckViolation ProductStockCheck)
      else Inr (d\<lparr>variants := save_rows v_id vs (variants d),
                  products := save_rows p_id ps (products d)\<rparr>))"

type_synonym stock_key = "uuid \<times> uuid option"
type_synonym resolved_rows = "(stock_key \<times> (product \<times> variant option)) list"

definition resolve_items :: "stock_item list \<Rightarrow> product list \<Rightarrow> variant list \<Rightarrow> resolved_rows" where
  "resolve_items items ps vs =
     foldl (\<lambda>resolved item.
              case find_row p_id (si_product_id item) ps of
                None \<Rightarrow> resolved
              | Some product \<Rightarrow>
                  AList.update (si_product_id item, si_variant_id item)
                    (product, find_opt v_id (si_variant_id item) vs) resolved)
           [] items"

definition lockAndDeductStockForCheckout ::
  "stock_item list \<Rightarrow> db \<Rightarrow> http_error + (db \<times> resolved_rows)" where
  "lockAndDeductStockForCheckout items d =
     (let byProduct = fst (total_quantities items);
          byVariant = snd (total_quantities items);
          ps = locked_products items d;
          vs = locked_variants items d;
          insufficient = concat (map (check_item ps vs byProduct byVariant) items)
      in if insufficient \<noteq> [] then Inl (BadRequest (StockMsg (NotEnoughStock insufficient)))
         else
           let vs' = foldl (\<lambda>t (k, q). update_row v_id k (add_variant_stock (- q)) t) vs byVariant;
               ps' = foldl (\<lambda>t (k, q). update_row p_id k (add_product_stock (- q)) t) ps byProduct
           in case save_stock ps' vs' d of
                Inl e \<Rightarrow> Inl e
              | Inr d' \<Rightarrow> Inr (d', resolve_items items ps' vs'))"

subsection \<open>Putting stock back\<close>

definition lockAndRestock :: "stock_item list \<Rightarrow> db \<Rightarrow> http_error + db" where
  "lockAndRestock items d =
     (let byProduct = fst (total_quantities items);
          byVariant = snd (total_quantities items);
          ps = locked_products items d;
          vs = locked_variants items d;
          vs' = foldl (\<lambda>t (k, q). update_row v_id k (add_variant_stock q) t) vs byVariant;
          ps' = foldl (\<lambda>t (k, q). update_row p_id k (add_product_stock q) t) ps byProduct
      in save_stock ps' vs' d)"

subsection \<open>What a list of lines asks for\<close>

definition requested_product :: "stock_item list \<Rightarrow> uuid \<Rightarrow> int" where
  "requested_product items k = (\<Sum>item\<leftarrow>items. if si_product_id item = k then si_quantity item else 0)"

definition requested_variant :: "stock_item list \<Rightarrow> uuid \<Rightarrow> int" where
  "requested_variant items k = (\<Sum>item\<leftarrow>items. if si_variant_id item = Some k then si_quantity item else 0)"

lemma map_of_add_qty:
  "map_of (add_qty k q m) k' =
     (if k' = k then Some ((case map_of m k of None \<Rightarrow> 0 | Some p \<Rightarrow> p) + q) else map_of m k')"
  by (simp add: add_qty_def update_conv)

lemma distinct_add_qty: "distinct (map fst m) \<Longrightarrow> distinct (map fst (add_qty k q m))"
  by (simp add: add_qty_def distinct_update)

lemma total_quantities_snoc:
  "total_quantities (items @ [item]) = count_item (total_quantities items) item"
  by (simp add: total_quantities_def)

lemma total_quantities_Nil [simp]: "total_quantities [] = ([], [])"
  by (simp add: total_quantities_def)

lemma total_quantities_distinct:
  "distinct (map fst (fst (total_quantities items)))" "distinct (map fst (snd (total_quantities items)))"
  by (induction items rule: rev_induct)
    (auto simp: total_quantities_snoc count_item_def distinct_add_qty split: option.splits)

lemma requested_snoc [simp]:
  "requested_product (items @ [item]) k =
     requested_product items k + (if si_product_id item = k then si_quantity item else 0)"
  "requested_variant (items @ [item]) k' =
     requested_variant items k' + (if si_variant_id item = Some k' then si_quantity item else 0)"
  by (simp_all add: requested_product_def requested_variant_def)

lemma requested_product_none: "k \<notin> si_product_id ` set items \<Longrightarrow> requested_product items k = 0"
  by (induction items) (auto simp: requested_product_def)

lemma requested_variant_none: "Some k \<notin> si_variant_id ` set items \<Longrightarrow> requested_variant items k = 0"
  by (induction items) (auto simp: requested_variant_def)

lemma total_by_product:
  "map_of (fst (total_quantities items)) k =
     (if k \<in> si_product_id ` set items then Some (requested_product items k) else None)"
  by (induction items rule: rev_induct)
    (auto simp: total_quantities_snoc count_item_def map_of_add_qty requested_product_none
      split: if_splits)

lemma total_by_variant:
  "map_of (snd (total_quantities items)) k =
     (if Some k \<in> si_variant_id ` set items then Some (requested_variant items k) else None)"
  by (induction items rule: rev_induct)
    (auto simp: total_quantities_snoc count_item_def map_of_add_qty requested_variant_none
      split: if_splits option.splits)

lemma keys_by_product: "set (map fst (fst (total_quantities items))) = si_product_id ` set items"
proof -
  have "k \<in> set (map fst (fst (total_quantities items))) \<longleftrightarrow> k \<in> si_product_id ` set items" for k
    using map_of_eq_None_iff [of "fst (total_quantities items)" k]
    by (auto simp: total_by_product split: if_splits)
  then show ?thesis by blast
qed

lemma keys_by_variant:
  "set (map fst (snd (total_quantities items))) = {k. Some k \<in> si_variant_id ` set items}"
proof -
  have "k \<in> set (map fst (snd (total_quantities items))) \<longleftrightarrow> Some k \<in> si_variant_id ` set items" for k
    using map_of_eq_None_iff [of "snd (total_quantities items)" k]
    by (auto simp: total_by_variant split: if_splits)
  then show ?thesis by blast
qed

subsection \<open>The rows written back\<close>

lemma set_find_locked: "set (find_locked key ids t) = {r \<in> set t. key r \<in> set ids}"
  by (auto simp: find_locked_def)

lemma unique_keys_filter: "unique_keys key t \<Longrightarrow> unique_keys key (filter P t)"
  by (simp add: unique_keys_def distinct_map_filter)

lemma unique_keys_find_locked: "unique_keys key t \<Longrightarrow> unique_keys key (find_locked key ids t)"
proof -
  assume u: "unique_keys key t"
  have "distinct (map key (sort_key key (filter (\<lambda>r. key r \<in> set ids) t)))"
    using unique_keys_filter [OF u]
    by (metis (no_types, lifting) distinct_map distinct_sort set_sort unique_keys_def)
  then show ?thesis by (simp add: find_locked_def unique_keys_def)
qed

lemma sorted_find_locked: "sorted (map key (find_locked key ids t))"
  by (simp add: find_locked_def)

lemma strict_sorted_find_locked:
  "unique_keys key t \<Longrightarrow> sorted_wrt (<) (map key (find_locked key ids t))"
  using unique_keys_find_locked sorted_find_locked
  by (auto simp: strict_sorted_iff unique_keys_def)

lemma find_row_find_locked:
  assumes "unique_keys key t"
  shows "find_row key k (find_locked key ids t) = (if k \<in> set ids then find_row key k t else None)"
proof (cases "find_row key k (find_locked key ids t)")
  case None
  then have "\<And>r. r \<in> set t \<Longrightarrow> key r = k \<Longrightarrow> k \<notin> set ids"
    by (auto simp: find_row_None_iff set_find_locked)
  then show ?thesis unfolding None by (auto simp: find_row_None_iff eq_commute [of None])
next
  case (Some r)
  then have "r \<in> set t" "key r = k" "k \<in> set ids"
    by (auto dest!: find_row_SomeD simp: set_find_locked)
  with Some show ?thesis using find_row_in_set [OF assms] by auto
qed

text \<open>
  Lock the rows named in the totals, adjust each, save them: the table with the adjustment
  applied to exactly the rows that have a total.
\<close>

definition adjust_rows ::
  "('r \<Rightarrow> uuid) \<Rightarrow> (int \<Rightarrow> 'r \<Rightarrow> 'r) \<Rightarrow> (uuid \<times> int) list \<Rightarrow> 'r list \<Rightarrow> 'r list" where
  "adjust_rows key f m t = map (\<lambda>r. case map_of m (key r) of None \<Rightarrow> r | Some q \<Rightarrow> f q r) t"

lemma foldl_update_adjust:
  "(\<And>q r. key (f q r) = key r) \<Longrightarrow> distinct (map fst m) \<Longrightarrow>
   foldl (\<lambda>t (k, q). update_row key k (f q) t) t m = adjust_rows key f m t"
  unfolding adjust_rows_def by (rule foldl_update_row)

lemma map_key_adjust [simp]:
  "(\<And>q r. key (f q r) = key r) \<Longrightarrow> map key (adjust_rows key f m t) = map key t"
  by (auto simp: adjust_rows_def split: option.split)

lemma find_row_adjust:
  "(\<And>q r. key (f q r) = key r) \<Longrightarrow> find_row key k (adjust_rows key f m t) =
     map_option (\<lambda>r. case map_of m k of None \<Rightarrow> r | Some q \<Rightarrow> f q r) (find_row key k t)"
  by (induction t) (auto simp: adjust_rows_def find_row_Cons split: option.splits)

lemma save_adjusted:
  assumes u: "unique_keys key t" and f: "\<And>q r. key (f q r) = key r"
  shows "save_rows key (adjust_rows key f m (find_locked key (sort (map fst m)) t)) t
           = adjust_rows key f m t"
proof -
  let ?locked = "find_locked key (sort (map fst m)) t"
  have u': "unique_keys key (adjust_rows key f m ?locked)"
    using unique_keys_find_locked [OF u] by (simp add: unique_keys_def f)
  have "key ` set (adjust_rows key f m ?locked) = key ` set ?locked"
    by (metis f list.set_map map_key_adjust)
  then have sub: "key ` set (adjust_rows key f m ?locked) \<subseteq> key ` set t"
    by (auto simp: set_find_locked)
  have "(case find_row key (key r) (adjust_rows key f m ?locked) of None \<Rightarrow> r | Some r' \<Rightarrow> r')
      = (case map_of m (key r) of None \<Rightarrow> r | Some q \<Rightarrow> f q r)" if "r \<in> set t" for r
    using find_row_in_set [OF u that] map_of_eq_None_iff [of m "key r"]
    by (auto simp: find_row_adjust [where f = f, OF f] find_row_find_locked [OF u] split: option.splits)
  then have "map (\<lambda>r. case find_row key (key r) (adjust_rows key f m ?locked) of
               None \<Rightarrow> r | Some r' \<Rightarrow> r') t = adjust_rows key f m t"
    unfolding adjust_rows_def [of key f m t] by (intro map_cong) auto
  with save_rows_present [OF u' sub] show ?thesis by (rule trans)
qed

definition move_product :: "int \<Rightarrow> stock_item list \<Rightarrow> product \<Rightarrow> product" where
  "move_product c items p =
     p\<lparr>p_stock_quantity := p_stock_quantity p + c * requested_product items (p_id p)\<rparr>"

definition move_variant :: "int \<Rightarrow> stock_item list \<Rightarrow> variant \<Rightarrow> variant" where
  "move_variant c items v =
     v\<lparr>v_stock_quantity := v_stock_quantity v + c * requested_variant items (v_id v)\<rparr>"

text \<open>The whole effect of a run: every row moved by what the lines ask of it.\<close>

definition move_stock :: "int \<Rightarrow> stock_item list \<Rightarrow> db \<Rightarrow> db" where
  "move_stock c items d =
     d\<lparr>products := map (move_product c items) (products d),
       variants := map (move_variant c items) (variants d)\<rparr>"

lemma add_stock_key [simp]:
  "p_id (add_product_stock q p) = p_id p" "v_id (add_variant_stock q v) = v_id v"
  by (simp_all add: add_product_stock_def add_variant_stock_def)

lemma move_key [simp]: "p_id (move_product c items p) = p_id p" "v_id (move_variant c items v) = v_id v"
  by (simp_all add: move_product_def move_variant_def)

lemma adjust_products:
  "adjust_rows p_id (\<lambda>q. add_product_stock (c * q)) (fst (total_quantities items)) t
     = map (move_product c items) t"
  by (auto simp: adjust_rows_def total_by_product move_product_def add_product_stock_def
      requested_product_none)

lemma adjust_variants:
  "adjust_rows v_id (\<lambda>q. add_variant_stock (c * q)) (snd (total_quantities items)) t
     = map (move_variant c items) t"
  by (auto simp: adjust_rows_def total_by_variant move_variant_def add_variant_stock_def
      requested_variant_none)

lemma fold_products:
  "foldl (\<lambda>t (k, q). update_row p_id k (add_product_stock (c * q)) t) t (fst (total_quantities items))
     = map (move_product c items) t"
  by (subst foldl_update_adjust) (simp_all add: total_quantities_distinct adjust_products)

lemma fold_variants:
  "foldl (\<lambda>t (k, q). update_row v_id k (add_variant_stock (c * q)) t) t (snd (total_quantities items))
     = map (move_variant c items) t"
  by (subst foldl_update_adjust) (simp_all add: total_quantities_distinct adjust_variants)

lemma save_stock_locked:
  assumes "unique_keys p_id (products d)" "unique_keys v_id (variants d)"
    and "save_stock (map (move_product c items) (locked_products items d))
           (map (move_variant c items) (locked_variants items d)) d = Inr d'"
  shows "d' = move_stock c items d"
proof -
  have "save_rows p_id (map (move_product c items) (locked_products items d)) (products d)
      = map (move_product c items) (products d)"
    using save_adjusted [where f = "\<lambda>q. add_product_stock (c * q)" and m = "fst (total_quantities items)",
        OF assms(1)]
    by (simp add: adjust_products locked_products_def)
  moreover have "save_rows v_id (map (move_variant c items) (locked_variants items d)) (variants d)
      = map (move_variant c items) (variants d)"
    using save_adjusted [where f = "\<lambda>q. add_variant_stock (c * q)" and m = "snd (total_quantities items)",
        OF assms(2)]
    by (simp add: adjust_variants locked_variants_def)
  ultimately show ?thesis
    using assms(3) by (auto simp: save_stock_def move_stock_def split: if_splits)
qed

text \<open>Unfolded once and for all, with the folds replaced by the moves.\<close>

lemma deduct_unfold:
  "lockAndDeductStockForCheckout items d =
     (let ps = locked_products items d; vs = locked_variants items d;
          insufficient = concat (map (check_item ps vs (fst (total_quantities items))
                                       (snd (total_quantities items))) items)
      in if insufficient \<noteq> [] then Inl (BadRequest (StockMsg (NotEnoughStock insufficient)))
         else case save_stock (map (move_product (-1) items) ps) (map (move_variant (-1) items) vs) d of
                Inl e \<Rightarrow> Inl e
              | Inr d' \<Rightarrow> Inr (d', resolve_items items (map (move_product (-1) items) ps)
                                    (map (move_variant (-1) items) vs)))"
  using fold_products [of "-1" _ items] fold_variants [of "-1" _ items]
  by (simp add: lockAndDeductStockForCheckout_def Let_def)

lemma restock_unfold:
  "lockAndRestock items d =
     save_stock (map (move_product 1 items) (locked_products items d))
       (map (move_variant 1 items) (locked_variants items d)) d"
  using fold_products [of 1 _ items] fold_variants [of 1 _ items]
  by (simp add: lockAndRestock_def Let_def)

subsection \<open>When a deduction goes through\<close>

lemma find_locked_product:
  "unique_keys p_id (products d) \<Longrightarrow> item \<in> set items \<Longrightarrow>
   find_row p_id (si_product_id item) (locked_products items d)
     = find_row p_id (si_product_id item) (products d)"
  using keys_by_product [of items]
  by (simp add: locked_products_def find_row_find_locked del: set_map)

lemma find_locked_variant:
  "unique_keys v_id (variants d) \<Longrightarrow> item \<in> set items \<Longrightarrow> si_variant_id item = Some vid \<Longrightarrow>
   find_row v_id vid (locked_variants items d) = find_row v_id vid (variants d)"
proof -
  assume u: "unique_keys v_id (variants d)" and "item \<in> set items" "si_variant_id item = Some vid"
  then have "vid \<in> set (map fst (snd (total_quantities items)))"
    unfolding keys_by_variant by force
  then show ?thesis by (simp add: locked_variants_def find_row_find_locked [OF u] del: set_map)
qed

lemma in_locked_products:
  "p \<in> set (locked_products items d) \<longleftrightarrow> p \<in> set (products d) \<and> p_id p \<in> si_product_id ` set items"
  using keys_by_product [of items] by (simp add: locked_products_def set_find_locked del: set_map)

lemma in_locked_variants:
  "v \<in> set (locked_variants items d) \<longleftrightarrow>
     v \<in> set (variants d) \<and> Some (v_id v) \<in> si_variant_id ` set items"
  using keys_by_variant [of items] by (simp add: locked_variants_def set_find_locked del: set_map)

text \<open>What the code requires of one line: the rows exist and cover the whole cart's request.\<close>

definition line_available :: "stock_item list \<Rightarrow> db \<Rightarrow> stock_item \<Rightarrow> bool" where
  "line_available items d item =
     (case find_row p_id (si_product_id item) (products d) of
        None \<Rightarrow> False
      | Some p \<Rightarrow>
          (case si_variant_id item of
             None \<Rightarrow> requested_product items (si_product_id item) \<le> p_stock_quantity p
           | Some vid \<Rightarrow>
               (case find_row v_id vid (variants d) of
                  None \<Rightarrow> False
                | Some v \<Rightarrow> requested_variant items vid \<le> v_stock_quantity v)))"

lemma check_item_Nil_iff:
  assumes "unique_keys p_id (products d)" "unique_keys v_id (variants d)" "item \<in> set items"
  shows "check_item (locked_products items d) (locked_variants items d)
           (fst (total_quantities items)) (snd (total_quantities items)) item = []
         \<longleftrightarrow> line_available items d item"
proof -
  have v: "find_row v_id vid (locked_variants items d) = find_row v_id vid (variants d)"
      "Some vid \<in> si_variant_id ` set items"
    if "si_variant_id item = Some vid" for vid
    using find_locked_variant [OF assms(2,3) that] assms(3) that by (auto, metis imageI)
  show ?thesis
    using assms(3) v
    by (auto simp: check_item_def line_available_def find_locked_product [OF assms(1,3)]
        total_by_product total_by_variant Let_def split: option.split)
qed

lemma insufficient_Nil_iff:
  assumes "unique_keys p_id (products d)" "unique_keys v_id (variants d)"
  shows "concat (map (check_item (locked_products items d) (locked_variants items d)
           (fst (total_quantities items)) (snd (total_quantities items))) items) = []
         \<longleftrightarrow> (\<forall>item \<in> set items. line_available items d item)"
  using check_item_Nil_iff [OF assms] by auto

definition parent_covers :: "stock_item list \<Rightarrow> db \<Rightarrow> bool" where
  "parent_covers items d \<longleftrightarrow>
     (\<forall>p \<in> set (products d). p_id p \<in> si_product_id ` set items \<longrightarrow>
        requested_product items (p_id p) \<le> p_stock_quantity p)"

lemma no_variant_violation:
  assumes "unique_keys v_id (variants d)" "\<forall>item \<in> set items. line_available items d item"
  shows "\<not> (\<exists>v \<in> set (map (move_variant (-1) items) (locked_variants items d)). v_stock_quantity v < 0)"
proof -
  have "requested_variant items (v_id v) \<le> v_stock_quantity v" if "v \<in> set (locked_variants items d)" for v
  proof -
    from that obtain item where v: "v \<in> set (variants d)" "item \<in> set items"
        "si_variant_id item = Some (v_id v)"
      unfolding in_locked_variants by (auto simp: eq_commute)
    with assms(2) have "line_available items d item" by blast
    with v show ?thesis
      using find_row_in_set [OF assms(1) v(1)] by (auto simp: line_available_def split: option.splits)
  qed
  then show ?thesis by (force simp: move_variant_def)
qed

lemma deduct_cases:
  assumes "unique_keys p_id (products d)" "unique_keys v_id (variants d)"
  shows "lockAndDeductStockForCheckout items d =
    (if \<not> (\<forall>item \<in> set items. line_available items d item) then
       Inl (BadRequest (StockMsg (NotEnoughStock
         (concat (map (check_item (locked_products items d) (locked_variants items d)
            (fst (total_quantities items)) (snd (total_quantities items))) items)))))
     else if \<not> parent_covers items d then Inl (CheckViolation ProductStockCheck)
     else Inr (move_stock (-1) items d,
            resolve_items items (map (move_product (-1) items) (locked_products items d))
              (map (move_variant (-1) items) (locked_variants items d))))"
proof -
  let ?ps = "map (move_product (-1) items) (locked_products items d)"
  let ?vs = "map (move_variant (-1) items) (locked_variants items d)"
  have pc: "parent_covers items d \<longleftrightarrow> \<not> (\<exists>p \<in> set ?ps. p_stock_quantity p < 0)"
  proof -
    have "(\<exists>p \<in> set ?ps. p_stock_quantity p < 0) \<longleftrightarrow>
        (\<exists>p. p \<in> set (locked_products items d) \<and>
           p_stock_quantity p < requested_product items (p_id p))"
      by (auto simp: move_product_def)
    then show ?thesis unfolding in_locked_products parent_covers_def by (meson not_less)
  qed
  have "save_stock ?ps ?vs d =
      (if parent_covers items d then Inr (move_stock (-1) items d) else Inl (CheckViolation ProductStockCheck))"
    if "\<forall>item \<in> set items. line_available items d item"
    using no_variant_violation [OF assms(2) that] pc save_stock_locked [OF assms, of "-1" items]
    by (auto simp: save_stock_def split: if_splits)
  then show ?thesis
    unfolding deduct_unfold Let_def insufficient_Nil_iff [OF assms] by (auto split: sum.split)
qed

lemma restock_cases:
  assumes "unique_keys p_id (products d)" "unique_keys v_id (variants d)"
    and "\<forall>p \<in> set (products d). 0 \<le> p_stock_quantity p" "\<forall>v \<in> set (variants d). 0 \<le> v_stock_quantity v"
    and "\<forall>item \<in> set items. 0 \<le> si_quantity item"
  shows "lockAndRestock items d = Inr (move_stock 1 items d)"
proof -
  have nn: "0 \<le> requested_product items k" "0 \<le> requested_variant items k" for k
    using assms(5) by (auto simp: requested_product_def requested_variant_def intro!: sum_list_nonneg)
  have "0 \<le> p_stock_quantity (move_product 1 items p)" if "p \<in> set (locked_products items d)" for p
    using that assms(3) nn(1) [of "p_id p"] by (simp add: in_locked_products move_product_def)
  then have "\<not> (\<exists>p \<in> set (map (move_product 1 items) (locked_products items d)). p_stock_quantity p < 0)"
    by (auto simp: not_less)
  moreover have "0 \<le> v_stock_quantity (move_variant 1 items v)" if "v \<in> set (locked_variants items d)" for v
    using that assms(4) nn(2) [of "v_id v"] by (simp add: in_locked_variants move_variant_def)
  then have "\<not> (\<exists>v \<in> set (map (move_variant 1 items) (locked_variants items d)). v_stock_quantity v < 0)"
    by (auto simp: not_less)
  ultimately obtain d' where "save_stock (map (move_product 1 items) (locked_products items d))
      (map (move_variant 1 items) (locked_variants items d)) d = Inr d'"
    by (simp add: save_stock_def)
  with save_stock_locked [OF assms(1,2) this] show ?thesis by (simp add: restock_unfold)
qed

lemma move_stock_inverse: "move_stock 1 items (move_stock (-1) items d) = d"
proof -
  have "move_product 1 items (move_product (-1) items p) = p" for p
    by (simp add: move_product_def)
  moreover have "move_variant 1 items (move_variant (-1) items v) = v" for v
    by (simp add: move_variant_def)
  ultimately show ?thesis by (simp add: move_stock_def comp_def)
qed

lemma unique_move_stock [simp]:
  "unique_keys p_id (products (move_stock c items d)) = unique_keys p_id (products d)"
  "unique_keys v_id (variants (move_stock c items d)) = unique_keys v_id (variants d)"
  by (simp_all add: unique_keys_def move_stock_def comp_def)

subsection \<open>Parent and variants in step\<close>

definition variants_total :: "variant list \<Rightarrow> uuid \<Rightarrow> int" where
  "variants_total vs pid = (\<Sum>v\<leftarrow>vs. if v_product_id v = Some pid then v_stock_quantity v else 0)"

definition stock_in_sync :: "db \<Rightarrow> bool" where
  "stock_in_sync d \<longleftrightarrow>
     (\<forall>p \<in> set (products d). p_has_variants p \<longrightarrow>
        p_stock_quantity p = variants_total (variants d) (p_id p))"

text \<open>A line names a variant of its product, and no variant exactly when the product has none.\<close>

definition line_fits :: "db \<Rightarrow> stock_item \<Rightarrow> bool" where
  "line_fits d item \<longleftrightarrow>
     (case si_variant_id item of
        None \<Rightarrow> \<forall>p \<in> set (products d). p_id p = si_product_id item \<longrightarrow> \<not> p_has_variants p
      | Some vid \<Rightarrow> \<exists>v \<in> set (variants d). v_id v = vid \<and> v_product_id v = Some (si_product_id item))"

lemma variants_requested:
  assumes "unique_keys v_id vs" "p_has_variants p" "p \<in> set (products d)" "variants d = vs"
    and "\<forall>item \<in> set items. line_fits d item"
  shows "(\<Sum>v\<leftarrow>vs. if v_product_id v = Some (p_id p) then requested_variant items (v_id v) else 0)
           = requested_product items (p_id p)"
  using assms(5)
proof (induction items rule: rev_induct)
  case Nil
  show ?case by (simp add: requested_variant_def requested_product_def sum_list_0 cong: if_cong)
next
  case (snoc item items)
  let ?one = "\<lambda>v. if v_product_id v = Some (p_id p) \<and> si_variant_id item = Some (v_id v)
                  then si_quantity item else 0"
  have "(\<Sum>v\<leftarrow>vs. if v_product_id v = Some (p_id p) then requested_variant (items @ [item]) (v_id v) else 0)
      = (\<Sum>v\<leftarrow>vs. (if v_product_id v = Some (p_id p) then requested_variant items (v_id v) else 0) + ?one v)"
    by (intro arg_cong [where f = sum_list] map_cong) auto
  also have "\<dots> = requested_product items (p_id p) + (\<Sum>v\<leftarrow>vs. ?one v)"
    using snoc by (simp add: sum_list_addf)
  also have "(\<Sum>v\<leftarrow>vs. ?one v) = (if si_product_id item = p_id p then si_quantity item else 0)"
  proof (cases "si_variant_id item")
    case None
    with snoc.prems assms(2,3) show ?thesis by (auto simp: line_fits_def)
  next
    case (Some vid)
    with snoc.prems assms(4) obtain w where w: "w \<in> set vs" "v_id w = vid"
        "v_product_id w = Some (si_product_id item)"
      by (auto simp: line_fits_def)
    have "?one v = (if v = w then (if si_product_id item = p_id p then si_quantity item else 0) else 0)"
      if "v \<in> set vs" for v
      using w that assms(1) Some by (auto simp: unique_keys_def distinct_map inj_on_def)
    then have "(\<Sum>v\<leftarrow>vs. ?one v)
        = (\<Sum>v\<leftarrow>vs. if v = w then (if si_product_id item = p_id p then si_quantity item else 0) else 0)"
      by (intro arg_cong [where f = sum_list] map_cong) auto
    moreover have "distinct vs" using assms(1) by (simp add: unique_keys_def distinct_map)
    ultimately show ?thesis using w(1) by (simp add: sum_list_distinct_conv_sum_set)
  qed
  finally show ?case by simp
qed

lemma move_stock_in_sync:
  assumes "unique_keys v_id (variants d)" "stock_in_sync d" "\<forall>item \<in> set items. line_fits d item"
  shows "stock_in_sync (move_stock c items d)"
proof -
  have "p_stock_quantity p + c * requested_product items (p_id p)
      = variants_total (map (move_variant c items) (variants d)) (p_id p)"
    if p: "p \<in> set (products d)" "p_has_variants p" for p
  proof -
    have "variants_total (map (move_variant c items) (variants d)) (p_id p)
        = (\<Sum>v\<leftarrow>variants d. (if v_product_id v = Some (p_id p) then v_stock_quantity v else 0)
             + c * (if v_product_id v = Some (p_id p) then requested_variant items (v_id v) else 0))"
      unfolding variants_total_def map_map
      by (intro arg_cong [where f = sum_list] map_cong) (auto simp: move_variant_def)
    also have "\<dots> = variants_total (variants d) (p_id p) + c * requested_product items (p_id p)"
      using variants_requested [OF assms(1) p(2,1) refl assms(3)]
      by (simp add: sum_list_addf sum_list_const_mult variants_total_def)
    finally show ?thesis using assms(2) p by (simp add: stock_in_sync_def)
  qed
  then show ?thesis by (auto simp: stock_in_sync_def move_stock_def move_product_def)
qed

subsection \<open>The order of locks\<close>

text \<open>Products before variants, ascending ids within a table.\<close>

fun lock_rank :: "lock_target \<Rightarrow> nat \<times> uuid" where
  "lock_rank (LockProduct k) = (0, k)"
| "lock_rank (LockVariant k) = (1, k)"

instantiation lock_target :: linorder
begin

definition less_eq_lock_target :: "lock_target \<Rightarrow> lock_target \<Rightarrow> bool" where
  "less_eq_lock_target a b \<longleftrightarrow>
     fst (lock_rank a) < fst (lock_rank b)
     \<or> fst (lock_rank a) = fst (lock_rank b) \<and> snd (lock_rank a) \<le> snd (lock_rank b)"

definition less_lock_target :: "lock_target \<Rightarrow> lock_target \<Rightarrow> bool" where
  "less_lock_target a b \<longleftrightarrow>
     fst (lock_rank a) < fst (lock_rank b)
     \<or> fst (lock_rank a) = fst (lock_rank b) \<and> snd (lock_rank a) < snd (lock_rank b)"

instance
proof
  fix a b :: lock_target
  assume "a \<le> b" "b \<le> a"
  then have "lock_rank a = lock_rank b"
    by (auto simp: less_eq_lock_target_def prod_eq_iff)
  then show "a = b" by (cases a; cases b) auto
qed (auto simp: less_eq_lock_target_def less_lock_target_def)

end

lemma lock_trace_ascending:
  assumes "unique_keys p_id (products d)" "unique_keys v_id (variants d)"
  shows "sorted_wrt (<) (lock_trace items d)"
proof -
  have "sorted_wrt (<) (map p_id (locked_products items d))"
    "sorted_wrt (<) (map v_id (locked_variants items d))"
    using assms by (simp_all add: locked_products_def locked_variants_def strict_sorted_find_locked)
  then show ?thesis
    by (auto simp: lock_trace_def sorted_wrt_append sorted_wrt_map less_lock_target_def
        elim: sorted_wrt_mono_rel [rotated])
qed

text \<open>
  Transactions that take the locks of their trace one after the other and hold them to the
  end: \<open>n i\<close> is how many transaction \<open>i\<close> holds. \<open>i\<close> waits for \<open>j\<close> when \<open>j\<close> holds its next one.
\<close>

definition waits_for ::
  "(nat \<Rightarrow> lock_target list) \<Rightarrow> (nat \<Rightarrow> nat) \<Rightarrow> (nat \<times> nat) set" where
  "waits_for tr n = {(i, j). i \<noteq> j \<and> n i < length (tr i) \<and> tr i ! n i \<in> set (take (n j) (tr j))}"

lemma waits_for_increases:
  assumes "(i, j) \<in> waits_for tr n" "(j, k) \<in> waits_for tr n" "sorted_wrt (<) (tr j)"
  shows "tr i ! n i < tr j ! n j"
proof -
  from assms(1) obtain m where "m < n j" "m < length (tr j)" "tr j ! m = tr i ! n i"
    by (auto simp: waits_for_def in_set_conv_nth)
  moreover have "n j < length (tr j)" using assms(2) by (simp add: waits_for_def)
  ultimately show ?thesis using assms(3) by (metis sorted_wrt_nth_less)
qed

lemma waits_for_trancl:
  assumes "(i, k) \<in> (waits_for tr n)\<^sup>+" "(k, l) \<in> waits_for tr n" "\<And>i. sorted_wrt (<) (tr i)"
  shows "tr i ! n i < tr k ! n k"
  using assms(1,2)
proof (induction arbitrary: l rule: trancl_induct)
  case (base j)
  then show ?case by (rule waits_for_increases) (rule assms(3))
next
  case (step j k)
  from step.hyps(2) step.prems have "tr j ! n j < tr k ! n k"
    by (rule waits_for_increases) (rule assms(3))
  with step.IH [OF step.hyps(2)] show ?case by (rule less_trans)
qed

subsection \<open>Properties\<close>

text \<open>
  C1. A checkout's deduction succeeds exactly when every line's product exists, every line's
  variant exists and covers all the cart asks of it, and every product covers all the cart asks
  of it; then each product and variant row is reduced by exactly what the lines ask of it and
  nothing else changes.
\<close>

theorem deduct_exact:
  assumes "unique_keys p_id (products d)" "unique_keys v_id (variants d)"
  shows "(\<exists>rs. lockAndDeductStockForCheckout items d = Inr (d', rs)) \<longleftrightarrow>
     d' = move_stock (-1) items d \<and>
     (\<forall>item \<in> set items.
        (\<exists>p. find_row p_id (si_product_id item) (products d) = Some p \<and>
             requested_product items (si_product_id item) \<le> p_stock_quantity p) \<and>
        (\<forall>vid. si_variant_id item = Some vid \<longrightarrow>
           (\<exists>v. find_row v_id vid (variants d) = Some v \<and>
                requested_variant items vid \<le> v_stock_quantity v)))"
proof -
  have "(\<forall>item \<in> set items. line_available items d item) \<and> parent_covers items d \<longleftrightarrow>
     (\<forall>item \<in> set items.
        (\<exists>p. find_row p_id (si_product_id item) (products d) = Some p \<and>
             requested_product items (si_product_id item) \<le> p_stock_quantity p) \<and>
        (\<forall>vid. si_variant_id item = Some vid \<longrightarrow>
           (\<exists>v. find_row v_id vid (variants d) = Some v \<and>
                requested_variant items vid \<le> v_stock_quantity v)))" (is "?code \<longleftrightarrow> ?spec")
  proof
    assume code: ?code
    show ?spec
    proof
      fix item assume item: "item \<in> set items"
      with code obtain p where p: "find_row p_id (si_product_id item) (products d) = Some p"
        and l: "line_available items d item"
        by (auto simp: line_available_def split: option.splits)
      have "requested_product items (p_id p) \<le> p_stock_quantity p"
        using code item find_row_SomeD [OF p] by (auto simp: parent_covers_def)
      then show "(\<exists>p. find_row p_id (si_product_id item) (products d) = Some p \<and>
             requested_product items (si_product_id item) \<le> p_stock_quantity p) \<and>
        (\<forall>vid. si_variant_id item = Some vid \<longrightarrow>
           (\<exists>v. find_row v_id vid (variants d) = Some v \<and>
                requested_variant items vid \<le> v_stock_quantity v))"
        using p l find_row_SomeD [OF p] by (auto simp: line_available_def split: option.splits)
    qed
  next
    assume spec: ?spec
    then have "\<forall>item \<in> set items. line_available items d item"
      by (fastforce simp: line_available_def split: option.splits)
    moreover have "parent_covers items d"
      unfolding parent_covers_def
    proof (intro ballI impI)
      fix p assume p: "p \<in> set (products d)" and "p_id p \<in> si_product_id ` set items"
      then obtain item where "item \<in> set items" "si_product_id item = p_id p" by force
      with spec find_row_in_set [OF assms(1) p]
      show "requested_product items (p_id p) \<le> p_stock_quantity p" by fastforce
    qed
    ultimately show ?code by blast
  qed
  then show ?thesis unfolding deduct_cases [OF assms] by auto
qed

theorem deduct_exact_witness:
  "\<exists>rs. lockAndDeductStockForCheckout
     [\<lparr>si_product_id = 22, si_variant_id = Some 31, si_quantity = 2\<rparr>,
      \<lparr>si_product_id = 21, si_variant_id = None, si_quantity = 5\<rparr>] demo_db
   = Inr (move_stock (-1) [\<lparr>si_product_id = 22, si_variant_id = Some 31, si_quantity = 2\<rparr>,
      \<lparr>si_product_id = 21, si_variant_id = None, si_quantity = 5\<rparr>] demo_db, rs)"
  by (subst deduct_exact)
    (simp_all add: demo_db_def unique_keys_def find_row_def requested_product_def requested_variant_def)

text \<open>
  C17. Cancelling restores what the checkout took: putting the same lines back after a successful
  deduction gives the very database from before, products and variants alike.
\<close>

theorem restock_undoes_deduct:
  assumes "unique_keys p_id (products d)" "unique_keys v_id (variants d)"
    and "\<forall>p \<in> set (products d). 0 \<le> p_stock_quantity p" "\<forall>v \<in> set (variants d). 0 \<le> v_stock_quantity v"
    and "\<forall>item \<in> set items. 0 \<le> si_quantity item"
    and "lockAndDeductStockForCheckout items d = Inr (d', rs)"
  shows "lockAndRestock items d' = Inr d"
proof -
  have d': "d' = move_stock (-1) items d" and cov: "parent_covers items d"
    and avail: "\<forall>item \<in> set items. line_available items d item"
    using assms(6) by (auto simp: deduct_cases [OF assms(1,2)] split: if_splits)
  have "0 \<le> p_stock_quantity (move_product (-1) items p)" if p: "p \<in> set (products d)" for p
    using p cov assms(3) requested_product_none [of "p_id p" items]
    by (cases "p_id p \<in> si_product_id ` set items") (auto simp: move_product_def parent_covers_def)
  moreover have "0 \<le> v_stock_quantity (move_variant (-1) items v)" if v: "v \<in> set (variants d)" for v
  proof (cases "Some (v_id v) \<in> si_variant_id ` set items")
    case True
    then have "v \<in> set (locked_variants items d)" using v by (simp add: in_locked_variants)
    then show ?thesis using no_variant_violation [OF assms(2) avail] by (auto simp: not_less)
  next
    case False
    then show ?thesis using v assms(4) by (simp add: move_variant_def requested_variant_none)
  qed
  ultimately have "lockAndRestock items d' = Inr (move_stock 1 items d')"
    using assms(1,2,5) by (intro restock_cases) (auto simp: d' move_stock_def unique_keys_def comp_def)
  then show ?thesis by (simp add: d' move_stock_inverse)
qed

theorem restock_undoes_deduct_witness:
  "lockAndRestock [\<lparr>si_product_id = 22, si_variant_id = Some 31, si_quantity = 2\<rparr>]
     (move_stock (-1) [\<lparr>si_product_id = 22, si_variant_id = Some 31, si_quantity = 2\<rparr>] demo_db)
   = Inr demo_db"
proof (rule restock_undoes_deduct)
  show "lockAndDeductStockForCheckout [\<lparr>si_product_id = 22, si_variant_id = Some 31, si_quantity = 2\<rparr>] demo_db
    = Inr (move_stock (-1) [\<lparr>si_product_id = 22, si_variant_id = Some 31, si_quantity = 2\<rparr>] demo_db,
       resolve_items [\<lparr>si_product_id = 22, si_variant_id = Some 31, si_quantity = 2\<rparr>]
         (map (move_product (-1) [\<lparr>si_product_id = 22, si_variant_id = Some 31, si_quantity = 2\<rparr>])
           (locked_products [\<lparr>si_product_id = 22, si_variant_id = Some 31, si_quantity = 2\<rparr>] demo_db))
         (map (move_variant (-1) [\<lparr>si_product_id = 22, si_variant_id = Some 31, si_quantity = 2\<rparr>])
           (locked_variants [\<lparr>si_product_id = 22, si_variant_id = Some 31, si_quantity = 2\<rparr>] demo_db)))"
    by (subst deduct_cases)
      (simp_all add: demo_db_def unique_keys_def find_row_def requested_product_def
        requested_variant_def line_available_def parent_covers_def)
qed (simp_all add: demo_db_def unique_keys_def)

text \<open>
  The parent's stock column stays the sum of its variants' through every deduction and every
  restock whose lines name a variant of their product (and none for a product without variants).
\<close>

theorem stock_sync_invariant:
  assumes "unique_keys p_id (products d)" "unique_keys v_id (variants d)"
    and "stock_in_sync d" "\<forall>item \<in> set items. line_fits d item"
  shows "(lockAndDeductStockForCheckout items d = Inr (d', rs) \<longrightarrow> stock_in_sync d')
       \<and> (lockAndRestock items d = Inr d' \<longrightarrow> stock_in_sync d')"
  using move_stock_in_sync [OF assms(2-4)] save_stock_locked [OF assms(1,2)]
  by (auto simp: deduct_cases [OF assms(1,2)] restock_unfold split: if_splits)

theorem stock_sync_invariant_witness:
  "stock_in_sync (move_stock (-1) [\<lparr>si_product_id = 22, si_variant_id = Some 31, si_quantity = 2\<rparr>] demo_db)"
proof -
  let ?items = "[\<lparr>si_product_id = 22, si_variant_id = Some 31, si_quantity = 2\<rparr>]"
  have "unique_keys p_id (products demo_db)" "unique_keys v_id (variants demo_db)"
    "stock_in_sync demo_db" "\<forall>item \<in> set ?items. line_fits demo_db item"
    by (simp_all add: demo_db_def unique_keys_def stock_in_sync_def variants_total_def line_fits_def)
  note inv = stock_sync_invariant [OF this]
  have "\<exists>rs. lockAndDeductStockForCheckout ?items demo_db = Inr (move_stock (-1) ?items demo_db, rs)"
    by (subst deduct_cases)
      (simp_all add: demo_db_def unique_keys_def find_row_def requested_product_def
        requested_variant_def line_available_def parent_covers_def)
  with inv show ?thesis by blast
qed



end
