(* ===== verification/Promotions.thy ===== *)
theory Promotions
  imports Entities Pagination
begin

text \<open>
  \<open>src/backend/src/modules/promotions/promotions.service.ts\<close>: coupons of the platform and of the
  shops, the customers' wallets, and what checkout and cancellation do to them. The clock is
  the argument \<open>now\<close>. Also the lookups of other modules it shares with the rest: the shop of
  a seller (\<open>shops.service.ts\<close>), an owned address and the administrators (\<open>users.service.ts\<close>).
\<close>

subsection \<open>Lookups in shops and users\<close>

definition findOneByUserId :: "uuid \<Rightarrow> db \<Rightarrow> http_error + shop" where
  "findOneByUserId userId d =
     (case find (\<lambda>s. s_seller_id s = userId) (shops d) of
        None \<Rightarrow> Inl (NotFound (CommonMsg ShopOfSellerNotFound))
      | Some s \<Rightarrow> Inr s)"

definition getSellerIdsByShopIds :: "uuid list \<Rightarrow> db \<Rightarrow> uuid \<rightharpoonup> uuid" where
  "getSellerIdsByShopIds shopIds d =
     map_of (map (\<lambda>s. (s_id s, s_seller_id s)) (filter (\<lambda>s. s_id s \<in> set shopIds) (shops d)))"

definition findOwnedAddressOrFail :: "uuid \<Rightarrow> uuid \<Rightarrow> db \<Rightarrow> http_error + address" where
  "findOwnedAddressOrFail userId addressId d =
     (case find (\<lambda>a. a_id a = addressId \<and> a_user_id a = Some userId) (addresses d) of
        None \<Rightarrow> Inl (NotFound (CommonMsg AddressNotFound))
      | Some a \<Rightarrow> Inr a)"

definition findAdminIds :: "db \<Rightarrow> uuid list" where
  "findAdminIds d = map u_id (filter (\<lambda>u. u_role u = RoleAdmin) (users d))"

subsection \<open>Creating and editing coupons\<close>

text \<open>
  A field of an update payload is missing, null or present. \<open>Object.assign\<close> copies the last two,
  and \<open>create\<close> turns a missing field into NULL. Validation by the DTO classes has already
  run: a create payload has its code, type and value.
\<close>

datatype 'a field = Absent | Null | Val 'a

record coupon_dto =
  cd_code :: "string field"
  cd_discount_type :: "discount_type field"
  cd_discount_value :: "rat field"
  cd_min_order_value :: "rat field"
  cd_max_discount_value :: "rat field"
  cd_start_date :: "millis field"
  cd_end_date :: "millis field"
  cd_usage_limit :: "int field"

definition validateCouponPayload :: "coupon_dto \<Rightarrow> http_error option" where
  "validateCouponPayload dto =
     (if cd_discount_type dto = Val Percentage
         \<and> (case cd_discount_value dto of Val v \<Rightarrow> v \<le> 0 \<or> 100 < v | _ \<Rightarrow> False)
      then Some (BadRequest (CouponMsg PercentOutOfRange))
      else case (cd_start_date dto, cd_end_date dto) of
             (Val s, Val e) \<Rightarrow> if e < s then Some (BadRequest (CouponMsg StartAfterEnd)) else None
           | _ \<Rightarrow> None)"

definition to_column :: "'a field \<Rightarrow> 'a option" where
  "to_column f = (case f of Val v \<Rightarrow> Some v | _ \<Rightarrow> None)"

definition assign_field :: "'a field \<Rightarrow> 'a option \<Rightarrow> 'a option" where
  "assign_field f old = (case f of Absent \<Rightarrow> old | Null \<Rightarrow> None | Val v \<Rightarrow> Some v)"

definition dec_field :: "rat field \<Rightarrow> dec2 field" where
  "dec_field f = (case f of Absent \<Rightarrow> Absent | Null \<Rightarrow> Null | Val v \<Rightarrow> Val (dec_of_js v))"

definition coupon_of_dto :: "uuid \<Rightarrow> string \<Rightarrow> coupon_type \<Rightarrow> uuid option \<Rightarrow> coupon_dto \<Rightarrow> coupon" where
  "coupon_of_dto i code ty shop dto =
     \<lparr>c_id = i, c_code = code, c_type = ty, c_shop_id = shop,
      c_discount_type = to_column (cd_discount_type dto),
      c_discount_value = to_column (dec_field (cd_discount_value dto)),
      c_min_order_value = to_column (dec_field (cd_min_order_value dto)),
      c_max_discount_value = to_column (dec_field (cd_max_discount_value dto)),
      c_start_date = to_column (cd_start_date dto), c_end_date = to_column (cd_end_date dto),
      c_usage_limit = to_column (cd_usage_limit dto), c_used_count = 0\<rparr>"

definition insert_coupon :: "string \<Rightarrow> coupon_type \<Rightarrow> uuid option \<Rightarrow> coupon_dto \<Rightarrow> db \<Rightarrow> db \<times> coupon" where
  "insert_coupon code ty shop dto d =
     (let c = coupon_of_dto (next_uuid d) code ty shop dto
      in (d\<lparr>coupons := save_row c_id c (coupons d), next_uuid := Suc (next_uuid d)\<rparr>, c))"

definition createGlobalCoupon :: "string \<Rightarrow> coupon_dto \<Rightarrow> db \<Rightarrow> http_error + (db \<times> coupon)" where
  "createGlobalCoupon code dto d =
     (case validateCouponPayload dto of
        Some e \<Rightarrow> Inl e
      | None \<Rightarrow>
          (case find_row c_code code (coupons d) of
             Some existed \<Rightarrow> Inl (Conflict (CouponMsg (CodeExists code)))
           | None \<Rightarrow> Inr (insert_coupon code GlobalCoupon None dto d)))"

definition getShopBySeller :: "uuid \<Rightarrow> db \<Rightarrow> http_error + shop" where
  "getShopBySeller sellerId d =
     (case findOneByUserId sellerId d of
        Inr shop \<Rightarrow> Inr shop
      | Inl (NotFound r) \<Rightarrow> Inl (Forbidden (CouponMsg SellerHasNoShop))
      | Inl e \<Rightarrow> Inl e)"

definition createShopCoupon :: "uuid \<Rightarrow> string \<Rightarrow> coupon_dto \<Rightarrow> db \<Rightarrow> http_error + (db \<times> coupon)" where
  "createShopCoupon sellerId code dto d =
     (case validateCouponPayload dto of
        Some e \<Rightarrow> Inl e
      | None \<Rightarrow>
          (case getShopBySeller sellerId d of
             Inl e \<Rightarrow> Inl e
           | Inr shop \<Rightarrow>
               (case find_row c_code code (coupons d) of
                  Some existed \<Rightarrow> Inl (Conflict (CouponMsg (CodeExists code)))
                | None \<Rightarrow> Inr (insert_coupon code ShopCoupon (Some (s_id shop)) dto d))))"

text \<open>\<open>opts.sellerId\<close> is absent for an administrator.\<close>

definition getOwnedCoupon :: "uuid \<Rightarrow> uuid option \<Rightarrow> db \<Rightarrow> http_error + coupon" where
  "getOwnedCoupon couponId seller d =
     (case find_row c_id couponId (coupons d) of
        None \<Rightarrow> Inl (NotFound (CouponMsg CouponNotFound))
      | Some c \<Rightarrow>
          (case seller of
             None \<Rightarrow> Inr c
           | Some sellerId \<Rightarrow>
               (case getShopBySeller sellerId d of
                  Inl e \<Rightarrow> Inl e
                | Inr shop \<Rightarrow>
                    if c_type c \<noteq> ShopCoupon \<or> c_shop_id c \<noteq> Some (s_id shop)
                    then Inl (Forbidden (CouponMsg CouponNotOwned)) else Inr c)))"

definition assign_coupon :: "coupon_dto \<Rightarrow> coupon \<Rightarrow> coupon" where
  "assign_coupon dto c = c\<lparr>
     c_discount_type := assign_field (cd_discount_type dto) (c_discount_type c),
     c_discount_value := assign_field (dec_field (cd_discount_value dto)) (c_discount_value c),
     c_min_order_value := assign_field (dec_field (cd_min_order_value dto)) (c_min_order_value c),
     c_max_discount_value := assign_field (dec_field (cd_max_discount_value dto)) (c_max_discount_value c),
     c_start_date := assign_field (cd_start_date dto) (c_start_date c),
     c_end_date := assign_field (cd_end_date dto) (c_end_date c),
     c_usage_limit := assign_field (cd_usage_limit dto) (c_usage_limit c)\<rparr>"

definition updateCoupon :: "uuid \<Rightarrow> coupon_dto \<Rightarrow> uuid option \<Rightarrow> db \<Rightarrow> http_error + (db \<times> coupon)" where
  "updateCoupon couponId dto seller d =
     (case validateCouponPayload dto of
        Some e \<Rightarrow> Inl e
      | None \<Rightarrow>
          (case getOwnedCoupon couponId seller d of
             Inl e \<Rightarrow> Inl e
           | Inr c \<Rightarrow> (let c' = assign_coupon dto c
                       in Inr (d\<lparr>coupons := save_row c_id c' (coupons d)\<rparr>, c'))))"

text \<open>
  Removing a coupon: wallets lose it (\<open>ON DELETE CASCADE\<close>), orders and sub-orders keep their
  snapshot but lose the reference (\<open>ON DELETE SET NULL\<close>).
\<close>

definition remove_coupon :: "uuid \<Rightarrow> db \<Rightarrow> db" where
  "remove_coupon k d = d\<lparr>
     coupons := delete_rows (\<lambda>c. c_id c = k) (coupons d),
     user_coupons := delete_rows (\<lambda>uc. uc_coupon_id uc = k) (user_coupons d),
     orders := map (\<lambda>r. if o_global_coupon_id r = Some k then r\<lparr>o_global_coupon_id := None\<rparr> else r) (orders d),
     sub_orders := map (\<lambda>r. if so_shop_coupon_id r = Some k then r\<lparr>so_shop_coupon_id := None\<rparr> else r)
                     (sub_orders d)\<rparr>"

definition deleteCoupon :: "uuid \<Rightarrow> uuid option \<Rightarrow> db \<Rightarrow> http_error + db" where
  "deleteCoupon couponId seller d =
     (case getOwnedCoupon couponId seller d of
        Inl e \<Rightarrow> Inl e
      | Inr c \<Rightarrow> Inr (remove_coupon (c_id c) d))"

subsection \<open>Listings\<close>

definition listAdmin :: "coupon_type option \<Rightarrow> bool \<Rightarrow> nat option \<Rightarrow> nat option \<Rightarrow> db \<Rightarrow> coupon paginated" where
  "listAdmin ty asc page limit d =
     (let rows = filter (\<lambda>c. case ty of None \<Rightarrow> True | Some t \<Rightarrow> c_type c = t) (coupons d)
      in paginate page limit ((if asc then order_asc else order_desc) c_start_date rows))"

definition listSeller ::
  "uuid \<Rightarrow> bool \<Rightarrow> nat option \<Rightarrow> nat option \<Rightarrow> db \<Rightarrow> http_error + coupon paginated" where
  "listSeller sellerId asc page limit d =
     (case getShopBySeller sellerId d of
        Inl e \<Rightarrow> Inl e
      | Inr shop \<Rightarrow>
          (let rows = filter (\<lambda>c. c_shop_id c = Some (s_id shop)) (coupons d)
           in Inr (paginate page limit ((if asc then order_asc else order_desc) c_start_date rows))))"

definition claimable :: "millis \<Rightarrow> coupon \<Rightarrow> bool" where
  "claimable now c \<longleftrightarrow>
     (case c_start_date c of None \<Rightarrow> True | Some s \<Rightarrow> s \<le> now)
     \<and> (case c_end_date c of None \<Rightarrow> True | Some e \<Rightarrow> now \<le> e)
     \<and> (case c_usage_limit c of None \<Rightarrow> True | Some l \<Rightarrow> c_used_count c < l)"

text \<open>The page with the flag \<open>is_claimed\<close> of each coupon; a guest has claimed none.\<close>

definition listClaimable ::
  "uuid option \<Rightarrow> millis \<Rightarrow> nat option \<Rightarrow> nat option \<Rightarrow> db \<Rightarrow> (coupon \<times> bool) paginated" where
  "listClaimable userId now page limit d =
     (let result = paginate page limit (order_asc c_end_date (filter (claimable now) (coupons d)));
          ids = map c_id (pg_items result);
          claimed = (case userId of
                       None \<Rightarrow> []
                     | Some u \<Rightarrow> map uc_coupon_id
                         (filter (\<lambda>uc. uc_user_id uc = u \<and> uc_coupon_id uc \<in> set ids) (user_coupons d)))
      in \<lparr>pg_items = map (\<lambda>c. (c, c_id c \<in> set claimed)) (pg_items result),
          pg_page = pg_page result, pg_limit = pg_limit result,
          pg_totalItems = pg_totalItems result, pg_totalPages = pg_totalPages result\<rparr>)"

definition getWallet :: "uuid \<Rightarrow> nat option \<Rightarrow> nat option \<Rightarrow> db \<Rightarrow> user_coupon paginated" where
  "getWallet userId page limit d =
     (let rows = filter (\<lambda>uc. uc_user_id uc = userId) (user_coupons d);
          by_end = order_asc (\<lambda>uc. Option.bind (find_row c_id (uc_coupon_id uc) (coupons d)) c_end_date)
      in paginate page limit
           (by_end (filter (\<lambda>uc. \<not> uc_is_used uc) rows) @ by_end (filter uc_is_used rows)))"

subsection \<open>Claiming, and the wallet\<close>

definition claimCoupon :: "uuid \<Rightarrow> uuid \<Rightarrow> millis \<Rightarrow> db \<Rightarrow> http_error + (db \<times> user_coupon)" where
  "claimCoupon userId couponId now d =
     (case find_row c_id couponId (coupons d) of
        None \<Rightarrow> Inl (NotFound (CouponMsg CouponNotFound))
      | Some c \<Rightarrow>
          if (case c_end_date c of None \<Rightarrow> False | Some e \<Rightarrow> e < now)
          then Inl (BadRequest (CouponMsg CouponExpired))
          else if (case c_usage_limit c of None \<Rightarrow> False | Some l \<Rightarrow> l \<le> c_used_count c)
          then Inl (BadRequest (CouponMsg CouponExhausted))
          else if \<exists>uc \<in> set (user_coupons d). uc_user_id uc = userId \<and> uc_coupon_id uc = couponId
          then Inl (Conflict (CouponMsg CouponAlreadyClaimed))
          else
            let uc = \<lparr>uc_id = next_uuid d, uc_user_id = userId, uc_coupon_id = couponId,
                      uc_is_used = False, uc_used_at = None\<rparr>
            in Inr (d\<lparr>user_coupons := save_row uc_id uc (user_coupons d),
                      next_uuid := Suc (next_uuid d)\<rparr>, uc))"

definition markWalletUsed :: "uuid \<Rightarrow> uuid \<Rightarrow> millis \<Rightarrow> db \<Rightarrow> db" where
  "markWalletUsed userId couponId now d =
     d\<lparr>user_coupons := map (\<lambda>uc. if uc_user_id uc = userId \<and> uc_coupon_id uc = couponId \<and> \<not> uc_is_used uc
                                 then uc\<lparr>uc_is_used := True, uc_used_at := Some now\<rparr> else uc)
                          (user_coupons d)\<rparr>"

definition markWalletUnused :: "uuid \<Rightarrow> uuid \<Rightarrow> db \<Rightarrow> db" where
  "markWalletUnused userId couponId d =
     d\<lparr>user_coupons := map (\<lambda>uc. if uc_user_id uc = userId \<and> uc_coupon_id uc = couponId
                                 then uc\<lparr>uc_is_used := False, uc_used_at := None\<rparr> else uc)
                          (user_coupons d)\<rparr>"

subsection \<open>Checkout support\<close>

text \<open>\<open>code.trim() === ''\<close>.\<close>

definition js_space :: "char \<Rightarrow> bool" where
  "js_space c \<longleftrightarrow> (of_char c :: nat) \<in> {9, 10, 11, 12, 13, 32, 160}"

definition blank_code :: "string option \<Rightarrow> bool" where
  "blank_code code = (case code of None \<Rightarrow> True | Some s \<Rightarrow> list_all js_space s)"

definition check_coupon ::
  "string \<Rightarrow> coupon_type \<Rightarrow> uuid option \<Rightarrow> rat \<Rightarrow> millis \<Rightarrow> coupon \<Rightarrow> coupon_reason option" where
  "check_coupon code expectedType shopId subtotal now c =
     (if c_type c \<noteq> expectedType then Some (CodeWrongType code)
      else if expectedType = ShopCoupon \<and> (c_shop_id c = None \<or> c_shop_id c \<noteq> shopId)
      then Some (CodeWrongShop code)
      else if (case c_start_date c of None \<Rightarrow> False | Some s \<Rightarrow> now < s) then Some (CodeNotYetActive code)
      else if (case c_end_date c of None \<Rightarrow> False | Some e \<Rightarrow> e < now) then Some (CodeExpired code)
      else if (case c_usage_limit c of None \<Rightarrow> False | Some l \<Rightarrow> l \<le> c_used_count c)
      then Some (CodeExhausted code)
      else if (case c_min_order_value c of None \<Rightarrow> False | Some m \<Rightarrow> subtotal < js_of_dec m)
      then Some (BelowMinimum code)
      else None)"

definition lockAndValidateCoupon ::
  "string option \<Rightarrow> coupon_type \<Rightarrow> uuid option \<Rightarrow> rat \<Rightarrow> millis \<Rightarrow> db \<Rightarrow> http_error + coupon option" where
  "lockAndValidateCoupon codeo expectedType shopId subtotal now d =
     (if blank_code codeo then Inr None
      else
        let code = the codeo
        in case find_row c_code code (coupons d) of
             None \<Rightarrow> Inl (BadRequest (CouponMsg (CodeUnknown code)))
           | Some lockedRow \<Rightarrow>
               (case find_row c_id (c_id lockedRow) (coupons d) of
                  None \<Rightarrow> Inl (BadRequest (CouponMsg (CodeUnknown code)))
                | Some c \<Rightarrow>
                    (case check_coupon code expectedType shopId subtotal now c of
                       Some r \<Rightarrow> Inl (BadRequest (CouponMsg r))
                     | None \<Rightarrow> Inr (Some c))))"

text \<open>The entity object the checkout holds is incremented and saved.\<close>

definition consumeCoupon :: "coupon \<Rightarrow> db \<Rightarrow> db" where
  "consumeCoupon c d =
     d\<lparr>coupons := save_row c_id (c\<lparr>c_used_count := c_used_count c + 1\<rparr>) (coupons d)\<rparr>"

definition releaseCoupon :: "uuid \<Rightarrow> db \<Rightarrow> db" where
  "releaseCoupon couponId d =
     (case find_row c_id couponId (coupons d) of
        None \<Rightarrow> d
      | Some c \<Rightarrow>
          d\<lparr>coupons := save_row c_id (c\<lparr>c_used_count := max 0 (c_used_count c - 1)\<rparr>) (coupons d)\<rparr>)"

subsection \<open>Bounds on the usage counter\<close>

definition usage_ok :: "coupon \<Rightarrow> bool" where
  "usage_ok c \<longleftrightarrow> 0 \<le> c_used_count c
     \<and> (case c_usage_limit c of None \<Rightarrow> True | Some l \<Rightarrow> c_used_count c \<le> l)"

definition coupons_ok :: "db \<Rightarrow> bool" where
  "coupons_ok d \<longleftrightarrow> unique_keys c_id (coupons d) \<and> unique_keys c_code (coupons d)
     \<and> (\<forall>c \<in> set (coupons d). usage_ok c)"

lemma usage_ok_save:
  "\<forall>c \<in> set t. usage_ok c \<Longrightarrow> usage_ok r \<Longrightarrow> \<forall>c \<in> set (save_row key r t). usage_ok c"
  using set_save_row_subset [of key r t] by auto

lemma coupons_ok_save:
  assumes "coupons_ok d" "find_row c_id (c_id r) (coupons d) = Some old" "c_code r = c_code old" "usage_ok r"
  shows "coupons_ok (d\<lparr>coupons := save_row c_id r (coupons d)\<rparr>)"
proof -
  have "map c_code (save_row c_id r (coupons d)) = map c_code (coupons d)"
    using assms by (intro map_save_same) (auto simp: coupons_ok_def)
  then show ?thesis
    using assms usage_ok_save [of "coupons d" r c_id]
    by (simp add: coupons_ok_def unique_keys_save) (simp add: unique_keys_def)
qed

lemma validated_coupon:
  assumes "lockAndValidateCoupon codeo ty shop sub now d = Inr (Some c)"
  shows "find_row c_id (c_id c) (coupons d) = Some c \<and> \<not> blank_code codeo
       \<and> check_coupon (the codeo) ty shop sub now c = None"
  using assms find_row_SomeD
  by (fastforce simp: lockAndValidateCoupon_def Let_def split: if_splits option.splits)

lemma check_coupon_limit:
  "check_coupon code ty shop sub now c = None \<Longrightarrow> c_usage_limit c = Some l \<Longrightarrow> c_used_count c < l"
  by (auto simp: check_coupon_def split: if_splits)

text \<open>Redeeming a coupon: the row is locked between the check and the increment.\<close>

lemma redeem_ok:
  assumes "coupons_ok d" "lockAndValidateCoupon codeo ty shop sub now d = Inr (Some c)"
    and "coupons d' = coupons d"
  shows "coupons_ok (consumeCoupon c d')"
proof -
  from validated_coupon [OF assms(2)] have f: "find_row c_id (c_id c) (coupons d) = Some c"
    and chk: "check_coupon (the codeo) ty shop sub now c = None" by auto
  have "usage_ok c" using assms(1) find_row_SomeD [OF f] by (auto simp: coupons_ok_def)
  then have "usage_ok (c\<lparr>c_used_count := c_used_count c + 1\<rparr>)"
    using check_coupon_limit [OF chk] by (auto simp: usage_ok_def split: option.splits)
  moreover have "coupons_ok d'" using assms(1,3) by (simp add: coupons_ok_def)
  ultimately show ?thesis
    unfolding consumeCoupon_def using f assms(3) by (intro coupons_ok_save) auto
qed

lemma release_ok:
  assumes "coupons_ok d" shows "coupons_ok (releaseCoupon k d)"
proof (cases "find_row c_id k (coupons d)")
  case (Some c)
  then have "c_id c = k" "usage_ok c"
    using assms find_row_SomeD [OF Some] by (auto simp: coupons_ok_def)
  then have "usage_ok (c\<lparr>c_used_count := max 0 (c_used_count c - 1)\<rparr>)"
    by (auto simp: usage_ok_def split: option.splits)
  with \<open>c_id c = k\<close> show ?thesis
    unfolding releaseCoupon_def using Some assms by (auto intro!: coupons_ok_save)
qed (use assms in \<open>simp add: releaseCoupon_def\<close>)

lemma remove_ok: "coupons_ok d \<Longrightarrow> coupons_ok (remove_coupon k d)"
  by (auto simp: coupons_ok_def remove_coupon_def unique_keys_delete)

lemma insert_ok:
  assumes "coupons_ok d" "fresh_keys c_id (coupons d) (next_uuid d)"
    and "find_row c_code code (coupons d) = None"
    and "\<forall>l. cd_usage_limit dto = Val l \<longrightarrow> 1 \<le> l"
  shows "coupons_ok (fst (insert_coupon code ty shop dto d))"
proof -
  let ?c = "coupon_of_dto (next_uuid d) code ty shop dto"
  have "c_id ?c \<notin> set (map c_id (coupons d))"
    using assms(2) by (auto simp: coupon_of_dto_def fresh_keys_def)
  then have new: "save_row c_id ?c (coupons d) = coupons d @ [?c]" by (simp add: save_row_def)
  have "usage_ok ?c"
    using assms(4) by (auto simp: usage_ok_def coupon_of_dto_def to_column_def split: field.splits)
  moreover have "c_code ?c \<notin> set (map c_code (coupons d))"
    using assms(3) by (simp add: find_row_None_iff coupon_of_dto_def)
  ultimately show ?thesis
    using assms(1) \<open>c_id ?c \<notin> set (map c_id (coupons d))\<close> new
    by (auto simp: coupons_ok_def insert_coupon_def Let_def unique_keys_def)
qed

lemma created_ok:
  assumes "coupons_ok d" "fresh_keys c_id (coupons d) (next_uuid d)"
    and "\<forall>l. cd_usage_limit dto = Val l \<longrightarrow> 1 \<le> l"
  shows "createGlobalCoupon code dto d = Inr (d', c) \<Longrightarrow> coupons_ok d'"
    and "createShopCoupon sellerId code dto d = Inr (d', c) \<Longrightarrow> coupons_ok d'"
  using insert_ok [OF assms(1,2) _ assms(3)]
  by (auto simp: createGlobalCoupon_def createShopCoupon_def split: option.splits sum.splits)
    (metis fst_conv)+

lemma release_consume:
  assumes "coupons_ok d" "find_row c_id (c_id c) (coupons d) = Some c"
  shows "releaseCoupon (c_id c) (consumeCoupon c d) = d"
proof -
  have "0 \<le> c_used_count c"
    using assms find_row_SomeD [OF assms(2)] by (auto simp: coupons_ok_def usage_ok_def)
  then show ?thesis
    using assms save_row_self [of c_id "coupons d" c]
    by (simp add: releaseCoupon_def consumeCoupon_def find_row_save save_row_twice coupons_ok_def)
qed

subsection \<open>Properties\<close>



text \<open>
  C25. What checkout accepts as a coupon: a code is honoured exactly when it names a coupon of the
  expected type (and of this very shop for a shop code), now lies in its time window, it has a
  use left and the subtotal reaches its minimum; a blank code means no coupon.
\<close>

theorem validate_coupon_exact:
  assumes "unique_keys c_id (coupons d)" "unique_keys c_code (coupons d)" "\<not> blank_code (Some code)"
  shows "lockAndValidateCoupon (Some code) ty shop sub now d = Inr (Some c) \<longleftrightarrow>
     c \<in> set (coupons d) \<and> c_code c = code \<and> c_type c = ty
     \<and> (ty = ShopCoupon \<longrightarrow> c_shop_id c \<noteq> None \<and> c_shop_id c = shop)
     \<and> (\<forall>s. c_start_date c = Some s \<longrightarrow> s \<le> now) \<and> (\<forall>e. c_end_date c = Some e \<longrightarrow> now \<le> e)
     \<and> (\<forall>l. c_usage_limit c = Some l \<longrightarrow> c_used_count c < l)
     \<and> (\<forall>m. c_min_order_value c = Some m \<longrightarrow> js_of_dec m \<le> sub)"
    (is "?code \<longleftrightarrow> c \<in> set (coupons d) \<and> c_code c = code \<and> ?ok")
proof -
  have chk: "check_coupon code ty shop sub now c = None \<longleftrightarrow> ?ok"
    by (auto simp: check_coupon_def split: if_splits option.splits)
  have "?code \<longleftrightarrow> find_row c_code code (coupons d) = Some c \<and> check_coupon code ty shop sub now c = None"
  proof
    assume ?code
    then obtain l where l: "find_row c_code code (coupons d) = Some l"
      "find_row c_id (c_id l) (coupons d) = Some c" "check_coupon code ty shop sub now c = None"
      using assms(3) by (auto simp: lockAndValidateCoupon_def Let_def split: option.splits)
    with find_row_in_set [OF assms(1)] find_row_SomeD [OF l(1)]
    show "find_row c_code code (coupons d) = Some c \<and> check_coupon code ty shop sub now c = None" by auto
  next
    assume "find_row c_code code (coupons d) = Some c \<and> check_coupon code ty shop sub now c = None"
    moreover from this have "find_row c_id (c_id c) (coupons d) = Some c"
      using find_row_in_set [OF assms(1)] by (auto dest: find_row_SomeD)
    ultimately show ?code using assms(3) by (simp add: lockAndValidateCoupon_def)
  qed
  moreover have "find_row c_code code (coupons d) = Some c \<longleftrightarrow> c \<in> set (coupons d) \<and> c_code c = code"
    using find_row_in_set [OF assms(2)] by (auto dest: find_row_SomeD)
  ultimately show ?thesis using chk by blast
qed

theorem validate_coupon_exact_witness:
  "lockAndValidateCoupon (Some ''SHOPA'') ShopCoupon (Some 11) 5 0 demo_db
     = Inr (Some (coupons demo_db ! 1))"
  by (subst validate_coupon_exact)
    (auto simp: demo_db_def unique_keys_def blank_code_def js_space_def)

text \<open>
  Giving a use back is the inverse of taking it: after a validated coupon was consumed, its
  release restores the coupon table exactly.
\<close>

theorem release_undoes_consume:
  assumes "coupons_ok d" "lockAndValidateCoupon codeo ty shop sub now d = Inr (Some c)"
  shows "releaseCoupon (c_id c) (consumeCoupon c d) = d"
  using assms validated_coupon release_consume by blast

theorem release_undoes_consume_witness:
  "releaseCoupon 52 (consumeCoupon (coupons demo_db ! 1) demo_db) = demo_db"
  using release_undoes_consume [of demo_db "Some ''SHOPA''" ShopCoupon "Some 11" 5 0 "coupons demo_db ! 1"]
  by (simp add: demo_db_def coupons_ok_def usage_ok_def unique_keys_def lockAndValidateCoupon_def
      check_coupon_def find_row_def blank_code_def js_space_def)

text \<open>
  The percentage check looks at the payload and not at the coupon: an update that sends a new
  value without the type is accepted whatever the value, and leaves a percentage coupon with it.
\<close>

theorem percentage_check_bypassed:
  assumes "find_row c_id k (coupons d) = Some c" "c_discount_type c = Some Percentage"
    and "dto = \<lparr>cd_code = Absent, cd_discount_type = Absent, cd_discount_value = Val v,
                cd_min_order_value = Absent, cd_max_discount_value = Absent, cd_start_date = Absent,
                cd_end_date = Absent, cd_usage_limit = Absent\<rparr>"
  shows "\<exists>d' c'. updateCoupon k dto None d = Inr (d', c') \<and> find_row c_id k (coupons d') = Some c'
      \<and> c_discount_type c' = Some Percentage \<and> c_discount_value c' = Some (dec_of_js v)"
  using assms find_row_SomeD [OF assms(1)]
  by (simp add: updateCoupon_def validateCouponPayload_def getOwnedCoupon_def Let_def
      assign_coupon_def assign_field_def dec_field_def find_row_save)

theorem percentage_check_bypassed_witness:
  "\<exists>d' c'. updateCoupon 51 \<lparr>cd_code = Absent, cd_discount_type = Absent, cd_discount_value = Val 500,
                cd_min_order_value = Absent, cd_max_discount_value = Absent, cd_start_date = Absent,
                cd_end_date = Absent, cd_usage_limit = Absent\<rparr> None demo_db = Inr (d', c')
     \<and> find_row c_id 51 (coupons d') = Some c'
     \<and> c_discount_type c' = Some Percentage \<and> c_discount_value c' = Some (dec_of_js 500)"
  by (rule percentage_check_bypassed [where c = "coupons demo_db ! 0", OF _ _ refl]) (simp_all add: demo_db_def find_row_def)

end
