(* ===== verification/ShippingFee.thy ===== *)
theory ShippingFee
  imports Entities
begin

text \<open>
  \<open>src/backend/src/modules/orders/haversine-shipping.calculator.ts\<close>, with the constants of
  \<open>common/constants/shipping.constants.ts\<close>, and the interface \<open>IShippingCalculator\<close> the checkout
  depends on. A number that may be NaN is an option, \<open>None\<close> the NaN. The functions of \<open>Math\<close>
  whose last digits ECMA-262 leaves to the implementation are a parameter.
\<close>

record js_math =
  math_sin :: "rat \<Rightarrow> rat"
  math_cos :: "rat \<Rightarrow> rat"
  math_sqrt :: "rat \<Rightarrow> rat option"
  math_atan2 :: "rat \<Rightarrow> rat \<Rightarrow> rat"

definition math_PI :: rat where
  "math_PI = 884279719003555 / 281474976710656"

record shop_shipping_info =
  ss_lat :: "coord option"
  ss_lng :: "coord option"
  ss_is_coordinates_verified :: bool

record coordinate =
  co_lat :: "coord option"
  co_lng :: "coord option"

subsection \<open>Constants\<close>

definition base_fee :: rat where "base_fee = 15000"
definition rate_per_km :: rat where "rate_per_km = 3000"
definition base_distance_km :: rat where "base_distance_km = 2"
definition max_shipping_fee :: rat where "max_shipping_fee = 150000"
definition distance_correction_factor :: rat where "distance_correction_factor = fl (13 / 10)"
definition fallback_fee :: rat where "fallback_fee = 30000"
definition earth_radius_km :: rat where "earth_radius_km = 6371"
definition rounding_factor :: rat where "rounding_factor = 1000"

subsection \<open>The calculator\<close>

text \<open>\<open>parseFloat\<close> of a \<open>decimal(10,6)\<close> column, or of the empty string that stands for NULL.\<close>

definition parse_coord :: "coord option \<Rightarrow> rat option" where
  "parse_coord c = map_option (\<lambda>k. fl (of_int k / 1000000)) c"

definition isValidCoordinate :: "rat option \<Rightarrow> rat option \<Rightarrow> bool" where
  "isValidCoordinate lat lng =
     (case (lat, lng) of
        (Some la, Some lo) \<Rightarrow> -90 \<le> la \<and> la \<le> 90 \<and> -180 \<le> lo \<and> lo \<le> 180
      | _ \<Rightarrow> False)"

definition to_rad :: "rat \<Rightarrow> rat" where
  "to_rad deg = js_div (js_mul deg math_PI) 180"

definition haversine_a :: "js_math \<Rightarrow> rat \<Rightarrow> rat \<Rightarrow> rat \<Rightarrow> rat \<Rightarrow> rat" where
  "haversine_a M shopLat shopLng destLat destLng =
     (let halfDiffLatRad = js_div (to_rad (js_sub destLat shopLat)) 2;
          halfDiffLngRad = js_div (to_rad (js_sub destLng shopLng)) 2;
          sinHalfDiffLat = math_sin M halfDiffLatRad;
          sinHalfDiffLng = math_sin M halfDiffLngRad;
          cosShopLatRad = math_cos M (to_rad shopLat);
          cosDestLatRad = math_cos M (to_rad destLat)
      in js_add (js_mul sinHalfDiffLat sinHalfDiffLat)
           (js_mul (js_mul (js_mul cosShopLatRad cosDestLatRad) sinHalfDiffLng) sinHalfDiffLng))"

definition raw_distance :: "js_math \<Rightarrow> rat \<Rightarrow> rat option" where
  "raw_distance M a =
     (case (math_sqrt M a, math_sqrt M (js_sub 1 a)) of
        (Some sqrtA, Some sqrtOneMinusA) \<Rightarrow>
          Some (js_mul earth_radius_km (js_mul 2 (math_atan2 M sqrtA sqrtOneMinusA)))
      | _ \<Rightarrow> None)"

definition fee_of_distance :: "rat \<Rightarrow> rat" where
  "fee_of_distance rawDistance =
     (let correctedDistance = js_mul rawDistance distance_correction_factor;
          fee = (if correctedDistance \<le> base_distance_km then base_fee
                 else let extraDistance = js_sub correctedDistance base_distance_km;
                          extraFee = js_mul extraDistance rate_per_km
                      in js_add base_fee extraFee);
          fee = min fee max_shipping_fee;
          roundedFeeUnit = js_round (js_div fee rounding_factor)
      in js_mul roundedFeeUnit rounding_factor)"

definition calculateShippingFee ::
  "js_math \<Rightarrow> shop_shipping_info option \<Rightarrow> coordinate option \<Rightarrow> rat \<Rightarrow> rat option" where
  "calculateShippingFee M shop destination subtotal =
     (if of_int free_shipping_threshold \<le> subtotal then Some 0
      else case (shop, destination) of
        (Some s, Some dest) \<Rightarrow>
          if \<not> ss_is_coordinates_verified s then Some fallback_fee
          else
            let shopLat = parse_coord (ss_lat s); shopLng = parse_coord (ss_lng s);
                destLat = parse_coord (co_lat dest); destLng = parse_coord (co_lng dest)
            in if \<not> isValidCoordinate shopLat shopLng \<or> \<not> isValidCoordinate destLat destLng
               then Some fallback_fee
               else map_option fee_of_distance
                      (raw_distance M (haversine_a M (the shopLat) (the shopLng) (the destLat) (the destLng)))
      | _ \<Rightarrow> Some fallback_fee)"

subsection \<open>The interface\<close>

text \<open>
  \<open>IShippingCalculator\<close>: a fee of a whole number of dong within the cap, none from the free
  shipping threshold on. The checkout is proved against these laws only.
\<close>

locale shipping_calculator =
  fixes fee :: "shop_shipping_info option \<Rightarrow> coordinate option \<Rightarrow> rat \<Rightarrow> rat option"
  assumes free_from_threshold: "of_int free_shipping_threshold \<le> subtotal \<Longrightarrow> fee shop dest subtotal = Some 0"
    and fee_whole: "fee shop dest subtotal = Some f \<Longrightarrow> \<exists>k. f = of_int k \<and> 0 \<le> k \<and> k \<le> 150000"
begin

lemma fee_nonneg: "fee shop dest subtotal = Some f \<Longrightarrow> 0 \<le> f"
  using fee_whole by fastforce

text \<open>A fee is a number of hundredths, so it survives its column.\<close>

lemma fee_column:
  assumes "fee shop dest subtotal = Some f"
  shows "\<exists>k. 0 \<le> k \<and> k \<le> 15000000 \<and> f = js_of_dec k \<and> dec_of_js f = k"
proof -
  from fee_whole [OF assms] obtain k where k: "f = of_int k" "0 \<le> k" "k \<le> 150000" by blast
  then have "js_of_dec (k * 100) = f" by (simp add: js_of_dec_def fl_of_int)
  moreover from this have "dec_of_js f = k * 100"
    using k dec_of_js_of_dec [of "k * 100"] by (simp add: dec_bound_def)
  ultimately show ?thesis using k by (intro exI [of _ "k * 100"]) auto
qed

end

subsection \<open>The calculator meets the interface\<close>

lemma constants:
  "fl base_fee = base_fee" "fl base_distance_km = base_distance_km" "0 < base_fee"
  by (simp_all add: base_fee_def base_distance_km_def)

lemma fee_before_rounding:
  assumes "fee = (if c \<le> base_distance_km then base_fee
     else js_add base_fee (js_mul (js_sub c base_distance_km) rate_per_km))"
  shows "base_fee \<le> fee"
proof (cases "c \<le> base_distance_km")
  case False
  then have "0 \<le> js_mul (js_sub c base_distance_km) rate_per_km"
    by (simp add: js_mul_def js_sub_def rate_per_km_def fl_nonneg)
  then have "fl base_fee \<le> js_add base_fee (js_mul (js_sub c base_distance_km) rate_per_km)"
    unfolding js_add_def by (intro fl_mono) simp
  with False assms show ?thesis by (simp add: constants)
qed (use assms in simp)

definition round_fee :: "rat \<Rightarrow> rat" where
  "round_fee fee = js_mul (js_round (js_div (min fee max_shipping_fee) rounding_factor)) rounding_factor"

lemma round_fee_whole:
  assumes "base_fee \<le> fee"
  shows "\<exists>k. round_fee fee = 1000 * of_int k \<and> 15 \<le> k \<and> k \<le> 150"
proof -
  define k where "k = \<lfloor>js_div (min fee max_shipping_fee) rounding_factor + 1/2\<rfloor>"
  have q: "15 \<le> js_div (min fee max_shipping_fee) rounding_factor"
    "js_div (min fee max_shipping_fee) rounding_factor \<le> 150"
  proof -
    have "fl 15 \<le> js_div (min fee max_shipping_fee) rounding_factor"
      unfolding js_div_def using assms
      by (intro fl_mono) (simp add: base_fee_def max_shipping_fee_def rounding_factor_def)
    then show "15 \<le> js_div (min fee max_shipping_fee) rounding_factor" by simp
    have "js_div (min fee max_shipping_fee) rounding_factor \<le> fl 150"
      unfolding js_div_def
      by (intro fl_mono) (simp add: max_shipping_fee_def rounding_factor_def min_def)
    then show "js_div (min fee max_shipping_fee) rounding_factor \<le> 150" by simp
  qed
  have k: "15 \<le> k" "k \<le> 150"
    using q unfolding k_def by (simp_all add: le_floor_iff floor_le_iff)
  have "round_fee fee = fl (of_int (k * 1000))"
    by (simp add: round_fee_def js_round_def k_def js_mul_def rounding_factor_def)
  also have "\<dots> = of_int (k * 1000)" using k by (intro fl_of_int) simp
  finally show ?thesis using k by (intro exI [of _ k]) simp
qed

lemma fee_of_distance_alt:
  "fee_of_distance r = round_fee (let c = js_mul r distance_correction_factor in
     if c \<le> base_distance_km then base_fee
     else js_add base_fee (js_mul (js_sub c base_distance_km) rate_per_km))"
  by (simp add: fee_of_distance_def round_fee_def Let_def)

lemma fee_of_distance_whole:
  "\<exists>k. fee_of_distance r = 1000 * of_int k \<and> 15 \<le> k \<and> k \<le> 150"
  unfolding fee_of_distance_alt Let_def by (rule round_fee_whole, rule fee_before_rounding, rule refl)

lemma fee_cases:
  assumes "calculateShippingFee M shop dest sub = Some f" "sub < of_int free_shipping_threshold"
  shows "\<exists>k. f = 1000 * of_int k \<and> 15 \<le> k \<and> k \<le> 150"
proof -
  have "\<exists>k. fallback_fee = 1000 * of_int k \<and> 15 \<le> k \<and> k \<le> 150"
    by (intro exI [of _ 30]) (simp add: fallback_fee_def)
  then show ?thesis
    using assms fee_of_distance_whole
    by (auto simp: calculateShippingFee_def Let_def split: option.splits if_splits)
qed

interpretation haversine: shipping_calculator "calculateShippingFee M" for M
proof
  fix shop dest subtotal f
  assume f: "calculateShippingFee M shop dest subtotal = Some f"
  show "\<exists>k. f = of_int k \<and> 0 \<le> k \<and> k \<le> 150000"
  proof (cases "of_int free_shipping_threshold \<le> subtotal")
    case True
    with f show ?thesis by (intro exI [of _ 0]) (simp add: calculateShippingFee_def)
  next
    case False
    with fee_cases [OF f] obtain k where "f = 1000 * of_int k" "15 \<le> k" "k \<le> 150" by auto
    then show ?thesis by (intro exI [of _ "1000 * k"]) simp
  qed
qed (simp add: calculateShippingFee_def)

lemma fee_of_distance_mono: "r \<le> s \<Longrightarrow> fee_of_distance r \<le> fee_of_distance s"
proof -
  define fee where "fee c = (if c \<le> base_distance_km then base_fee
     else js_add base_fee (js_mul (js_sub c base_distance_km) rate_per_km))" for c
  assume "r \<le> s"
  then have c: "js_mul r distance_correction_factor \<le> js_mul s distance_correction_factor"
    (is "?c \<le> ?d")
    unfolding js_mul_def by (intro fl_mono mult_right_mono) (simp_all add: distance_correction_factor_def fl_nonneg)
  have "fee ?c \<le> fee ?d"
  proof (cases "?c \<le> base_distance_km")
    case True
    then show ?thesis using fee_before_rounding [OF fee_def [of ?d]] by (simp add: fee_def)
  next
    case False
    with c have "\<not> ?d \<le> base_distance_km" by simp
    with False c show ?thesis
      unfolding fee_def js_add_def js_mul_def js_sub_def
      by (simp add: rate_per_km_def fl_mono)
  qed
  then have "round_fee (fee ?c) \<le> round_fee (fee ?d)"
    unfolding round_fee_def js_mul_def js_div_def
    by (intro fl_mono mult_right_mono js_round_mono divide_right_mono min.mono)
      (simp_all add: rounding_factor_def)
  then show ?thesis by (simp add: fee_of_distance_alt fee_def Let_def)
qed

lemma haversine_a_nonneg:
  assumes "\<forall>x. \<bar>x\<bar> \<le> to_rad 90 \<longrightarrow> 0 \<le> math_cos M x"
    and "\<bar>la1\<bar> \<le> 90" "\<bar>la2\<bar> \<le> 90"
  shows "0 \<le> haversine_a M la1 lo1 la2 lo2"
proof -
  have mono: "x \<le> y \<Longrightarrow> to_rad x \<le> to_rad y" for x y
    unfolding to_rad_def js_div_def js_mul_def
    by (intro fl_mono divide_right_mono mult_right_mono) (auto simp: math_PI_def)
  have neg: "to_rad (- x) = - to_rad x" for x
    by (simp add: to_rad_def js_div_def js_mul_def fl_minus)
  have bnd: "\<bar>to_rad x\<bar> \<le> to_rad 90" if "\<bar>x\<bar> \<le> 90" for x
    using that mono [of x 90] mono [of "-90" x] neg [of 90] by (simp add: abs_le_iff)
  have "0 \<le> math_cos M (to_rad la1)" "0 \<le> math_cos M (to_rad la2)"
    using assms bnd by blast+
  then have c: "0 \<le> js_mul (math_cos M (to_rad la1)) (math_cos M (to_rad la2))"
    by (simp add: js_mul_def fl_nonneg)
  have sq: "0 \<le> js_mul (js_mul c s) s" if "0 \<le> c" for c s
  proof (cases "0 \<le> s")
    case True
    then show ?thesis using that by (simp add: js_mul_def fl_nonneg)
  next
    case False
    then have "js_mul c s \<le> 0" using that by (simp add: js_mul_def fl_nonpos mult_nonneg_nonpos)
    then show ?thesis using False by (simp add: js_mul_def fl_nonneg mult_nonpos_nonpos)
  qed
  have s1: "0 \<le> js_mul s s" for s by (simp add: js_mul_def fl_nonneg)
  show ?thesis
    unfolding haversine_a_def Let_def js_add_def
    by (intro fl_nonneg add_nonneg_nonneg sq s1 c)
qed

subsection \<open>Properties\<close>

text \<open>
  The fee a customer can be charged: nothing from the free shipping threshold on, and below it
  a whole number of thousands of dong between 15 and 150, whatever the coordinates, the fallback
  and the precision of the trigonometric functions.
\<close>

theorem shipping_fee_range:
  assumes "calculateShippingFee M shop dest subtotal = Some f"
  shows "if of_int free_shipping_threshold \<le> subtotal then f = 0
         else \<exists>k. f = 1000 * of_int k \<and> 15 \<le> k \<and> k \<le> 150"
  using assms fee_cases [OF assms] by (auto simp: calculateShippingFee_def)

theorem shipping_fee_range_witness:
  "if of_int free_shipping_threshold \<le> (100000 :: rat) then (30000 :: rat) = 0
   else \<exists>k. (30000 :: rat) = 1000 * of_int k \<and> 15 \<le> k \<and> k \<le> 150"
  by (rule shipping_fee_range [where shop = None and dest = None])
    (simp add: calculateShippingFee_def fallback_fee_def free_shipping_threshold_def)

text \<open>
  The fee never falls with distance, and it is NaN only when rounding pushes the haversine
  term of two valid positions above 1 (then \<open>Math.sqrt\<close> gets a negative argument): with a square
  root defined on nonnegative numbers and a cosine nonnegative up to a right angle, every
  other input has a fee.
\<close>

theorem shipping_fee_defined:
  assumes "\<forall>x \<ge> 0. math_sqrt M x \<noteq> None" "\<forall>x. \<bar>x\<bar> \<le> to_rad 90 \<longrightarrow> 0 \<le> math_cos M x"
  shows "(r \<le> s \<longrightarrow> fee_of_distance r \<le> fee_of_distance s) \<and>
    (calculateShippingFee M shop dest subtotal = None \<longrightarrow>
       (\<exists>la1 lo1 la2 lo2. isValidCoordinate (Some la1) (Some lo1) \<and> isValidCoordinate (Some la2) (Some lo2)
          \<and> 1 < haversine_a M la1 lo1 la2 lo2))"
proof (intro conjI impI fee_of_distance_mono)
  assume "calculateShippingFee M shop dest subtotal = None"
  then obtain la1 lo1 la2 lo2 where v: "isValidCoordinate (Some la1) (Some lo1)"
      "isValidCoordinate (Some la2) (Some lo2)" "raw_distance M (haversine_a M la1 lo1 la2 lo2) = None"
    unfolding calculateShippingFee_def Let_def
    by (auto simp: isValidCoordinate_def split: option.splits if_splits)
  define a where "a = haversine_a M la1 lo1 la2 lo2"
  have "0 \<le> a" unfolding a_def using v by (intro haversine_a_nonneg assms) (auto simp: isValidCoordinate_def)
  with v(3) assms(1) have "\<not> 0 \<le> js_sub 1 a"
    by (auto simp: raw_distance_def a_def [symmetric] split: option.splits)
  then have "1 < a" using fl_nonneg [of "1 - a"] by (fastforce simp: js_sub_def)
  with v(1,2) show "\<exists>la1 lo1 la2 lo2. isValidCoordinate (Some la1) (Some lo1)
      \<and> isValidCoordinate (Some la2) (Some lo2) \<and> 1 < haversine_a M la1 lo1 la2 lo2"
    unfolding a_def by blast
qed

theorem shipping_fee_defined_witness:
  "fee_of_distance 3 \<le> fee_of_distance 4"
  using shipping_fee_defined
    [of "\<lparr>math_sin = (\<lambda>_. 0), math_cos = (\<lambda>_. 1), math_sqrt = (\<lambda>x. if 0 \<le> x then Some x else None),
          math_atan2 = (\<lambda>y x. y)\<rparr>" 3 4]
  by simp

end
