(* ===== verification/Carts.thy ===== *)
theory Carts
  imports Entities "HOL-Library.AList"
begin

text \<open>
  \<open>src/backend/src/modules/carts/carts.service.ts\<close>: the customer's cart, a row per product and
  variant, and what checkout reads of it. The images, slugs and logos that the cart response
  carries for display are left out.
\<close>

subsection \<open>Loading and judging a line\<close>

text \<open>A cart row with \<open>relations: ['product', 'product.shop', 'variant']\<close>.\<close>

record cart_line =
  cl_item :: cart_item
  cl_product :: "product option"
  cl_shop :: "shop option"
  cl_variant :: "variant option"

definition load_line :: "db \<Rightarrow> cart_item \<Rightarrow> cart_line" where
  "load_line d ci =
     (let product = find_opt p_id (ci_product_id ci) (products d)
      in \<lparr>cl_item = ci, cl_product = product,
          cl_shop = Option.bind product (\<lambda>p. find_opt s_id (p_shop_id p) (shops d)),
          cl_variant = find_opt v_id (ci_variant_id ci) (variants d)\<rparr>)"

definition user_rows :: "uuid \<Rightarrow> db \<Rightarrow> cart_item list" where
  "user_rows userId d = filter (\<lambda>ci. ci_user_id ci = Some userId) (cart_items d)"

text \<open>\<open>order: { added_at: 'DESC' }\<close>.\<close>

definition load_cart :: "uuid \<Rightarrow> db \<Rightarrow> cart_line list" where
  "load_cart userId d = map (load_line d) (sort_key (\<lambda>ci. - ci_added_at ci) (user_rows userId d))"

definition shop_active :: "shop option \<Rightarrow> bool" where
  "shop_active s = (case s of None \<Rightarrow> False | Some s \<Rightarrow> s_status s = AccActive)"

definition validateProductPurchasable :: "product \<Rightarrow> shop option \<Rightarrow> http_error option" where
  "validateProductPurchasable p s =
     (if p_status p = ProductDeleted then Some (BadRequest (CartMsg ProductGone))
      else if p_status p = ProductSuspended then Some (BadRequest (CartMsg ProductBlocked))
      else if p_is_hidden p then Some (BadRequest (CartMsg ProductNotVisible))
      else if \<not> shop_active s then Some (BadRequest (CartMsg ShopNotActive))
      else None)"

definition evaluateItemStaticAvailability :: "cart_line \<Rightarrow> unavailable_reason option" where
  "evaluateItemStaticAvailability l =
     (case cl_product l of
        None \<Rightarrow> Some ProductIsDeleted
      | Some p \<Rightarrow>
          if p_status p = ProductDeleted then Some ProductIsDeleted
          else if p_status p = ProductSuspended then Some ProductIsSuspended
          else if p_is_hidden p then Some ProductHidden
          else if \<not> shop_active (cl_shop l) then Some ShopInactive
          else None)"

text \<open>The valid lines and the unavailable ones, both in the order of the cart.\<close>

definition getActiveCartItemsForCheckout ::
  "uuid \<Rightarrow> db \<Rightarrow> cart_line list \<times> unavailable_item list" where
  "getActiveCartItemsForCheckout userId d =
     foldl (\<lambda>(valid, unavailable) l.
              case evaluateItemStaticAvailability l of
                None \<Rightarrow> (valid @ [l], unavailable)
              | Some r \<Rightarrow>
                  (valid, unavailable @ [\<lparr>ua_cart_item_id = ci_id (cl_item l),
                     ua_product_id = map_option p_id (cl_product l),
                     ua_product_name = map_option p_name (cl_product l), ua_reason = r\<rparr>]))
           ([], []) (load_cart userId d)"

definition clearActiveCart :: "uuid \<Rightarrow> db \<Rightarrow> db" where
  "clearActiveCart userId d =
     d\<lparr>cart_items := delete_rows (\<lambda>ci. ci_user_id ci = Some userId) (cart_items d)\<rparr>"

subsection \<open>The cart response\<close>

record line_response =
  lr_id :: uuid
  lr_product_id :: uuid
  lr_product_name :: string
  lr_product_price :: rat
  lr_variant_id :: "uuid option"
  lr_additional_price :: "rat option"
  lr_quantity :: int
  lr_unit_price :: rat
  lr_subtotal :: rat
  lr_available_stock :: int
  lr_is_available :: bool
  lr_reason :: "unavailable_reason option"

record shop_group =
  sg_shop_id :: "uuid option"
  sg_items :: "line_response list"
  sg_shop_subtotal :: rat

record cart_response =
  cr_items_by_shop :: "shop_group list"
  cr_total_items :: nat
  cr_total_quantity :: int
  cr_total_amount :: rat

definition unavailable_in_cart :: "cart_line \<Rightarrow> product \<Rightarrow> int \<Rightarrow> unavailable_reason option" where
  "unavailable_in_cart l p available_stock =
     (if p_status p = ProductDeleted then Some ProductIsDeleted
      else if p_status p = ProductSuspended then Some ProductIsSuspended
      else if p_is_hidden p then Some ProductHidden
      else if \<not> shop_active (cl_shop l) then Some ShopInactive
      else if available_stock \<le> 0 then Some OutOfStock
      else if available_stock < ci_quantity (cl_item l) then Some InsufficientStock
      else None)"

definition line_response_of :: "cart_line \<Rightarrow> product \<Rightarrow> line_response" where
  "line_response_of l p =
     (let price = js_of_dec (p_price p);
          addPrice = (case cl_variant l of None \<Rightarrow> 0 | Some v \<Rightarrow> js_of_dec (v_additional_price v));
          unit_price = round2 (js_add price addPrice);
          subtotal = round2 (js_mul unit_price (of_int (ci_quantity (cl_item l))));
          available_stock = (case cl_variant l of
                               Some v \<Rightarrow> v_stock_quantity v | None \<Rightarrow> p_stock_quantity p);
          reason = unavailable_in_cart l p available_stock
      in \<lparr>lr_id = ci_id (cl_item l), lr_product_id = p_id p, lr_product_name = p_name p,
          lr_product_price = price, lr_variant_id = map_option v_id (cl_variant l),
          lr_additional_price = map_option (\<lambda>v. js_of_dec (v_additional_price v)) (cl_variant l),
          lr_quantity = ci_quantity (cl_item l), lr_unit_price = unit_price, lr_subtotal = subtotal,
          lr_available_stock = available_stock, lr_is_available = (reason = None),
          lr_reason = reason\<rparr>)"

definition group_subtotal :: "line_response list \<Rightarrow> rat" where
  "group_subtotal items =
     round2 (foldl (\<lambda>acc i. if lr_is_available i then js_add acc (lr_subtotal i) else acc) 0 items)"

text \<open>Rows without a product are skipped; a line's group is its shop, or the group without one.\<close>

definition getCart :: "uuid \<Rightarrow> db \<Rightarrow> cart_response" where
  "getCart userId d =
     (let lines = load_cart userId d;
          groups = group_by (\<lambda>l. map_option s_id (cl_shop l)) (filter (\<lambda>l. cl_product l \<noteq> None) lines);
          items_by_shop = map (\<lambda>(shop, ls).
             let items = map (\<lambda>l. line_response_of l (the (cl_product l))) ls
             in \<lparr>sg_shop_id = shop, sg_items = items, sg_shop_subtotal = group_subtotal items\<rparr>) groups;
          available = filter lr_is_available (concat (map sg_items items_by_shop))
      in \<lparr>cr_items_by_shop = items_by_shop, cr_total_items = length lines,
          cr_total_quantity = sum_list (map lr_quantity available),
          cr_total_amount = round2 (foldl (\<lambda>acc i. js_add acc (lr_subtotal i)) 0 available)\<rparr>)"

subsection \<open>Operations\<close>

definition getProductForCartValidation :: "uuid \<Rightarrow> db \<Rightarrow> http_error + product" where
  "getProductForCartValidation k d =
     (case find_row p_id k (products d) of
        None \<Rightarrow> Inl (NotFound (CartMsg ProductNotFound))
      | Some p \<Rightarrow> Inr p)"

definition product_shop :: "product \<Rightarrow> db \<Rightarrow> shop option" where
  "product_shop p d = find_opt s_id (p_shop_id p) (shops d)"

definition product_variants :: "product \<Rightarrow> db \<Rightarrow> variant list" where
  "product_variants p d = filter (\<lambda>v. v_product_id v = Some (p_id p)) (variants d)"

text \<open>The stock a new line may use, or the complaint about the choice of variant.\<close>

definition available_stock_for :: "product \<Rightarrow> uuid option \<Rightarrow> db \<Rightarrow> http_error + int" where
  "available_stock_for p variantId d =
     (if p_has_variants p then
        (case variantId of
           None \<Rightarrow> Inl (BadRequest (CartMsg VariantRequired))
         | Some vid \<Rightarrow>
             (case find_row v_id vid (product_variants p d) of
                None \<Rightarrow> Inl (NotFound (CartMsg VariantNotOfProduct))
              | Some v \<Rightarrow> Inr (v_stock_quantity v)))
      else if variantId \<noteq> None then Inl (BadRequest (CartMsg NoVariantExpected))
      else Inr (p_stock_quantity p))"

definition same_line :: "uuid \<Rightarrow> uuid \<Rightarrow> uuid option \<Rightarrow> cart_item \<Rightarrow> bool" where
  "same_line userId productId variantId ci \<longleftrightarrow>
     ci_user_id ci = Some userId \<and> ci_product_id ci = Some productId \<and> ci_variant_id ci = variantId"

definition save_cart_item :: "cart_item \<Rightarrow> db \<Rightarrow> db" where
  "save_cart_item ci d = d\<lparr>cart_items := save_row ci_id ci (cart_items d)\<rparr>"

definition insert_cart_item :: "uuid \<Rightarrow> uuid \<Rightarrow> uuid option \<Rightarrow> int \<Rightarrow> millis \<Rightarrow> db \<Rightarrow> db" where
  "insert_cart_item userId productId variantId q now d =
     (save_cart_item \<lparr>ci_id = next_uuid d, ci_user_id = Some userId, ci_variant_id = variantId,
        ci_product_id = Some productId, ci_quantity = q, ci_added_at = now\<rparr> d)
       \<lparr>next_uuid := Suc (next_uuid d)\<rparr>"

definition addItem ::
  "uuid \<Rightarrow> uuid \<Rightarrow> uuid option \<Rightarrow> int option \<Rightarrow> millis \<Rightarrow> db \<Rightarrow> http_error + (db \<times> cart_response)" where
  "addItem userId productId variantId quantity now d =
     (case getProductForCartValidation productId d of
        Inl e \<Rightarrow> Inl e
      | Inr p \<Rightarrow>
          (case validateProductPurchasable p (product_shop p d) of
             Some e \<Rightarrow> Inl e
           | None \<Rightarrow>
               if map_option s_seller_id (product_shop p d) = Some userId
               then Inl (BadRequest (CartMsg SelfPurchaseInCart))
               else (case available_stock_for p variantId d of
                  Inl e \<Rightarrow> Inl e
                | Inr availableStock \<Rightarrow>
                    if availableStock \<le> 0 then Inl (BadRequest (CartMsg SoldOut))
                    else
                      let quantityToAdd = (case quantity of None \<Rightarrow> min_quantity_per_item | Some q \<Rightarrow> q)
                      in case find (same_line userId productId variantId) (cart_items d) of
                           Some existing \<Rightarrow>
                             let newQty = ci_quantity existing + quantityToAdd
                             in if max_quantity_per_item < newQty then Inl (BadRequest (CartMsg QuantityOverLimit))
                                else if availableStock < newQty
                                then Inl (BadRequest (CartMsg (QuantityOverStock availableStock)))
                                else let d' = save_cart_item (existing\<lparr>ci_quantity := newQty\<rparr>) d
                                     in Inr (d', getCart userId d')
                         | None \<Rightarrow>
                             if availableStock < quantityToAdd
                             then Inl (BadRequest (CartMsg (QuantityOverStock availableStock)))
                             else if max_distinct_items \<le> length (user_rows userId d)
                             then Inl (BadRequest (CartMsg TooManyDistinct))
                             else let d' = insert_cart_item userId productId variantId quantityToAdd now d
                                  in Inr (d', getCart userId d'))))"

definition findOwnedCartItemOrFail :: "uuid \<Rightarrow> uuid \<Rightarrow> db \<Rightarrow> http_error + cart_item" where
  "findOwnedCartItemOrFail userId cartItemId d =
     (case find (\<lambda>ci. ci_id ci = cartItemId \<and> ci_user_id ci = Some userId) (cart_items d) of
        None \<Rightarrow> Inl (NotFound (CartMsg CartItemNotFound))
      | Some ci \<Rightarrow> Inr ci)"

definition updateItemQuantity ::
  "uuid \<Rightarrow> uuid \<Rightarrow> int \<Rightarrow> db \<Rightarrow> http_error + (db \<times> cart_response)" where
  "updateItemQuantity userId cartItemId quantity d =
     (case findOwnedCartItemOrFail userId cartItemId d of
        Inl e \<Rightarrow> Inl e
      | Inr ci \<Rightarrow>
          let l = load_line d ci
          in case cl_product l of
               None \<Rightarrow> Inl JsTypeError
             | Some p \<Rightarrow>
                 (case validateProductPurchasable p (cl_shop l) of
                    Some e \<Rightarrow> Inl e
                  | None \<Rightarrow>
                      let availableStock = (case cl_variant l of
                                              Some v \<Rightarrow> v_stock_quantity v | None \<Rightarrow> p_stock_quantity p)
                      in if availableStock < quantity
                         then Inl (BadRequest (CartMsg (QuantityOverStock availableStock)))
                         else let d' = save_cart_item (ci\<lparr>ci_quantity := quantity\<rparr>) d
                              in Inr (d', getCart userId d')))"

definition removeItem :: "uuid \<Rightarrow> uuid \<Rightarrow> db \<Rightarrow> http_error + (db \<times> cart_response)" where
  "removeItem userId cartItemId d =
     (case findOwnedCartItemOrFail userId cartItemId d of
        Inl e \<Rightarrow> Inl e
      | Inr ci \<Rightarrow>
          let d' = d\<lparr>cart_items := delete_rows (\<lambda>r. ci_id r = ci_id ci) (cart_items d)\<rparr>
          in Inr (d', getCart userId d'))"

definition clearCart :: "uuid \<Rightarrow> db \<Rightarrow> db \<times> cart_response" where
  "clearCart userId d = (let d' = clearActiveCart userId d in (d', getCart userId d'))"

subsection \<open>Merging a guest's cart\<close>

record guest_item =
  gi_product_id :: uuid
  gi_variant_id :: "uuid option"
  gi_quantity :: int

text \<open>Lines of the same product and variant become one, in the order of first appearance.\<close>

definition consolidate :: "guest_item list \<Rightarrow> ((uuid \<times> uuid option) \<times> guest_item) list" where
  "consolidate items =
     foldl (\<lambda>m g. let key = (gi_product_id g, gi_variant_id g)
                  in case map_of m key of
                       Some existing \<Rightarrow>
                         AList.update key (existing\<lparr>gi_quantity := gi_quantity existing + gi_quantity g\<rparr>) m
                     | None \<Rightarrow> AList.update key g m)
           [] items"

record merge_state =
  ms_rows :: "cart_item list"
  ms_count :: nat
  ms_db :: db

definition mergeable :: "uuid \<Rightarrow> guest_item \<Rightarrow> db \<Rightarrow> bool" where
  "mergeable userId g d =
     (case getProductForCartValidation (gi_product_id g) d of
        Inl e \<Rightarrow> False
      | Inr p \<Rightarrow>
          p_status p \<noteq> ProductDeleted
          \<and> map_option s_seller_id (product_shop p d) \<noteq> Some userId
          \<and> (if p_has_variants p then
               (case gi_variant_id g of
                  None \<Rightarrow> False
                | Some vid \<Rightarrow> \<exists>v \<in> set (product_variants p d). v_id v = vid)
             else gi_variant_id g = None))"

definition merge_step :: "uuid \<Rightarrow> millis \<Rightarrow> merge_state \<Rightarrow> guest_item \<Rightarrow> merge_state" where
  "merge_step userId now st g =
     (if \<not> mergeable userId g (ms_db st) then st
      else case find (\<lambda>ci. ci_product_id ci = Some (gi_product_id g) \<and> ci_variant_id ci = gi_variant_id g)
                  (ms_rows st) of
             Some existing \<Rightarrow>
               let merged = existing\<lparr>ci_quantity :=
                     min (ci_quantity existing + gi_quantity g) max_quantity_per_item\<rparr>
               in st\<lparr>ms_rows := update_row ci_id (ci_id existing) (\<lambda>_. merged) (ms_rows st),
                     ms_db := save_cart_item merged (ms_db st)\<rparr>
           | None \<Rightarrow>
               if max_distinct_items \<le> ms_count st then st
               else st\<lparr>ms_count := Suc (ms_count st),
                       ms_db := insert_cart_item userId (gi_product_id g) (gi_variant_id g)
                                  (min (gi_quantity g) max_quantity_per_item) now (ms_db st)\<rparr>)"

definition mergeCart :: "uuid \<Rightarrow> guest_item list \<Rightarrow> millis \<Rightarrow> db \<Rightarrow> db \<times> cart_response" where
  "mergeCart userId items now d =
     (let rows = user_rows userId d;
          st = foldl (merge_step userId now) \<lparr>ms_rows = rows, ms_count = length rows, ms_db = d\<rparr>
                 (map snd (consolidate items))
      in (ms_db st, getCart userId (ms_db st)))"

subsection \<open>The cart invariant\<close>

definition line_key :: "cart_item \<Rightarrow> uuid option \<times> uuid option" where
  "line_key ci = (ci_product_id ci, ci_variant_id ci)"

text \<open>
  Quantities between 1 and 99, one row per product and variant, at most 50 rows per user.
\<close>

definition cart_ok :: "db \<Rightarrow> bool" where
  "cart_ok d \<longleftrightarrow>
     unique_keys ci_id (cart_items d) \<and> fresh_keys ci_id (cart_items d) (next_uuid d)
   \<and> (\<forall>ci \<in> set (cart_items d). min_quantity_per_item \<le> ci_quantity ci \<and> ci_quantity ci \<le> max_quantity_per_item)
   \<and> (\<forall>u. distinct (map line_key (user_rows u d)) \<and> length (user_rows u d) \<le> max_distinct_items)"

definition owner_key :: "cart_item \<Rightarrow> uuid option \<times> (uuid option \<times> uuid option)" where
  "owner_key ci = (ci_user_id ci, line_key ci)"

lemma user_row_keys:
  "map line_key (user_rows u d) = map snd (filter (\<lambda>k. fst k = Some u) (map owner_key (cart_items d)))"
  by (simp add: user_rows_def filter_map comp_def owner_key_def)

lemma user_rows_length: "length (user_rows u d) = length (map line_key (user_rows u d))"
  by simp

lemma save_quantity_ok:
  assumes "cart_ok d" "ci \<in> set (cart_items d)"
    and "min_quantity_per_item \<le> q" "q \<le> max_quantity_per_item"
  shows "cart_ok (save_cart_item (ci\<lparr>ci_quantity := q\<rparr>) d)"
    and "map owner_key (cart_items (save_cart_item (ci\<lparr>ci_quantity := q\<rparr>) d)) = map owner_key (cart_items d)"
proof -
  let ?d = "save_cart_item (ci\<lparr>ci_quantity := q\<rparr>) d"
  have u: "unique_keys ci_id (cart_items d)" using assms(1) by (simp add: cart_ok_def)
  have f: "find_row ci_id (ci_id (ci\<lparr>ci_quantity := q\<rparr>)) (cart_items d) = Some ci"
    using find_row_in_set [OF u assms(2)] by simp
  show k: "map owner_key (cart_items ?d) = map owner_key (cart_items d)"
    unfolding save_cart_item_def using map_save_same [OF f u, of owner_key]
    by (simp add: owner_key_def line_key_def)
  then have keys: "map line_key (user_rows v ?d) = map line_key (user_rows v d)" for v
    by (simp only: user_row_keys)
  then have len: "length (user_rows v ?d) = length (user_rows v d)" for v
    by (metis length_map)
  have "set (cart_items ?d) \<subseteq> insert (ci\<lparr>ci_quantity := q\<rparr>) (set (cart_items d))"
    unfolding save_cart_item_def using set_save_row_subset by fastforce
  moreover have "unique_keys ci_id (cart_items ?d)"
    using u by (simp add: save_cart_item_def unique_keys_save)
  moreover have "next_uuid ?d = next_uuid d" by (simp add: save_cart_item_def)
  ultimately show "cart_ok ?d"
    using assms keys len unfolding cart_ok_def fresh_keys_def by auto
qed

lemma insert_line_items:
  assumes "cart_ok d"
  shows "cart_items (insert_cart_item u p v q now d) =
     cart_items d @ [\<lparr>ci_id = next_uuid d, ci_user_id = Some u, ci_variant_id = v, ci_product_id = Some p,
                      ci_quantity = q, ci_added_at = now\<rparr>]"
  using assms by (auto simp: insert_cart_item_def save_cart_item_def save_row_def cart_ok_def fresh_keys_def)

lemma insert_line_ok:
  assumes "cart_ok d" "(Some p, v) \<notin> line_key ` set (user_rows u d)"
    and "length (user_rows u d) < max_distinct_items"
    and "min_quantity_per_item \<le> q" "q \<le> max_quantity_per_item"
  shows "cart_ok (insert_cart_item u p v q now d)"
proof -
  note items = insert_line_items [OF assms(1), of u p v q now]
  have "next_uuid (insert_cart_item u p v q now d) = Suc (next_uuid d)"
    by (simp add: insert_cart_item_def)
  moreover have "user_rows w (insert_cart_item u p v q now d) =
      user_rows w d @ (if w = u then [\<lparr>ci_id = next_uuid d, ci_user_id = Some u, ci_variant_id = v,
         ci_product_id = Some p, ci_quantity = q, ci_added_at = now\<rparr>] else [])" for w
    by (auto simp: user_rows_def items)
  ultimately show ?thesis
    using assms unfolding cart_ok_def
    by (auto simp: items unique_keys_def fresh_keys_def line_key_def less_Suc_eq image_iff Suc_le_eq)
qed

lemma delete_lines_ok:
  assumes "cart_ok d" shows "cart_ok (d\<lparr>cart_items := delete_rows P (cart_items d)\<rparr>)"
proof -
  have rows: "user_rows u (d\<lparr>cart_items := delete_rows P (cart_items d)\<rparr>) = filter (\<lambda>ci. \<not> P ci) (user_rows u d)" for u
    by (simp add: user_rows_def delete_rows_def conj_commute)
  then show ?thesis
    using assms unfolding cart_ok_def rows
    by (auto simp: unique_keys_delete fresh_keys_def distinct_map_filter
        intro: order_trans [OF length_filter_le])
qed

lemma consolidate_ok:
  assumes "\<forall>g \<in> set items. 1 \<le> gi_quantity g"
  shows "distinct (map fst (consolidate items)) \<and>
    (\<forall>(k, g) \<in> set (consolidate items). k = (gi_product_id g, gi_variant_id g) \<and> 1 \<le> gi_quantity g)"
  using assms
proof (induction items rule: rev_induct)
  case (snoc g items)
  let ?m = "consolidate items"
  have IH: "distinct (map fst ?m)"
    "\<And>k h. (k, h) \<in> set ?m \<Longrightarrow> k = (gi_product_id h, gi_variant_id h) \<and> 1 \<le> gi_quantity h"
    using snoc by auto
  obtain h where step: "consolidate (items @ [g]) = AList.update (gi_product_id g, gi_variant_id g) h ?m"
    and h: "gi_product_id h = gi_product_id g" "gi_variant_id h = gi_variant_id g" "1 \<le> gi_quantity h"
  proof (cases "map_of ?m (gi_product_id g, gi_variant_id g)")
    case None
    then show ?thesis using snoc.prems by (intro that [of g]) (auto simp: consolidate_def)
  next
    case (Some e)
    then have "(gi_product_id g, gi_variant_id g) = (gi_product_id e, gi_variant_id e) \<and> 1 \<le> gi_quantity e"
      using IH(2) map_of_SomeD by fastforce
    then show ?thesis using Some snoc.prems
      by (intro that [of "e\<lparr>gi_quantity := gi_quantity e + gi_quantity g\<rparr>"]) (auto simp: consolidate_def)
  qed
  have mem: "(k, x) \<in> set (AList.update a b m) \<Longrightarrow> (k, x) = (a, b) \<or> (k, x) \<in> set m"
    for k x a b and m :: "((uuid \<times> uuid option) \<times> guest_item) list"
    by (induction m) (auto split: if_splits)
  show ?case unfolding step
    using IH h by (auto simp: distinct_update dest!: mem)
qed (simp add: consolidate_def)

lemma find_line_iff:
  "find (\<lambda>ci. ci_product_id ci = Some p \<and> ci_variant_id ci = v) rows = None
     \<longleftrightarrow> (Some p, v) \<notin> line_key ` set rows"
  by (force simp: find_None_iff line_key_def)

text \<open>
  The loop keeps the in-memory rows and the table in step for the lines still to come: what is in
  memory is in the table, and a row of the table for such a line is in memory.
\<close>

definition guest_key :: "guest_item \<Rightarrow> uuid option \<times> uuid option" where
  "guest_key g = (Some (gi_product_id g), gi_variant_id g)"

definition merge_inv :: "uuid \<Rightarrow> guest_item list \<Rightarrow> merge_state \<Rightarrow> bool" where
  "merge_inv u rest st \<longleftrightarrow>
     cart_ok (ms_db st) \<and> ms_count st = length (user_rows u (ms_db st))
   \<and> set (ms_rows st) \<subseteq> set (user_rows u (ms_db st))
   \<and> (\<forall>g \<in> set rest. guest_key g \<in> line_key ` set (user_rows u (ms_db st))
                     \<longrightarrow> guest_key g \<in> line_key ` set (ms_rows st))"

lemma user_rows_save:
  assumes "cart_ok d" "ci \<in> set (cart_items d)"
  shows "user_rows u (save_cart_item (ci\<lparr>ci_quantity := q\<rparr>) d)
     = map (\<lambda>x. if ci_id x = ci_id ci then ci\<lparr>ci_quantity := q\<rparr> else x) (user_rows u d)"
proof -
  have inj: "x = ci" if "x \<in> set (cart_items d)" "ci_id x = ci_id ci" for x
    using that assms by (auto simp: cart_ok_def unique_keys_def distinct_map inj_on_def)
  have "cart_items (save_cart_item (ci\<lparr>ci_quantity := q\<rparr>) d)
      = map (\<lambda>x. if ci_id x = ci_id ci then ci\<lparr>ci_quantity := q\<rparr> else x) (cart_items d)"
    using assms(2) by (auto simp: save_cart_item_def save_row_def)
  moreover have "filter (\<lambda>x. ci_user_id x = Some u) (map (\<lambda>x. if ci_id x = ci_id ci then ci\<lparr>ci_quantity := q\<rparr> else x) xs)
      = map (\<lambda>x. if ci_id x = ci_id ci then ci\<lparr>ci_quantity := q\<rparr> else x) (filter (\<lambda>x. ci_user_id x = Some u) xs)"
    if "set xs \<subseteq> set (cart_items d)" for xs
    using that
  proof (induction xs)
    case (Cons x xs)
    then show ?case using inj [of x] by auto
  qed simp
  ultimately show ?thesis by (simp add: user_rows_def)
qed

lemma merge_step_inv:
  assumes inv: "merge_inv u (g # rest) st" and g: "1 \<le> gi_quantity g"
    and new: "\<forall>h \<in> set rest. guest_key h \<noteq> guest_key g"
  shows "merge_inv u rest (merge_step u now st g)"
proof (cases "mergeable u g (ms_db st)")
  case True
  have ok: "cart_ok (ms_db st)" and cnt: "ms_count st = length (user_rows u (ms_db st))"
    and sub: "set (ms_rows st) \<subseteq> set (user_rows u (ms_db st))"
    and keys: "\<forall>g \<in> set (g # rest). guest_key g \<in> line_key ` set (user_rows u (ms_db st))
                     \<longrightarrow> guest_key g \<in> line_key ` set (ms_rows st)"
    using inv by (auto simp: merge_inv_def)
  show ?thesis
  proof (cases "find (\<lambda>ci. ci_product_id ci = Some (gi_product_id g) \<and> ci_variant_id ci = gi_variant_id g) (ms_rows st)")
    case (Some ci)
    then have "ci \<in> set (ms_rows st)" by (auto simp: find_Some_iff)
    then have ci: "ci \<in> set (cart_items (ms_db st))" using sub by (auto simp: user_rows_def)
    then have "1 \<le> ci_quantity ci" using ok by (auto simp: cart_ok_def min_quantity_per_item_def)
    define q where "q = min (ci_quantity ci + gi_quantity g) max_quantity_per_item"
    define f where "f = (\<lambda>x. if ci_id x = ci_id ci then ci\<lparr>ci_quantity := q\<rparr> else x)"
    have q: "min_quantity_per_item \<le> q" "q \<le> max_quantity_per_item"
      using g \<open>1 \<le> ci_quantity ci\<close> by (auto simp: q_def min_quantity_per_item_def max_quantity_per_item_def)
    note save = save_quantity_ok [OF ok ci q]
    have rows: "user_rows u (save_cart_item (ci\<lparr>ci_quantity := q\<rparr>) (ms_db st)) = map f (user_rows u (ms_db st))"
      unfolding f_def by (rule user_rows_save [OF ok ci])
    have st': "merge_step u now st g = st\<lparr>ms_rows := map f (ms_rows st),
        ms_db := save_cart_item (ci\<lparr>ci_quantity := q\<rparr>) (ms_db st)\<rparr>"
      using True Some by (simp add: merge_step_def q_def Let_def update_row_def f_def)
    have "line_key (f x) = line_key x" if "x \<in> set (user_rows u (ms_db st))" for x
      using that ci ok by (auto simp: f_def user_rows_def line_key_def cart_ok_def unique_keys_def
          distinct_map inj_on_def)
    then have same: "line_key ` f ` X = line_key ` X" if "X \<subseteq> set (user_rows u (ms_db st))" for X
      using that by (auto simp: image_image intro!: image_cong)
    show ?thesis
      using save(1) cnt sub keys same [OF subset_refl] same [OF sub]
      by (auto simp: merge_inv_def st' rows)
  next
    case None
    then have "guest_key g \<notin> line_key ` set (ms_rows st)"
      by (auto simp: find_line_iff guest_key_def)
    then have fresh: "guest_key g \<notin> line_key ` set (user_rows u (ms_db st))" using keys by auto
    show ?thesis
    proof (cases "max_distinct_items \<le> ms_count st")
      case False
      let ?d = "insert_cart_item u (gi_product_id g) (gi_variant_id g)
          (min (gi_quantity g) max_quantity_per_item) now (ms_db st)"
      have "cart_ok ?d"
        using fresh False cnt g ok by (intro insert_line_ok)
          (auto simp: guest_key_def min_quantity_per_item_def max_quantity_per_item_def)
      moreover have "user_rows u ?d = user_rows u (ms_db st) @
          [\<lparr>ci_id = next_uuid (ms_db st), ci_user_id = Some u, ci_variant_id = gi_variant_id g,
            ci_product_id = Some (gi_product_id g), ci_quantity = min (gi_quantity g) max_quantity_per_item,
            ci_added_at = now\<rparr>]"
        using ok by (simp add: user_rows_def insert_line_items)
      ultimately show ?thesis
        using True None False cnt sub keys new
        by (auto simp: merge_inv_def merge_step_def line_key_def guest_key_def)
    qed (use True None inv in \<open>auto simp: merge_step_def merge_inv_def\<close>)
  qed
qed (use inv in \<open>simp add: merge_step_def merge_inv_def\<close>)

lemma merge_fold_inv:
  "merge_inv u gs st \<Longrightarrow> \<forall>g \<in> set gs. 1 \<le> gi_quantity g \<Longrightarrow> distinct (map guest_key gs) \<Longrightarrow>
   merge_inv u [] (foldl (merge_step u now) st gs)"
proof (induction gs arbitrary: st)
  case (Cons g gs)
  from Cons.prems have "merge_inv u gs (merge_step u now st g)"
    by (intro merge_step_inv) (auto simp: image_iff)
  with Cons show ?case by simp
qed simp

lemma merge_ok:
  assumes "cart_ok d" "\<forall>g \<in> set items. 1 \<le> gi_quantity g"
  shows "cart_ok (fst (mergeCart u items now d))"
proof -
  note c = consolidate_ok [OF assms(2)]
  have key: "guest_key (snd kg) = (Some (fst (fst kg)), snd (fst kg))" if "kg \<in> set (consolidate items)" for kg
    using c that by (cases kg) (auto simp: guest_key_def)
  have "map guest_key (map snd (consolidate items)) = map (\<lambda>k. (Some (fst k), snd k)) (map fst (consolidate items))"
    using key by simp
  moreover have "distinct (map (\<lambda>k. (Some (fst k), snd k)) (map fst (consolidate items)))"
    using c by (subst distinct_map) (auto simp: inj_on_def)
  ultimately have "distinct (map guest_key (map snd (consolidate items)))" by (simp only:)
  moreover have "\<forall>g \<in> set (map snd (consolidate items)). 1 \<le> gi_quantity g" using c by auto
  moreover have "merge_inv u (map snd (consolidate items))
      \<lparr>ms_rows = user_rows u d, ms_count = length (user_rows u d), ms_db = d\<rparr>"
    using assms(1) by (simp add: merge_inv_def)
  ultimately have "merge_inv u [] (foldl (merge_step u now)
      \<lparr>ms_rows = user_rows u d, ms_count = length (user_rows u d), ms_db = d\<rparr> (map snd (consolidate items)))"
    by (intro merge_fold_inv)
  then show ?thesis by (simp add: mergeCart_def Let_def merge_inv_def)
qed

subsection \<open>The other operations keep the invariant\<close>

lemma same_line_key: "same_line u p v ci \<longleftrightarrow> ci_user_id ci = Some u \<and> line_key ci = (Some p, v)"
  by (auto simp: same_line_def line_key_def)

lemma add_ok:
  assumes "cart_ok d" "\<forall>q. quantity = Some q \<longrightarrow> 1 \<le> q \<and> q \<le> 99" "addItem u p v quantity now d = Inr (d', r)"
  shows "cart_ok d'"
proof -
  define q where "q = (case quantity of None \<Rightarrow> min_quantity_per_item | Some q \<Rightarrow> q)"
  have q: "1 \<le> q" "q \<le> max_quantity_per_item"
    using assms(2) by (auto simp: q_def min_quantity_per_item_def max_quantity_per_item_def split: option.split)
  from assms(3) consider
      (upd) ci where "find (same_line u p v) (cart_items d) = Some ci"
        "ci_quantity ci + q \<le> max_quantity_per_item"
        "d' = save_cart_item (ci\<lparr>ci_quantity := ci_quantity ci + q\<rparr>) d"
    | (ins) "find (same_line u p v) (cart_items d) = None" "length (user_rows u d) < max_distinct_items"
        "d' = insert_cart_item u p v q now d"
    by (auto simp: addItem_def Let_def q_def split: sum.splits option.splits if_splits)
  then show ?thesis
  proof cases
    case upd
    then have "ci \<in> set (cart_items d)" by (auto simp: find_Some_iff)
    moreover from this assms(1) have "1 \<le> ci_quantity ci" by (auto simp: cart_ok_def min_quantity_per_item_def)
    ultimately show ?thesis
      using upd q save_quantity_ok(1) [OF assms(1)] by (simp add: min_quantity_per_item_def)
  next
    case ins
    then have "(Some p, v) \<notin> line_key ` set (user_rows u d)"
      by (auto simp: find_None_iff same_line_key user_rows_def)
    then show ?thesis
      using ins q assms(1) by (simp add: insert_line_ok min_quantity_per_item_def)
  qed
qed

lemma update_ok:
  assumes "cart_ok d" "1 \<le> q" "q \<le> 99" "updateItemQuantity u k q d = Inr (d', r)"
  shows "cart_ok d'"
proof -
  from assms(4) obtain ci where "findOwnedCartItemOrFail u k d = Inr ci"
      "d' = save_cart_item (ci\<lparr>ci_quantity := q\<rparr>) d"
    by (auto simp: updateItemQuantity_def Let_def split: sum.splits option.splits if_splits)
  moreover from this have "ci \<in> set (cart_items d)"
    by (auto simp: findOwnedCartItemOrFail_def find_Some_iff split: option.splits)
  ultimately show ?thesis
    using assms save_quantity_ok(1) by (simp add: min_quantity_per_item_def max_quantity_per_item_def)
qed

lemma remove_clear_ok:
  "cart_ok d \<Longrightarrow> removeItem u k d = Inr (d', r) \<Longrightarrow> cart_ok d'"
  "cart_ok d \<Longrightarrow> cart_ok (clearActiveCart u d)"
  by (auto simp: removeItem_def clearActiveCart_def Let_def delete_lines_ok split: sum.splits)

subsection \<open>Exact totals\<close>

text \<open>What a line costs, in hundredths, without any rounding.\<close>

definition line_cents :: "cart_line \<Rightarrow> int" where
  "line_cents l =
     (case cl_product l of
        None \<Rightarrow> 0
      | Some p \<Rightarrow> (p_price p + (case cl_variant l of None \<Rightarrow> 0 | Some v \<Rightarrow> v_additional_price v))
                    * ci_quantity (cl_item l))"

definition line_priced :: "cart_line \<Rightarrow> bool" where
  "line_priced l \<longleftrightarrow>
     (\<forall>p. cl_product l = Some p \<longrightarrow> 0 \<le> p_price p
        \<and> p_price p + (case cl_variant l of None \<Rightarrow> 0 | Some v \<Rightarrow> v_additional_price v) \<le> dec_bound)
     \<and> (\<forall>v. cl_variant l = Some v \<longrightarrow> 0 \<le> v_additional_price v) \<and> 0 \<le> ci_quantity (cl_item l)"

definition line_in_cart :: "cart_line \<Rightarrow> bool" where
  "line_in_cart l \<longleftrightarrow>
     (case cl_product l of None \<Rightarrow> False | Some p \<Rightarrow> lr_is_available (line_response_of l p))"

lemma line_response_subtotal:
  assumes "cl_product l = Some p" "line_priced l" "line_cents l \<le> dec_bound"
  shows "lr_subtotal (line_response_of l p) = js_of_dec (line_cents l)" "0 \<le> line_cents l"
proof -
  define a where "a = (case cl_variant l of None \<Rightarrow> 0 | Some v \<Rightarrow> v_additional_price v)"
  have a: "0 \<le> p_price p" "0 \<le> a" "p_price p + a \<le> dec_bound" "0 \<le> ci_quantity (cl_item l)"
    using assms(1,2) by (auto simp: line_priced_def a_def split: option.splits)
  have unit: "round2 (js_add (js_of_dec (p_price p)) (case cl_variant l of None \<Rightarrow> 0 | Some v \<Rightarrow> js_of_dec (v_additional_price v)))
      = js_of_dec (p_price p + a)"
    using a round2_add_dec [of "p_price p" a] by (simp add: a_def split: option.splits)
  have cents: "line_cents l = (p_price p + a) * ci_quantity (cl_item l)"
    using assms(1) by (simp add: line_cents_def a_def)
  then show "0 \<le> line_cents l" using a by simp
  have "rnear (Suc 1) (line_cents l) (js_mul (js_of_dec (p_price p + a)) (of_int (ci_quantity (cl_item l))))"
    unfolding cents using a by (intro rnear_mul_int rnear_dec) auto
  then have "round2 (js_mul (js_of_dec (p_price p + a)) (of_int (ci_quantity (cl_item l)))) = js_of_dec (line_cents l)"
    using assms(3) by (intro round2_rnear) auto
  then show "lr_subtotal (line_response_of l p) = js_of_dec (line_cents l)"
    by (simp add: line_response_of_def Let_def unit)
qed

lemma cart_total:
  assumes "\<forall>l \<in> set (load_cart u d). line_priced l" "length (load_cart u d) \<le> 1000"
    and "(\<Sum>l\<leftarrow>filter line_in_cart (load_cart u d). line_cents l) \<le> dec_bound"
  shows "cr_total_amount (getCart u d) = js_of_dec (\<Sum>l\<leftarrow>filter line_in_cart (load_cart u d). line_cents l)"
proof -
  define rows where "rows = filter (\<lambda>l. cl_product l \<noteq> None) (load_cart u d)"
  define gs where "gs = group_by (\<lambda>l. map_option s_id (cl_shop l)) rows"
  define ls where "ls = concat (map snd gs)"
  define resp where "resp = (\<lambda>l. line_response_of l (the (cl_product l)))"
  have prod: "\<exists>p. cl_product l = Some p" "l \<in> set (load_cart u d)" if "l \<in> set ls" for l
  proof -
    have "l \<in> set rows" using that unfolding ls_def gs_def by (rule members_group_by)
    then show "\<exists>p. cl_product l = Some p" "l \<in> set (load_cart u d)" by (auto simp: rows_def)
  qed
  have avail: "lr_is_available (resp l) = line_in_cart l" if "l \<in> set ls" for l
    using prod [OF that] by (auto simp: line_in_cart_def resp_def)
  have "filter lr_is_available (concat (map (\<lambda>(shop, ls). map resp ls) gs)) = map resp (filter line_in_cart ls)"
  proof -
    have "concat (map (\<lambda>(shop, ls). map resp ls) gs) = map resp ls"
      by (simp add: ls_def map_concat comp_def case_prod_unfold)
    moreover have "filter lr_is_available (map resp ls) = map resp (filter line_in_cart ls)"
      unfolding filter_map by (intro arg_cong [where f = "map resp"] filter_cong) (auto simp: avail)
    ultimately show ?thesis by simp
  qed
  moreover have "cr_total_amount (getCart u d) = round2 (foldl (\<lambda>acc i. js_add acc (lr_subtotal i)) 0
      (filter lr_is_available (concat (map (\<lambda>(shop, ls). map resp ls) gs))))"
    by (simp add: getCart_def Let_def rows_def gs_def resp_def comp_def case_prod_unfold)
  ultimately have code: "cr_total_amount (getCart u d)
      = round2 (foldl (\<lambda>acc l. js_add acc (lr_subtotal (resp l))) 0 (filter line_in_cart ls))"
    by (simp add: foldl_map comp_def)
  have sum: "(\<Sum>l\<leftarrow>filter line_in_cart ls. line_cents l) = (\<Sum>l\<leftarrow>filter line_in_cart (load_cart u d). line_cents l)"
  proof -
    have "(\<Sum>l\<leftarrow>filter line_in_cart ls. line_cents l)
        = (\<Sum>g\<leftarrow>gs. sum_list (map (\<lambda>l. if line_in_cart l then line_cents l else 0) (snd g)))"
      unfolding sum_filter_if ls_def by (rule sum_concat_groups)
    also have "\<dots> = (\<Sum>l\<leftarrow>rows. if line_in_cart l then line_cents l else 0)"
      unfolding gs_def by (rule sum_group_by)
    also have "\<dots> = (\<Sum>l\<leftarrow>filter line_in_cart rows. line_cents l)" by (rule sum_filter_if [symmetric])
    also have "filter line_in_cart rows = filter line_in_cart (load_cart u d)"
      unfolding rows_def filter_filter by (intro filter_cong) (auto simp: line_in_cart_def split: option.splits)
    finally show ?thesis .
  qed
  have nn: "0 \<le> line_cents l" if "l \<in> set (load_cart u d)" for l
    using assms(1) that by (auto simp: line_priced_def line_cents_def split: option.splits)
  have "\<forall>l \<in> set (filter line_in_cart ls). rnear 1 (line_cents l) (lr_subtotal (resp l))"
  proof
    fix l assume l: "l \<in> set (filter line_in_cart ls)"
    then obtain p where p: "cl_product l = Some p" "l \<in> set (load_cart u d)" using prod by auto
    have "line_cents l \<le> (\<Sum>l\<leftarrow>filter line_in_cart ls. line_cents l)"
      using l nn prod by (intro member_le_sum_list) auto
    then have "line_cents l \<le> dec_bound" using sum assms(3) by simp
    with line_response_subtotal [OF p(1)] assms(1) p have "lr_subtotal (resp l) = js_of_dec (line_cents l)"
      by (simp add: resp_def)
    then show "rnear 1 (line_cents l) (lr_subtotal (resp l))" using nn [OF p(2)] by (simp only: rnear_dec)
  qed
  moreover have "length (filter line_in_cart ls) \<le> 1000"
  proof -
    have "length (filter line_in_cart ls) \<le> length ls" by simp
    also have "\<dots> = length rows" unfolding ls_def gs_def by (rule length_group_by)
    also have "\<dots> \<le> length (load_cart u d)" unfolding rows_def by (rule length_filter_le)
    finally show ?thesis using assms(2) by simp
  qed
  ultimately have "rnear (1 + length (filter line_in_cart ls)) (0 + (\<Sum>l\<leftarrow>filter line_in_cart ls. line_cents l))
      (foldl (\<lambda>acc l. js_add acc (lr_subtotal (resp l))) 0 (filter line_in_cart ls))"
    by (intro rnear_foldl rnear_0) auto
  with \<open>length (filter line_in_cart ls) \<le> 1000\<close> show ?thesis
    unfolding code using assms(3) sum by (intro round2_rnear) auto
qed

subsection \<open>Properties\<close>



text \<open>
  The total a customer sees is exact: although every step is computed in doubles, the cart's
  total is the sum of price plus surcharge times quantity over the available lines, to the
  hundredth.
\<close>

theorem cart_total_exact:
  assumes "\<forall>l \<in> set (load_cart u d). line_priced l" "length (load_cart u d) \<le> 1000"
    and "(\<Sum>l\<leftarrow>filter line_in_cart (load_cart u d). line_cents l) \<le> dec_bound"
  shows "dec_of_js (cr_total_amount (getCart u d)) = (\<Sum>l\<leftarrow>filter line_in_cart (load_cart u d). line_cents l)"
proof -
  have "0 \<le> line_cents l" if "l \<in> set (load_cart u d)" for l
    using assms(1) that by (auto simp: line_priced_def line_cents_def split: option.splits)
  then have "0 \<le> (\<Sum>l\<leftarrow>filter line_in_cart (load_cart u d). line_cents l)"
    by (intro sum_list_nonneg) auto
  with assms(3) show ?thesis unfolding cart_total [OF assms] by (intro dec_of_js_of_dec) simp
qed

theorem cart_total_exact_witness:
  "dec_of_js (cr_total_amount (getCart 1 demo_db)) = 25000000"
proof -
  have lines: "load_cart 1 demo_db = map (load_line demo_db) [cart_items demo_db ! 1, cart_items demo_db ! 0]"
    by (simp add: load_cart_def user_rows_def demo_db_def)
  have all: "filter line_in_cart (load_cart 1 demo_db) = load_cart 1 demo_db"
    unfolding lines
    by (simp add: line_in_cart_def load_line_def find_opt_def find_row_def demo_db_def Let_def
        line_response_of_def unavailable_in_cart_def shop_active_def)
  have sum: "(\<Sum>l\<leftarrow>filter line_in_cart (load_cart 1 demo_db). line_cents l) = 25000000"
    unfolding all unfolding lines
    by (simp add: line_cents_def load_line_def find_opt_def find_row_def demo_db_def Let_def)
  have "\<forall>l \<in> set (load_cart 1 demo_db). line_priced l"
    unfolding lines
    by (simp add: line_priced_def load_line_def find_opt_def find_row_def demo_db_def Let_def dec_bound_def)
  moreover have "length (load_cart 1 demo_db) \<le> 1000" unfolding lines by simp
  moreover have "(\<Sum>l\<leftarrow>filter line_in_cart (load_cart 1 demo_db). line_cents l) \<le> dec_bound"
    unfolding sum by (simp add: dec_bound_def)
  ultimately show ?thesis using sum cart_total_exact by metis
qed

end
