(* ===== verification/OrderPricing.thy ===== *)
theory OrderPricing
  imports Carts Promotions ShippingFee
begin

text \<open>
  The pricing half of \<open>src/backend/src/modules/orders/orders.service.ts\<close>: grouping the cart by
  shop, subtotals, coupon discounts, the plan of the sub-orders that checkout makes, and the
  preview that computes the same bill without writing. All amounts are JavaScript numbers. The
  shipping calculator is the argument \<open>calc\<close>, as the service gets it injected.
\<close>

subsection \<open>Lines and groups\<close>

text \<open>A cart line that passed the availability check: its product and shop are loaded.\<close>

record order_line =
  ol_item :: cart_item
  ol_product :: product
  ol_shop :: shop
  ol_variant :: "variant option"

definition to_order_line :: "cart_line \<Rightarrow> order_line" where
  "to_order_line l = \<lparr>ol_item = cl_item l, ol_product = the (cl_product l), ol_shop = the (cl_shop l),
                      ol_variant = cl_variant l\<rparr>"

definition groupItemsByShop :: "order_line list \<Rightarrow> (shop \<times> order_line list) list" where
  "groupItemsByShop items =
     map (\<lambda>(k, ls). (ol_shop (hd ls), ls)) (group_by (\<lambda>l. s_id (ol_shop l)) items)"

definition unit_price :: "order_line \<Rightarrow> rat" where
  "unit_price l =
     js_add (js_of_dec (p_price (ol_product l)))
       (case ol_variant l of None \<Rightarrow> 0 | Some v \<Rightarrow> js_of_dec (v_additional_price v))"

definition computeShopSubtotal :: "order_line list \<Rightarrow> rat" where
  "computeShopSubtotal items =
     round2 (foldl (\<lambda>subtotal l. js_add subtotal (js_mul (unit_price l) (of_int (ci_quantity (ol_item l))))) 0 items)"

subsection \<open>Discounts\<close>

definition computeCouponDiscount :: "coupon \<Rightarrow> rat \<Rightarrow> rat" where
  "computeCouponDiscount c baseAmount =
     (let discountValue = (case c_discount_value c of None \<Rightarrow> 0 | Some v \<Rightarrow> js_of_dec v);
          discount = (case c_discount_type c of
                        Some Percentage \<Rightarrow> js_div (js_mul baseAmount discountValue) 100
                      | Some FixedAmount \<Rightarrow> discountValue
                      | None \<Rightarrow> 0);
          capped = min (case c_max_discount_value c of None \<Rightarrow> discount | Some m \<Rightarrow> min discount (js_of_dec m))
                     baseAmount
      in round2 (max 0 capped))"

subsection \<open>The plan of a checkout\<close>

record sub_order_plan =
  pl_shop :: shop
  pl_items :: "order_line list"
  pl_shopSubtotal :: rat
  pl_shopDiscount :: rat
  pl_shopCoupon :: "coupon option"
  pl_shippingFee :: rat
  pl_shopTotal :: rat

type_synonym calculator = "shop_shipping_info option \<Rightarrow> coordinate option \<Rightarrow> rat \<Rightarrow> rat option"

definition shipping_fee_of :: "calculator \<Rightarrow> shop \<Rightarrow> address \<Rightarrow> rat \<Rightarrow> http_error + rat" where
  "shipping_fee_of calc s a subtotal =
     (case calc (Some \<lparr>ss_lat = s_lat s, ss_lng = s_lng s,
                       ss_is_coordinates_verified = s_is_coordinates_verified s\<rparr>)
                (Some \<lparr>co_lat = a_lat a, co_lng = a_lng a\<rparr>) subtotal of
        None \<Rightarrow> Inl AmountNaN
      | Some f \<Rightarrow> Inr f)"

text \<open>\<open>shopCouponCodeByShopId\<close>: later entries of the payload win.\<close>

definition coupon_code_for :: "(uuid \<times> string) list \<Rightarrow> uuid \<Rightarrow> string option" where
  "coupon_code_for shop_coupons k = map_of (rev shop_coupons) k"

definition discount_of :: "coupon option \<Rightarrow> rat \<Rightarrow> rat" where
  "discount_of c base = (case c of None \<Rightarrow> 0 | Some c \<Rightarrow> computeCouponDiscount c base)"

definition plan_sub_order ::
  "calculator \<Rightarrow> address \<Rightarrow> (uuid \<times> string) list \<Rightarrow> millis \<Rightarrow> db \<Rightarrow> shop \<times> order_line list
    \<Rightarrow> http_error + sub_order_plan" where
  "plan_sub_order calc addr shop_coupons now d grp =
     (let s = fst grp; items = snd grp;
          shopSubtotal = computeShopSubtotal items
      in case lockAndValidateCoupon (coupon_code_for shop_coupons (s_id s)) ShopCoupon (Some (s_id s))
                shopSubtotal now d of
           Inl e \<Rightarrow> Inl e
         | Inr coupon \<Rightarrow>
             (let shopDiscount = discount_of coupon shopSubtotal
              in case shipping_fee_of calc s addr shopSubtotal of
                   Inl e \<Rightarrow> Inl e
                 | Inr fee \<Rightarrow>
                     Inr \<lparr>pl_shop = s, pl_items = items, pl_shopSubtotal = shopSubtotal,
                          pl_shopDiscount = shopDiscount, pl_shopCoupon = coupon, pl_shippingFee = fee,
                          pl_shopTotal = round2 (js_add (js_sub shopSubtotal shopDiscount) fee)\<rparr>))"

record order_plan =
  op_plans :: "sub_order_plan list"
  op_totalShopSubtotals :: rat
  op_globalCoupon :: "coupon option"
  op_globalDiscount :: rat
  op_grandTotal :: rat

definition plan_order ::
  "calculator \<Rightarrow> address \<Rightarrow> string option \<Rightarrow> (uuid \<times> string) list \<Rightarrow> millis \<Rightarrow> db \<Rightarrow> order_line list
    \<Rightarrow> http_error + order_plan" where
  "plan_order calc addr global_code shop_coupons now d items =
     (case map_result (plan_sub_order calc addr shop_coupons now d) (groupItemsByShop items) of
        Inl e \<Rightarrow> Inl e
      | Inr plans \<Rightarrow>
          (let totalShopSubtotals = round2 (foldl (\<lambda>acc p. js_add acc (pl_shopSubtotal p)) 0 plans)
           in case lockAndValidateCoupon global_code GlobalCoupon None totalShopSubtotals now d of
                Inl e \<Rightarrow> Inl e
              | Inr coupon \<Rightarrow>
                  (let globalDiscount = discount_of coupon totalShopSubtotals;
                       sumShopTotals = foldl (\<lambda>acc p. js_add acc (pl_shopTotal p)) 0 plans
                   in Inr \<lparr>op_plans = plans, op_totalShopSubtotals = totalShopSubtotals,
                           op_globalCoupon = coupon, op_globalDiscount = globalDiscount,
                           op_grandTotal = round2 (max 0 (js_sub sumShopTotals globalDiscount))\<rparr>)))"

subsection \<open>The preview\<close>

datatype stock_warning = NoWarning | OutOfStockWarning | OnlyLeft int

definition low_stock_threshold :: int where "low_stock_threshold = 5"

definition freeship_upsell_window :: rat where "freeship_upsell_window = 100000"

definition deriveStockWarning :: "order_line \<Rightarrow> stock_warning" where
  "deriveStockWarning l =
     (let stock = (case ol_variant l of Some v \<Rightarrow> v_stock_quantity v | None \<Rightarrow> p_stock_quantity (ol_product l))
      in if stock \<le> 0 then OutOfStockWarning
         else if stock \<le> low_stock_threshold then OnlyLeft stock else NoWarning)"

definition computeFreeshipUpsell :: "rat \<Rightarrow> rat option" where
  "computeFreeshipUpsell shopSubtotal =
     (if of_int free_shipping_threshold \<le> shopSubtotal then None
      else let needed = round2 (js_sub (of_int free_shipping_threshold) shopSubtotal)
           in if needed \<le> freeship_upsell_window then Some needed else None)"

record preview_item =
  pi_productId :: uuid
  pi_variantId :: "uuid option"
  pi_productName :: string
  pi_variantName :: "string option"
  pi_productThumbnail :: "string option"
  pi_price :: rat
  pi_quantity :: int
  pi_stock_warning :: stock_warning

record preview_shop =
  ps_shopId :: uuid
  ps_shopName :: string
  ps_items :: "preview_item list"
  ps_shippingFee :: rat
  ps_shopSubtotal :: rat
  ps_freeship_upsell_needed :: "rat option"

record preview_state =
  pv_shops :: "preview_shop list"
  pv_totalShippingFee :: rat
  pv_totalDiscount :: rat
  pv_totalShopTotals :: rat
  pv_totalShopSubtotals :: rat

definition preview_item_of :: "order_line \<Rightarrow> preview_item" where
  "preview_item_of l =
     \<lparr>pi_productId = p_id (ol_product l), pi_variantId = map_option v_id (ol_variant l),
      pi_productName = p_name (ol_product l), pi_variantName = Option.bind (ol_variant l) v_name,
      pi_productThumbnail = p_thumbnail_url (ol_product l), pi_price = round2 (unit_price l),
      pi_quantity = ci_quantity (ol_item l), pi_stock_warning = deriveStockWarning l\<rparr>"

definition preview_group ::
  "calculator \<Rightarrow> address \<Rightarrow> (uuid \<times> string) list \<Rightarrow> millis \<Rightarrow> db \<Rightarrow> preview_state
    \<Rightarrow> shop \<times> order_line list \<Rightarrow> http_error + preview_state" where
  "preview_group calc addr shop_coupons now d st grp =
     (let s = fst grp; items = snd grp;
          shopSubtotal = computeShopSubtotal items
      in case lockAndValidateCoupon (coupon_code_for shop_coupons (s_id s)) ShopCoupon (Some (s_id s))
                shopSubtotal now d of
           Inl e \<Rightarrow> Inl e
         | Inr coupon \<Rightarrow>
             (let shopDiscount = discount_of coupon shopSubtotal
              in case shipping_fee_of calc s addr shopSubtotal of
                   Inl e \<Rightarrow> Inl e
                 | Inr fee \<Rightarrow>
                     Inr \<lparr>pv_shops = pv_shops st @
                            [\<lparr>ps_shopId = s_id s, ps_shopName = s_name s, ps_items = map preview_item_of items,
                              ps_shippingFee = fee, ps_shopSubtotal = shopSubtotal,
                              ps_freeship_upsell_needed = computeFreeshipUpsell shopSubtotal\<rparr>],
                          pv_totalShippingFee = round2 (js_add (pv_totalShippingFee st) fee),
                          pv_totalDiscount = round2 (js_add (pv_totalDiscount st) shopDiscount),
                          pv_totalShopTotals = round2 (js_add (pv_totalShopTotals st)
                            (js_add (js_sub shopSubtotal shopDiscount) fee)),
                          pv_totalShopSubtotals = round2 (js_add (pv_totalShopSubtotals st) shopSubtotal)\<rparr>))"

fun preview_groups ::
  "calculator \<Rightarrow> address \<Rightarrow> (uuid \<times> string) list \<Rightarrow> millis \<Rightarrow> db \<Rightarrow> preview_state
    \<Rightarrow> (shop \<times> order_line list) list \<Rightarrow> http_error + preview_state" where
  "preview_groups calc addr shop_coupons now d st [] = Inr st"
| "preview_groups calc addr shop_coupons now d st (g # gs) =
     (case preview_group calc addr shop_coupons now d st g of
        Inl e \<Rightarrow> Inl e
      | Inr st' \<Rightarrow> preview_groups calc addr shop_coupons now d st' gs)"

record checkout_preview =
  cp_shops :: "preview_shop list"
  cp_totalShippingFee :: rat
  cp_totalDiscount :: rat
  cp_totalAmount :: rat

definition preview_order ::
  "calculator \<Rightarrow> address \<Rightarrow> string option \<Rightarrow> (uuid \<times> string) list \<Rightarrow> millis \<Rightarrow> db \<Rightarrow> order_line list
    \<Rightarrow> http_error + checkout_preview" where
  "preview_order calc addr global_code shop_coupons now d items =
     (case preview_groups calc addr shop_coupons now d
             \<lparr>pv_shops = [], pv_totalShippingFee = 0, pv_totalDiscount = 0, pv_totalShopTotals = 0,
              pv_totalShopSubtotals = 0\<rparr> (groupItemsByShop items) of
        Inl e \<Rightarrow> Inl e
      | Inr st \<Rightarrow>
          (case lockAndValidateCoupon global_code GlobalCoupon None (pv_totalShopSubtotals st) now d of
             Inl e \<Rightarrow> Inl e
           | Inr coupon \<Rightarrow>
               (let globalDiscount = discount_of coupon (pv_totalShopSubtotals st)
                in Inr \<lparr>cp_shops = pv_shops st, cp_totalShippingFee = pv_totalShippingFee st,
                        cp_totalDiscount = round2 (js_add (pv_totalDiscount st) globalDiscount),
                        cp_totalAmount = round2 (max 0 (js_sub (pv_totalShopTotals st) globalDiscount))\<rparr>)))"

text \<open>The cart as both flows read it, with the errors they share.\<close>

definition checkoutPreview ::
  "calculator \<Rightarrow> uuid \<Rightarrow> uuid \<Rightarrow> string option \<Rightarrow> (uuid \<times> string) list \<Rightarrow> millis \<Rightarrow> db
    \<Rightarrow> http_error + checkout_preview" where
  "checkoutPreview calc userId addressId global_code shop_coupons now d =
     (case findOwnedAddressOrFail userId addressId d of
        Inl e \<Rightarrow> Inl e
      | Inr addr \<Rightarrow>
          (case getActiveCartItemsForCheckout userId d of (valid, unavailable) \<Rightarrow>
             if unavailable \<noteq> [] then Inl (BadRequest (OrderMsg (ItemsUnavailable unavailable)))
             else if valid = [] then Inl (BadRequest (OrderMsg CartEmpty))
             else preview_order calc addr global_code shop_coupons now d (map to_order_line valid)))"

subsection \<open>The bill in exact hundredths\<close>

definition line_exact :: "order_line \<Rightarrow> int" where
  "line_exact l = (p_price (ol_product l) + (case ol_variant l of None \<Rightarrow> 0 | Some v \<Rightarrow> v_additional_price v))
                    * ci_quantity (ol_item l)"

definition line_nonneg :: "order_line \<Rightarrow> bool" where
  "line_nonneg l \<longleftrightarrow> 0 \<le> p_price (ol_product l) \<and> 0 \<le> ci_quantity (ol_item l)
     \<and> (\<forall>v. ol_variant l = Some v \<longrightarrow> 0 \<le> v_additional_price v)"

definition shop_cents :: "order_line list \<Rightarrow> int" where
  "shop_cents items = (\<Sum>l\<leftarrow>items. line_exact l)"

definition discount_cents :: "coupon option \<Rightarrow> int \<Rightarrow> int" where
  "discount_cents c b = cents_of (discount_of c (js_of_dec b))"

lemma line_exact_nonneg: "line_nonneg l \<Longrightarrow> 0 \<le> line_exact l"
  by (auto simp: line_nonneg_def line_exact_def split: option.splits)

lemma shop_cents_nonneg: "\<forall>l \<in> set items. line_nonneg l \<Longrightarrow> 0 \<le> shop_cents items"
  unfolding shop_cents_def by (intro sum_list_nonneg) (auto simp: line_exact_nonneg)

lemma rnear_line:
  assumes "line_nonneg l"
  shows "rnear 3 (line_exact l) (js_mul (unit_price l) (of_int (ci_quantity (ol_item l))))"
proof -
  let ?a = "case ol_variant l of None \<Rightarrow> 0 | Some v \<Rightarrow> v_additional_price v"
  have "rnear 1 ?a (case ol_variant l of None \<Rightarrow> 0 | Some v \<Rightarrow> js_of_dec (v_additional_price v))"
    using assms by (cases "ol_variant l") (simp_all add: line_nonneg_def rnear_dec rnear_0 del: One_nat_def)
  then have "rnear (Suc 1) (p_price (ol_product l) + ?a) (unit_price l)"
    unfolding unit_price_def using assms by (intro rnear_add rnear_dec) (auto simp: line_nonneg_def)
  then have "rnear (Suc (Suc 1)) (line_exact l) (js_mul (unit_price l) (of_int (ci_quantity (ol_item l))))"
    unfolding line_exact_def using assms by (intro rnear_mul_int) (auto simp: line_nonneg_def)
  then show ?thesis by (simp add: numeral_3_eq_3)
qed

lemma shop_subtotal_exact:
  assumes "\<forall>l \<in> set items. line_nonneg l" "length items \<le> 1000" "shop_cents items \<le> dec_bound"
  shows "computeShopSubtotal items = js_of_dec (shop_cents items)"
proof -
  have "rnear (3 + length items) (0 + (\<Sum>l\<leftarrow>items. line_exact l))
      (foldl (\<lambda>acc l. js_add acc (js_mul (unit_price l) (of_int (ci_quantity (ol_item l))))) 0 items)"
    using assms by (intro rnear_foldl rnear_0) (auto intro: rnear_line)
  then show ?thesis
    unfolding computeShopSubtotal_def using assms(2,3)
    by (intro round2_rnear) (auto simp: shop_cents_def)
qed

lemma discount_round2: "discount_of c b = js_of_dec (cents_of (case c of None \<Rightarrow> 0 | Some c \<Rightarrow>
     max 0 (min (case c_max_discount_value c of
                   None \<Rightarrow> (case c_discount_type c of
                        Some Percentage \<Rightarrow> js_div (js_mul b (case c_discount_value c of None \<Rightarrow> 0 | Some v \<Rightarrow> js_of_dec v)) 100
                      | Some FixedAmount \<Rightarrow> (case c_discount_value c of None \<Rightarrow> 0 | Some v \<Rightarrow> js_of_dec v)
                      | None \<Rightarrow> 0)
                 | Some m \<Rightarrow> min (case c_discount_type c of
                        Some Percentage \<Rightarrow> js_div (js_mul b (case c_discount_value c of None \<Rightarrow> 0 | Some v \<Rightarrow> js_of_dec v)) 100
                      | Some FixedAmount \<Rightarrow> (case c_discount_value c of None \<Rightarrow> 0 | Some v \<Rightarrow> js_of_dec v)
                      | None \<Rightarrow> 0) (js_of_dec m)) b)))"
  using cents_of_dec [of 0]
  by (simp add: discount_of_def computeCouponDiscount_def Let_def round2_cents dec_bound_def
      split: option.split)

lemma discount_bounds:
  assumes "0 \<le> b" "b \<le> dec_bound"
  shows "discount_of c (js_of_dec b) = js_of_dec (discount_cents c b)"
    and "0 \<le> discount_cents c b" "discount_cents c b \<le> b"
proof -
  obtain v where v: "discount_of c (js_of_dec b) = js_of_dec (cents_of v)" "0 \<le> v" "v \<le> js_of_dec b"
  proof (cases c)
    case None
    then show ?thesis
      using that [of 0] assms(1) js_of_dec_nonneg cents_of_dec [of 0]
      by (simp add: discount_of_def dec_bound_def)
  next
    case (Some x)
    show ?thesis
      by (rule that, rule discount_round2) (use Some assms(1) js_of_dec_nonneg in \<open>auto simp: max_def min_def\<close>)
  qed
  have k: "0 \<le> cents_of v" "cents_of v \<le> b"
    using cents_of_mono [OF v(2)] cents_of_mono [OF v(3)] cents_of_dec [of 0] cents_of_dec [of b] assms
    by (auto simp: dec_bound_def)
  then have "cents_of (js_of_dec (cents_of v)) = cents_of v" using assms(2) by (intro cents_of_dec) auto
  then have "discount_cents c b = cents_of v" by (simp add: discount_cents_def v(1))
  with k v(1) show "discount_of c (js_of_dec b) = js_of_dec (discount_cents c b)"
    "0 \<le> discount_cents c b" "discount_cents c b \<le> b" by simp_all
qed

text \<open>The part of the bill that one shop contributes, and the sums of the whole order.\<close>

definition group_ok :: "shop \<times> order_line list \<Rightarrow> bool" where
  "group_ok g \<longleftrightarrow> (\<forall>l \<in> set (snd g). line_nonneg l) \<and> length (snd g) \<le> 1000"

definition order_limit :: int where "order_limit = 10 ^ 11"

lemma near_js_dec: "0 \<le> k \<Longrightarrow> k \<le> dec_bound \<Longrightarrow> near (1 / 2 ^ 19) k (js_of_dec k)"
  by (rule near_dec) simp

context shipping_calculator
begin

definition fee_cents :: "address \<Rightarrow> shop \<Rightarrow> int \<Rightarrow> int" where
  "fee_cents addr s b = dec_of_js (case shipping_fee_of fee s addr (js_of_dec b) of Inl e \<Rightarrow> 0 | Inr f \<Rightarrow> f)"

lemma shipping_fee_cents:
  assumes "shipping_fee_of fee s addr (js_of_dec b) = Inr f"
  shows "f = js_of_dec (fee_cents addr s b)" "0 \<le> fee_cents addr s b" "fee_cents addr s b \<le> 15000000"
proof -
  from assms obtain dest sh where "fee sh dest (js_of_dec b) = Some f"
    by (auto simp: shipping_fee_of_def split: option.splits)
  from fee_column [OF this] show "f = js_of_dec (fee_cents addr s b)" "0 \<le> fee_cents addr s b"
    "fee_cents addr s b \<le> 15000000"
    using assms by (auto simp: fee_cents_def)
qed

text \<open>A sub-order's total: subtotal less discount plus fee, whether or not it is rounded on the way.\<close>

lemma shop_total_near:
  assumes "0 \<le> b" "b \<le> order_limit" "shipping_fee_of fee s addr (js_of_dec b) = Inr f"
  shows "near (1 / 2 ^ 16) (b - discount_cents c b + fee_cents addr s b)
           (js_add (js_sub (js_of_dec b) (discount_of c (js_of_dec b))) f)"
    and "0 \<le> b - discount_cents c b + fee_cents addr s b"
    and "b - discount_cents c b + fee_cents addr s b \<le> b + 15000000"
proof -
  have B: "b \<le> dec_bound" using assms(2) by (simp add: order_limit_def dec_bound_def)
  note d = discount_bounds [OF assms(1) B, of c] and f = shipping_fee_cents [OF assms(3)]
  show pos: "0 \<le> b - discount_cents c b + fee_cents addr s b"
    and up: "b - discount_cents c b + fee_cents addr s b \<le> b + 15000000"
    using d f by auto
  have "near (1 / 2 ^ 19 + 1 / 2 ^ 19 + 1 / 2 ^ 18) (b - discount_cents c b)
      (js_sub (js_of_dec b) (discount_of c (js_of_dec b)))"
    unfolding d(1) using d B assms(1) by (intro near_sub near_js_dec) auto
  then have "near (1 / 2 ^ 19 + 1 / 2 ^ 19 + 1 / 2 ^ 18 + 1 / 2 ^ 19 + 1 / 2 ^ 18)
      (b - discount_cents c b + fee_cents addr s b) (js_add (js_sub (js_of_dec b) (discount_of c (js_of_dec b))) f)"
    unfolding f(1) using d f assms(1,2)
    by (intro near_add near_js_dec) (auto simp: order_limit_def dec_bound_def)
  then show "near (1 / 2 ^ 16) (b - discount_cents c b + fee_cents addr s b)
           (js_add (js_sub (js_of_dec b) (discount_of c (js_of_dec b))) f)"
    by (rule near_mono) simp
qed

end

subsection \<open>Plans are exact\<close>

definition pc_sub :: "sub_order_plan \<Rightarrow> int" where "pc_sub p = cents_of (pl_shopSubtotal p)"
definition pc_disc :: "sub_order_plan \<Rightarrow> int" where "pc_disc p = cents_of (pl_shopDiscount p)"
definition pc_fee :: "sub_order_plan \<Rightarrow> int" where "pc_fee p = cents_of (pl_shippingFee p)"
definition pc_total :: "sub_order_plan \<Rightarrow> int" where "pc_total p = cents_of (pl_shopTotal p)"

definition exact_plan :: "sub_order_plan \<Rightarrow> bool" where
  "exact_plan p \<longleftrightarrow>
     pl_shopSubtotal p = js_of_dec (pc_sub p) \<and> pl_shopDiscount p = js_of_dec (pc_disc p)
   \<and> pl_shippingFee p = js_of_dec (pc_fee p) \<and> pl_shopTotal p = js_of_dec (pc_total p)
   \<and> pc_sub p = shop_cents (pl_items p) \<and> pc_disc p = discount_cents (pl_shopCoupon p) (pc_sub p)
   \<and> 0 \<le> pc_sub p \<and> pc_sub p \<le> order_limit
   \<and> 0 \<le> pc_disc p \<and> pc_disc p \<le> pc_sub p \<and> 0 \<le> pc_fee p \<and> pc_fee p \<le> 15000000
   \<and> pc_total p = pc_sub p - pc_disc p + pc_fee p
   \<and> near (1 / 2 ^ 16) (pc_total p) (js_add (js_sub (pl_shopSubtotal p) (pl_shopDiscount p)) (pl_shippingFee p))"

context shipping_calculator
begin

lemma plan_sub_order_exact:
  assumes "plan_sub_order fee addr sc now d g = Inr p" "group_ok g" "shop_cents (snd g) \<le> order_limit"
  shows "exact_plan p \<and> pl_items p = snd g \<and> pl_shop p = fst g"
proof -
  define b where "b = shop_cents (snd g)"
  have b: "0 \<le> b" "b \<le> order_limit" "b \<le> dec_bound"
    using assms(2,3) by (auto simp: b_def group_ok_def shop_cents_nonneg order_limit_def dec_bound_def)
  have sub: "computeShopSubtotal (snd g) = js_of_dec b"
    unfolding b_def using assms(2) b(3) by (intro shop_subtotal_exact) (auto simp: group_ok_def b_def)
  from assms(1) obtain c f where p: "p = \<lparr>pl_shop = fst g, pl_items = snd g, pl_shopSubtotal = js_of_dec b,
      pl_shopDiscount = discount_of c (js_of_dec b), pl_shopCoupon = c, pl_shippingFee = f,
      pl_shopTotal = round2 (js_add (js_sub (js_of_dec b) (discount_of c (js_of_dec b))) f)\<rparr>"
    and f: "shipping_fee_of fee (fst g) addr (js_of_dec b) = Inr f"
    by (auto simp: plan_sub_order_def Let_def sub split: sum.splits)
  let ?F = "fee_cents addr (fst g) b" and ?D = "discount_cents c b"
  note d = discount_bounds [OF b(1,3), of c] and fc = shipping_fee_cents [OF f]
    and tot = shop_total_near [OF b(1,2) f, of c]
  have T: "b - ?D + ?F \<le> dec_bound" using tot(3) b by (simp add: order_limit_def dec_bound_def)
  have "round2 (js_add (js_sub (js_of_dec b) (discount_of c (js_of_dec b))) f) = js_of_dec (b - ?D + ?F)"
    using T tot(2) by (intro round2_near near_mono [OF tot(1)]) auto
  then have cents: "pc_sub p = b" "pc_disc p = ?D" "pc_fee p = ?F" "pc_total p = b - ?D + ?F"
    using b d fc T tot(2) cents_of_dec
    by (simp_all add: p pc_sub_def pc_disc_def pc_fee_def pc_total_def dec_bound_def order_limit_def)
  show ?thesis
    using b d fc tot cents \<open>round2 _ = _\<close> by (simp add: exact_plan_def p b_def)
qed

end

lemma exact_plan_bounds:
  "exact_plan p \<Longrightarrow> 0 \<le> pc_sub p" "exact_plan p \<Longrightarrow> 0 \<le> pc_total p"
  "exact_plan p \<Longrightarrow> pc_total p \<le> pc_sub p + 15000000"
  by (auto simp: exact_plan_def)

lemma exact_plan_rnear:
  assumes "exact_plan p"
  shows "rnear 1 (pc_sub p) (pl_shopSubtotal p)" "rnear 1 (pc_total p) (pl_shopTotal p)"
proof -
  have "pl_shopSubtotal p = js_of_dec (pc_sub p)" "pl_shopTotal p = js_of_dec (pc_total p)"
    using assms unfolding exact_plan_def by blast+
  with exact_plan_bounds [OF assms] show "rnear 1 (pc_sub p) (pl_shopSubtotal p)"
    "rnear 1 (pc_total p) (pl_shopTotal p)"
    using rnear_dec by metis+
qed

lemma foldl_sub_exact:
  assumes "\<forall>p \<in> set ps. exact_plan p" "length ps \<le> 400" "(\<Sum>p\<leftarrow>ps. pc_sub p) \<le> order_limit"
  shows "round2 (foldl (\<lambda>acc p. js_add acc (pl_shopSubtotal p)) 0 ps) = js_of_dec (\<Sum>p\<leftarrow>ps. pc_sub p)"
proof -
  have "rnear (1 + length ps) (0 + (\<Sum>p\<leftarrow>ps. pc_sub p)) (foldl (\<lambda>acc p. js_add acc (pl_shopSubtotal p)) 0 ps)"
    using assms(1,2) exact_plan_rnear by (intro rnear_foldl rnear_0) auto
  then show ?thesis
    using assms(2,3) by (intro round2_rnear) (auto simp: order_limit_def dec_bound_def)
qed

lemma sum_total_bounds:
  assumes "\<forall>p \<in> set ps. exact_plan p" "length ps \<le> 400" "(\<Sum>p\<leftarrow>ps. pc_sub p) \<le> order_limit"
  shows "0 \<le> (\<Sum>p\<leftarrow>ps. pc_total p)" "(\<Sum>p\<leftarrow>ps. pc_total p) \<le> (\<Sum>p\<leftarrow>ps. pc_sub p) + 15000000 * int (length ps)"
    "(\<Sum>p\<leftarrow>ps. pc_total p) \<le> dec_bound - order_limit"
proof -
  show "0 \<le> (\<Sum>p\<leftarrow>ps. pc_total p)"
    using assms(1) exact_plan_bounds by (intro sum_list_nonneg) auto
  show le: "(\<Sum>p\<leftarrow>ps. pc_total p) \<le> (\<Sum>p\<leftarrow>ps. pc_sub p) + 15000000 * int (length ps)"
    using assms(1)
  proof (induction ps)
    case (Cons p ps)
    then show ?case using exact_plan_bounds(3) [of p] by simp
  qed simp
  show "(\<Sum>p\<leftarrow>ps. pc_total p) \<le> dec_bound - order_limit"
    using le assms(2,3) by (simp add: order_limit_def dec_bound_def)
qed

lemma foldl_total_near:
  assumes "\<forall>p \<in> set ps. exact_plan p" "length ps \<le> 400" "(\<Sum>p\<leftarrow>ps. pc_sub p) \<le> order_limit"
  shows "near (1 / 512) (\<Sum>p\<leftarrow>ps. pc_total p) (foldl (\<lambda>acc p. js_add acc (pl_shopTotal p)) 0 ps)"
proof -
  have "rnear (1 + length ps) (0 + (\<Sum>p\<leftarrow>ps. pc_total p)) (foldl (\<lambda>acc p. js_add acc (pl_shopTotal p)) 0 ps)"
    using assms(1,2) exact_plan_rnear by (intro rnear_foldl rnear_0) auto
  then show ?thesis
    using assms(2) sum_total_bounds [OF assms]
    by (intro rnear_near_half) (auto simp: order_limit_def dec_bound_def)
qed

lemma grand_total_exact:
  assumes "near (1 / 512) t v" "0 \<le> t" "t \<le> dec_bound - order_limit" "0 \<le> g" "g \<le> order_limit"
  shows "round2 (max 0 (js_sub v (js_of_dec g))) = js_of_dec (max 0 (t - g))"
proof -
  have "near (1 / 512 + 1 / 2 ^ 19 + 1 / 2 ^ 18) (t - g) (js_sub v (js_of_dec g))"
    using assms by (intro near_sub near_js_dec) (auto simp: order_limit_def dec_bound_def)
  then have "near (1 / 256) (t - g) (js_sub v (js_of_dec g))" by (rule near_mono) simp
  then have "near (1 / 256) (max 0 (t - g)) (max 0 (js_sub v (js_of_dec g)))" by (rule near_max0)
  then show ?thesis using assms by (intro round2_near) (auto simp: order_limit_def dec_bound_def max_def)
qed

subsection \<open>Groups of a cart\<close>

lemma groupItemsByShop_snd: "map snd (groupItemsByShop items) = map snd (group_by (\<lambda>l. s_id (ol_shop l)) items)"
  by (simp add: groupItemsByShop_def comp_def case_prod_unfold)

lemma group_member:
  assumes "g \<in> set (groupItemsByShop items)"
  shows "snd g \<noteq> []" "set (snd g) \<subseteq> set items" "length (snd g) \<le> length items"
    "\<forall>l \<in> set (snd g). s_id (ol_shop l) = s_id (fst g)"
proof -
  from assms obtain k ls where g: "(k, ls) \<in> set (group_by (\<lambda>l. s_id (ol_shop l)) items)"
      "g = (ol_shop (hd ls), ls)"
    by (auto simp: groupItemsByShop_def)
  note m = group_by_members [OF g(1)] and ne = group_by_nonempty [OF g(1)]
  show "snd g \<noteq> []" using ne g(2) by simp
  show "set (snd g) \<subseteq> set items" "length (snd g) \<le> length items" using m g(2) by auto
  have "hd ls \<in> set ls" using ne by simp
  then show "\<forall>l \<in> set (snd g). s_id (ol_shop l) = s_id (fst g)" using m g(2) by auto
qed

lemma groups_length: "length (groupItemsByShop items) \<le> length items"
proof -
  let ?gs = "group_by (\<lambda>l. s_id (ol_shop l)) items"
  have "length gs \<le> length (concat (map snd gs))" if "\<forall>g \<in> set gs. snd g \<noteq> []"
    for gs :: "('k \<times> 'v list) list"
    using that
  proof (induction gs)
    case (Cons g gs)
    then show ?case by (cases "snd g") auto
  qed simp
  moreover have "\<forall>g \<in> set ?gs. snd g \<noteq> []" using group_by_nonempty by fastforce
  ultimately have "length ?gs \<le> length (concat (map snd ?gs))" by blast
  then show ?thesis by (simp add: groupItemsByShop_def length_group_by)
qed

lemma groups_sum: "(\<Sum>g\<leftarrow>groupItemsByShop items. shop_cents (snd g)) = shop_cents items"
proof -
  have "(\<Sum>g\<leftarrow>groupItemsByShop items. shop_cents (snd g)) = (\<Sum>ls\<leftarrow>map snd (groupItemsByShop items). shop_cents ls)"
    by (simp add: comp_def)
  also have "\<dots> = (\<Sum>g\<leftarrow>group_by (\<lambda>l. s_id (ol_shop l)) items. sum_list (map line_exact (snd g)))"
    unfolding groupItemsByShop_snd by (simp add: comp_def shop_cents_def)
  also have "\<dots> = shop_cents items" unfolding shop_cents_def by (rule sum_group_by)
  finally show ?thesis .
qed

text \<open>The carts the pricing is exact for: nonnegative prices, at most 400 lines, at most a
  billion dong of goods. The cart itself is limited to 50 rows.\<close>

definition cart_priceable :: "order_line list \<Rightarrow> bool" where
  "cart_priceable items \<longleftrightarrow>
     (\<forall>l \<in> set items. line_nonneg l) \<and> length items \<le> 400 \<and> shop_cents items \<le> order_limit"

lemma groups_ok:
  assumes "cart_priceable items" "g \<in> set (groupItemsByShop items)"
  shows "group_ok g" "shop_cents (snd g) \<le> order_limit"
proof -
  show ok: "group_ok g"
    using assms group_member [OF assms(2)] by (auto simp: cart_priceable_def group_ok_def)
  have "0 \<le> shop_cents (snd h)" if "h \<in> set (groupItemsByShop items)" for h
    using assms(1) group_member(2) [OF that] by (intro shop_cents_nonneg) (auto simp: cart_priceable_def)
  then have "shop_cents (snd g) \<le> (\<Sum>g\<leftarrow>groupItemsByShop items. shop_cents (snd g))"
    using assms(2) by (intro member_le_sum_list) auto
  then show "shop_cents (snd g) \<le> order_limit" using assms(1) by (simp add: groups_sum cart_priceable_def)
qed

text \<open>What the numbers of a plan are, in hundredths.\<close>

definition exact_order :: "order_line list \<Rightarrow> order_plan \<Rightarrow> bool" where
  "exact_order items op \<longleftrightarrow>
     (\<forall>p \<in> set (op_plans op). exact_plan p)
   \<and> (\<Sum>p\<leftarrow>op_plans op. pc_sub p) = shop_cents items
   \<and> op_totalShopSubtotals op = js_of_dec (shop_cents items)
   \<and> op_globalDiscount op = js_of_dec (discount_cents (op_globalCoupon op) (shop_cents items))
   \<and> op_grandTotal op = js_of_dec (max 0 ((\<Sum>p\<leftarrow>op_plans op. pc_total p)
                                      - discount_cents (op_globalCoupon op) (shop_cents items)))"

definition preview_step :: "preview_state \<Rightarrow> sub_order_plan \<Rightarrow> preview_state" where
  "preview_step st p =
     \<lparr>pv_shops = pv_shops st @
        [\<lparr>ps_shopId = s_id (pl_shop p), ps_shopName = s_name (pl_shop p),
          ps_items = map preview_item_of (pl_items p), ps_shippingFee = pl_shippingFee p,
          ps_shopSubtotal = pl_shopSubtotal p,
          ps_freeship_upsell_needed = computeFreeshipUpsell (pl_shopSubtotal p)\<rparr>],
      pv_totalShippingFee = round2 (js_add (pv_totalShippingFee st) (pl_shippingFee p)),
      pv_totalDiscount = round2 (js_add (pv_totalDiscount st) (pl_shopDiscount p)),
      pv_totalShopTotals = round2 (js_add (pv_totalShopTotals st)
        (js_add (js_sub (pl_shopSubtotal p) (pl_shopDiscount p)) (pl_shippingFee p))),
      pv_totalShopSubtotals = round2 (js_add (pv_totalShopSubtotals st) (pl_shopSubtotal p))\<rparr>"

lemma preview_group_plan:
  "preview_group calc addr sc now d st g =
     (case plan_sub_order calc addr sc now d g of Inl e \<Rightarrow> Inl e | Inr p \<Rightarrow> Inr (preview_step st p))"
  by (simp add: preview_group_def plan_sub_order_def preview_step_def Let_def split: sum.split)

lemma preview_groups_plans:
  "preview_groups calc addr sc now d st gs =
     (case map_result (plan_sub_order calc addr sc now d) gs of
        Inl e \<Rightarrow> Inl e | Inr ps \<Rightarrow> Inr (foldl preview_step st ps))"
  by (induction gs arbitrary: st) (auto simp: preview_group_plan split: sum.split)

definition preview_start :: preview_state where
  "preview_start = \<lparr>pv_shops = [], pv_totalShippingFee = 0, pv_totalDiscount = 0, pv_totalShopTotals = 0,
     pv_totalShopSubtotals = 0\<rparr>"

text \<open>The running totals of the preview, rounded at every step, are exact as well.\<close>

lemma preview_fold_exact:
  assumes "\<forall>p \<in> set ps. exact_plan p" "length ps \<le> 400" "(\<Sum>p\<leftarrow>ps. pc_sub p) \<le> order_limit"
  shows "pv_totalShopSubtotals (foldl preview_step preview_start ps) = js_of_dec (\<Sum>p\<leftarrow>ps. pc_sub p)
       \<and> pv_totalShopTotals (foldl preview_step preview_start ps) = js_of_dec (\<Sum>p\<leftarrow>ps. pc_total p)"
  using assms
proof (induction ps rule: rev_induct)
  case (snoc p ps)
  have ps: "\<forall>p \<in> set ps. exact_plan p" and p: "exact_plan p" and len: "length ps \<le> 400"
    using snoc.prems by auto
  have nn: "0 \<le> (\<Sum>p\<leftarrow>ps. pc_sub p)" using ps exact_plan_bounds(1) by (intro sum_list_nonneg) auto
  have sum: "(\<Sum>p\<leftarrow>ps. pc_sub p) \<le> order_limit" using snoc.prems(3) exact_plan_bounds(1) [OF p] by simp
  note IH = snoc.IH [OF ps len sum]
  note tot = sum_total_bounds [OF ps len sum] and tot' = sum_total_bounds [OF snoc.prems]
  have "pl_shopSubtotal p = js_of_dec (pc_sub p)" using p unfolding exact_plan_def by blast
  moreover have "(\<Sum>p\<leftarrow>ps. pc_sub p) + pc_sub p \<le> dec_bound"
    using snoc.prems(3) by (simp add: order_limit_def dec_bound_def)
  ultimately have sub: "round2 (js_add (js_of_dec (\<Sum>p\<leftarrow>ps. pc_sub p)) (pl_shopSubtotal p))
      = js_of_dec ((\<Sum>p\<leftarrow>ps. pc_sub p) + pc_sub p)"
    using nn exact_plan_bounds(1) [OF p] by (simp only: round2_add_dec)
  have "near (1 / 2 ^ 16) (pc_total p) (js_add (js_sub (pl_shopSubtotal p) (pl_shopDiscount p)) (pl_shippingFee p))"
    using p unfolding exact_plan_def by blast
  then have "near (1 / 2 ^ 19 + 1 / 2 ^ 16 + 1 / 2 ^ 18) ((\<Sum>p\<leftarrow>ps. pc_total p) + pc_total p)
      (js_add (js_of_dec (\<Sum>p\<leftarrow>ps. pc_total p))
         (js_add (js_sub (pl_shopSubtotal p) (pl_shopDiscount p)) (pl_shippingFee p)))"
    using tot tot' by (intro near_add near_js_dec) (auto simp: order_limit_def dec_bound_def)
  then have "near (1 / 256) ((\<Sum>p\<leftarrow>ps. pc_total p) + pc_total p)
      (js_add (js_of_dec (\<Sum>p\<leftarrow>ps. pc_total p))
         (js_add (js_sub (pl_shopSubtotal p) (pl_shopDiscount p)) (pl_shippingFee p)))"
    by (rule near_mono) simp
  then have "round2 (js_add (js_of_dec (\<Sum>p\<leftarrow>ps. pc_total p))
         (js_add (js_sub (pl_shopSubtotal p) (pl_shopDiscount p)) (pl_shippingFee p)))
      = js_of_dec ((\<Sum>p\<leftarrow>ps. pc_total p) + pc_total p)"
    using tot' by (intro round2_near) (auto simp: order_limit_def dec_bound_def)
  with sub IH show ?case by (simp add: preview_step_def)
qed (simp add: preview_start_def)

context shipping_calculator
begin

lemma plans_exact:
  assumes "map_result (plan_sub_order fee addr sc now d) (groupItemsByShop items) = Inr ps"
    and "cart_priceable items"
  shows "\<forall>p \<in> set ps. exact_plan p" "length ps \<le> 400" "(\<Sum>p\<leftarrow>ps. pc_sub p) = shop_cents items"
proof -
  have all: "list_all2 (\<lambda>g p. plan_sub_order fee addr sc now d g = Inr p) (groupItemsByShop items) ps"
    using assms(1) by (simp add: map_result_Inr_iff)
  have one: "exact_plan p \<and> pl_items p = snd g"
    if "g \<in> set (groupItemsByShop items)" "plan_sub_order fee addr sc now d g = Inr p" for g p
    using plan_sub_order_exact [OF that(2) groups_ok [OF assms(2) that(1)]] by blast
  show "\<forall>p \<in> set ps. exact_plan p" using map_result_member [OF assms(1)] one by blast
  show "length ps \<le> 400"
    using map_result_length [OF assms(1)] groups_length [of items] assms(2) by (simp add: cart_priceable_def)
  have "(\<Sum>p\<leftarrow>ps. pc_sub p) = (\<Sum>g\<leftarrow>gs. shop_cents (snd g))"
    if "list_all2 (\<lambda>g p. plan_sub_order fee addr sc now d g = Inr p) gs ps"
      "set gs \<subseteq> set (groupItemsByShop items)" for gs
    using that
  proof (induction gs ps rule: list_all2_induct)
    case (Cons g gs p ps)
    then have "exact_plan p \<and> pl_items p = snd g" using one [of g p] by simp
    then have "pc_sub p = shop_cents (snd g)" unfolding exact_plan_def by metis
    with Cons show ?case by simp
  qed simp
  from this [OF all subset_refl] show "(\<Sum>p\<leftarrow>ps. pc_sub p) = shop_cents items" by (simp add: groups_sum)
qed

lemma plan_order_exact:
  assumes "plan_order fee addr gc sc now d items = Inr op" "cart_priceable items"
  shows "exact_order items op"
proof -
  from assms(1) obtain ps where ps: "map_result (plan_sub_order fee addr sc now d) (groupItemsByShop items) = Inr ps"
    by (auto simp: plan_order_def split: sum.splits)
  note ex = plans_exact [OF ps assms(2)]
  have S: "0 \<le> shop_cents items" "shop_cents items \<le> order_limit" "shop_cents items \<le> dec_bound"
    using assms(2) shop_cents_nonneg by (auto simp: cart_priceable_def order_limit_def dec_bound_def)
  have sum: "(\<Sum>p\<leftarrow>ps. pc_sub p) \<le> order_limit" using ex(3) S by simp
  have sub: "round2 (foldl (\<lambda>acc p. js_add acc (pl_shopSubtotal p)) 0 ps) = js_of_dec (shop_cents items)"
    using foldl_sub_exact [OF ex(1,2) sum] ex(3) by simp
  note db = discount_bounds [OF S(1,3)]
  have "round2 (max 0 (js_sub (foldl (\<lambda>acc p. js_add acc (pl_shopTotal p)) 0 ps)
         (discount_of c (js_of_dec (shop_cents items)))))
      = js_of_dec (max 0 ((\<Sum>p\<leftarrow>ps. pc_total p) - discount_cents c (shop_cents items)))" for c
    unfolding db(1) [of c] using foldl_total_near [OF ex(1,2) sum] sum_total_bounds [OF ex(1,2) sum] db(2,3) [of c] S
    by (intro grand_total_exact) auto
  then show ?thesis
    using assms(1) ex db(1) by (auto simp: exact_order_def plan_order_def ps sub Let_def split: sum.splits)
qed

text \<open>The preview and the checkout agree: same errors, same total.\<close>

lemma preview_plan_agree:
  assumes "cart_priceable items"
  shows "(case preview_order fee addr gc sc now d items of Inl e \<Rightarrow> Inl e | Inr cp \<Rightarrow> Inr (cp_totalAmount cp))
       = (case plan_order fee addr gc sc now d items of Inl e \<Rightarrow> Inl e | Inr op \<Rightarrow> Inr (op_grandTotal op))"
proof (cases "map_result (plan_sub_order fee addr sc now d) (groupItemsByShop items)")
  case (Inl e)
  then show ?thesis by (simp add: preview_order_def plan_order_def preview_groups_plans)
next
  case (Inr ps)
  note ex = plans_exact [OF Inr assms]
  have S: "0 \<le> shop_cents items" "shop_cents items \<le> order_limit" "shop_cents items \<le> dec_bound"
    using assms shop_cents_nonneg by (auto simp: cart_priceable_def order_limit_def dec_bound_def)
  have sum: "(\<Sum>p\<leftarrow>ps. pc_sub p) \<le> order_limit" using ex(3) S by simp
  have sub: "round2 (foldl (\<lambda>acc p. js_add acc (pl_shopSubtotal p)) 0 ps) = js_of_dec (shop_cents items)"
    using foldl_sub_exact [OF ex(1,2) sum] ex(3) by simp
  note db = discount_bounds [OF S(1,3)] and tot = sum_total_bounds [OF ex(1,2) sum]
    and pv = preview_fold_exact [OF ex(1,2) sum, unfolded preview_start_def]
  have g: "near (1 / 512) (\<Sum>p\<leftarrow>ps. pc_total p) v \<Longrightarrow>
      round2 (max 0 (js_sub v (discount_of c (js_of_dec (shop_cents items)))))
      = js_of_dec (max 0 ((\<Sum>p\<leftarrow>ps. pc_total p) - discount_cents c (shop_cents items)))" for c v
    unfolding db(1) [of c] using tot db(2,3) [of c] S by (intro grand_total_exact) auto
  have n1: "near (1 / 512) (\<Sum>p\<leftarrow>ps. pc_total p) (js_of_dec (\<Sum>p\<leftarrow>ps. pc_total p))"
    using tot by (intro near_mono [OF near_js_dec]) (auto simp: order_limit_def dec_bound_def)
  note n2 = foldl_total_near [OF ex(1,2) sum]
  show ?thesis
    using pv ex(3) g [OF n1] g [OF n2]
    by (simp add: preview_order_def plan_order_def preview_groups_plans Inr sub Let_def split: sum.split)
qed

end

subsection \<open>Properties\<close>

lemma dec_of_exact:
  assumes "exact_plan p"
  shows "dec_of_js (pl_shopSubtotal p) = pc_sub p" "dec_of_js (pl_shopDiscount p) = pc_disc p"
    "dec_of_js (pl_shippingFee p) = pc_fee p" "dec_of_js (pl_shopTotal p) = pc_total p"
proof -
  have e: "pl_shopSubtotal p = js_of_dec (pc_sub p)" "pl_shopDiscount p = js_of_dec (pc_disc p)"
     "pl_shippingFee p = js_of_dec (pc_fee p)" "pl_shopTotal p = js_of_dec (pc_total p)"
    and b: "0 \<le> pc_sub p" "pc_sub p \<le> order_limit" "0 \<le> pc_disc p" "pc_disc p \<le> pc_sub p" "0 \<le> pc_fee p"
      "pc_fee p \<le> 15000000" "pc_total p = pc_sub p - pc_disc p + pc_fee p"
    using assms unfolding exact_plan_def by blast+
  have "\<bar>pc_sub p\<bar> \<le> dec_bound" "\<bar>pc_disc p\<bar> \<le> dec_bound" "\<bar>pc_fee p\<bar> \<le> dec_bound" "\<bar>pc_total p\<bar> \<le> dec_bound"
    using b by (simp_all add: order_limit_def dec_bound_def)
  then show "dec_of_js (pl_shopSubtotal p) = pc_sub p" "dec_of_js (pl_shopDiscount p) = pc_disc p"
    "dec_of_js (pl_shippingFee p) = pc_fee p" "dec_of_js (pl_shopTotal p) = pc_total p"
    by (simp_all only: e dec_of_js_of_dec)
qed

lemma exact_plan_columns:
  assumes "exact_plan p"
  shows "dec_of_js (pl_shopTotal p) =
           dec_of_js (pl_shopSubtotal p) - dec_of_js (pl_shopDiscount p) + dec_of_js (pl_shippingFee p)
       \<and> 0 \<le> dec_of_js (pl_shopDiscount p) \<and> dec_of_js (pl_shopDiscount p) \<le> dec_of_js (pl_shopSubtotal p)"
proof -
  have "0 \<le> pc_disc p" "pc_disc p \<le> pc_sub p" "pc_total p = pc_sub p - pc_disc p + pc_fee p"
    using assms unfolding exact_plan_def by blast+
  then show ?thesis by (simp only: dec_of_exact [OF assms])
qed

lemma exact_order_columns:
  assumes "exact_order items op" "cart_priceable items" "length (op_plans op) \<le> 400"
  shows "(\<Sum>p\<leftarrow>op_plans op. dec_of_js (pl_shopSubtotal p)) = shop_cents items"
    and "dec_of_js (op_grandTotal op) = max 0 ((\<Sum>p\<leftarrow>op_plans op. dec_of_js (pl_shopTotal p))
           - dec_of_js (op_globalDiscount op))"
proof -
  have ex: "\<forall>p \<in> set (op_plans op). exact_plan p"
    and sum: "(\<Sum>p\<leftarrow>op_plans op. pc_sub p) = shop_cents items"
    and g: "op_globalDiscount op = js_of_dec (discount_cents (op_globalCoupon op) (shop_cents items))"
    and t: "op_grandTotal op = js_of_dec (max 0 ((\<Sum>p\<leftarrow>op_plans op. pc_total p)
                                      - discount_cents (op_globalCoupon op) (shop_cents items)))"
    using assms(1) unfolding exact_order_def by blast+
  have S: "0 \<le> shop_cents items" "shop_cents items \<le> order_limit" "shop_cents items \<le> dec_bound"
    using assms(2) shop_cents_nonneg by (auto simp: cart_priceable_def order_limit_def dec_bound_def)
  have m: "(\<Sum>p\<leftarrow>op_plans op. dec_of_js (pl_shopTotal p)) = (\<Sum>p\<leftarrow>op_plans op. pc_total p)"
    "(\<Sum>p\<leftarrow>op_plans op. dec_of_js (pl_shopSubtotal p)) = (\<Sum>p\<leftarrow>op_plans op. pc_sub p)"
    using ex dec_of_exact by (auto intro!: arg_cong [where f = sum_list] map_cong)
  show "(\<Sum>p\<leftarrow>op_plans op. dec_of_js (pl_shopSubtotal p)) = shop_cents items" using m sum by simp
  have tb: "0 \<le> (\<Sum>p\<leftarrow>op_plans op. pc_total p)" "(\<Sum>p\<leftarrow>op_plans op. pc_total p) \<le> dec_bound - order_limit"
    using sum_total_bounds [OF ex assms(3)] sum S by auto
  note db = discount_bounds(2,3) [OF S(1,3), of "op_globalCoupon op"]
  have "dec_of_js (op_globalDiscount op) = discount_cents (op_globalCoupon op) (shop_cents items)"
    unfolding g using db S by (intro dec_of_js_of_dec) auto
  moreover have "dec_of_js (op_grandTotal op) = max 0 ((\<Sum>p\<leftarrow>op_plans op. pc_total p)
                                      - discount_cents (op_globalCoupon op) (shop_cents items))"
    unfolding t using tb db S by (intro dec_of_js_of_dec) (auto simp: order_limit_def)
  ultimately show "dec_of_js (op_grandTotal op) = max 0 ((\<Sum>p\<leftarrow>op_plans op. dec_of_js (pl_shopTotal p))
           - dec_of_js (op_globalDiscount op))" unfolding m by simp
qed

lemma plan_length:
  "plan_order calc addr gc sc now d items = Inr op \<Longrightarrow> cart_priceable items \<Longrightarrow> length (op_plans op) \<le> 400"
  using groups_length [of items]
  by (auto simp: plan_order_def cart_priceable_def Let_def dest!: map_result_length split: sum.splits)

text \<open>
  C11. The bill of a checkout is exact to the hundredth although it is computed in doubles: the shop
  subtotals add up to price plus surcharge times quantity over the cart, each sub-order's total
  is subtotal less discount plus fee with a discount between 0 and the subtotal, and the order's
  total is the sum of the sub-orders less the platform's discount, never below 0.
\<close>

theorem checkout_bill_exact:
  assumes "plan_order (calculateShippingFee M) addr gc sc now d items = Inr op" "cart_priceable items"
  shows "(\<Sum>p\<leftarrow>op_plans op. dec_of_js (pl_shopSubtotal p)) = (\<Sum>l\<leftarrow>items. line_exact l)
    \<and> (\<forall>p \<in> set (op_plans op).
         dec_of_js (pl_shopTotal p) =
           dec_of_js (pl_shopSubtotal p) - dec_of_js (pl_shopDiscount p) + dec_of_js (pl_shippingFee p)
       \<and> 0 \<le> dec_of_js (pl_shopDiscount p) \<and> dec_of_js (pl_shopDiscount p) \<le> dec_of_js (pl_shopSubtotal p))
    \<and> dec_of_js (op_grandTotal op) =
        max 0 ((\<Sum>p\<leftarrow>op_plans op. dec_of_js (pl_shopTotal p)) - dec_of_js (op_globalDiscount op))"
proof -
  have ex: "exact_order items op" by (rule haversine.plan_order_exact [OF assms])
  then have "\<forall>p \<in> set (op_plans op). exact_plan p" unfolding exact_order_def by blast
  with exact_plan_columns
    exact_order_columns [OF ex assms(2) plan_length [OF assms]] show ?thesis
    by (simp add: shop_cents_def)
qed

definition demo_line :: order_line where
  "demo_line = \<lparr>ol_item = (cart_items demo_db ! 0)\<lparr>ci_quantity := 5\<rparr>, ol_product = products demo_db ! 0,
     ol_shop = shops demo_db ! 0, ol_variant = None\<rparr>"

lemma demo_line_priceable: "cart_priceable [demo_line]"
  by (simp add: cart_priceable_def demo_line_def demo_db_def line_nonneg_def shop_cents_def
      line_exact_def order_limit_def)

definition demo_math :: js_math where
  "demo_math = \<lparr>math_sin = (\<lambda>x. x), math_cos = (\<lambda>x. 1), math_sqrt = Some, math_atan2 = (\<lambda>y x. y)\<rparr>"

theorem checkout_bill_exact_witness:
  "\<exists>op. plan_order (calculateShippingFee demo_math) (addresses demo_db ! 0) None [] 0 demo_db [demo_line] = Inr op
     \<and> (\<Sum>p\<leftarrow>op_plans op. dec_of_js (pl_shopSubtotal p)) = 50000000"
proof -
  have "computeShopSubtotal [demo_line] = js_of_dec 50000000"
    by (subst shop_subtotal_exact)
      (simp_all add: demo_line_def demo_db_def line_nonneg_def shop_cents_def line_exact_def dec_bound_def)
  then have sub: "computeShopSubtotal [demo_line] = 500000" by (simp add: js_of_dec_def)
  have grp: "groupItemsByShop [demo_line] = [(ol_shop demo_line, [demo_line])]"
    by (simp add: groupItemsByShop_def group_by_def group_add_def)
  obtain op where op: "plan_order (calculateShippingFee demo_math) (addresses demo_db ! 0) None [] 0 demo_db [demo_line] = Inr op"
    by (simp add: plan_order_def grp plan_sub_order_def sub lockAndValidateCoupon_def blank_code_def
        coupon_code_for_def shipping_fee_of_def calculateShippingFee_def free_shipping_threshold_def Let_def)
  from checkout_bill_exact [OF op demo_line_priceable]
  have "(\<Sum>p\<leftarrow>op_plans op. dec_of_js (pl_shopSubtotal p)) = (\<Sum>l\<leftarrow>[demo_line]. line_exact l)" by blast
  also have "\<dots> = 50000000" by (simp add: demo_line_def demo_db_def line_exact_def)
  finally show ?thesis using op by blast
qed



lemma discount_mono_base:
  assumes "b \<le> b'" "\<forall>v. c_discount_value c = Some v \<longrightarrow> 0 \<le> v"
  shows "computeCouponDiscount c b \<le> computeCouponDiscount c b'"
proof -
  have "0 \<le> (case c_discount_value c of None \<Rightarrow> 0 | Some v \<Rightarrow> js_of_dec v)"
    using assms(2) by (auto simp: js_of_dec_nonneg split: option.split)
  then have "js_div (js_mul b (case c_discount_value c of None \<Rightarrow> 0 | Some v \<Rightarrow> js_of_dec v)) 100
      \<le> js_div (js_mul b' (case c_discount_value c of None \<Rightarrow> 0 | Some v \<Rightarrow> js_of_dec v)) 100"
    unfolding js_div_def js_mul_def using assms(1)
    by (intro fl_mono divide_right_mono mult_right_mono) auto
  then show ?thesis
    unfolding computeCouponDiscount_def Let_def
    by (intro round2_mono max.mono min.mono assms(1) order_refl)
      (auto split: option.split discount_type.split intro: min.mono)
qed

text \<open>
  A coupon never takes more than its base, its cap or (for a fixed amount) its value, never
  less than nothing, and never less from a larger base; a fixed amount takes exactly the least of
  the three.
\<close>

theorem coupon_discount_bounds:
  assumes "0 \<le> b" "b \<le> dec_bound" "\<forall>v. c_discount_value c = Some v \<longrightarrow> 0 \<le> v \<and> v \<le> dec_bound"
    and "\<forall>m. c_max_discount_value c = Some m \<longrightarrow> 0 \<le> m \<and> m \<le> dec_bound"
  shows "0 \<le> dec_of_js (computeCouponDiscount c (js_of_dec b))
       \<and> dec_of_js (computeCouponDiscount c (js_of_dec b)) \<le> b
       \<and> (\<forall>m. c_max_discount_value c = Some m \<longrightarrow> dec_of_js (computeCouponDiscount c (js_of_dec b)) \<le> m)
       \<and> (b' \<le> b \<longrightarrow> computeCouponDiscount c (js_of_dec b') \<le> computeCouponDiscount c (js_of_dec b))
       \<and> (\<forall>v. c_discount_type c = Some FixedAmount \<and> c_discount_value c = Some v \<longrightarrow>
            computeCouponDiscount c (js_of_dec b) =
              js_of_dec (min (case c_max_discount_value c of None \<Rightarrow> v | Some m \<Rightarrow> min v m) b))"
proof (intro conjI allI impI)
  let ?k = "discount_cents (Some c) b"
  have d: "computeCouponDiscount c (js_of_dec b) = js_of_dec ?k" "0 \<le> ?k" "?k \<le> b"
    using discount_bounds [OF assms(1,2), of "Some c"] by (simp_all add: discount_of_def)
  then have k: "dec_of_js (computeCouponDiscount c (js_of_dec b)) = ?k" using assms(2) by simp
  show "0 \<le> dec_of_js (computeCouponDiscount c (js_of_dec b))"
    "dec_of_js (computeCouponDiscount c (js_of_dec b)) \<le> b" using d k by simp_all
  fix m assume m: "c_max_discount_value c = Some m"
  then have M: "0 \<le> m" "m \<le> dec_bound" using assms(4) by auto
  have "computeCouponDiscount c (js_of_dec b) \<le> round2 (js_of_dec m)"
    unfolding computeCouponDiscount_def Let_def m
    by (intro round2_mono) (use M js_of_dec_nonneg in auto)
  then have "js_of_dec ?k \<le> js_of_dec m" using M d(1) by (simp add: round2_js_of_dec)
  then show "dec_of_js (computeCouponDiscount c (js_of_dec b)) \<le> m"
    using js_of_dec_le_iff [of ?k m] M d assms(2) k by simp
next
  assume "b' \<le> b"
  then show "computeCouponDiscount c (js_of_dec b') \<le> computeCouponDiscount c (js_of_dec b)"
    using assms(3) by (intro discount_mono_base js_of_dec_mono) auto
next
  fix v assume v: "c_discount_type c = Some FixedAmount \<and> c_discount_value c = Some v"
  let ?w = "min (case c_max_discount_value c of None \<Rightarrow> v | Some m \<Rightarrow> min v m) b"
  have V: "0 \<le> v" "v \<le> dec_bound" using v assms(3) by auto
  have mn: "js_of_dec (min x y) = min (js_of_dec x) (js_of_dec y)" for x y
    using js_of_dec_mono [of x y] js_of_dec_mono [of y x] by (auto simp: min_def)
  have w: "0 \<le> ?w" "?w \<le> dec_bound" using V assms(1,2,4) by (auto split: option.split)
  have "computeCouponDiscount c (js_of_dec b) = round2 (max 0 (js_of_dec ?w))"
    using v by (simp add: computeCouponDiscount_def Let_def mn split: option.split)
  also have "\<dots> = js_of_dec ?w"
    using w js_of_dec_nonneg [OF w(1)] round2_js_of_dec [of ?w] by (simp add: max_def)
  finally show "computeCouponDiscount c (js_of_dec b) = js_of_dec ?w" .
qed

theorem coupon_discount_bounds_witness:
  "dec_of_js (computeCouponDiscount (coupons demo_db ! 0) (js_of_dec 50000000)) \<le> 3000000"
  using coupon_discount_bounds [of 50000000 "coupons demo_db ! 0"]
  by (simp add: demo_db_def dec_bound_def)

end
