(* ===== verification/VnpaySignature.thy ===== *)
theory VnpaySignature
  imports Entities "HOL-Library.Char_ord" "HOL-Library.List_Lexorder" "HOL-Library.Multiset"
begin

text \<open>
  \<open>src/backend/src/modules/payments/vnpay/vnpay.service.ts\<close>: the canonical form of a set of
  parameters, the payment URL and the check of a signature.

  A string is the list of its UTF-8 bytes. A \<open>Record<string, string>\<close> is the list of its properties in
  the order of their creation; \<open>object_keys\<close> lists them as ECMA-262 does (array indices first,
  ascending), \<open>obj_put\<close> is the assignment \<open>o[k] = v\<close>, which for \<open>__proto__\<close> and a string value
  does nothing. HMAC-SHA512 in hex is a parameter of the configuration.
\<close>

type_synonym js_object = "(string \<times> string) list"

record vnp_config =
  vnp_tmn_code :: "string option"
  vnp_hash_secret :: "string option"
  vnp_pay_url :: "string option"
  vnp_return_url :: "string option"
  hmac_sha512_hex :: "string \<Rightarrow> string \<Rightarrow> string"

subsection \<open>Objects\<close>

definition array_index :: "string \<Rightarrow> bool" where
  "array_index k \<longleftrightarrow> list_all is_digit k \<and> show_nat (read_digits k) = k \<and> read_digits k < 4294967295"

definition object_keys :: "js_object \<Rightarrow> string list" where
  "object_keys obj =
     sort_key read_digits (filter array_index (map fst obj)) @ filter (\<lambda>k. \<not> array_index k) (map fst obj)"

definition obj_put :: "string \<Rightarrow> string \<Rightarrow> js_object \<Rightarrow> js_object" where
  "obj_put k v obj =
     (if k = ''__proto__'' then obj
      else if k \<in> set (map fst obj) then map (\<lambda>(j, w). if j = k then (j, v) else (j, w)) obj
      else obj @ [(k, v)])"

definition template :: "string option \<Rightarrow> string" where
  "template s = (case s of None \<Rightarrow> ''undefined'' | Some t \<Rightarrow> t)"

definition truthy :: "string option \<Rightarrow> bool" where
  "truthy s \<longleftrightarrow> s \<noteq> None \<and> s \<noteq> Some []"

subsection \<open>Percent encoding\<close>

definition unreserved :: "char \<Rightarrow> bool" where
  "unreserved c =
     (let n = (of_char c :: nat)
      in (48 \<le> n \<and> n \<le> 57) \<or> (65 \<le> n \<and> n \<le> 90) \<or> (97 \<le> n \<and> n \<le> 122)
         \<or> n \<in> {33, 39, 40, 41, 42, 45, 46, 95, 126})"

definition hex_upper :: "nat \<Rightarrow> char" where
  "hex_upper k = (if k < 10 then char_of (48 + k) else char_of (55 + k))"

definition hex_value :: "char \<Rightarrow> nat option" where
  "hex_value c =
     (let n = (of_char c :: nat)
      in if 48 \<le> n \<and> n \<le> 57 then Some (n - 48)
         else if 65 \<le> n \<and> n \<le> 70 then Some (n - 55)
         else if 97 \<le> n \<and> n \<le> 102 then Some (n - 87) else None)"

definition encode_byte :: "char \<Rightarrow> string" where
  "encode_byte c =
     (if unreserved c then [c]
      else let n = (of_char c :: nat) in [CHR ''%'', hex_upper (n div 16), hex_upper (n mod 16)])"

definition encodeURIComponent :: "string \<Rightarrow> string" where
  "encodeURIComponent s = concat (map encode_byte s)"

text \<open>\<open>None\<close> is the \<open>URIError\<close> of a malformed escape.\<close>

fun decodeURIComponent :: "string \<Rightarrow> string option" where
  "decodeURIComponent [] = Some []"
| "decodeURIComponent (c # cs) =
     (if c = CHR ''%''
      then (case cs of
              a # b # r \<Rightarrow>
                (case (hex_value a, hex_value b) of
                   (Some x, Some y) \<Rightarrow> map_option (Cons (char_of (16 * x + y))) (decodeURIComponent r)
                 | _ \<Rightarrow> None)
            | _ \<Rightarrow> None)
      else map_option (Cons c) (decodeURIComponent cs))"

text \<open>\<open>.replace(/%20/g, '+')\<close>\<close>

fun spaces_to_plus :: "string \<Rightarrow> string" where
  "spaces_to_plus (a # b # c # s) =
     (if [a, b, c] = ''%20'' then CHR ''+'' # spaces_to_plus s else a # spaces_to_plus (b # c # s))"
| "spaces_to_plus s = s"

subsection \<open>The service\<close>

definition isEnabled :: "vnp_config \<Rightarrow> bool" where
  "isEnabled cfg \<longleftrightarrow> truthy (vnp_tmn_code cfg) \<and> truthy (vnp_hash_secret cfg)"

definition encode_value :: "string \<Rightarrow> string" where
  "encode_value v = spaces_to_plus (encodeURIComponent v)"

definition sortAndEncode :: "js_object \<Rightarrow> js_object" where
  "sortAndEncode obj =
     (let encodedKeys = sort (map encodeURIComponent (object_keys obj))
      in foldl (\<lambda>out ek. let rawKey = the (decodeURIComponent ek);
                             encodedValue = encode_value (template (map_of obj rawKey))
                         in obj_put ek encodedValue out) [] encodedKeys)"

fun join_amp :: "string list \<Rightarrow> string" where
  "join_amp [] = []"
| "join_amp [s] = s"
| "join_amp (s # t # ss) = s @ ''&'' @ join_amp (t # ss)"

definition buildQuery :: "js_object \<Rightarrow> string" where
  "buildQuery enc = join_amp (map (\<lambda>k. k @ ''='' @ template (map_of enc k)) (object_keys enc))"

definition sign_hex :: "vnp_config \<Rightarrow> string \<Rightarrow> string \<Rightarrow> string" where
  "sign_hex cfg secret signData = hmac_sha512_hex cfg secret signData"

text \<open>\<open>Buffer.from(s, 'hex')\<close> stops at the first pair that is not hexadecimal; \<open>timingSafeEqual\<close>
  throws on buffers of different lengths, and the catch answers false.\<close>

fun buffer_from_hex :: "string \<Rightarrow> nat list" where
  "buffer_from_hex (a # b # s) =
     (case (hex_value a, hex_value b) of
        (Some x, Some y) \<Rightarrow> (16 * x + y) # buffer_from_hex s
      | _ \<Rightarrow> [])"
| "buffer_from_hex s = []"

definition timingSafeEqualHex :: "string \<Rightarrow> string \<Rightarrow> bool" where
  "timingSafeEqualHex a b \<longleftrightarrow> length a = length b \<and> buffer_from_hex a = buffer_from_hex b"

definition signed_part :: "js_object \<Rightarrow> js_object" where
  "signed_part query =
     foldl (\<lambda>rest k. if k = ''vnp_SecureHash'' \<or> k = ''vnp_SecureHashType'' then rest
                     else obj_put k (template (map_of query k)) rest) [] (object_keys query)"

definition sign_data :: "js_object \<Rightarrow> string" where
  "sign_data obj = buildQuery (sortAndEncode obj)"

definition verifySignature :: "vnp_config \<Rightarrow> js_object \<Rightarrow> bool" where
  "verifySignature cfg query =
     (if \<not> truthy (vnp_hash_secret cfg) then False
      else
        let received = map_of query ''vnp_SecureHash''
        in if \<not> truthy received then False
           else
             let expected = sign_hex cfg (the (vnp_hash_secret cfg)) (sign_data (signed_part query))
             in timingSafeEqualHex (the received) expected)"

text \<open>The Gregorian calendar behind the \<open>getUTC\<close> accessors, from the number of days since 1970.\<close>

definition civil_of_days :: "int \<Rightarrow> int \<times> int \<times> int" where
  "civil_of_days days =
     (let z = days + 719468;
          era = z div 146097;
          doe = z mod 146097;
          yoe = (doe - doe div 1460 + doe div 36524 - doe div 146096) div 365;
          doy = doe - (365 * yoe + yoe div 4 - yoe div 100);
          mp = (5 * doy + 2) div 153;
          d = doy - (153 * mp + 2) div 5 + 1;
          m = (if mp < 10 then mp + 3 else mp - 9)
      in (yoe + era * 400 + (if m \<le> 2 then 1 else 0), m, d))"

definition pad2 :: "int \<Rightarrow> string" where
  "pad2 n = (let s = show_nat (nat n) in replicate (2 - length s) (CHR ''0'') @ s)"

definition formatVnpDate :: "int \<Rightarrow> string" where
  "formatVnpDate t =
     (let gmt7 = t + 7 * 60 * 60 * 1000;
          (y, m, d) = civil_of_days (gmt7 div 86400000);
          ms = gmt7 mod 86400000
      in show_nat (nat y) @ pad2 m @ pad2 d @ pad2 (ms div 3600000)
         @ pad2 (ms div 60000 mod 60) @ pad2 (ms div 1000 mod 60))"

text \<open>The parameters that \<open>buildPaymentUrl\<close> signs; \<open>cents_of\<close> is \<open>Math.round(amount * 100)\<close>.\<close>

definition payment_data :: "vnp_config \<Rightarrow> string \<Rightarrow> rat \<Rightarrow> string \<Rightarrow> string \<Rightarrow> int \<Rightarrow> int \<Rightarrow> js_object" where
  "payment_data cfg txnRef amount orderInfo ipAddr now expireAt =
     [(''vnp_Version'', ''2.1.0''), (''vnp_Command'', ''pay''),
      (''vnp_TmnCode'', template (vnp_tmn_code cfg)), (''vnp_Locale'', ''vn''),
      (''vnp_CurrCode'', ''VND''), (''vnp_TxnRef'', txnRef), (''vnp_OrderInfo'', orderInfo),
      (''vnp_OrderType'', ''other''), (''vnp_Amount'', show_nat (nat (cents_of amount))),
      (''vnp_ReturnUrl'', template (vnp_return_url cfg)), (''vnp_IpAddr'', ipAddr),
      (''vnp_CreateDate'', formatVnpDate now), (''vnp_ExpireDate'', formatVnpDate expireAt)]"

definition buildPaymentUrl :: "vnp_config \<Rightarrow> string \<Rightarrow> rat \<Rightarrow> string \<Rightarrow> string \<Rightarrow> int \<Rightarrow> int \<Rightarrow> string" where
  "buildPaymentUrl cfg txnRef amount orderInfo ipAddr now expireAt =
     (let signData = sign_data (payment_data cfg txnRef amount orderInfo ipAddr now expireAt);
          secureHash = sign_hex cfg (template (vnp_hash_secret cfg)) signData
      in template (vnp_pay_url cfg) @ ''?'' @ signData @ ''&vnp_SecureHash='' @ secureHash)"

subsection \<open>Encoding is invertible\<close>

lemma hex_value_upper [simp]: "k < 16 \<Longrightarrow> hex_value (hex_upper k) = Some k"
  by (auto simp: hex_value_def hex_upper_def Let_def)

lemma byte_halves: "(of_char c :: nat) div 16 < 16"
proof -
  have "(of_char c :: nat) < 256" by (rule nat_of_char_less_256)
  then show ?thesis using less_mult_imp_div_less [of "of_char c" 16 16] by simp
qed

lemma reserved_chars:
  "\<not> unreserved (CHR ''%'')" "\<not> unreserved (CHR ''&'')" "\<not> unreserved (CHR ''='')" "\<not> unreserved (CHR ''+'')"
  by (simp_all add: unreserved_def)

lemma decode_encode_byte: "decodeURIComponent (encode_byte c @ s) = map_option (Cons c) (decodeURIComponent s)"
proof (cases "unreserved c")
  case True
  then have "c \<noteq> CHR ''%''" using reserved_chars by blast
  with True show ?thesis by (simp add: encode_byte_def)
next
  case False
  then show ?thesis
    using byte_halves [of c] by (simp add: encode_byte_def Let_def del: char_of_eq_iff)
qed

lemma decode_encode: "decodeURIComponent (encodeURIComponent s) = Some s"
  by (induction s) (simp_all add: encodeURIComponent_def decode_encode_byte)

lemma encode_inj: "encodeURIComponent s = encodeURIComponent t \<Longrightarrow> s = t"
  by (metis decode_encode option.inject)

lemma hex_upper_plain: "k < 16 \<Longrightarrow> unreserved (hex_upper k)"
  by (auto simp: unreserved_def hex_upper_def Let_def)

lemma encode_chars: "c \<in> set (encodeURIComponent s) \<Longrightarrow> unreserved c \<or> c = CHR ''%''"
  by (auto simp: encodeURIComponent_def encode_byte_def Let_def hex_upper_plain byte_halves split: if_splits)

lemma plus_chars: "c \<in> set (spaces_to_plus s) \<Longrightarrow> c \<in> set s \<or> c = CHR ''+''"
  by (induction s rule: spaces_to_plus.induct) (auto split: if_splits)

fun plus_to_spaces :: "string \<Rightarrow> string" where
  "plus_to_spaces [] = []"
| "plus_to_spaces (c # s) = (if c = CHR ''+'' then ''%20'' else [c]) @ plus_to_spaces s"

lemma plus_to_spaces_inverse: "CHR ''+'' \<notin> set s \<Longrightarrow> plus_to_spaces (spaces_to_plus s) = s"
  by (induction s rule: spaces_to_plus.induct) auto

lemma encode_value_inj: "encode_value v = encode_value w \<Longrightarrow> v = w"
proof -
  have np: "CHR ''+'' \<notin> set (encodeURIComponent x)" for x
    using encode_chars [of "CHR ''+''" x] reserved_chars by auto
  assume "encode_value v = encode_value w"
  then have "encodeURIComponent v = encodeURIComponent w"
    unfolding encode_value_def using plus_to_spaces_inverse [OF np] by metis
  then show "v = w" by (rule encode_inj)
qed

lemma encode_no_separator:
  "CHR ''&'' \<notin> set (encodeURIComponent s)" "CHR ''='' \<notin> set (encodeURIComponent s)"
  "CHR ''&'' \<notin> set (encode_value s)"
  using encode_chars plus_chars reserved_chars unfolding encode_value_def by fastforce+

subsection \<open>The canonical string determines the parameters\<close>

lemma set_object_keys [simp]: "set (object_keys obj) = set (map fst obj)"
  by (auto simp: object_keys_def)

lemma distinct_object_keys: "distinct (map fst obj) \<Longrightarrow> distinct (object_keys obj)"
  by (auto simp: object_keys_def)

text \<open>An object that the service can hold: every property once, none of them \<open>__proto__\<close>.\<close>

definition js_wf :: "js_object \<Rightarrow> bool" where
  "js_wf obj \<longleftrightarrow> distinct (map fst obj) \<and> ''__proto__'' \<notin> set (map fst obj)"

lemma put_all:
  assumes "distinct ks" "''__proto__'' \<notin> set ks" "set ks \<inter> set (map fst o0) = {}"
  shows "foldl (\<lambda>out k. obj_put k (f k) out) o0 ks = o0 @ map (\<lambda>k. (k, f k)) ks"
  using assms
proof (induction ks arbitrary: o0)
  case (Cons k ks)
  have "obj_put k (f k) o0 = o0 @ [(k, f k)]" using Cons.prems by (auto simp: obj_put_def)
  with Cons.IH [of "o0 @ [(k, f k)]"] Cons.prems show ?case by simp
qed simp

lemma proto_plain: "encodeURIComponent ''__proto__'' = ''__proto__''"
  by (simp add: encodeURIComponent_def encode_byte_def unreserved_def)

lemma encode_list_ok:
  "js_wf obj \<Longrightarrow> distinct (map encodeURIComponent (object_keys obj))
     \<and> ''__proto__'' \<notin> set (map encodeURIComponent (object_keys obj))"
proof -
  assume wf: "js_wf obj"
  have "inj_on encodeURIComponent A" for A by (rule inj_onI) (rule encode_inj)
  moreover have "''__proto__'' \<in> encodeURIComponent ` set (object_keys obj) \<Longrightarrow> ''__proto__'' \<in> set (object_keys obj)"
  proof -
    assume "''__proto__'' \<in> encodeURIComponent ` set (object_keys obj)"
    then obtain k where "k \<in> set (object_keys obj)" "encodeURIComponent k = encodeURIComponent ''__proto__''"
      unfolding proto_plain by (elim imageE) metis
    then show ?thesis using encode_inj by blast
  qed
  ultimately show ?thesis using wf by (auto simp: js_wf_def distinct_map distinct_object_keys)
qed

lemma sortAndEncode_eq:
  "js_wf obj \<Longrightarrow> sortAndEncode obj =
     map (\<lambda>ek. (ek, encode_value (template (map_of obj (the (decodeURIComponent ek))))))
       (sort (map encodeURIComponent (object_keys obj)))"
  unfolding sortAndEncode_def Let_def
  using encode_list_ok [of obj] by (subst put_all) auto

definition pair_text :: "string \<times> string \<Rightarrow> string" where
  "pair_text p = encodeURIComponent (fst p) @ ''='' @ encode_value (snd p)"

lemma map_of_pairs: "map_of (map (\<lambda>k. (k, f k)) ks) k = (if k \<in> set ks then Some (f k) else None)"
  by (induction ks) auto

lemma pieces_of:
  assumes "js_wf obj"
  shows "set (map (\<lambda>k. k @ ''='' @ template (map_of (sortAndEncode obj) k)) (object_keys (sortAndEncode obj)))
       = pair_text ` set obj"
proof -
  let ?e = "sortAndEncode obj"
  let ?g = "\<lambda>k. encodeURIComponent k @ ''='' @ encode_value (template (map_of obj k))"
  have keys: "set (object_keys ?e) = encodeURIComponent ` set (map fst obj)"
    using assms by (simp add: sortAndEncode_eq comp_def image_image)
  have val: "k \<in> set (map fst obj) \<Longrightarrow>
      map_of ?e (encodeURIComponent k) = Some (encode_value (template (map_of obj k)))" for k
    using assms by (auto simp: sortAndEncode_eq map_of_pairs decode_encode)
  have "set (map (\<lambda>k. k @ ''='' @ template (map_of ?e k)) (object_keys ?e)) = ?g ` set (map fst obj)"
    using val unfolding set_map [of _ "object_keys ?e"] keys image_image
    by (intro image_cong) (simp_all add: template_def)
  also have "\<dots> = pair_text ` set obj"
    using assms unfolding set_map image_image
    by (intro image_cong) (auto simp: pair_text_def js_wf_def template_def)
  finally show ?thesis .
qed

lemma join_amp_inj:
  assumes "\<forall>x \<in> set xs \<union> set ys. CHR ''&'' \<notin> set x \<and> x \<noteq> []" "join_amp xs = join_amp ys"
  shows "xs = ys"
  using assms
proof (induction xs arbitrary: ys rule: join_amp.induct)
  case 1
  then show ?case by (cases ys rule: join_amp.cases) auto
next
  case (2 s)
  then show ?case
  proof (cases ys rule: join_amp.cases)
    case (3 t u us)
    with 2 have "s = t @ ''&'' @ join_amp (u # us)" by simp
    then have "CHR ''&'' \<in> set s" by (metis append_Cons in_set_conv_decomp)
    with 2 show ?thesis by simp
  qed auto
next
  case (3 s t ss)
  show ?case
  proof (cases ys rule: join_amp.cases)
    case 1
    with 3 show ?thesis by simp
  next
    case (2 u)
    with 3 have "u = s @ ''&'' @ join_amp (t # ss)" by simp
    then have "CHR ''&'' \<in> set u" by (metis append_Cons in_set_conv_decomp)
    with 3 2 show ?thesis by simp
  next
    case y: (3 u v us)
    let ?p = "\<lambda>c. c \<noteq> CHR ''&''"
    have e: "s @ CHR ''&'' # join_amp (t # ss) = u @ CHR ''&'' # join_amp (v # us)"
      using 3 y by simp
    have "\<forall>c \<in> set s. ?p c" "\<forall>c \<in> set u. ?p c" using 3 y by auto
    then have "s = u" using arg_cong [OF e, of "takeWhile ?p"] by simp
    with e have "join_amp (t # ss) = join_amp (v # us)" by simp
    then have "t # ss = v # us" using 3 y by (intro "3.IH") auto
    with \<open>s = u\<close> y show ?thesis by simp
  qed
qed

lemma pair_text_inj: "pair_text p = pair_text q \<Longrightarrow> p = q"
proof -
  assume e: "pair_text p = pair_text q"
  let ?p = "\<lambda>c. c \<noteq> CHR ''=''"
  have "\<forall>c \<in> set (encodeURIComponent (fst x)). ?p c" for x :: "string \<times> string"
    using encode_no_separator by metis
  then have "takeWhile ?p (pair_text x) = encodeURIComponent (fst x)" for x
    by (simp add: pair_text_def takeWhile_append)
  then have k: "encodeURIComponent (fst p) = encodeURIComponent (fst q)" using e by metis
  with e have "encode_value (snd p) = encode_value (snd q)" by (simp add: pair_text_def)
  then show "p = q" using k encode_inj encode_value_inj by (metis prod_eqI)
qed

lemma pair_text_ok: "CHR ''&'' \<notin> set (pair_text p) \<and> pair_text p \<noteq> []"
  using encode_no_separator by (simp add: pair_text_def)

lemma sign_data_inj:
  assumes "js_wf a" "js_wf b" "sign_data a = sign_data b"
  shows "set a = set b"
proof -
  let ?P = "\<lambda>obj. map (\<lambda>k. k @ ''='' @ template (map_of (sortAndEncode obj) k)) (object_keys (sortAndEncode obj))"
  have "?P a = ?P b"
  proof (rule join_amp_inj)
    show "join_amp (?P a) = join_amp (?P b)" using assms(3) by (simp add: sign_data_def buildQuery_def)
    show "\<forall>x \<in> set (?P a) \<union> set (?P b). CHR ''&'' \<notin> set x \<and> x \<noteq> []"
      unfolding pieces_of [OF assms(1)] pieces_of [OF assms(2)] by (simp add: ball_Un pair_text_ok)
  qed
  then have "pair_text ` set a = pair_text ` set b"
    using pieces_of [OF assms(1)] pieces_of [OF assms(2)] by metis
  moreover have "inj pair_text" using pair_text_inj by (rule injI)
  ultimately show ?thesis by (simp add: inj_image_eq_iff)
qed

text \<open>It does not depend on the order of the parameters.\<close>

lemma sign_data_cong:
  assumes "js_wf a" "js_wf b" "set a = set b"
  shows "sign_data a = sign_data b"
proof -
  have "mset (object_keys a) = mset (object_keys b)"
    using assms by (auto simp: js_wf_def set_eq_iff_mset_eq_distinct [symmetric] distinct_object_keys)
  then have "mset (map encodeURIComponent (object_keys a)) = mset (map encodeURIComponent (object_keys b))"
    by simp
  then have s: "sort (map encodeURIComponent (object_keys a)) = sort (map encodeURIComponent (object_keys b))"
    by (metis sorted_list_of_multiset_mset)
  have "map_of a = map_of b" using assms by (simp add: js_wf_def map_of_inject_set)
  with s assms show ?thesis by (simp add: sign_data_def sortAndEncode_eq)
qed

lemma signed_part_eq:
  assumes "js_wf query"
  shows "signed_part query = map (\<lambda>k. (k, template (map_of query k)))
           (filter (\<lambda>k. k \<noteq> ''vnp_SecureHash'' \<and> k \<noteq> ''vnp_SecureHashType'') (object_keys query))"
proof -
  have "foldl (\<lambda>rest k. if k = ''vnp_SecureHash'' \<or> k = ''vnp_SecureHashType'' then rest
                        else obj_put k (f k) rest) o0 ks
      = foldl (\<lambda>rest k. obj_put k (f k) rest) o0
          (filter (\<lambda>k. k \<noteq> ''vnp_SecureHash'' \<and> k \<noteq> ''vnp_SecureHashType'') ks)" for f o0 ks
    by (induction ks arbitrary: o0) auto
  with assms show ?thesis
    unfolding signed_part_def by (simp add: put_all js_wf_def distinct_object_keys)
qed

lemma signed_part_set:
  assumes "js_wf query"
  shows "js_wf (signed_part query)"
    and "set (signed_part query) = {p \<in> set query. fst p \<noteq> ''vnp_SecureHash'' \<and> fst p \<noteq> ''vnp_SecureHashType''}"
proof -
  show "js_wf (signed_part query)"
    using assms by (auto simp: signed_part_eq js_wf_def comp_def distinct_object_keys)
  have "(k, v) \<in> set query \<longleftrightarrow> map_of query k = Some v" for k v
    using assms by (auto simp: js_wf_def)
  then show "set (signed_part query) = {p \<in> set query. fst p \<noteq> ''vnp_SecureHash'' \<and> fst p \<noteq> ''vnp_SecureHashType''}"
    using assms by (force simp: signed_part_eq template_def)
qed

lemma payment_data_wf: "js_wf (payment_data cfg txnRef amt info ip now expireAt)"
  by (simp add: js_wf_def payment_data_def)

lemma payment_data_plain:
  "p \<in> set (payment_data cfg txnRef amt info ip now expireAt) \<Longrightarrow>
   fst p \<noteq> ''vnp_SecureHash'' \<and> fst p \<noteq> ''vnp_SecureHashType''"
  by (auto simp: payment_data_def)

subsection \<open>Properties\<close>


text \<open>
  C23. A signature binds the parameters: when the check accepts a query that carries the signature of one
  set of parameters, its signed parameters are exactly these; otherwise their two canonical strings
  differ and are an HMAC collision.
\<close>

theorem signature_binds_params:
  assumes "verifySignature cfg query" "js_wf query" "js_wf data"
    and "map_of query ''vnp_SecureHash'' = Some (sign_hex cfg (the (vnp_hash_secret cfg)) (sign_data data))"
  shows "{p \<in> set query. fst p \<noteq> ''vnp_SecureHash'' \<and> fst p \<noteq> ''vnp_SecureHashType''} = set data
       \<or> sign_data (signed_part query) \<noteq> sign_data data
         \<and> buffer_from_hex (hmac_sha512_hex cfg (the (vnp_hash_secret cfg)) (sign_data (signed_part query)))
         = buffer_from_hex (hmac_sha512_hex cfg (the (vnp_hash_secret cfg)) (sign_data data))"
proof (cases "sign_data (signed_part query) = sign_data data")
  case True
  then have "set (signed_part query) = set data"
    using assms(3) signed_part_set(1) [OF assms(2)] by (intro sign_data_inj)
  then show ?thesis using signed_part_set(2) [OF assms(2)] by simp
next
  case False
  with assms(1,4) show ?thesis
    by (auto simp: verifySignature_def Let_def timingSafeEqualHex_def sign_hex_def split: if_splits)
qed

text \<open>A configuration whose digest is a constant stands in for the real one in the instances.\<close>

definition demo_vnp :: vnp_config where
  "demo_vnp = \<lparr>vnp_tmn_code = Some ''T'', vnp_hash_secret = Some ''S'', vnp_pay_url = Some ''u'',
     vnp_return_url = Some ''r'', hmac_sha512_hex = \<lambda>k m. show_nat (length m)\<rparr>"

definition demo_query :: js_object where
  "demo_query =
     (let data = payment_data demo_vnp ''N-1'' 100 ''i'' ''ip'' 0 900000
      in (''vnp_SecureHash'', sign_hex demo_vnp ''S'' (sign_data data)) # (''vnp_SecureHashType'', ''x'') # rev data)"

lemma demo_query_wf: "js_wf demo_query"
  by (simp add: demo_query_def js_wf_def payment_data_def Let_def)


theorem signature_binds_params_witness:
  "{p \<in> set demo_query. fst p \<noteq> ''vnp_SecureHash'' \<and> fst p \<noteq> ''vnp_SecureHashType''}
      = set (payment_data demo_vnp ''N-1'' 100 ''i'' ''ip'' 0 900000)
   \<or> sign_data (signed_part demo_query) \<noteq> sign_data (payment_data demo_vnp ''N-1'' 100 ''i'' ''ip'' 0 900000)
     \<and> buffer_from_hex (hmac_sha512_hex demo_vnp (the (vnp_hash_secret demo_vnp)) (sign_data (signed_part demo_query)))
     = buffer_from_hex (hmac_sha512_hex demo_vnp (the (vnp_hash_secret demo_vnp))
         (sign_data (payment_data demo_vnp ''N-1'' 100 ''i'' ''ip'' 0 900000)))"
proof (rule signature_binds_params)
  let ?data = "payment_data demo_vnp ''N-1'' 100 ''i'' ''ip'' 0 900000"
  have "{p \<in> set demo_query. fst p \<noteq> ''vnp_SecureHash'' \<and> fst p \<noteq> ''vnp_SecureHashType''} = set ?data"
    using payment_data_plain by (fastforce simp: demo_query_def Let_def)
  then have "sign_data (signed_part demo_query) = sign_data ?data"
    using signed_part_set [OF demo_query_wf] payment_data_wf by (intro sign_data_cong) auto
  moreover show h: "map_of demo_query ''vnp_SecureHash''
      = Some (sign_hex demo_vnp (the (vnp_hash_secret demo_vnp)) (sign_data ?data))"
    by (simp add: demo_query_def demo_vnp_def Let_def)
  ultimately show "verifySignature demo_vnp demo_query"
    by (simp add: verifySignature_def Let_def truthy_def timingSafeEqualHex_def demo_vnp_def sign_hex_def show_nat_nonempty)
qed (rule demo_query_wf payment_data_wf)+

end
