(* ===== verification/Payments.thy ===== *)
theory Payments
  imports VnpaySignature
begin

text \<open>
  \<open>src/backend/src/modules/payments/payments.service.ts\<close>: the payment of an order, its VNPAY attempts, the
  IPN of the gateway, expiry and cash on delivery. The two clocks are arguments, \<open>now\<close> for
  \<open>Date.now()\<close> of the process and \<open>db_now\<close> for \<open>now()\<close> of PostgreSQL. A job put on the expiry queue is the
  pair of its order and its delay; whether Redis takes it is the argument \<open>redis\<close>.
\<close>

definition vnpay_soft_window_ms :: int where "vnpay_soft_window_ms = 15 * 60 * 1000"
definition vnpay_hard_window_ms :: int where "vnpay_hard_window_ms = 30 * 60 * 1000"
definition vnpay_min_payable_ms :: int where "vnpay_min_payable_ms = 3 * 60 * 1000"

type_synonym expiry_job = "uuid \<times> int"

definition scheduleExpiryJob :: "bool \<Rightarrow> uuid \<Rightarrow> millis \<Rightarrow> millis \<Rightarrow> expiry_job list" where
  "scheduleExpiryJob redis orderId expireAt now =
     (let delayMs = max 0 (expireAt - now) in if redis then [(orderId, delayMs)] else [])"

subsection \<open>Helpers of the checkout\<close>

definition createPendingForOrder ::
  "uuid \<Rightarrow> rat \<Rightarrow> payment_method \<Rightarrow> millis \<Rightarrow> bool \<Rightarrow> db \<Rightarrow> db \<times> payment \<times> expiry_job list" where
  "createPendingForOrder orderId amount pm now redis d =
     (let p = \<lparr>pay_id = next_uuid d, pay_order_id = orderId, pay_method = pm, pay_status = PayPending,
               pay_amount = dec_of_js amount, pay_vnp_txn_ref = None, pay_vnp_transaction_no = None,
               pay_vnp_response_code = None, pay_paid_at = None, pay_raw = None, pay_created_at = now\<rparr>;
          d' = d\<lparr>payments := save_row pay_id p (payments d), next_uuid := next_uuid d + 1\<rparr>;
          jobs = (if pm = VNPAY then scheduleExpiryJob redis orderId (now + vnpay_soft_window_ms) now else [])
      in (d', p, jobs))"

definition save_payment :: "payment \<Rightarrow> db \<Rightarrow> db" where
  "save_payment p d = d\<lparr>payments := save_row pay_id p (payments d)\<rparr>"

definition updateAmountForOrder :: "uuid \<Rightarrow> rat \<Rightarrow> db \<Rightarrow> db" where
  "updateAmountForOrder orderId amount d =
     (case find_row pay_order_id orderId (payments d) of
        None \<Rightarrow> d
      | Some p \<Rightarrow> save_payment (p\<lparr>pay_amount := dec_of_js amount\<rparr>) d)"

definition latest_attempt_at :: "uuid \<Rightarrow> db \<Rightarrow> millis option" where
  "latest_attempt_at paymentId d =
     (case map pa_created_at (filter (\<lambda>a. pa_payment_id a = paymentId) (payment_attempts d)) of
        [] \<Rightarrow> None
      | t # ts \<Rightarrow> Some (foldl max t ts))"

record expiry_info =
  ei_paymentId :: uuid
  ei_orderAgeMs :: int
  ei_latestAttemptAgeMs :: "int option"

definition getVnpayExpiryInfo :: "uuid \<Rightarrow> millis \<Rightarrow> db \<Rightarrow> expiry_info option" where
  "getVnpayExpiryInfo orderId db_now d =
     (case (find_row o_id orderId (orders d),
            find (\<lambda>p. pay_order_id p = orderId \<and> pay_method p = VNPAY
                      \<and> pay_status p \<notin> {PayCompleted, PayRefunded}) (payments d)) of
        (Some ord, Some p) \<Rightarrow>
          Some \<lparr>ei_paymentId = pay_id p, ei_orderAgeMs = db_now - o_created_at ord,
                ei_latestAttemptAgeMs = map_option (\<lambda>t. db_now - t) (latest_attempt_at (pay_id p) d)\<rparr>
      | _ \<Rightarrow> None)"

definition markVnpayExpired :: "uuid \<Rightarrow> db \<Rightarrow> db" where
  "markVnpayExpired paymentId d =
     (case find_row pay_id paymentId (payments d) of
        None \<Rightarrow> d
      | Some p \<Rightarrow> save_payment (p\<lparr>pay_status := PayFailed\<rparr>) d)"

definition findExpiredVnpayOrderIds :: "int \<Rightarrow> nat \<Rightarrow> millis \<Rightarrow> db \<Rightarrow> uuid list" where
  "findExpiredVnpayOrderIds hardWindowMs limit db_now d =
     (let hardWindowSeconds = hardWindowMs div 1000
      in take limit (map pay_order_id (filter (\<lambda>p.
           pay_method p = VNPAY \<and> pay_status p = PayPending
         \<and> (case find_row o_id (pay_order_id p) (orders d) of
              None \<Rightarrow> False
            | Some ord \<Rightarrow> o_status ord = Pending
                \<and> o_created_at ord < db_now - hardWindowSeconds * 1000)) (payments d))))"

subsection \<open>The payment URL\<close>

text \<open>What is read before the transaction, and the transaction that issues an attempt.\<close>

definition url_precheck :: "vnp_config \<Rightarrow> uuid \<Rightarrow> uuid \<Rightarrow> db \<Rightarrow> http_error + (payment \<times> order_row)" where
  "url_precheck cfg orderId userId d =
     (if \<not> isEnabled cfg then Inl (ServiceUnavailable (PaymentMsg VnpayNotConfigured))
      else case (find_row pay_order_id orderId (payments d), find_row o_id orderId (orders d)) of
        (Some p, Some ord) \<Rightarrow>
          if o_customer_id ord \<noteq> Some userId then Inl (NotFound (PaymentMsg PaymentOrderNotFound))
          else if pay_method p \<noteq> VNPAY then Inl (BadRequest (PaymentMsg NotVnpay))
          else if o_status ord = Cancelled then Inl (BadRequest (PaymentMsg OrderCancelledNoPay))
          else Inr (p, ord)
      | _ \<Rightarrow> Inl (NotFound (PaymentMsg PaymentOrderNotFound)))"

record issued =
  is_txnRef :: string
  is_amount :: rat
  is_expireAt :: millis

definition txn_ref :: "string \<Rightarrow> millis \<Rightarrow> string" where
  "txn_ref orderNumber timestamp = orderNumber @ ''-'' @ show_nat (nat timestamp)"

definition issue_attempt ::
  "uuid \<Rightarrow> uuid \<Rightarrow> string \<Rightarrow> millis \<Rightarrow> millis \<Rightarrow> db \<Rightarrow> http_error + (db \<times> issued)" where
  "issue_attempt paymentId orderId orderNumber db_now now d =
     (case find_row pay_id paymentId (payments d) of
        None \<Rightarrow> Inl (NotFound (PaymentMsg PaymentOrderNotFound))
      | Some locked \<Rightarrow>
          if pay_status locked = PayCompleted then Inl (BadRequest (PaymentMsg AlreadyPaid))
          else if pay_status locked = PayRefunded then Inl (BadRequest (PaymentMsg AlreadyRefunded))
          else
            let amount = js_of_dec (pay_amount locked)
            in if \<not> amount > 0 then Inl (BadRequest (PaymentMsg InvalidAmount))
               else (case getVnpayExpiryInfo orderId db_now d of
                  None \<Rightarrow> Inl (NotFound (PaymentMsg PaymentOrderNotFound))
                | Some info \<Rightarrow>
                    let remainingMs = vnpay_hard_window_ms - ei_orderAgeMs info
                    in if remainingMs < vnpay_min_payable_ms then Inl (BadRequest (PaymentMsg HoldExpiring))
                       else
                         let txnRef = txn_ref orderNumber now;
                             payableMs = min vnpay_soft_window_ms remainingMs;
                             expireAt = now + payableMs;
                             attempt = \<lparr>pa_id = next_uuid d, pa_payment_id = pay_id locked,
                                        pa_vnp_txn_ref = txnRef, pa_amount = dec_of_js amount,
                                        pa_status = PayPending, pa_vnp_transaction_no = None,
                                        pa_vnp_response_code = None, pa_ipn_received_at = None,
                                        pa_raw = None, pa_created_at = db_now\<rparr>;
                             p = locked\<lparr>pay_status := PayPending, pay_vnp_txn_ref := Some txnRef,
                                        pay_vnp_transaction_no := None, pay_vnp_response_code := None,
                                        pay_raw := None\<rparr>
                         in if txnRef \<in> pa_vnp_txn_ref ` set (payment_attempts d)
                               \<or> Some txnRef \<in> pay_vnp_txn_ref ` set (filter (\<lambda>q. pay_id q \<noteq> pay_id locked) (payments d))
                            then Inl (UniqueViolation TxnRefUnique)
                            else Inr (d\<lparr>payment_attempts := save_row pa_id attempt (payment_attempts d),
                                        payments := save_row pay_id p (payments d),
                                        next_uuid := next_uuid d + 1\<rparr>,
                                      \<lparr>is_txnRef = txnRef, is_amount = amount, is_expireAt = expireAt\<rparr>)))"

definition createVnpayPaymentUrl ::
  "vnp_config \<Rightarrow> uuid \<Rightarrow> uuid \<Rightarrow> string \<Rightarrow> millis \<Rightarrow> millis \<Rightarrow> bool \<Rightarrow> db \<Rightarrow>
   http_error + (db \<times> string \<times> expiry_job list)" where
  "createVnpayPaymentUrl cfg orderId userId ipAddr db_now now redis d =
     (case url_precheck cfg orderId userId d of
        Inl e \<Rightarrow> Inl e
      | Inr (p, ord) \<Rightarrow>
          (case issue_attempt (pay_id p) orderId (o_order_number ord) db_now now d of
             Inl e \<Rightarrow> Inl e
           | Inr (d', iss) \<Rightarrow>
               let orderInfoText = ''Thanh toan don hang '' @ o_order_number ord;
                   paymentUrl = buildPaymentUrl cfg (is_txnRef iss) (is_amount iss) orderInfoText ipAddr
                                  now (is_expireAt iss)
               in Inr (d', paymentUrl, scheduleExpiryJob redis orderId (is_expireAt iss) now)))"

subsection \<open>The IPN\<close>

text \<open>
  \<open>Number(text)\<close>, \<open>None\<close> where it is NaN or infinite: ASCII space around it is dropped, the empty text is 0,
  then a decimal literal with a sign, or digits with a prefix that names their base.
\<close>

definition trim_space :: "string \<Rightarrow> string" where
  "trim_space s =
     (let sp = (\<lambda>c. (of_char c :: nat) \<in> {9, 10, 11, 12, 13, 32})
      in rev (dropWhile sp (rev (dropWhile sp s))))"

definition parse_exponent :: "string \<Rightarrow> int option" where
  "parse_exponent s =
     (case s of
        [] \<Rightarrow> Some 0
      | c # r \<Rightarrow>
          if c = CHR ''e'' \<or> c = CHR ''E''
          then (let (sgn, ds) = (case r of
                        [] \<Rightarrow> (1, [])
                      | x # xs \<Rightarrow> if x = CHR ''-'' then (-1, xs) else if x = CHR ''+'' then (1, xs) else (1, r))
                in if ds \<noteq> [] \<and> list_all is_digit ds then Some (sgn * int (read_digits ds)) else None)
          else None)"

definition parse_decimal :: "string \<Rightarrow> rat option" where
  "parse_decimal s =
     (let ip = takeWhile is_digit s;
          r = dropWhile is_digit s;
          (fp, e) = (case r of
                [] \<Rightarrow> ([], [])
              | c # r' \<Rightarrow> if c = CHR ''.'' then (takeWhile is_digit r', dropWhile is_digit r') else ([], r))
      in if ip = [] \<and> fp = [] then None
         else map_option (\<lambda>k. fl (of_nat (read_digits (ip @ fp)) * 10 powi (k - int (length fp))))
                (parse_exponent e))"

definition parse_radix :: "nat \<Rightarrow> string \<Rightarrow> rat option" where
  "parse_radix b ds =
     (if ds \<noteq> [] \<and> list_all (\<lambda>c. case hex_value c of None \<Rightarrow> False | Some k \<Rightarrow> k < b) ds
      then Some (fl (of_nat (foldl (\<lambda>acc c. b * acc + the (hex_value c)) 0 ds))) else None)"

definition js_number :: "string \<Rightarrow> rat option" where
  "js_number text =
     (let s = trim_space text
      in if s = [] then Some 0
         else if take 2 s \<in> {''0x'', ''0X''} then parse_radix 16 (drop 2 s)
         else if take 2 s \<in> {''0o'', ''0O''} then parse_radix 8 (drop 2 s)
         else if take 2 s \<in> {''0b'', ''0B''} then parse_radix 2 (drop 2 s)
         else if hd s = CHR ''-'' then map_option uminus (parse_decimal (tl s))
         else if hd s = CHR ''+'' then parse_decimal (tl s)
         else parse_decimal s)"

text \<open>\<open>findOne\<close> with an undefined criterion drops the criterion.\<close>

definition find_attempt :: "string option \<Rightarrow> db \<Rightarrow> payment_attempt option" where
  "find_attempt txnRef d =
     (case txnRef of
        None \<Rightarrow> (case payment_attempts d of [] \<Rightarrow> None | a # _ \<Rightarrow> Some a)
      | Some r \<Rightarrow> find_row pa_vnp_txn_ref r (payment_attempts d))"

definition syncPaymentFromAttempt :: "payment_attempt \<Rightarrow> millis \<Rightarrow> db \<Rightarrow> db \<times> bool" where
  "syncPaymentFromAttempt a now d =
     (case find_row pay_id (pa_payment_id a) (payments d) of
        None \<Rightarrow> (d, False)
      | Some p \<Rightarrow>
          if pa_status a \<noteq> PayCompleted
          then (if pay_vnp_txn_ref p = Some (pa_vnp_txn_ref a) \<and> pay_status p = PayPending
                then (save_payment (p\<lparr>pay_status := PayFailed,
                        pay_vnp_transaction_no := pa_vnp_transaction_no a,
                        pay_vnp_response_code := pa_vnp_response_code a, pay_raw := pa_raw a\<rparr>) d, False)
                else (d, False))
          else if pay_status p = PayCompleted then (d, True)
          else (save_payment (p\<lparr>pay_status := PayCompleted,
                  pay_paid_at := Some (case pa_ipn_received_at a of None \<Rightarrow> now | Some t \<Rightarrow> t),
                  pay_vnp_txn_ref := Some (pa_vnp_txn_ref a),
                  pay_vnp_transaction_no := pa_vnp_transaction_no a,
                  pay_vnp_response_code := pa_vnp_response_code a, pay_raw := pa_raw a\<rparr>) d, False))"

datatype rsp_code = Rsp00 | Rsp01 | Rsp02 | Rsp04 | Rsp97

definition expected_amount :: "payment_attempt \<Rightarrow> rat" where
  "expected_amount a = js_round (js_mul (js_of_dec (pa_amount a)) 100)"

definition confirm_attempt :: "js_object \<Rightarrow> millis \<Rightarrow> payment_attempt \<Rightarrow> payment_attempt" where
  "confirm_attempt query now a =
     (let responseCode = map_of query ''vnp_ResponseCode''
      in a\<lparr>pa_status := (if responseCode = Some ''00'' then PayCompleted else PayFailed),
           pa_vnp_transaction_no := map_of query ''vnp_TransactionNo'',
           pa_vnp_response_code := responseCode, pa_ipn_received_at := Some now, pa_raw := Some query\<rparr>)"

definition handleVnpayIpn :: "vnp_config \<Rightarrow> js_object \<Rightarrow> millis \<Rightarrow> db \<Rightarrow> db \<times> rsp_code" where
  "handleVnpayIpn cfg query now d =
     (if \<not> verifySignature cfg query then (d, Rsp97)
      else case find_attempt (map_of query ''vnp_TxnRef'') d of
        None \<Rightarrow> (d, Rsp01)
      | Some attempt \<Rightarrow>
          if Option.bind (map_of query ''vnp_Amount'') js_number \<noteq> Some (expected_amount attempt)
          then (d, Rsp04)
          else if pa_status attempt \<noteq> PayPending then (d, Rsp02)
          else
            let a = confirm_attempt query now attempt;
                d1 = d\<lparr>payment_attempts := save_row pa_id a (payment_attempts d)\<rparr>;
                (d2, isDuplicatePaid) = syncPaymentFromAttempt a now d1
            in (d2, if isDuplicatePaid then Rsp02 else Rsp00))"

datatype return_message = InvalidSignature | PaymentSucceeded | PaymentNotSucceeded

definition handleVnpayReturn ::
  "vnp_config \<Rightarrow> js_object \<Rightarrow> string option \<times> return_message \<times> string option" where
  "handleVnpayReturn cfg query =
     (if \<not> verifySignature cfg query then (Some ''97'', InvalidSignature, None)
      else
        let rc = map_of query ''vnp_ResponseCode''
        in (rc, if rc = Some ''00'' then PaymentSucceeded else PaymentNotSucceeded,
            map_of query ''vnp_TxnRef''))"

subsection \<open>Cash on delivery\<close>

definition markCodCompleted :: "uuid \<Rightarrow> millis \<Rightarrow> db \<Rightarrow> db" where
  "markCodCompleted orderId paidAt d =
     (case find_row pay_order_id orderId (payments d) of
        None \<Rightarrow> d
      | Some p \<Rightarrow>
          if pay_method p \<noteq> COD then d
          else if pay_status p \<noteq> PayPending then d
          else save_payment (p\<lparr>pay_status := PayCompleted, pay_paid_at := Some paidAt\<rparr>) d)"

definition backfill_candidates :: "db \<Rightarrow> payment list" where
  "backfill_candidates d =
     filter (\<lambda>p. pay_method p = COD \<and> pay_status p = PayPending
               \<and> (case find_row o_id (pay_order_id p) (orders d) of
                    None \<Rightarrow> False | Some ord \<Rightarrow> o_status ord = Delivered)) (payments d)"

definition backfill_step :: "db \<times> nat \<Rightarrow> payment \<Rightarrow> db \<times> nat" where
  "backfill_step acc p =
     (let (d, updated) = acc;
          deliveredDates = List.map_filter so_delivered_at
            (filter (\<lambda>so. so_order_id so = Some (pay_order_id p)) (sub_orders d))
      in case deliveredDates of
           [] \<Rightarrow> (d, updated)
         | t # ts \<Rightarrow>
             (save_payment (p\<lparr>pay_status := PayCompleted, pay_paid_at := Some (foldl max t ts)\<rparr>) d, updated + 1))"

definition backfillCodCompletedPayments :: "db \<Rightarrow> db \<times> nat" where
  "backfillCodCompletedPayments d = foldl backfill_step (d, 0) (backfill_candidates d)"

subsection \<open>What payments and attempts agree on\<close>

text \<open>
  \<open>backed\<close>: an online payment is COMPLETED only with a confirmed attempt of its own, the one its
  transaction reference names; and as long as it is PENDING with a reference, the attempt behind
  the reference is still open, so its IPN can still be booked.
\<close>

definition backed :: "payment_attempt list \<Rightarrow> payment \<Rightarrow> bool" where
  "backed as p \<longleftrightarrow>
     (pay_method p = VNPAY \<and> pay_status p = PayCompleted \<longrightarrow>
        (\<exists>a \<in> set as. pay_vnp_txn_ref p = Some (pa_vnp_txn_ref a) \<and> pa_payment_id a = pay_id p
           \<and> pa_status a = PayCompleted \<and> pa_vnp_response_code a = Some ''00''))
   \<and> (pay_method p = VNPAY \<and> pay_status p = PayPending \<longrightarrow>
        (\<forall>r. pay_vnp_txn_ref p = Some r \<longrightarrow>
           (\<exists>a \<in> set as. pa_vnp_txn_ref a = r \<and> pa_payment_id a = pay_id p \<and> pa_status a = PayPending)))"

definition payment_keys :: "db \<Rightarrow> bool" where
  "payment_keys d \<longleftrightarrow>
     unique_keys pay_id (payments d) \<and> unique_keys pay_order_id (payments d)
   \<and> unique_keys pa_id (payment_attempts d) \<and> unique_keys pa_vnp_txn_ref (payment_attempts d)
   \<and> fresh_keys pay_id (payments d) (next_uuid d) \<and> fresh_keys pa_id (payment_attempts d) (next_uuid d)
   \<and> (\<forall>a \<in> set (payment_attempts d). pa_payment_id a < next_uuid d)
   \<and> (\<forall>a \<in> set (payment_attempts d). \<forall>p \<in> set (payments d).
        pa_payment_id a = pay_id p \<longrightarrow> pay_method p = VNPAY)"

definition payments_ok :: "db \<Rightarrow> bool" where
  "payments_ok d \<longleftrightarrow> payment_keys d \<and> (\<forall>p \<in> set (payments d). backed (payment_attempts d) p)"

lemma unique_inj: "unique_keys key t \<Longrightarrow> x \<in> set t \<Longrightarrow> y \<in> set t \<Longrightarrow> key x = key y \<Longrightarrow> x = y"
  by (auto simp: unique_keys_def distinct_map dest: inj_onD)

text \<open>Saving a payment back under its key, order and method.\<close>

lemma save_payment_keys:
  assumes "payment_keys d" "find_row pay_id (pay_id p) (payments d) = Some old"
    and "pay_order_id p = pay_order_id old" "pay_method p = pay_method old"
  shows "payment_keys (save_payment p d)"
proof -
  have "map pay_order_id (save_row pay_id p (payments d)) = map pay_order_id (payments d)"
    using assms by (intro map_save_same) (auto simp: payment_keys_def)
  moreover have old: "old \<in> set (payments d)" "pay_id p = pay_id old" using find_row_SomeD [OF assms(2)] by auto
  moreover have "pay_id old < next_uuid d" using old assms(1) by (auto simp: payment_keys_def fresh_keys_def)
  ultimately show ?thesis
    using assms unfolding payment_keys_def save_payment_def
    by (auto simp: unique_keys_save in_set_save_row fresh_keys_def) (simp_all add: unique_keys_def)
qed

lemma save_payment_ok:
  assumes "payments_ok d" "find_row pay_id (pay_id p) (payments d) = Some old"
    and "pay_order_id p = pay_order_id old" "pay_method p = pay_method old"
    and "backed (payment_attempts d) p"
  shows "payments_ok (save_payment p d)"
proof -
  have "payment_keys (save_payment p d)"
    using assms save_payment_keys by (auto simp: payments_ok_def)
  moreover have "\<forall>q \<in> set (save_row pay_id p (payments d)). backed (payment_attempts d) q"
    using assms set_save_row_subset [of pay_id p "payments d"] by (auto simp: payments_ok_def)
  ultimately show ?thesis by (simp add: payments_ok_def save_payment_def)
qed

lemma found_ok:
  assumes "payments_ok d" "find_row key k (payments d) = Some p"
  shows "find_row pay_id (pay_id p) (payments d) = Some p" "backed (payment_attempts d) p"
proof -
  have "p \<in> set (payments d)" using find_row_SomeD [OF assms(2)] by simp
  then show "find_row pay_id (pay_id p) (payments d) = Some p" "backed (payment_attempts d) p"
    using assms(1) find_row_in_set by (auto simp: payments_ok_def payment_keys_def)
qed

text \<open>The same for a payment that was found and written back with its status or amount changed.\<close>

lemma resave_ok:
  assumes "payments_ok d" "find_row key k (payments d) = Some old"
    and "pay_id p = pay_id old" "pay_order_id p = pay_order_id old" "pay_method p = pay_method old"
    and "backed (payment_attempts d) old \<Longrightarrow> backed (payment_attempts d) p"
  shows "payments_ok (save_payment p d)"
  using assms found_ok [OF assms(1,2)] by (intro save_payment_ok) auto

lemma update_amount_ok: "payments_ok d \<Longrightarrow> payments_ok (updateAmountForOrder oid amt d)"
proof (cases "find_row pay_order_id oid (payments d)")
  case (Some p)
  assume "payments_ok d"
  from resave_ok [OF this Some] show ?thesis by (simp add: updateAmountForOrder_def Some backed_def)
qed (simp add: updateAmountForOrder_def)

lemma mark_expired_ok: "payments_ok d \<Longrightarrow> payments_ok (markVnpayExpired k d)"
proof (cases "find_row pay_id k (payments d)")
  case (Some p)
  assume "payments_ok d"
  from resave_ok [OF this Some] show ?thesis by (simp add: markVnpayExpired_def Some backed_def)
qed (simp add: markVnpayExpired_def)

lemma mark_cod_ok: "payments_ok d \<Longrightarrow> payments_ok (markCodCompleted oid t d)"
proof (cases "find_row pay_order_id oid (payments d)")
  case (Some p)
  assume "payments_ok d"
  from resave_ok [OF this Some] \<open>payments_ok d\<close> show ?thesis
    by (simp add: markCodCompleted_def Some backed_def)
qed (simp add: markCodCompleted_def)

lemma create_pending_ok:
  assumes "payments_ok d" "find_row pay_order_id oid (payments d) = None"
  shows "payments_ok (fst (createPendingForOrder oid amt pm now redis d))"
proof -
  have new: "next_uuid d \<notin> pay_id ` set (payments d)" "oid \<notin> pay_order_id ` set (payments d)"
    using assms by (auto simp: payments_ok_def payment_keys_def fresh_keys_def find_row_None_iff)
  then show ?thesis
    using assms(1) unfolding payments_ok_def payment_keys_def createPendingForOrder_def
    by (auto simp: Let_def save_row_def unique_keys_def fresh_keys_def backed_def less_SucI)
qed

lemma backfill_ok: "payments_ok d \<Longrightarrow> payments_ok (fst (backfillCodCompletedPayments d))"
proof -
  have run: "payments_ok (fst acc) \<Longrightarrow>
      \<forall>p \<in> set ps. pay_method p = COD \<and> (\<exists>old. find_row pay_id (pay_id p) (payments (fst acc)) = Some old
        \<and> pay_order_id p = pay_order_id old \<and> pay_method p = pay_method old) \<Longrightarrow>
      payments_ok (fst (foldl backfill_step acc ps))" for acc ps
  proof (induction ps arbitrary: acc)
    case (Cons p ps)
    obtain d n where acc: "acc = (d, n)" by fastforce
    from Cons.prems(2) acc obtain old where p: "pay_method p = COD" "find_row pay_id (pay_id p) (payments d) = Some old"
        "pay_order_id p = pay_order_id old" "pay_method p = pay_method old" by auto
    have ok: "payments_ok (fst (backfill_step acc p))"
      using Cons.prems(1) p by (auto simp: backfill_step_def acc backed_def split: list.split intro!: save_payment_ok)
    have "\<forall>q \<in> set ps. pay_method q = COD \<and> (\<exists>old. find_row pay_id (pay_id q) (payments (fst (backfill_step acc p))) = Some old
        \<and> pay_order_id q = pay_order_id old \<and> pay_method q = pay_method old)"
      using Cons.prems(2) p
      by (auto simp: backfill_step_def acc save_payment_def find_row_save split: list.split)
    from Cons.IH [OF ok this] show ?case by simp
  qed simp
  assume ok: "payments_ok d"
  then have "\<forall>p \<in> set (backfill_candidates d). pay_method p = COD \<and> find_row pay_id (pay_id p) (payments d) = Some p"
    by (auto simp: backfill_candidates_def payments_ok_def payment_keys_def find_row_in_set)
  with ok show ?thesis unfolding backfillCodCompletedPayments_def by (intro run) auto
qed

lemma expiry_info_payment:
  assumes "getVnpayExpiryInfo oid db_now d = Some info"
  obtains p ord where "p \<in> set (payments d)" "pay_order_id p = oid" "pay_method p = VNPAY"
    "pay_status p \<notin> {PayCompleted, PayRefunded}" "ei_paymentId info = pay_id p"
    "find_row o_id oid (orders d) = Some ord" "ei_orderAgeMs info = db_now - o_created_at ord"
proof -
  let ?P = "\<lambda>p. pay_order_id p = oid \<and> pay_method p = VNPAY \<and> pay_status p \<notin> {PayCompleted, PayRefunded}"
  obtain ord p where o: "find_row o_id oid (orders d) = Some ord" and p: "find ?P (payments d) = Some p"
      and info: "ei_paymentId info = pay_id p" "ei_orderAgeMs info = db_now - o_created_at ord"
    using assms by (auto simp: getVnpayExpiryInfo_def split: option.splits)
  from p have "p \<in> set (payments d)" "?P p" unfolding find_Some_iff by auto
  with o info show thesis by (intro that) auto
qed

text \<open>Everything the issuing transaction establishes when it commits.\<close>

lemma issue_cases:
  assumes "issue_attempt pid oid num db_now now d = Inr (d', iss)"
  obtains locked info a p where
    "find_row pay_id pid (payments d) = Some locked"
    "pay_status locked \<noteq> PayCompleted" "pay_status locked \<noteq> PayRefunded" "0 < js_of_dec (pay_amount locked)"
    "getVnpayExpiryInfo oid db_now d = Some info"
    "vnpay_min_payable_ms \<le> vnpay_hard_window_ms - ei_orderAgeMs info"
    "pa_id a = next_uuid d" "pa_payment_id a = pid" "pa_vnp_txn_ref a = txn_ref num now"
    "pa_status a = PayPending" "pa_amount a = dec_of_js (js_of_dec (pay_amount locked))"
    "txn_ref num now \<notin> pa_vnp_txn_ref ` set (payment_attempts d)"
    "p = locked\<lparr>pay_status := PayPending, pay_vnp_txn_ref := Some (txn_ref num now),
       pay_vnp_transaction_no := None, pay_vnp_response_code := None, pay_raw := None\<rparr>"
    "d' = d\<lparr>payment_attempts := save_row pa_id a (payment_attempts d),
            payments := save_row pay_id p (payments d), next_uuid := next_uuid d + 1\<rparr>"
    "iss = \<lparr>is_txnRef = txn_ref num now, is_amount = js_of_dec (pay_amount locked),
       is_expireAt = now + min vnpay_soft_window_ms (vnpay_hard_window_ms - ei_orderAgeMs info)\<rparr>"
proof -
  obtain locked where l: "find_row pay_id pid (payments d) = Some locked"
    using assms by (auto simp: issue_attempt_def split: option.splits)
  then have "pay_id locked = pid" by (rule find_row_SomeD [THEN conjunct2])
  with l assms show ?thesis
    by (auto simp: issue_attempt_def Let_def split: option.splits if_splits intro!: that)
qed

lemma issue_ok:
  assumes "payments_ok d" "find_row pay_order_id oid (payments d) = Some q"
    and "issue_attempt (pay_id q) oid num db_now now d = Inr (d', iss)"
  shows "payments_ok d'"
  using assms(3)
proof (cases rule: issue_cases)
  case (1 locked info a p)
  have k: "payment_keys d" and b: "\<forall>p \<in> set (payments d). backed (payment_attempts d) p"
    using assms(1) by (auto simp: payments_ok_def)
  have [simp]: "locked = q" using found_ok(1) [OF assms(1,2)] 1(1) by simp
  have q: "q \<in> set (payments d)" "pay_order_id q = oid" using find_row_SomeD [OF assms(2)] by auto
  have vnpay: "pay_method q = VNPAY"
    using 1(5)
  proof (rule expiry_info_payment)
    fix p ord assume p: "p \<in> set (payments d)" "pay_order_id p = oid" "pay_method p = VNPAY"
    then have "p = q" using k q by (intro unique_inj [of pay_order_id "payments d"]) (auto simp: payment_keys_def)
    with p show ?thesis by simp
  qed
  have new: "save_row pa_id a (payment_attempts d) = payment_attempts d @ [a]"
    using k 1(7) by (auto simp: save_row_def payment_keys_def fresh_keys_def)
  let ?d1 = "d\<lparr>payment_attempts := payment_attempts d @ [a], next_uuid := next_uuid d + 1\<rparr>"
  have "x = q" if "x \<in> set (payments d)" "pay_id x = pay_id q" for x
    using k q that by (intro unique_inj [of pay_id "payments d"]) (auto simp: payment_keys_def)
  then have own: "\<forall>x \<in> set (payments d). pa_payment_id a = pay_id x \<longrightarrow> pay_method x = VNPAY"
    using vnpay 1(8) by auto
  have lt: "pay_id q < next_uuid d" using k q by (auto simp: payment_keys_def fresh_keys_def)
  have "unique_keys pa_id (payment_attempts d @ [a])" "unique_keys pa_vnp_txn_ref (payment_attempts d @ [a])"
    using k 1(7,9,12) by (auto simp: payment_keys_def fresh_keys_def unique_keys_def)
  then have "payment_keys ?d1"
    using k own lt 1(7,8) by (simp add: payment_keys_def fresh_keys_def less_SucI)
  moreover have "backed (payment_attempts d @ [a]) x" if "x \<in> set (payments d)" for x
    using b that unfolding backed_def by fastforce
  ultimately have "payments_ok ?d1" by (simp add: payments_ok_def)
  moreover have "backed (payment_attempts ?d1) p" using 1 by (auto simp: backed_def)
  moreover have "d' = save_payment p ?d1" using 1 new by (simp add: save_payment_def)
  ultimately show ?thesis
    using found_ok(1) [OF assms(1,2)] 1(13) by (auto intro!: save_payment_ok)
qed

text \<open>The same for the IPN: the attempt it books and what happens to the payment.\<close>

lemma ipn_cases:
  assumes "handleVnpayIpn cfg query now d = (d', code)"
  obtains "d' = d" "code \<noteq> Rsp00"
  | a dup where "verifySignature cfg query" "find_attempt (map_of query ''vnp_TxnRef'') d = Some a"
      "Option.bind (map_of query ''vnp_Amount'') js_number = Some (expected_amount a)"
      "pa_status a = PayPending"
      "syncPaymentFromAttempt (confirm_attempt query now a) now
         (d\<lparr>payment_attempts := save_row pa_id (confirm_attempt query now a) (payment_attempts d)\<rparr>) = (d', dup)"
      "code = (if dup then Rsp02 else Rsp00)"
  using assms unfolding handleVnpayIpn_def Let_def
  by (auto split: if_splits option.splits prod.splits)

lemma confirm_simps [simp]:
  "pa_id (confirm_attempt query now a) = pa_id a"
  "pa_payment_id (confirm_attempt query now a) = pa_payment_id a"
  "pa_vnp_txn_ref (confirm_attempt query now a) = pa_vnp_txn_ref a"
  "pa_amount (confirm_attempt query now a) = pa_amount a"
  "pa_ipn_received_at (confirm_attempt query now a) = Some now"
  "pa_status (confirm_attempt query now a) \<noteq> PayPending"
  "pa_status (confirm_attempt query now a) = PayCompleted \<longleftrightarrow> map_of query ''vnp_ResponseCode'' = Some ''00''"
  "pa_vnp_response_code (confirm_attempt query now a) = map_of query ''vnp_ResponseCode''"
  by (simp_all add: confirm_attempt_def Let_def)

lemma find_attempt_in: "find_attempt r d = Some a \<Longrightarrow> a \<in> set (payment_attempts d)"
  by (auto simp: find_attempt_def split: option.splits list.splits dest: find_row_SomeD)

text \<open>What the sync does to the payment of the attempt, if it does anything.\<close>

lemma sync_cases:
  assumes "syncPaymentFromAttempt a now d = (d', dup)"
  obtains "d' = d" "dup \<longleftrightarrow> (\<exists>p. find_row pay_id (pa_payment_id a) (payments d) = Some p
                          \<and> pay_status p = PayCompleted \<and> pa_status a = PayCompleted)"
    "\<And>p. find_row pay_id (pa_payment_id a) (payments d) = Some p \<Longrightarrow> pay_status p \<noteq> PayCompleted \<Longrightarrow>
        pa_status a \<noteq> PayCompleted \<and> (pay_vnp_txn_ref p = Some (pa_vnp_txn_ref a) \<longrightarrow> pay_status p \<noteq> PayPending)"
  | p p' where "find_row pay_id (pa_payment_id a) (payments d) = Some p" "d' = save_payment p' d" "\<not> dup"
      "pay_status p \<noteq> PayCompleted" "pay_id p' = pay_id p" "pay_order_id p' = pay_order_id p"
      "pay_method p' = pay_method p" "pay_amount p' = pay_amount p"
      "pay_status p' = (if pa_status a = PayCompleted then PayCompleted else PayFailed)"
      "pay_vnp_txn_ref p' = Some (pa_vnp_txn_ref a)"
      "pa_status a \<noteq> PayCompleted \<Longrightarrow> pay_status p = PayPending"
proof (cases "find_row pay_id (pa_payment_id a) (payments d)")
  case None
  with assms show ?thesis by (intro that(1)) (auto simp: syncPaymentFromAttempt_def)
next
  case (Some p)
  let ?set = "\<lambda>q. q\<lparr>pay_vnp_txn_ref := Some (pa_vnp_txn_ref a), pay_vnp_transaction_no := pa_vnp_transaction_no a,
     pay_vnp_response_code := pa_vnp_response_code a, pay_raw := pa_raw a\<rparr>"
  consider "pa_status a = PayCompleted" "pay_status p = PayCompleted"
    | "pa_status a = PayCompleted" "pay_status p \<noteq> PayCompleted"
    | "pa_status a \<noteq> PayCompleted" "pay_vnp_txn_ref p = Some (pa_vnp_txn_ref a)" "pay_status p = PayPending"
    | "pa_status a \<noteq> PayCompleted" "\<not> (pay_vnp_txn_ref p = Some (pa_vnp_txn_ref a) \<and> pay_status p = PayPending)"
    by blast
  then show ?thesis
  proof cases
    case 2
    let ?p = "?set (p\<lparr>pay_status := PayCompleted,
      pay_paid_at := Some (case pa_ipn_received_at a of None \<Rightarrow> now | Some t \<Rightarrow> t)\<rparr>)"
    show ?thesis using assms 2 Some by (intro that(2) [OF Some, of ?p]) (auto simp: syncPaymentFromAttempt_def)
  next
    case 3
    let ?p = "p\<lparr>pay_status := PayFailed, pay_vnp_transaction_no := pa_vnp_transaction_no a,
        pay_vnp_response_code := pa_vnp_response_code a, pay_raw := pa_raw a\<rparr>"
    show ?thesis
      using assms 3 Some by (intro that(2) [OF Some, of ?p]) (auto simp: syncPaymentFromAttempt_def)
  qed (use assms Some in \<open>auto simp: syncPaymentFromAttempt_def intro!: that(1)\<close>)
qed

lemma ipn_ok:
  assumes "payments_ok d" "handleVnpayIpn cfg query now d = (d', code)"
  shows "payments_ok d'"
  using assms(2)
proof (cases rule: ipn_cases)
  case 1
  with assms(1) show ?thesis by simp
next
  case (2 a dup)
  let ?a = "confirm_attempt query now a"
  let ?as = "save_row pa_id ?a (payment_attempts d)"
  have k: "payment_keys d" and b: "\<forall>p \<in> set (payments d). backed (payment_attempts d) p"
    using assms(1) by (auto simp: payments_ok_def)
  have a: "a \<in> set (payment_attempts d)" using 2(2) by (rule find_attempt_in)
  have as: "x \<in> set ?as \<longleftrightarrow> x = ?a \<or> x \<in> set (payment_attempts d) \<and> x \<noteq> a" for x
    using k a in_set_save_row [of pa_id "payment_attempts d" x ?a] unique_inj [of pa_id "payment_attempts d" x a]
    by (auto simp: payment_keys_def)
  have fa: "find_row pa_id (pa_id ?a) (payment_attempts d) = Some a"
    using k a by (simp add: payment_keys_def find_row_in_set)
  have "map pa_vnp_txn_ref ?as = map pa_vnp_txn_ref (payment_attempts d)"
    using k fa by (intro map_save_same [OF fa]) (auto simp: payment_keys_def)
  then have k1: "payment_keys (d\<lparr>payment_attempts := ?as\<rparr>)"
    using k a as by (auto simp: payment_keys_def fresh_keys_def unique_keys_save) (simp add: unique_keys_def)
  have same: "x = a" if "x \<in> set (payment_attempts d)" "pa_vnp_txn_ref x = pa_vnp_txn_ref a" for x
    using k a that by (intro unique_inj [of pa_vnp_txn_ref "payment_attempts d"]) (auto simp: payment_keys_def)
  have frame: "backed ?as p" if "p \<in> set (payments d)"
      "pay_method p = VNPAY \<Longrightarrow> pa_payment_id a = pay_id p \<Longrightarrow>
         pay_vnp_txn_ref p = Some (pa_vnp_txn_ref a) \<Longrightarrow> pay_status p \<noteq> PayPending" for p
    using b that 2(4) same as unfolding backed_def by (smt (verit) payment_status.distinct(1))
  show ?thesis using 2(5)
  proof (cases rule: sync_cases)
    case 1
    have "backed ?as p" if "p \<in> set (payments d)" for p
    proof (rule frame [OF that])
      assume p: "pa_payment_id a = pay_id p" "pay_vnp_txn_ref p = Some (pa_vnp_txn_ref a)"
      then have "find_row pay_id (pa_payment_id a) (payments d) = Some p"
        using k that by (simp add: payment_keys_def find_row_in_set)
      then show "pay_status p \<noteq> PayPending" using 1(3) [of p] p by auto
    qed
    with k1 1(1) show ?thesis by (simp add: payments_ok_def)
  next
    case (2 p p')
    have p: "p \<in> set (payments d)" "pay_id p = pa_payment_id a" using find_row_SomeD 2(1) by fastforce+
    have p': "find_row pay_id (pay_id p') (payments (d\<lparr>payment_attempts := ?as\<rparr>)) = Some p"
      using 2(1,5) p by simp
    have "payment_keys d'" using 2 k1 save_payment_keys [OF k1 p'] by simp
    moreover have "backed ?as x" if "x \<in> set (payments d')" for x
    proof (cases "pay_id x = pay_id p")
      case True
      then have "x = p'" using that 2(2,5) k by (auto simp: save_payment_def in_set_save_row payment_keys_def)
      have "?a \<in> set ?as" using as by blast
      then have "pa_status ?a = PayCompleted \<Longrightarrow> backed ?as p'"
        unfolding backed_def using 2(5,9,10) p by (intro conjI impI bexI [of _ ?a]) auto
      moreover have "pa_status ?a \<noteq> PayCompleted \<Longrightarrow> backed ?as p'" using 2(9) by (simp add: backed_def)
      ultimately show ?thesis using \<open>x = p'\<close> by blast
    next
      case False
      then have x: "x \<in> set (payments d)"
        using that 2(2,5) k by (auto simp: save_payment_def in_set_save_row payment_keys_def)
      show ?thesis using False p by (intro frame [OF x]) auto
    qed
    ultimately show ?thesis using 2(2) by (simp add: payments_ok_def save_payment_def)
  qed
qed

subsection \<open>Histories of the payment tables\<close>

text \<open>
  Every write of the service to the two tables, in any order; \<open>expiry\<close> says whether the expiry of
  orders is among them. An attempt is issued for the payment that was found by its order.
\<close>

inductive payment_step :: "bool \<Rightarrow> vnp_config \<Rightarrow> db \<Rightarrow> db \<Rightarrow> bool" for expiry cfg where
  created: "find_row pay_order_id oid (payments d) = None \<Longrightarrow>
    payment_step expiry cfg d (fst (createPendingForOrder oid amt pm now redis d))"
| amount: "payment_step expiry cfg d (updateAmountForOrder oid amt d)"
| attempt: "find_row pay_order_id oid (payments d) = Some q \<Longrightarrow>
    issue_attempt (pay_id q) oid num db_now now d = Inr (d', iss) \<Longrightarrow> payment_step expiry cfg d d'"
| ipn: "payment_step expiry cfg d (fst (handleVnpayIpn cfg query now d))"
| cod: "payment_step expiry cfg d (markCodCompleted oid t d)"
| backfill: "payment_step expiry cfg d (fst (backfillCodCompletedPayments d))"
| expire: "expiry \<Longrightarrow> payment_step expiry cfg d (markVnpayExpired k d)"

lemma step_ok: "payment_step expiry cfg d d' \<Longrightarrow> payments_ok d \<Longrightarrow> payments_ok d'"
proof (induction rule: payment_step.induct)
  case (ipn d query now)
  then show ?case using ipn_ok [of d cfg query now "fst (handleVnpayIpn cfg query now d)"]
    by (metis prod.collapse)
qed (simp_all add: create_pending_ok update_amount_ok issue_ok mark_cod_ok backfill_ok mark_expired_ok)

lemma steps_ok: "(payment_step expiry cfg)\<^sup>*\<^sup>* d d' \<Longrightarrow> payments_ok d \<Longrightarrow> payments_ok d'"
  by (induction rule: rtranclp_induct) (auto intro: step_ok)

text \<open>A paid payment survives: only its amount may still change.\<close>

definition keeps_paid :: "db \<Rightarrow> db \<Rightarrow> bool" where
  "keeps_paid d d' \<longleftrightarrow>
     (\<forall>k p. find_row pay_id k (payments d) = Some p \<and> pay_status p = PayCompleted \<longrightarrow>
        (\<exists>amt. find_row pay_id k (payments d') = Some (p\<lparr>pay_amount := amt\<rparr>)))"

lemma keeps_paid_same: "payments d' = payments d \<Longrightarrow> keeps_paid d d'"
proof -
  have "\<exists>amt. p = p\<lparr>pay_amount := amt\<rparr>" for p :: payment by (rule exI [of _ "pay_amount p"]) simp
  then show "payments d' = payments d \<Longrightarrow> keeps_paid d d'" by (simp add: keeps_paid_def)
qed

lemma keeps_paid_save:
  assumes "payments d' = save_row pay_id p (payments d)"
    and "find_row pay_id (pay_id p) (payments d) = Some old"
    and "pay_status old \<noteq> PayCompleted \<or> (\<exists>amt. p = old\<lparr>pay_amount := amt\<rparr>)"
  shows "keeps_paid d d'"
proof -
  have "\<exists>amt. q = q\<lparr>pay_amount := amt\<rparr>" for q :: payment by (rule exI [of _ "pay_amount q"]) simp
  with assms show ?thesis by (auto simp: keeps_paid_def find_row_save)
qed

lemma find_self: "find_row pay_order_id oid (payments d) = Some p \<Longrightarrow> payments_ok d \<Longrightarrow>
    find_row pay_id (pay_id p) (payments d) = Some p"
  by (rule found_ok(1))

lemma backfill_keeps: "payments_ok d \<Longrightarrow> keeps_paid d (fst (backfillCodCompletedPayments d))"
proof -
  assume ok: "payments_ok d"
  have other: "k \<notin> pay_id ` set ps \<Longrightarrow>
      find_row pay_id k (payments (fst (foldl backfill_step acc ps))) = find_row pay_id k (payments (fst acc))" for k ps acc
  proof (induction ps arbitrary: acc)
    case (Cons p ps)
    then have "find_row pay_id k (payments (fst (backfill_step acc p))) = find_row pay_id k (payments (fst acc))"
      by (cases acc) (auto simp: backfill_step_def save_payment_def find_row_save split: list.split)
    with Cons show ?case by simp
  qed simp
  have "find_row pay_id k (payments (fst (backfillCodCompletedPayments d))) = Some p"
    if "find_row pay_id k (payments d) = Some p" "pay_status p = PayCompleted" for k p
  proof -
    have p: "p \<in> set (payments d)" "pay_id p = k" using find_row_SomeD [OF that(1)] by auto
    have "q = p" if "q \<in> set (payments d)" "pay_id q = k" for q
      using ok p that by (intro unique_inj [of pay_id "payments d"]) (auto simp: payments_ok_def payment_keys_def)
    with that(2) have "k \<notin> pay_id ` set (backfill_candidates d)" by (fastforce simp: backfill_candidates_def)
    with that(1) show ?thesis by (simp add: backfillCodCompletedPayments_def other)
  qed
  moreover have "\<exists>amt. q = q\<lparr>pay_amount := amt\<rparr>" for q :: payment by (rule exI [of _ "pay_amount q"]) simp
  ultimately show ?thesis by (simp add: keeps_paid_def)
qed

lemma ipn_keeps: "keeps_paid d (fst (handleVnpayIpn cfg query now d))"
proof -
  obtain d' code where r: "handleVnpayIpn cfg query now d = (d', code)" by fastforce
  then have "keeps_paid d d'"
  proof (cases rule: ipn_cases)
    case (2 a dup)
    from 2(5) show ?thesis
    proof (cases rule: sync_cases)
      case (2 p p')
      moreover from 2(1) have "pay_id p = pa_payment_id a" using find_row_SomeD by fastforce
      ultimately show ?thesis by (intro keeps_paid_save [of _ p' _ p]) (auto simp: save_payment_def)
    qed (simp add: keeps_paid_same)
  qed (simp add: keeps_paid_same)
  with r show ?thesis by simp
qed

lemma step_keeps: "payment_step False cfg d d' \<Longrightarrow> payments_ok d \<Longrightarrow> keeps_paid d d'"
proof (induction rule: payment_step.induct)
  case (created oid d amt pm now redis)
  have "find_row pay_id (next_uuid d) (payments d) = None"
    using created by (auto simp: payments_ok_def payment_keys_def fresh_keys_def find_row_None_iff)
  moreover have "\<exists>amt. q = q\<lparr>pay_amount := amt\<rparr>" for q :: payment by (rule exI [of _ "pay_amount q"]) simp
  ultimately show ?case by (auto simp: keeps_paid_def createPendingForOrder_def Let_def find_row_save)
next
  case (amount d oid amt)
  then show ?case
    using find_self [of oid d]
    by (cases "find_row pay_order_id oid (payments d)")
      (auto simp: updateAmountForOrder_def save_payment_def keeps_paid_same intro!: keeps_paid_save)
next
  case (attempt oid d q num db_now now d' iss)
  from attempt(2) show ?case
  proof (cases rule: issue_cases)
    case (1 locked info a p)
    moreover from this have "pay_id locked = pay_id q" using find_row_SomeD by fastforce
    ultimately show ?thesis by (intro keeps_paid_save [of _ p _ locked]) auto
  qed
next
  case (cod d oid t)
  then show ?case
    using find_self [of oid d]
    by (cases "find_row pay_order_id oid (payments d)")
      (auto simp: markCodCompleted_def save_payment_def keeps_paid_same intro!: keeps_paid_save)
qed (simp_all add: ipn_keeps backfill_keeps)

lemma keeps_paid_trans: "keeps_paid a b \<Longrightarrow> keeps_paid b c \<Longrightarrow> keeps_paid a c"
  unfolding keeps_paid_def by fastforce

lemma steps_keep: "(payment_step False cfg)\<^sup>*\<^sup>* d d' \<Longrightarrow> payments_ok d \<Longrightarrow> keeps_paid d d'"
proof (induction rule: rtranclp_induct)
  case (step y z)
  then show ?case using steps_ok step_keeps keeps_paid_trans by blast
qed (simp add: keeps_paid_same)

subsection \<open>Booking an IPN\<close>

text \<open>The guards of \<open>handleVnpayIpn\<close> together: the query books the attempt.\<close>

definition ipn_books :: "vnp_config \<Rightarrow> js_object \<Rightarrow> db \<Rightarrow> payment_attempt \<Rightarrow> bool" where
  "ipn_books cfg query d a \<longleftrightarrow>
     verifySignature cfg query \<and> find_attempt (map_of query ''vnp_TxnRef'') d = Some a
   \<and> Option.bind (map_of query ''vnp_Amount'') js_number = Some (expected_amount a)
   \<and> pa_status a = PayPending"

lemma ipn_not_booked: "\<forall>a. \<not> ipn_books cfg query d a \<Longrightarrow>
    fst (handleVnpayIpn cfg query now d) = d \<and> snd (handleVnpayIpn cfg query now d) \<noteq> Rsp00"
  by (auto simp: ipn_books_def handleVnpayIpn_def split: option.splits)

lemma ipn_booked: "ipn_books cfg query d a \<Longrightarrow> handleVnpayIpn cfg query now d =
    (let a' = confirm_attempt query now a;
         (d', dup) = syncPaymentFromAttempt a' now
           (d\<lparr>payment_attempts := save_row pa_id a' (payment_attempts d)\<rparr>)
     in (d', if dup then Rsp02 else Rsp00))"
  by (simp add: ipn_books_def handleVnpayIpn_def)

lemma sync_attempts: "payment_attempts (fst (syncPaymentFromAttempt a now d)) = payment_attempts d"
  by (auto simp: syncPaymentFromAttempt_def save_payment_def split: option.splits)

lemma booked_once:
  assumes "payment_keys d" "ipn_books cfg query d a"
  shows "\<not> ipn_books cfg query (fst (handleVnpayIpn cfg query now d)) b"
proof -
  let ?a = "confirm_attempt query now a" and ?r = "map_of query ''vnp_TxnRef''"
  let ?as = "save_row pa_id ?a (payment_attempts d)"
  have a: "a \<in> set (payment_attempts d)" using assms(2) by (auto simp: ipn_books_def dest: find_attempt_in)
  then have fa: "find_row pa_id (pa_id ?a) (payment_attempts d) = Some a"
    using assms(1) by (simp add: payment_keys_def find_row_in_set)
  have "map pa_vnp_txn_ref ?as = map pa_vnp_txn_ref (payment_attempts d)"
    using assms(1) by (intro map_save_same [OF fa]) (auto simp: payment_keys_def)
  then have u: "unique_keys pa_vnp_txn_ref ?as" using assms(1) by (simp add: payment_keys_def unique_keys_def)
  have in_as: "?a \<in> set ?as" using assms(1) by (simp add: payment_keys_def in_set_save_row)
  have ats: "payment_attempts (fst (handleVnpayIpn cfg query now d)) = ?as"
    using sync_attempts [of ?a now "d\<lparr>payment_attempts := ?as\<rparr>"]
    by (simp add: ipn_booked [OF assms(2)] Let_def case_prod_beta)
  have "find_attempt ?r (fst (handleVnpayIpn cfg query now d)) = Some ?a"
  proof (cases ?r)
    case None
    with assms(2) obtain rest where "payment_attempts d = a # rest"
      by (auto simp: ipn_books_def find_attempt_def split: list.splits)
    then show ?thesis by (simp add: None find_attempt_def ats save_row_def)
  next
    case (Some r)
    with assms(2) have "pa_vnp_txn_ref ?a = r"
      by (auto simp: ipn_books_def find_attempt_def dest: find_row_SomeD)
    with find_row_in_set [OF u in_as] show ?thesis by (simp add: Some find_attempt_def ats)
  qed
  then show ?thesis by (auto simp: ipn_books_def)
qed

lemma expected_amount_int: "\<bar>pa_amount a\<bar> \<le> dec_bound \<Longrightarrow> expected_amount a = of_int (pa_amount a)"
proof -
  have "expected_amount a = of_int (cents_of (js_of_dec (pa_amount a)))"
    by (simp add: expected_amount_def js_round_def js_mul_def cents_of_def)
  then show "\<bar>pa_amount a\<bar> \<le> dec_bound \<Longrightarrow> expected_amount a = of_int (pa_amount a)"
    by (simp add: cents_of_dec)
qed

subsection \<open>Properties\<close>

text \<open>
  C19. An online payment is COMPLETED only when money came in for it: in every state the service can
  reach, expiry included, a completed VNPAY payment names an attempt of its own that the gateway
  confirmed with response code 00.
\<close>

theorem completed_payment_backed:
  assumes "payments_ok d" "(payment_step True cfg)\<^sup>*\<^sup>* d d'"
    and "p \<in> set (payments d')" "pay_method p = VNPAY" "pay_status p = PayCompleted"
  shows "\<exists>a \<in> set (payment_attempts d'). pa_payment_id a = pay_id p \<and> pay_vnp_txn_ref p = Some (pa_vnp_txn_ref a)
           \<and> pa_status a = PayCompleted \<and> pa_vnp_response_code a = Some ''00''"
  using steps_ok [OF assms(2,1)] assms(3-5) by (auto simp: payments_ok_def backed_def)

text \<open>
  A completed payment stays completed: through any history of new payments, amount changes, payment
  URLs, IPNs of old and new attempts, deliveries and backfills, only its amount can change (the
  expiry of the order is not among these steps).
\<close>

theorem paid_is_final:
  assumes "payments_ok d" "(payment_step False cfg)\<^sup>*\<^sup>* d d'"
    and "find_row pay_id k (payments d) = Some p" "pay_status p = PayCompleted"
  shows "\<exists>amt. find_row pay_id k (payments d') = Some (p\<lparr>pay_amount := amt\<rparr>)"
  using steps_keep [OF assms(2,1)] assms(3,4) by (auto simp: keeps_paid_def)

text \<open>
  C20. The IPN is idempotent: a query that is delivered again, at any later time, changes nothing and is
  not confirmed a second time.
\<close>

theorem ipn_idempotent:
  assumes "payment_keys d" "handleVnpayIpn cfg query now d = (d1, code)"
  shows "fst (handleVnpayIpn cfg query later d1) = d1 \<and> snd (handleVnpayIpn cfg query later d1) \<noteq> Rsp00"
proof (rule ipn_not_booked)
  show "\<forall>b. \<not> ipn_books cfg query d1 b"
  proof (cases "\<exists>a. ipn_books cfg query d a")
    case True
    then show ?thesis using assms booked_once by (metis fst_conv)
  next
    case False
    then show ?thesis using ipn_not_booked [of cfg query d now] assms(2) by simp
  qed
qed

text \<open>
  C8. Nobody is credited for nothing: an IPN turns a payment into COMPLETED only when its signature is
  valid, its response code is 00, and it names an open attempt of this payment whose amount in
  hundredths is the amount it reports.
\<close>

theorem ipn_credits_authentic:
  assumes "handleVnpayIpn cfg query now d = (d', code)"
    and "find_row pay_id k (payments d) = Some p" "pay_status p \<noteq> PayCompleted"
    and "find_row pay_id k (payments d') = Some p'" "pay_status p' = PayCompleted"
    and "\<forall>a \<in> set (payment_attempts d). \<bar>pa_amount a\<bar> \<le> dec_bound"
  shows "verifySignature cfg query \<and> map_of query ''vnp_ResponseCode'' = Some ''00'' \<and> code = Rsp00
    \<and> (\<exists>a. find_attempt (map_of query ''vnp_TxnRef'') d = Some a \<and> pa_payment_id a = k \<and> pa_status a = PayPending
         \<and> Option.bind (map_of query ''vnp_Amount'') js_number = Some (of_int (pa_amount a))
         \<and> pay_vnp_txn_ref p' = Some (pa_vnp_txn_ref a))"
  using assms(1)
proof (cases rule: ipn_cases)
  case 1
  with assms show ?thesis by simp
next
  case (2 a dup)
  have amt: "expected_amount a = of_int (pa_amount a)"
    using assms(6) find_attempt_in [OF 2(2)] by (simp add: expected_amount_int)
  from 2(5) show ?thesis
  proof (cases rule: sync_cases)
    case 1
    with assms show ?thesis by auto
  next
    case (2 q q')
    have "pay_id q' = pa_payment_id a" using find_row_SomeD [OF 2(1)] 2(5) by simp
    then have "k = pa_payment_id a" "p' = q'"
      using assms 2(2) by (auto simp: save_payment_def find_row_save split: if_splits)
    then show ?thesis using 2 \<open>verifySignature cfg query\<close> assms(5) amt
        \<open>find_attempt (map_of query ''vnp_TxnRef'') d = Some a\<close> \<open>pa_status a = PayPending\<close>
        \<open>Option.bind (map_of query ''vnp_Amount'') js_number = Some (expected_amount a)\<close>
        \<open>code = (if dup then Rsp02 else Rsp00)\<close> by (auto split: if_splits)
  qed
qed

text \<open>
  C21. An open payment can always be paid: as long as it is PENDING, a valid success IPN for the URL it
  names, with the amount of the URL, is confirmed and completes the payment, whatever happened before.
\<close>

theorem pending_payment_completes:
  assumes "payments_ok d0" "(payment_step True cfg)\<^sup>*\<^sup>* d0 d"
    and "find_row pay_id k (payments d) = Some p" "pay_method p = VNPAY" "pay_status p = PayPending"
    and "pay_vnp_txn_ref p = Some r"
    and "verifySignature cfg query" "map_of query ''vnp_TxnRef'' = Some r"
    and "map_of query ''vnp_ResponseCode'' = Some ''00''"
    and "\<forall>a \<in> set (payment_attempts d). pa_vnp_txn_ref a = r \<longrightarrow>
           Option.bind (map_of query ''vnp_Amount'') js_number = Some (expected_amount a)"
  shows "\<exists>d' p'. handleVnpayIpn cfg query now d = (d', Rsp00)
     \<and> find_row pay_id k (payments d') = Some p' \<and> pay_status p' = PayCompleted \<and> pay_paid_at p' = Some now"
proof -
  have ok: "payments_ok d" using steps_ok assms(1,2) by blast
  have p: "pay_id p = k" using find_row_SomeD [OF assms(3)] by simp
  from found_ok(2) [OF ok assms(3)] assms(4-6) obtain a where
    a: "a \<in> set (payment_attempts d)" "pa_vnp_txn_ref a = r" "pa_payment_id a = pay_id p" "pa_status a = PayPending"
    by (auto simp: backed_def)
  then have "find_attempt (Some r) d = Some a"
    using ok find_row_in_set [of pa_vnp_txn_ref "payment_attempts d" a]
    by (simp add: find_attempt_def payments_ok_def payment_keys_def)
  with a assms(7-10) have books: "ipn_books cfg query d a" by (simp add: ipn_books_def)
  have c: "pa_status (confirm_attempt query now a) = PayCompleted" using assms(9) by simp
  show ?thesis
    using assms(3,5) a(3) p c
    by (simp add: ipn_booked [OF books] Let_def syncPaymentFromAttempt_def save_payment_def find_row_save)
qed

text \<open>
  A payment URL never outlives the hold of its order: it is only issued for an order of the caller that
  is not cancelled, at least three minutes before the hard limit of thirty minutes, it expires after
  at most fifteen minutes and not after the hard limit, the expiry job is due exactly then, and the
  payment is open again on the new reference.
\<close>

theorem url_within_hold:
  assumes "unique_keys pay_id (payments d)"
    and "createVnpayPaymentUrl cfg orderId userId ipAddr db_now now redis d = Inr (d', url, jobs)"
  shows "\<exists>p ord expireAt. find_row pay_order_id orderId (payments d) = Some p
     \<and> find_row o_id orderId (orders d) = Some ord \<and> o_customer_id ord = Some userId \<and> o_status ord \<noteq> Cancelled
     \<and> pay_status p \<notin> {PayCompleted, PayRefunded}
     \<and> url = buildPaymentUrl cfg (txn_ref (o_order_number ord) now) (js_of_dec (pay_amount p))
              (''Thanh toan don hang '' @ o_order_number ord) ipAddr now expireAt
     \<and> now + 3 * 60 * 1000 \<le> expireAt \<and> expireAt \<le> now + 15 * 60 * 1000
     \<and> expireAt - now \<le> o_created_at ord + 30 * 60 * 1000 - db_now
     \<and> jobs = (if redis then [(orderId, expireAt - now)] else [])
     \<and> (\<exists>p'. find_row pay_id (pay_id p) (payments d') = Some p' \<and> pay_status p' = PayPending
            \<and> pay_vnp_txn_ref p' = Some (txn_ref (o_order_number ord) now))"
proof -
  from assms(2) obtain p ord iss where
    pre: "url_precheck cfg orderId userId d = Inr (p, ord)" and
    iss: "issue_attempt (pay_id p) orderId (o_order_number ord) db_now now d = Inr (d', iss)" and
    url: "url = buildPaymentUrl cfg (is_txnRef iss) (is_amount iss)
              (''Thanh toan don hang '' @ o_order_number ord) ipAddr now (is_expireAt iss)" and
    jobs: "jobs = scheduleExpiryJob redis orderId (is_expireAt iss) now"
    by (auto simp: createVnpayPaymentUrl_def Let_def split: sum.splits)
  from pre have found: "find_row pay_order_id orderId (payments d) = Some p" "find_row o_id orderId (orders d) = Some ord"
      "o_customer_id ord = Some userId" "o_status ord \<noteq> Cancelled"
    by (auto simp: url_precheck_def split: if_splits option.splits)
  from iss show ?thesis
  proof (cases rule: issue_cases)
    case (1 locked info a q)
    have "p \<in> set (payments d)" using find_row_SomeD [OF found(1)] by simp
    then have l: "locked = p" using 1(1) find_row_in_set [OF assms(1), of p] by simp
    have "ei_orderAgeMs info = db_now - o_created_at ord"
      using 1(5) found(2) by (elim expiry_info_payment) auto
    with 1(6,15) have e: "is_expireAt iss = now + min (15 * 60 * 1000) (o_created_at ord + 30 * 60 * 1000 - db_now)"
        "db_now + 3 * 60 * 1000 \<le> o_created_at ord + 30 * 60 * 1000"
      by (simp_all add: vnpay_soft_window_ms_def vnpay_hard_window_ms_def vnpay_min_payable_ms_def algebra_simps)
    have i: "is_txnRef iss = txn_ref (o_order_number ord) now" "is_amount iss = js_of_dec (pay_amount p)"
      using 1(15) l by simp_all
    have "find_row pay_id (pay_id p) (payments d') = Some q" "pay_status q = PayPending"
        "pay_vnp_txn_ref q = Some (txn_ref (o_order_number ord) now)"
      using 1(13,14) l by (simp_all add: find_row_save)
    moreover have "jobs = (if redis then [(orderId, is_expireAt iss - now)] else [])"
      unfolding jobs using e by (simp add: scheduleExpiryJob_def)
    moreover have "pay_status p \<notin> {PayCompleted, PayRefunded}" using 1(2,3) l by simp
    ultimately show ?thesis
      using found e url unfolding i by (intro exI [of _ p] exI [of _ ord] exI [of _ "is_expireAt iss"]) auto
  qed
qed

subsection \<open>Instances\<close>

text \<open>An online order with one open attempt, and the query that pays it, under a digest that is constant.\<close>

definition demo_cfg :: vnp_config where
  "demo_cfg = \<lparr>vnp_tmn_code = Some ''T'', vnp_hash_secret = Some ''S'', vnp_pay_url = Some ''u'',
     vnp_return_url = Some ''r'', hmac_sha512_hex = \<lambda>k m. ''ab''\<rparr>"

definition demo_payment :: payment where
  "demo_payment = \<lparr>pay_id = 72, pay_order_id = 71, pay_method = VNPAY, pay_status = PayPending, pay_amount = 10000,
     pay_vnp_txn_ref = Some ''N-5'', pay_vnp_transaction_no = None, pay_vnp_response_code = None,
     pay_paid_at = None, pay_raw = None, pay_created_at = 0\<rparr>"

definition demo_attempt :: payment_attempt where
  "demo_attempt = \<lparr>pa_id = 73, pa_payment_id = 72, pa_vnp_txn_ref = ''N-5'', pa_amount = 10000,
     pa_status = PayPending, pa_vnp_transaction_no = None, pa_vnp_response_code = None,
     pa_ipn_received_at = None, pa_raw = None, pa_created_at = 5\<rparr>"

definition demo_order :: order_row where
  "demo_order = \<lparr>o_id = 71, o_customer_id = Some 1, o_global_coupon_id = None, o_total_amount = 10000,
     o_global_discount_amount = None, o_global_coupon_code = None, o_shipping_address = None, o_status = Pending,
     o_idempotency_key = None, o_order_number = ''N'', o_created_at = 0\<rparr>"

definition demo_open :: db where
  "demo_open = empty_db\<lparr>orders := [demo_order], payments := [demo_payment], payment_attempts := [demo_attempt],
     next_uuid := 100\<rparr>"

definition demo_ipn :: js_object where
  "demo_ipn = [(''vnp_TxnRef'', ''N-5''), (''vnp_Amount'', ''10000''), (''vnp_ResponseCode'', ''00''),
     (''vnp_SecureHash'', ''ab'')]"

definition demo_paid :: db where
  "demo_paid = fst (handleVnpayIpn demo_cfg demo_ipn 7 demo_open)"

lemmas demo_pay_defs = demo_payment_def demo_attempt_def demo_order_def demo_open_def empty_db_def

lemma demo_verifies: "verifySignature demo_cfg demo_ipn"
  by (simp add: verifySignature_def demo_cfg_def demo_ipn_def truthy_def sign_hex_def timingSafeEqualHex_def Let_def)

lemma demo_amount: "Option.bind (map_of demo_ipn ''vnp_Amount'') js_number = Some (expected_amount demo_attempt)"
  by (subst expected_amount_int)
    (simp_all add: demo_attempt_def dec_bound_def demo_ipn_def js_number_def trim_space_def parse_decimal_def
       parse_exponent_def is_digit_def read_digits_def)

lemma demo_books: "ipn_books demo_cfg demo_ipn demo_open demo_attempt"
  using demo_verifies demo_amount
  by (simp add: ipn_books_def demo_ipn_def find_attempt_def find_row_Cons demo_pay_defs)

lemma demo_ok: "payments_ok demo_open"
  by (simp add: payments_ok_def payment_keys_def backed_def unique_keys_def fresh_keys_def demo_pay_defs)

lemma demo_step: "(payment_step expiry demo_cfg)\<^sup>*\<^sup>* demo_open demo_paid"
  unfolding demo_paid_def by (rule r_into_rtranclp) (rule payment_step.ipn)

definition demo_paid_payment :: payment where
  "demo_paid_payment = demo_payment\<lparr>pay_status := PayCompleted, pay_paid_at := Some 7,
     pay_vnp_response_code := Some ''00'', pay_raw := Some demo_ipn\<rparr>"

lemma demo_paid_payments: "payments demo_paid = [demo_paid_payment]"
  unfolding demo_paid_def ipn_booked [OF demo_books]
  by (simp add: Let_def syncPaymentFromAttempt_def save_payment_def
      confirm_attempt_def demo_paid_payment_def demo_pay_defs find_row_Cons save_row_def demo_ipn_def)

lemma demo_paid_code: "handleVnpayIpn demo_cfg demo_ipn 7 demo_open = (demo_paid, Rsp00)"
  unfolding demo_paid_def ipn_booked [OF demo_books]
  by (simp add: Let_def syncPaymentFromAttempt_def save_payment_def
      confirm_attempt_def demo_paid_payment_def demo_pay_defs find_row_Cons save_row_def demo_ipn_def)

theorem completed_payment_backed_witness:
  "\<exists>a \<in> set (payment_attempts demo_paid). pa_payment_id a = 72
     \<and> pay_vnp_txn_ref demo_paid_payment = Some (pa_vnp_txn_ref a)
     \<and> pa_status a = PayCompleted \<and> pa_vnp_response_code a = Some ''00''"
  using completed_payment_backed [OF demo_ok demo_step, of demo_paid_payment]
  by (simp add: demo_paid_payments) (simp add: demo_paid_payment_def demo_pay_defs)

theorem paid_is_final_witness:
  "\<exists>amt. find_row pay_id 72 (payments (fst (handleVnpayIpn demo_cfg demo_ipn 9 demo_paid)))
     = Some (demo_paid_payment\<lparr>pay_amount := amt\<rparr>)"
  using steps_ok [OF demo_step demo_ok]
  by (rule paid_is_final [where cfg = demo_cfg])
    (auto simp: demo_paid_payments demo_paid_payment_def demo_pay_defs find_row_Cons
      intro: payment_step.ipn r_into_rtranclp)

theorem ipn_idempotent_witness:
  "fst (handleVnpayIpn demo_cfg demo_ipn 9 demo_paid) = demo_paid
   \<and> snd (handleVnpayIpn demo_cfg demo_ipn 9 demo_paid) \<noteq> Rsp00"
  using demo_ok by (intro ipn_idempotent [OF _ demo_paid_code]) (simp add: payments_ok_def)

theorem ipn_credits_authentic_witness:
  "verifySignature demo_cfg demo_ipn \<and> map_of demo_ipn ''vnp_ResponseCode'' = Some ''00'' \<and> Rsp00 = Rsp00
   \<and> (\<exists>a. find_attempt (map_of demo_ipn ''vnp_TxnRef'') demo_open = Some a \<and> pa_payment_id a = 72
        \<and> pa_status a = PayPending
        \<and> Option.bind (map_of demo_ipn ''vnp_Amount'') js_number = Some (of_int (pa_amount a))
        \<and> pay_vnp_txn_ref demo_paid_payment = Some (pa_vnp_txn_ref a))"
  by (rule ipn_credits_authentic [OF demo_paid_code, of 72 demo_payment])
    (simp_all add: demo_paid_payments, simp_all add: demo_paid_payment_def demo_pay_defs find_row_Cons dec_bound_def)

theorem pending_payment_completes_witness:
  "\<exists>d' p'. handleVnpayIpn demo_cfg demo_ipn 7 demo_open = (d', Rsp00)
     \<and> find_row pay_id 72 (payments d') = Some p' \<and> pay_status p' = PayCompleted \<and> pay_paid_at p' = Some 7"
  by (rule pending_payment_completes [OF demo_ok rtranclp.rtrancl_refl, where p = demo_payment and r = "''N-5''"])
    (use demo_amount in \<open>auto simp: demo_verifies, auto simp: demo_pay_defs demo_ipn_def find_row_Cons\<close>)

theorem url_within_hold_witness:
  "\<exists>p ord expireAt. find_row pay_order_id 71 (payments demo_open) = Some p
     \<and> find_row o_id 71 (orders demo_open) = Some ord \<and> o_customer_id ord = Some 1 \<and> o_status ord \<noteq> Cancelled
     \<and> pay_status p \<notin> {PayCompleted, PayRefunded}
     \<and> snd (projr (createVnpayPaymentUrl demo_cfg 71 1 ''ip'' 60000 60001 True demo_open))
       = (buildPaymentUrl demo_cfg (txn_ref (o_order_number ord) 60001) (js_of_dec (pay_amount p))
            (''Thanh toan don hang '' @ o_order_number ord) ''ip'' 60001 expireAt, [(71, expireAt - 60001)])
     \<and> 60001 + 3 * 60 * 1000 \<le> expireAt"
proof -
  let ?r = "createVnpayPaymentUrl demo_cfg 71 1 ''ip'' 60000 60001 True demo_open"
  have "0 < js_of_dec 10000" by (simp add: js_of_dec_def fl_exact)
  then have "\<exists>d' url jobs. ?r = Inr (d', url, jobs)"
    by (simp add: createVnpayPaymentUrl_def url_precheck_def isEnabled_def truthy_def demo_cfg_def find_row_Cons
        issue_attempt_def getVnpayExpiryInfo_def latest_attempt_at_def vnpay_soft_window_ms_def
        vnpay_hard_window_ms_def vnpay_min_payable_ms_def demo_pay_defs txn_ref_def show_nat.simps digit_char_def Let_def)
  then obtain d' url jobs where r: "?r = Inr (d', url, jobs)" by blast
  have "unique_keys pay_id (payments demo_open)" by (simp add: demo_open_def unique_keys_def)
  from url_within_hold [OF this r] show ?thesis unfolding r by fastforce
qed

end
