(* ===== verification/Checkout.thy ===== *)
theory Checkout
  imports OrderPricing ProductStock Payments
begin

text \<open>
  The checkout transaction of \<open>src/backend/src/modules/orders/orders.service.ts\<close>: the order with its
  generated number, the sub-orders and items, the payment, the coupons, the cart and the event,
  and the response, built from the plan or rebuilt from the stored order.

  Inside a PostgreSQL transaction a failed statement aborts the transaction: what follows gets
  SQLSTATE 25P02 until the rollback. \<open>tx\<close> is the state of the open transaction.
\<close>

subsection \<open>The order number\<close>

definition base64_char :: "nat \<Rightarrow> char" where
  "base64_char k =
     (if k < 26 then char_of (65 + k) else if k < 52 then char_of (71 + k)
      else if k < 62 then char_of (k - 4) else if k = 62 then CHR ''+'' else CHR ''/'')"

text \<open>Four bytes are six sextets, the last padded with zero bits, and two signs \<open>=\<close>.\<close>

definition base64_of_4 :: "nat list \<Rightarrow> string" where
  "base64_of_4 bs =
     (let n = foldl (\<lambda>acc b. acc * 256 + b mod 256) 0 (take 4 bs) * 16
      in map (\<lambda>i. base64_char (n div 64 ^ i mod 64)) [5, 4, 3, 2, 1, 0] @ ''=='')"

definition is_alnum :: "char \<Rightarrow> bool" where
  "is_alnum c = (let n = (of_char c :: nat)
     in (48 \<le> n \<and> n \<le> 57) \<or> (65 \<le> n \<and> n \<le> 90) \<or> (97 \<le> n \<and> n \<le> 122))"

definition upper_char :: "char \<Rightarrow> char" where
  "upper_char c = (let n = (of_char c :: nat) in if 97 \<le> n \<and> n \<le> 122 then char_of (n - 32) else c)"

definition random_chars :: "nat list \<Rightarrow> string" where
  "random_chars bytes =
     (let s = take 6 (map upper_char (filter is_alnum (base64_of_4 bytes)))
      in s @ replicate (6 - length s) (CHR ''X''))"

definition generateOrderNumber :: "millis \<Rightarrow> nat list \<Rightarrow> string" where
  "generateOrderNumber now bytes =
     (let (y, m, day) = civil_of_days (now div 86400000)
      in ''#ORD-'' @ (show_nat (nat y) @ pad2 m @ pad2 day) @ ''-'' @ random_chars bytes)"

subsection \<open>The transaction\<close>

record tx =
  tx_db :: db
  tx_aborted :: bool

text \<open>\<open>manager.save(Order, entity)\<close> of a new entity, under the unique constraints of its table.\<close>

definition insert_order :: "order_row \<Rightarrow> tx \<Rightarrow> tx \<times> (http_error + order_row)" where
  "insert_order ord t =
     (if tx_aborted t then (t, Inl TransactionAborted)
      else if o_idempotency_key ord \<noteq> None
              \<and> o_idempotency_key ord \<in> o_idempotency_key ` set (orders (tx_db t))
      then (t\<lparr>tx_aborted := True\<rparr>, Inl (UniqueViolation OrderIdempotencyUnique))
      else if o_order_number ord \<in> o_order_number ` set (orders (tx_db t))
      then (t\<lparr>tx_aborted := True\<rparr>, Inl (UniqueViolation OrderNumberUnique))
      else (t\<lparr>tx_db := (tx_db t)\<lparr>orders := orders (tx_db t) @ [ord], next_uuid := Suc (o_id ord)\<rparr>\<rparr>, Inr ord))"

definition isPgUniqueViolation :: "http_error \<Rightarrow> db_constraint option \<Rightarrow> bool" where
  "isPgUniqueViolation e c =
     (case e of UniqueViolation c' \<Rightarrow> (c = None \<or> c = Some c') | _ \<Rightarrow> False)"

definition order_number_max_retries :: nat where "order_number_max_retries = 5"

text \<open>The \<open>while\<close> loop: \<open>attempt\<close> counts up to the limit; \<open>mk\<close> is the payload for a number.\<close>

function create_order_loop ::
  "(nat \<Rightarrow> string) \<Rightarrow> (string \<Rightarrow> order_row) \<Rightarrow> nat \<Rightarrow> tx \<Rightarrow> tx \<times> (http_error + order_row)" where
  "create_order_loop gen mk attempt t =
     (if attempt < order_number_max_retries then
        (case insert_order (mk (gen attempt)) t of
           (t', Inr ord) \<Rightarrow> (t', Inr ord)
         | (t', Inl e) \<Rightarrow>
             if isPgUniqueViolation e (Some OrderIdempotencyUnique) then (t', Inl e)
             else if isPgUniqueViolation e None then create_order_loop gen mk (attempt + 1) t'
             else (t', Inl e))
      else (t, Inl (InternalServerError (OrderMsg OrderNumberExhausted))))"
  by pat_completeness auto
termination by (relation "measure (\<lambda>(gen, mk, attempt, t). order_number_max_retries - attempt)") auto

declare create_order_loop.simps [simp del]

definition order_payload ::
  "uuid \<Rightarrow> uuid \<Rightarrow> string \<Rightarrow> rat \<Rightarrow> coupon option \<Rightarrow> rat \<Rightarrow> address_snapshot \<Rightarrow> millis \<Rightarrow> string \<Rightarrow> order_row" where
  "order_payload oid userId key totalAmount globalCoupon globalDiscount addr now number =
     \<lparr>o_id = oid, o_customer_id = Some userId, o_global_coupon_id = map_option c_id globalCoupon,
      o_total_amount = dec_of_js totalAmount, o_global_discount_amount = Some (dec_of_js globalDiscount),
      o_global_coupon_code = map_option c_code globalCoupon, o_shipping_address = Some addr,
      o_status = Pending, o_idempotency_key = Some key, o_order_number = number, o_created_at = now\<rparr>"

definition createOrderWithRetry ::
  "uuid \<Rightarrow> string \<Rightarrow> rat \<Rightarrow> coupon option \<Rightarrow> rat \<Rightarrow> address_snapshot \<Rightarrow> millis \<Rightarrow> (nat \<Rightarrow> nat list) \<Rightarrow> tx
    \<Rightarrow> tx \<times> (http_error + order_row)" where
  "createOrderWithRetry userId key totalAmount globalCoupon globalDiscount addr now rnd t =
     create_order_loop (\<lambda>i. generateOrderNumber now (rnd i))
       (order_payload (next_uuid (tx_db t)) userId key totalAmount globalCoupon globalDiscount addr now) 0 t"

definition snapshotAddress :: "address \<Rightarrow> address_snapshot" where
  "snapshotAddress a =
     \<lparr>sa_recipient_name = a_recipient_name a, sa_phone = a_phone a, sa_address_line = a_address_line a,
      sa_lat = parse_coord (a_lat a), sa_lng = parse_coord (a_lng a)\<rparr>"

subsection \<open>Sub-orders and items\<close>

definition price_at_purchase :: "order_line \<Rightarrow> rat" where
  "price_at_purchase l = round2 (unit_price l)"

definition order_item_row :: "uuid \<Rightarrow> order_line \<Rightarrow> uuid \<Rightarrow> order_item" where
  "order_item_row sid l k =
     \<lparr>oi_id = k, oi_variant_id = map_option v_id (ol_variant l), oi_sub_order_id = sid,
      oi_product_id = Some (p_id (ol_product l)), oi_quantity = ci_quantity (ol_item l),
      oi_price_at_purchase = dec_of_js (price_at_purchase l), oi_product_name = p_name (ol_product l),
      oi_variant_name = Option.bind (ol_variant l) v_name,
      oi_product_thumbnail = p_thumbnail_url (ol_product l),
      oi_variant_attributes = Option.bind (ol_variant l) v_attributes\<rparr>"

definition save_order_item :: "uuid \<Rightarrow> db \<Rightarrow> order_line \<Rightarrow> db" where
  "save_order_item sid d l =
     d\<lparr>order_items := order_items d @ [order_item_row sid l (next_uuid d)], next_uuid := Suc (next_uuid d)\<rparr>"

definition sub_order_row :: "uuid \<Rightarrow> millis \<Rightarrow> sub_order_plan \<Rightarrow> uuid \<Rightarrow> sub_order" where
  "sub_order_row oid now plan sid =
     \<lparr>so_id = sid, so_shop_id = Some (s_id (pl_shop plan)), so_order_id = Some oid,
      so_shop_coupon_id = map_option c_id (pl_shopCoupon plan), so_sub_total = dec_of_js (pl_shopSubtotal plan),
      so_shipping_fee = dec_of_js (pl_shippingFee plan),
      so_shop_discount_amount = dec_of_js (pl_shopDiscount plan),
      so_shop_coupon_code = map_option c_code (pl_shopCoupon plan),
      so_total_amount = dec_of_js (pl_shopTotal plan), so_status = Pending, so_delivered_at = None,
      so_created_at = now\<rparr>"

definition save_sub_order :: "uuid \<Rightarrow> millis \<Rightarrow> sub_order_plan \<Rightarrow> db \<Rightarrow> db" where
  "save_sub_order oid now plan d =
     d\<lparr>sub_orders := sub_orders d @ [sub_order_row oid now plan (next_uuid d)],
       next_uuid := Suc (next_uuid d)\<rparr>"

text \<open>A plan is saved with its items; the id of its sub-order is kept beside it.\<close>

definition save_plan :: "uuid \<Rightarrow> millis \<Rightarrow> sub_order_plan \<Rightarrow> db \<Rightarrow> db" where
  "save_plan oid now plan d =
     (let sid = next_uuid d
      in foldl (save_order_item sid) (save_sub_order oid now plan d) (pl_items plan))"

fun save_plans :: "uuid \<Rightarrow> millis \<Rightarrow> sub_order_plan list \<Rightarrow> db \<Rightarrow> db \<times> uuid list" where
  "save_plans oid now [] d = (d, [])"
| "save_plans oid now (plan # plans) d =
     (let (d', sids) = save_plans oid now plans (save_plan oid now plan d) in (d', next_uuid d # sids))"

subsection \<open>The response\<close>

definition response_item_of :: "order_line \<Rightarrow> response_item" where
  "response_item_of l =
     \<lparr>rsi_product_id = Some (p_id (ol_product l)), rsi_product_name = p_name (ol_product l),
      rsi_variant_id = map_option v_id (ol_variant l), rsi_variant_name = Option.bind (ol_variant l) v_name,
      rsi_quantity = ci_quantity (ol_item l), rsi_price_at_purchase = price_at_purchase l\<rparr>"

definition response_sub_order_of :: "sub_order_plan \<Rightarrow> uuid \<Rightarrow> response_sub_order" where
  "response_sub_order_of plan sid =
     \<lparr>rss_sub_order_id = sid, rss_shop_id = Some (s_id (pl_shop plan)), rss_shop_name = s_name (pl_shop plan),
      rss_sub_total = pl_shopSubtotal plan, rss_shipping_fee = pl_shippingFee plan,
      rss_shop_discount_amount = pl_shopDiscount plan,
      rss_shop_coupon_code = map_option c_code (pl_shopCoupon plan), rss_total_amount = pl_shopTotal plan,
      rss_items = map response_item_of (pl_items plan)\<rparr>"

text \<open>The discount of the saved entity is the number that was assigned to it: 0 is falsy.\<close>

definition buildCheckoutResponse ::
  "order_row \<Rightarrow> order_plan \<Rightarrow> uuid list \<Rightarrow> address_snapshot \<Rightarrow> payment_method \<Rightarrow> checkout_response" where
  "buildCheckoutResponse ord op sids snap pm =
     \<lparr>rs_order_id = o_id ord, rs_order_number = o_order_number ord, rs_total_amount = op_grandTotal op,
      rs_global_discount_amount =
        (if op_globalDiscount op \<noteq> 0 then Some (round2 (op_globalDiscount op)) else None),
      rs_global_coupon_code = o_global_coupon_code ord, rs_payment_method = pm, rs_shipping_address = snap,
      rs_sub_orders = map2 response_sub_order_of (op_plans op) sids, rs_created_at = o_created_at ord\<rparr>"

text \<open>
  The order loaded with its relations. A decimal column comes back as a string, and a string of
  digits is truthy whatever its value.
\<close>

definition rebuilt_item :: "db \<Rightarrow> order_item \<Rightarrow> response_item" where
  "rebuilt_item d oi =
     \<lparr>rsi_product_id = map_option p_id (find_opt p_id (oi_product_id oi) (products d)),
      rsi_product_name = oi_product_name oi,
      rsi_variant_id = map_option v_id (find_opt v_id (oi_variant_id oi) (variants d)),
      rsi_variant_name = oi_variant_name oi, rsi_quantity = oi_quantity oi,
      rsi_price_at_purchase = round2 (js_of_dec (oi_price_at_purchase oi))\<rparr>"

definition rebuilt_sub_order :: "db \<Rightarrow> sub_order \<Rightarrow> response_sub_order" where
  "rebuilt_sub_order d so =
     (let s = find_opt s_id (so_shop_id so) (shops d)
      in \<lparr>rss_sub_order_id = so_id so, rss_shop_id = map_option s_id s,
          rss_shop_name = (case s of None \<Rightarrow> '''' | Some s \<Rightarrow> s_name s),
          rss_sub_total = round2 (js_of_dec (so_sub_total so)),
          rss_shipping_fee = round2 (js_of_dec (so_shipping_fee so)),
          rss_shop_discount_amount = round2 (js_of_dec (so_shop_discount_amount so)),
          rss_shop_coupon_code = so_shop_coupon_code so,
          rss_total_amount = round2 (js_of_dec (so_total_amount so)),
          rss_items = map (rebuilt_item d) (filter (\<lambda>oi. oi_sub_order_id oi = so_id so) (order_items d))\<rparr>)"

definition rebuilt_address :: "address_snapshot option \<Rightarrow> address_snapshot" where
  "rebuilt_address sa =
     (let text = (\<lambda>f. Some (case Option.bind sa f of None \<Rightarrow> '''' | Some s \<Rightarrow> s))
      in \<lparr>sa_recipient_name = text sa_recipient_name, sa_phone = text sa_phone,
          sa_address_line = text sa_address_line, sa_lat = Option.bind sa sa_lat,
          sa_lng = Option.bind sa sa_lng\<rparr>)"

definition buildCheckoutResponseFromOrder :: "db \<Rightarrow> order_row \<Rightarrow> checkout_response" where
  "buildCheckoutResponseFromOrder d ord =
     \<lparr>rs_order_id = o_id ord, rs_order_number = o_order_number ord,
      rs_total_amount = round2 (js_of_dec (o_total_amount ord)),
      rs_global_discount_amount = map_option (\<lambda>k. round2 (js_of_dec k)) (o_global_discount_amount ord),
      rs_global_coupon_code = o_global_coupon_code ord,
      rs_payment_method = (case find_row pay_order_id (o_id ord) (payments d) of
                             None \<Rightarrow> COD | Some p \<Rightarrow> pay_method p),
      rs_shipping_address = rebuilt_address (o_shipping_address ord),
      rs_sub_orders = map (rebuilt_sub_order d) (filter (\<lambda>so. so_order_id so = Some (o_id ord)) (sub_orders d)),
      rs_created_at = o_created_at ord\<rparr>"

definition recoverResponseFromExistingOrder :: "string \<Rightarrow> db \<Rightarrow> http_error + checkout_response" where
  "recoverResponseFromExistingOrder key d =
     (case find (\<lambda>ord. o_idempotency_key ord = Some key) (orders d) of
        None \<Rightarrow> Inl (InternalServerError (OrderMsg RecoveredOrderMissing))
      | Some ord \<Rightarrow> Inr (buildCheckoutResponseFromOrder d ord))"

subsection \<open>Checkout\<close>

record checkout_dto =
  dto_address_id :: uuid
  dto_payment_method :: payment_method
  dto_global_coupon_code :: "string option"
  dto_shop_coupons :: "(uuid \<times> string) list"

text \<open>What the world outside the database decides: the clock, the random bytes of each attempt at an
  order number, and whether Redis takes the expiry job.\<close>

record checkout_env =
  env_now :: millis
  env_rnd :: "nat \<Rightarrow> nat list"
  env_redis :: bool

definition stock_targets :: "order_line list \<Rightarrow> stock_item list" where
  "stock_targets items =
     map (\<lambda>l. \<lparr>si_product_id = p_id (ol_product l), si_variant_id = map_option v_id (ol_variant l),
               si_quantity = ci_quantity (ol_item l)\<rparr>) items"

definition owns_a_shop_of :: "uuid \<Rightarrow> order_line list \<Rightarrow> db \<Rightarrow> bool" where
  "owns_a_shop_of userId items d \<longleftrightarrow>
     (\<exists>s \<in> set (shops d). s_id s \<in> s_id ` ol_shop ` set items \<and> s_seller_id s = userId)"

definition consume_and_mark :: "uuid \<Rightarrow> millis \<Rightarrow> db \<Rightarrow> coupon option \<Rightarrow> db" where
  "consume_and_mark userId now d co =
     (case co of None \<Rightarrow> d | Some c \<Rightarrow> markWalletUsed userId (c_id c) now (consumeCoupon c d))"

definition order_created_event :: "order_row \<Rightarrow> order_plan \<Rightarrow> uuid list \<Rightarrow> uuid \<Rightarrow> db \<Rightarrow> outbox_event" where
  "order_created_event ord op sids userId d =
     (let shopIds = map (\<lambda>p. s_id (pl_shop p)) (op_plans op);
          sellerIdByShop = getSellerIdsByShopIds shopIds d
      in OrderCreated (o_id ord) (o_order_number ord)
           (map2 (\<lambda>k sid. (k, sellerIdByShop k, sid)) shopIds sids) userId (op_grandTotal op))"

text \<open>Steps 9 to 12 and the event: everything after the order row is in.\<close>

definition persist_checkout ::
  "uuid \<Rightarrow> checkout_dto \<Rightarrow> checkout_env \<Rightarrow> order_row \<Rightarrow> order_plan \<Rightarrow> db \<Rightarrow> db \<times> uuid list \<times> expiry_job list" where
  "persist_checkout userId dto env ord op d =
     (let now = env_now env;
          (d1, sids) = save_plans (o_id ord) now (op_plans op) d;
          (d2, _, jobs) = createPendingForOrder (o_id ord) (op_grandTotal op) (dto_payment_method dto) now
                            (env_redis env) d1;
          d3 = consume_and_mark userId now d2 (op_globalCoupon op);
          d4 = foldl (consume_and_mark userId now) d3 (map pl_shopCoupon (op_plans op));
          d5 = clearActiveCart userId d4
      in (d5\<lparr>outbox := outbox d5 @ [order_created_event ord op sids userId d5]\<rparr>, sids, jobs))"

type_synonym checkout_result = "http_error + (db \<times> checkout_response \<times> expiry_job list)"

definition runCheckoutTransaction ::
  "calculator \<Rightarrow> uuid \<Rightarrow> checkout_dto \<Rightarrow> string \<Rightarrow> checkout_env \<Rightarrow> db \<Rightarrow> checkout_result" where
  "runCheckoutTransaction calc userId dto key env d =
     (case findOwnedAddressOrFail userId (dto_address_id dto) d of
        Inl e \<Rightarrow> Inl e
      | Inr addr \<Rightarrow>
        (case getActiveCartItemsForCheckout userId d of (valid, unavailable) \<Rightarrow>
          if unavailable \<noteq> [] then Inl (BadRequest (OrderMsg (ItemsUnavailable unavailable)))
          else if valid = [] then Inl (BadRequest (OrderMsg CartEmpty))
          else
            let items = map to_order_line valid
            in if owns_a_shop_of userId items d then Inl (BadRequest (OrderMsg SelfPurchase))
               else
                 (case lockAndDeductStockForCheckout (stock_targets items) d of
                    Inl e \<Rightarrow> Inl e
                  | Inr (d1, _) \<Rightarrow>
                    (case plan_order calc addr (dto_global_coupon_code dto) (dto_shop_coupons dto) (env_now env) d1 items of
                       Inl e \<Rightarrow> Inl e
                     | Inr op \<Rightarrow>
                       (let snap = snapshotAddress addr
                        in case createOrderWithRetry userId key (op_grandTotal op) (op_globalCoupon op)
                                  (op_globalDiscount op) snap (env_now env) (env_rnd env)
                                  \<lparr>tx_db = d1, tx_aborted = False\<rparr> of
                             (t, Inl e) \<Rightarrow>
                               if isPgUniqueViolation e (Some OrderIdempotencyUnique)
                               then (case recoverResponseFromExistingOrder key d of
                                       Inl e' \<Rightarrow> Inl e' | Inr rs \<Rightarrow> Inr (d, rs, []))
                               else Inl e
                           | (t, Inr ord) \<Rightarrow>
                               let (d2, sids, jobs) = persist_checkout userId dto env ord op (tx_db t)
                               in Inr (d2, buildCheckoutResponse ord op sids snap (dto_payment_method dto), jobs))))))"

subsection \<open>What is written\<close>

text \<open>The ids the plans get, and the rows under them.\<close>

fun plan_sids :: "uuid \<Rightarrow> sub_order_plan list \<Rightarrow> uuid list" where
  "plan_sids n [] = []"
| "plan_sids n (p # ps) = n # plan_sids (Suc n + length (pl_items p)) ps"

definition item_rows :: "uuid \<Rightarrow> order_line list \<Rightarrow> order_item list" where
  "item_rows sid ls = map2 (order_item_row sid) ls [Suc sid..<Suc sid + length ls]"

definition plan_item_rows :: "uuid \<Rightarrow> sub_order_plan list \<Rightarrow> order_item list" where
  "plan_item_rows n ps = concat (map2 (\<lambda>p sid. item_rows sid (pl_items p)) ps (plan_sids n ps))"

definition plan_end :: "uuid \<Rightarrow> sub_order_plan list \<Rightarrow> uuid" where
  "plan_end n ps = n + length ps + (\<Sum>p\<leftarrow>ps. length (pl_items p))"

lemma length_plan_sids [simp]: "length (plan_sids n ps) = length ps"
  by (induction ps arbitrary: n) auto

lemma plan_sids_bounds: "sid \<in> set (plan_sids n ps) \<Longrightarrow> n \<le> sid \<and> sid < plan_end n ps"
proof (induction ps arbitrary: n)
  case (Cons p ps)
  then show ?case by (fastforce simp: plan_end_def)
qed simp

lemma distinct_plan_sids: "distinct (plan_sids n ps)"
proof (induction ps arbitrary: n)
  case (Cons p ps)
  then show ?case using plan_sids_bounds [of n "Suc n + length (pl_items p)" ps] by auto
qed simp

lemma save_items_eq:
  "foldl (save_order_item sid) d ls =
     d\<lparr>order_items := order_items d @ map2 (order_item_row sid) ls [next_uuid d..<next_uuid d + length ls],
       next_uuid := next_uuid d + length ls\<rparr>"
proof (induction ls arbitrary: d)
  case (Cons l ls)
  have "[next_uuid d..<Suc (next_uuid d + length ls)] = next_uuid d # [Suc (next_uuid d)..<Suc (next_uuid d + length ls)]"
    by (rule upt_conv_Cons) simp
  moreover have "save_order_item sid d l =
      d\<lparr>order_items := order_items d @ [order_item_row sid l (next_uuid d)], next_uuid := Suc (next_uuid d)\<rparr>"
    by (simp add: save_order_item_def)
  ultimately show ?case by (simp add: Cons.IH del: upt_Suc)
qed simp

lemma save_plan_eq:
  "save_plan oid now p d =
     d\<lparr>sub_orders := sub_orders d @ [sub_order_row oid now p (next_uuid d)],
       order_items := order_items d @ item_rows (next_uuid d) (pl_items p),
       next_uuid := Suc (next_uuid d) + length (pl_items p)\<rparr>"
  by (simp add: save_plan_def save_items_eq save_sub_order_def item_rows_def)

lemma save_plans_eq:
  "save_plans oid now ps d =
     (d\<lparr>sub_orders := sub_orders d @ map2 (sub_order_row oid now) ps (plan_sids (next_uuid d) ps),
        order_items := order_items d @ plan_item_rows (next_uuid d) ps,
        next_uuid := plan_end (next_uuid d) ps\<rparr>, plan_sids (next_uuid d) ps)"
  by (induction ps arbitrary: d) (simp_all add: save_plan_eq plan_item_rows_def plan_end_def)

text \<open>The items of one sub-order are found again by its id.\<close>

lemma item_rows_parent: "oi \<in> set (item_rows sid ls) \<Longrightarrow> oi_sub_order_id oi = sid"
  by (auto simp: item_rows_def order_item_row_def)

lemma filter_concat_rows:
  assumes "distinct sids" "(p, sid) \<in> set (zip ps sids)"
  shows "filter (\<lambda>oi. oi_sub_order_id oi = sid) (concat (map2 (\<lambda>p sid. item_rows sid (pl_items p)) ps sids))
       = item_rows sid (pl_items p)"
  using assms
proof (induction ps sids rule: list_induct2')
  case (4 q ps k sids)
  have self: "filter (\<lambda>oi. oi_sub_order_id oi = k) (item_rows k ls) = item_rows k ls" for k ls
    by (intro filter_True) (simp add: item_rows_parent)
  show ?case
  proof (cases "sid = k")
    case True
    with 4(2,3) have "p = q" by (auto dest: set_zip_rightD)
    have "filter (\<lambda>oi. oi_sub_order_id oi = k) (concat (map2 (\<lambda>p sid. item_rows sid (pl_items p)) ps sids)) = []"
      using 4(2) by (fastforce simp: filter_empty_conv dest: item_rows_parent set_zip_rightD)
    with True \<open>p = q\<close> self show ?thesis by simp
  next
    case False
    then have "(p, sid) \<in> set (zip ps sids)" using 4(3) by simp
    moreover have "filter (\<lambda>oi. oi_sub_order_id oi = sid) (item_rows k (pl_items q)) = []"
      using False by (auto simp: filter_empty_conv dest: item_rows_parent)
    ultimately show ?thesis using 4 by simp
  qed
qed auto

text \<open>Coupons and the cart leave the other tables alone.\<close>

lemma consume_frame:
  "\<exists>cs us. consume_and_mark u now d co = d\<lparr>coupons := cs, user_coupons := us\<rparr>"
proof (cases co)
  case None
  then show ?thesis
    by (intro exI [of _ "coupons d"] exI [of _ "user_coupons d"]) (simp add: consume_and_mark_def)
next
  case (Some c)
  then show ?thesis by (auto simp: consume_and_mark_def consumeCoupon_def markWalletUsed_def)
qed

lemma consume_all_frame:
  "\<exists>cs us. foldl (consume_and_mark u now) d cpns = d\<lparr>coupons := cs, user_coupons := us\<rparr>"
proof (induction cpns arbitrary: d)
  case Nil
  show ?case by (rule exI [of _ "coupons d"], rule exI [of _ "user_coupons d"]) simp
next
  case (Cons co cpns)
  obtain cs us where d1: "consume_and_mark u now d co = d\<lparr>coupons := cs, user_coupons := us\<rparr>"
    using consume_frame by blast
  obtain cs' us' where "foldl (consume_and_mark u now) (d\<lparr>coupons := cs, user_coupons := us\<rparr>) cpns
      = d\<lparr>coupons := cs, user_coupons := us\<rparr>\<lparr>coupons := cs', user_coupons := us'\<rparr>"
    using Cons.IH by blast
  with d1 show ?case by auto
qed

text \<open>The ids in use are below the supply.\<close>

definition ids_fresh :: "db \<Rightarrow> bool" where
  "ids_fresh d \<longleftrightarrow>
     (\<forall>ord \<in> set (orders d). o_id ord < next_uuid d)
   \<and> (\<forall>so \<in> set (sub_orders d). so_id so < next_uuid d \<and> (\<forall>k. so_order_id so = Some k \<longrightarrow> k < next_uuid d))
   \<and> (\<forall>oi \<in> set (order_items d). oi_sub_order_id oi < next_uuid d)
   \<and> (\<forall>p \<in> set (payments d). pay_id p < next_uuid d \<and> pay_order_id p < next_uuid d)"

subsection \<open>The order row\<close>

lemma aborted_loop: "tx_aborted t \<Longrightarrow> \<exists>e. create_order_loop gen mk i t = (t, Inl e)"
  by (subst create_order_loop.simps) (simp add: insert_order_def isPgUniqueViolation_def)

lemma createOrder_ok:
  assumes "createOrderWithRetry u key amt gcp gd snap now rnd \<lparr>tx_db = d, tx_aborted = False\<rparr> = (t, Inr ord)"
  shows "ord = order_payload (next_uuid d) u key amt gcp gd snap now (generateOrderNumber now (rnd 0))"
    "Some key \<notin> o_idempotency_key ` set (orders d)"
    "o_order_number ord \<notin> o_order_number ` set (orders d)"
    "tx_db t = d\<lparr>orders := orders d @ [ord], next_uuid := Suc (next_uuid d)\<rparr>"
proof -
  let ?mk = "order_payload (next_uuid d) u key amt gcp gd snap now"
  have "create_order_loop (\<lambda>i. generateOrderNumber now (rnd i)) ?mk 1 \<lparr>tx_db = d, tx_aborted = True\<rparr> \<noteq> (t, Inr ord)"
    using aborted_loop [of "\<lparr>tx_db = d, tx_aborted = True\<rparr>" "\<lambda>i. generateOrderNumber now (rnd i)" ?mk 1] by auto
  then have "ord = ?mk (generateOrderNumber now (rnd 0)) \<and> Some key \<notin> o_idempotency_key ` set (orders d)
     \<and> o_order_number ord \<notin> o_order_number ` set (orders d)
     \<and> tx_db t = d\<lparr>orders := orders d @ [ord], next_uuid := Suc (next_uuid d)\<rparr>"
    using assms unfolding createOrderWithRetry_def
    by (subst (asm) create_order_loop.simps)
      (auto simp: order_number_max_retries_def insert_order_def isPgUniqueViolation_def order_payload_def
        split: if_splits)
  then show "ord = ?mk (generateOrderNumber now (rnd 0))" "Some key \<notin> o_idempotency_key ` set (orders d)"
    "o_order_number ord \<notin> o_order_number ` set (orders d)"
    "tx_db t = d\<lparr>orders := orders d @ [ord], next_uuid := Suc (next_uuid d)\<rparr>" by blast+
qed

text \<open>Everything a successful checkout went through, when no order had its key yet.\<close>

lemma checkout_cases:
  assumes "runCheckoutTransaction calc u dto key env d = Inr (d', rs, jobs)"
    and "Some key \<notin> o_idempotency_key ` set (orders d)"
  obtains addr valid items d1 res op ord where
    "findOwnedAddressOrFail u (dto_address_id dto) d = Inr addr"
    "getActiveCartItemsForCheckout u d = (valid, [])" "valid \<noteq> []" "items = map to_order_line valid"
    "\<not> owns_a_shop_of u items d"
    "lockAndDeductStockForCheckout (stock_targets items) d = Inr (d1, res)"
    "plan_order calc addr (dto_global_coupon_code dto) (dto_shop_coupons dto) (env_now env) d1 items = Inr op"
    "ord = order_payload (next_uuid d1) u key (op_grandTotal op) (op_globalCoupon op) (op_globalDiscount op)
             (snapshotAddress addr) (env_now env) (generateOrderNumber (env_now env) (env_rnd env 0))"
    "Some key \<notin> o_idempotency_key ` set (orders d1)"
    "o_order_number ord \<notin> o_order_number ` set (orders d1)"
    "persist_checkout u dto env ord op (d1\<lparr>orders := orders d1 @ [ord], next_uuid := Suc (next_uuid d1)\<rparr>)
       = (d', plan_sids (Suc (next_uuid d1)) (op_plans op), jobs)"
    "rs = buildCheckoutResponse ord op (plan_sids (Suc (next_uuid d1)) (op_plans op)) (snapshotAddress addr)
            (dto_payment_method dto)"
proof -
  obtain valid unav where cart: "getActiveCartItemsForCheckout u d = (valid, unav)" by fastforce
  let ?items = "map to_order_line valid"
  from assms(1) cart obtain addr d1 res op where
    addr: "findOwnedAddressOrFail u (dto_address_id dto) d = Inr addr" and
    v: "unav = []" "valid \<noteq> []" "\<not> owns_a_shop_of u ?items d" and
    ded: "lockAndDeductStockForCheckout (stock_targets ?items) d = Inr (d1, res)" and
    op: "plan_order calc addr (dto_global_coupon_code dto) (dto_shop_coupons dto) (env_now env) d1 ?items = Inr op"
    by (auto simp: runCheckoutTransaction_def Let_def split: sum.splits if_splits prod.splits)
  let ?co = "createOrderWithRetry u key (op_grandTotal op) (op_globalCoupon op) (op_globalDiscount op)
      (snapshotAddress addr) (env_now env) (env_rnd env) \<lparr>tx_db = d1, tx_aborted = False\<rparr>"
  obtain t r where co: "?co = (t, r)" by fastforce
  have norec: "recoverResponseFromExistingOrder key d \<noteq> Inr x" for x
    using assms(2) by (auto simp: recoverResponseFromExistingOrder_def find_Some_iff split: option.splits)
      (metis image_eqI nth_mem)
  show thesis
  proof (cases r)
    case (Inl e)
    with assms(1) cart addr v ded op co norec show ?thesis
      by (auto simp: runCheckoutTransaction_def Let_def split: sum.splits if_splits)
  next
    case (Inr ord)
    note o = createOrder_ok [OF co [unfolded Inr]]
    have p: "persist_checkout u dto env ord op (tx_db t) = (d', snd (save_plans (o_id ord) (env_now env) (op_plans op) (tx_db t)), jobs)"
      and rs: "rs = buildCheckoutResponse ord op (snd (save_plans (o_id ord) (env_now env) (op_plans op) (tx_db t)))
            (snapshotAddress addr) (dto_payment_method dto)"
      using assms(1) cart addr v ded op co Inr
      by (auto simp: runCheckoutTransaction_def Let_def persist_checkout_def split: prod.splits)
    have sids: "snd (save_plans (o_id ord) (env_now env) (op_plans op) (tx_db t))
        = plan_sids (Suc (next_uuid d1)) (op_plans op)"
      by (simp add: save_plans_eq o(4))
    show ?thesis
      using cart v(1) p [unfolded sids, unfolded o(4)] rs [unfolded sids]
      by (intro that [OF addr _ v(2) refl v(3) ded op o(1,2,3)]) auto
  qed
qed

lemma event_frame: "shops d' = shops d \<Longrightarrow> order_created_event ord op sids u d' = order_created_event ord op sids u d"
  by (simp add: order_created_event_def getSellerIdsByShopIds_def)

text \<open>The payment an order starts with.\<close>

definition pending_payment :: "uuid \<Rightarrow> uuid \<Rightarrow> payment_method \<Rightarrow> int \<Rightarrow> millis \<Rightarrow> payment" where
  "pending_payment k oid pm amount now =
     \<lparr>pay_id = k, pay_order_id = oid, pay_method = pm, pay_status = PayPending, pay_amount = amount,
      pay_vnp_txn_ref = None, pay_vnp_transaction_no = None, pay_vnp_response_code = None,
      pay_paid_at = None, pay_raw = None, pay_created_at = now\<rparr>"

lemma createPending_eq:
  "next_uuid d \<notin> pay_id ` set (payments d) \<Longrightarrow>
   createPendingForOrder oid amt pm now redis d =
     (d\<lparr>payments := payments d @ [pending_payment (next_uuid d) oid pm (dec_of_js amt) now],
        next_uuid := Suc (next_uuid d)\<rparr>, pending_payment (next_uuid d) oid pm (dec_of_js amt) now,
      if pm = VNPAY then scheduleExpiryJob redis oid (now + vnpay_soft_window_ms) now else [])"
  by (simp add: createPendingForOrder_def Let_def save_row_def pending_payment_def)

lemma persist_eq:
  assumes "persist_checkout u dto env ord op d = (d', sids, jobs)" "\<forall>p \<in> set (payments d). pay_id p < next_uuid d"
  obtains cs us where "sids = plan_sids (next_uuid d) (op_plans op)"
    "d' = d\<lparr>sub_orders := sub_orders d @ map2 (sub_order_row (o_id ord) (env_now env)) (op_plans op) sids,
       order_items := order_items d @ plan_item_rows (next_uuid d) (op_plans op),
       payments := payments d @ [pending_payment (plan_end (next_uuid d) (op_plans op)) (o_id ord)
          (dto_payment_method dto) (dec_of_js (op_grandTotal op)) (env_now env)],
       coupons := cs, user_coupons := us,
       cart_items := delete_rows (\<lambda>ci. ci_user_id ci = Some u) (cart_items d),
       outbox := outbox d @ [order_created_event ord op sids u d],
       next_uuid := Suc (plan_end (next_uuid d) (op_plans op))\<rparr>"
    "jobs = (if dto_payment_method dto = VNPAY
             then scheduleExpiryJob (env_redis env) (o_id ord) (env_now env + vnpay_soft_window_ms) (env_now env)
             else [])"
proof -
  let ?ps = "op_plans op" and ?n = "next_uuid d"
  let ?d1 = "d\<lparr>sub_orders := sub_orders d @ map2 (sub_order_row (o_id ord) (env_now env)) ?ps (plan_sids ?n ?ps),
       order_items := order_items d @ plan_item_rows ?n ?ps, next_uuid := plan_end ?n ?ps\<rparr>"
  let ?d2 = "fst (createPendingForOrder (o_id ord) (op_grandTotal op) (dto_payment_method dto) (env_now env) (env_redis env) ?d1)"
  obtain cs us where c: "foldl (consume_and_mark u (env_now env)) (consume_and_mark u (env_now env) ?d2 (op_globalCoupon op))
        (map pl_shopCoupon ?ps) = ?d2\<lparr>coupons := cs, user_coupons := us\<rparr>"
  proof -
    obtain cs us where g: "consume_and_mark u (env_now env) ?d2 (op_globalCoupon op) = ?d2\<lparr>coupons := cs, user_coupons := us\<rparr>"
      using consume_frame by blast
    obtain cs' us' where "foldl (consume_and_mark u (env_now env)) (?d2\<lparr>coupons := cs, user_coupons := us\<rparr>)
        (map pl_shopCoupon ?ps) = ?d2\<lparr>coupons := cs, user_coupons := us\<rparr>\<lparr>coupons := cs', user_coupons := us'\<rparr>"
      using consume_all_frame by blast
    with g show ?thesis by (intro that [of us' cs']) simp
  qed
  have "?n \<le> plan_end ?n ?ps" by (simp add: plan_end_def)
  with assms(2) have new: "plan_end ?n ?ps \<notin> pay_id ` set (payments d)" by force
  have out: "d' = (let d5 = clearActiveCart u (?d2\<lparr>coupons := cs, user_coupons := us\<rparr>)
                   in d5\<lparr>outbox := outbox d5 @ [order_created_event ord op (plan_sids ?n ?ps) u d5]\<rparr>)"
    and sids: "sids = plan_sids ?n ?ps"
    and jobs: "jobs = snd (snd (createPendingForOrder (o_id ord) (op_grandTotal op) (dto_payment_method dto)
        (env_now env) (env_redis env) ?d1))"
    using assms(1) c by (auto simp: persist_checkout_def save_plans_eq Let_def case_prod_unfold)
  let ?pay = "pending_payment (plan_end ?n ?ps) (o_id ord) (dto_payment_method dto)
      (dec_of_js (op_grandTotal op)) (env_now env)"
  have "next_uuid ?d1 \<notin> pay_id ` set (payments ?d1)" using new by simp
  note pending = createPending_eq [OF this, of "o_id ord" "op_grandTotal op" "dto_payment_method dto" "env_now env" "env_redis env"]
  have d2: "?d2 = ?d1\<lparr>payments := payments d @ [?pay], next_uuid := Suc (plan_end ?n ?ps)\<rparr>"
    unfolding pending fst_conv by (rule db.equality) simp_all
  let ?d5 = "clearActiveCart u (?d2\<lparr>coupons := cs, user_coupons := us\<rparr>)"
  have d5: "?d5 = d\<lparr>sub_orders := sub_orders ?d1, order_items := order_items ?d1,
       payments := payments d @ [?pay], coupons := cs, user_coupons := us,
       cart_items := delete_rows (\<lambda>ci. ci_user_id ci = Some u) (cart_items d),
       next_uuid := Suc (plan_end ?n ?ps)\<rparr>"
    unfolding d2 clearActiveCart_def by (rule db.equality) simp_all
  have ev: "order_created_event ord op (plan_sids ?n ?ps) u ?d5 = order_created_event ord op sids u d"
    unfolding sids by (rule event_frame) (simp add: d5)
  have out': "d' = ?d5\<lparr>outbox := outbox ?d5 @ [order_created_event ord op sids u d]\<rparr>"
    by (simp only: out Let_def ev)
  show thesis
    by (rule that [where cs = cs and us = us, OF sids])
      (simp_all only: out' [unfolded d5] jobs pending fst_conv snd_conv sids, simp_all)
qed

subsection \<open>The lines that are sold\<close>

lemma valid_lines:
  "fst (getActiveCartItemsForCheckout u d) = filter (\<lambda>l. evaluateItemStaticAvailability l = None) (load_cart u d)"
proof -
  have "fst (foldl (\<lambda>(valid, unavailable) l.
              case evaluateItemStaticAvailability l of
                None \<Rightarrow> (valid @ [l], unavailable)
              | Some r \<Rightarrow> (valid, unavailable @ [f l r])) acc ls)
      = fst acc @ filter (\<lambda>l. evaluateItemStaticAvailability l = None) ls" for f acc ls
    by (induction ls arbitrary: acc) (auto split: option.split prod.split)
  then show ?thesis unfolding getActiveCartItemsForCheckout_def by (metis append_Nil fst_conv)
qed

text \<open>What a line that is sold was loaded from.\<close>

definition line_loaded :: "db \<Rightarrow> order_line \<Rightarrow> bool" where
  "line_loaded d l \<longleftrightarrow>
     find_row p_id (p_id (ol_product l)) (products d) = Some (ol_product l)
   \<and> find_row s_id (s_id (ol_shop l)) (shops d) = Some (ol_shop l)
   \<and> (\<forall>v. ol_variant l = Some v \<longrightarrow> find_row v_id (v_id v) (variants d) = Some v)
   \<and> ol_item l \<in> set (cart_items d)"

lemma find_opt_row: "find_opt key ko t = Some r \<Longrightarrow> find_row key (key r) t = Some r"
  using find_row_SomeD by (fastforce simp: find_opt_def split: option.splits)

lemma sold_lines_loaded:
  assumes "getActiveCartItemsForCheckout u d = (valid, unav)" "l \<in> set (map to_order_line valid)"
  shows "line_loaded d l"
proof -
  from assms valid_lines [of u d] obtain c where c: "c \<in> set (load_cart u d)" "l = to_order_line c"
      "evaluateItemStaticAvailability c = None"
    by auto
  from c(1) obtain ci where ci: "ci \<in> set (cart_items d)" "c = load_line d ci"
    by (auto simp: load_cart_def user_rows_def)
  from c(3) obtain p s where p: "cl_product c = Some p" and s: "cl_shop c = Some s"
    by (auto simp: evaluateItemStaticAvailability_def shop_active_def split: option.splits if_splits)
  have "find_opt p_id (ci_product_id ci) (products d) = Some p"
    using p ci(2) by (simp add: load_line_def Let_def)
  moreover from this have "find_opt s_id (p_shop_id p) (shops d) = Some s"
    using s ci(2) by (simp add: load_line_def Let_def)
  moreover have "cl_variant c = find_opt v_id (ci_variant_id ci) (variants d)" "cl_item c = ci"
    using ci(2) by (simp_all add: load_line_def Let_def)
  ultimately show ?thesis
    using ci(1) p s by (auto simp: line_loaded_def c(2) to_order_line_def find_opt_row)
qed

lemma plan_members:
  assumes "plan_order calc addr gc sc now d items = Inr op" "p \<in> set (op_plans op)"
  shows "set (pl_items p) \<subseteq> set items" "pl_shop p \<in> ol_shop ` set items"
proof -
  from assms obtain ps where ps: "map_result (plan_sub_order calc addr sc now d) (groupItemsByShop items) = Inr ps"
      "op_plans op = ps"
    by (auto simp: plan_order_def Let_def split: sum.splits)
  from map_result_member [OF ps(1)] assms(2) ps(2) obtain g where
    g: "g \<in> set (groupItemsByShop items)" "plan_sub_order calc addr sc now d g = Inr p" by blast
  then have p: "pl_items p = snd g" "pl_shop p = fst g"
    by (auto simp: plan_sub_order_def Let_def split: sum.splits)
  show "set (pl_items p) \<subseteq> set items" using group_member(2) [OF g(1)] p by simp
  from g(1) obtain k ls where "(k, ls) \<in> set (group_by (\<lambda>l. s_id (ol_shop l)) items)" "g = (ol_shop (hd ls), ls)"
    by (auto simp: groupItemsByShop_def)
  then show "pl_shop p \<in> ol_shop ` set items"
    using group_member(1,2) [OF g(1)] p by (auto simp: subset_iff)
qed

lemma stored_back: "\<bar>k\<bar> \<le> dec_bound \<Longrightarrow> round2 (js_of_dec (dec_of_js (js_of_dec k))) = js_of_dec k"
  by (simp add: round2_js_of_dec)

lemma price_stored_back:
  assumes "cart_priceable items" "l \<in> set items" "1 \<le> ci_quantity (ol_item l)"
  shows "round2 (js_of_dec (dec_of_js (price_at_purchase l))) = price_at_purchase l"
proof -
  let ?b = "case ol_variant l of None \<Rightarrow> 0 | Some v \<Rightarrow> v_additional_price v"
  let ?k = "p_price (ol_product l) + ?b"
  have n: "line_nonneg l" "\<forall>x \<in> set items. line_nonneg x" using assms by (auto simp: cart_priceable_def)
  then have pos: "0 \<le> p_price (ol_product l)" "0 \<le> ?b" by (auto simp: line_nonneg_def split: option.split)
  then have "?k * 1 \<le> ?k * ci_quantity (ol_item l)" using assms(3) by (intro mult_left_mono) auto
  also have "\<dots> = line_exact l" by (simp add: line_exact_def)
  also have "\<dots> \<le> shop_cents items"
    unfolding shop_cents_def using n line_exact_nonneg assms(2) by (intro member_le_sum_list) auto
  also have "\<dots> \<le> order_limit" using assms(1) by (simp add: cart_priceable_def)
  finally have le: "?k \<le> order_limit" by simp
  have "unit_price l = js_add (js_of_dec (p_price (ol_product l))) (js_of_dec ?b)"
    by (simp add: unit_price_def split: option.split)
  then have "price_at_purchase l = js_of_dec ?k"
    unfolding price_at_purchase_def
    using pos le by (simp add: round2_add_dec order_limit_def dec_bound_def)
  moreover have "\<bar>?k\<bar> \<le> dec_bound" using pos le by (simp add: order_limit_def dec_bound_def)
  ultimately show ?thesis using stored_back [of ?k] by (simp only:)
qed

text \<open>A stored sub-order gives back its part of the response.\<close>

lemma rebuilt_items:
  assumes "cart_priceable items" "set ls \<subseteq> set items"
    and "\<forall>l \<in> set items. line_loaded d l \<and> 1 \<le> ci_quantity (ol_item l)"
    and "map p_id (products d') = map p_id (products d)" "map v_id (variants d') = map v_id (variants d)"
  shows "map (rebuilt_item d') (item_rows sid ls) = map response_item_of ls"
proof -
  have keep: "map_option key (find_row key k t') = Some k" if "find_row key k t = Some r" "map key t' = map key t"
    for key :: "'r \<Rightarrow> uuid" and k t t' r
  proof -
    have "k \<in> key ` set t" using find_row_SomeD [OF that(1)] by auto
    then have "k \<in> key ` set t'" using arg_cong [OF that(2), of set] by simp
    then obtain x where "find_row key k t' = Some x" using find_row_None_iff [of key k t'] by fastforce
    with find_row_SomeD [OF this] show ?thesis by simp
  qed
  have one: "rebuilt_item d' (order_item_row sid l k) = response_item_of l" if "l \<in> set items" for l k
  proof -
    have l: "line_loaded d l" "1 \<le> ci_quantity (ol_item l)" using assms(3) that by auto
    have "map_option p_id (find_row p_id (p_id (ol_product l)) (products d')) = Some (p_id (ol_product l))"
      using l(1) assms(4) keep [of p_id] unfolding line_loaded_def by blast
    moreover have "map_option v_id (find_row v_id (v_id v) (variants d')) = Some (v_id v)" if "ol_variant l = Some v" for v
      using l(1) that assms(5) keep [of v_id] unfolding line_loaded_def by blast
    ultimately show ?thesis
      using price_stored_back [OF assms(1) that l(2)]
      by (cases "ol_variant l") (simp_all add: rebuilt_item_def order_item_row_def response_item_of_def find_opt_def)
  qed
  have "map (rebuilt_item d') (map2 (order_item_row sid) ls ks) = map response_item_of ls"
    if "length ks = length ls" "set ls \<subseteq> set items" for ks ls
    using that by (induction ls ks rule: list_induct2') (simp_all add: one)
  then show ?thesis using assms(2) by (simp add: item_rows_def del: upt_Suc)
qed

text \<open>The amounts of an exact order survive the decimal columns.\<close>

lemma plan_stored_back:
  assumes "exact_plan p"
  shows "round2 (js_of_dec (dec_of_js (pl_shopSubtotal p))) = pl_shopSubtotal p"
    "round2 (js_of_dec (dec_of_js (pl_shopDiscount p))) = pl_shopDiscount p"
    "round2 (js_of_dec (dec_of_js (pl_shippingFee p))) = pl_shippingFee p"
    "round2 (js_of_dec (dec_of_js (pl_shopTotal p))) = pl_shopTotal p"
proof -
  have e: "pl_shopSubtotal p = js_of_dec (pc_sub p)" "pl_shopDiscount p = js_of_dec (pc_disc p)"
     "pl_shippingFee p = js_of_dec (pc_fee p)" "pl_shopTotal p = js_of_dec (pc_total p)"
    and b: "0 \<le> pc_sub p" "pc_sub p \<le> order_limit" "0 \<le> pc_disc p" "pc_disc p \<le> pc_sub p" "0 \<le> pc_fee p"
      "pc_fee p \<le> 15000000" "pc_total p = pc_sub p - pc_disc p + pc_fee p"
    using assms unfolding exact_plan_def by blast+
  have "\<bar>pc_sub p\<bar> \<le> dec_bound" "\<bar>pc_disc p\<bar> \<le> dec_bound" "\<bar>pc_fee p\<bar> \<le> dec_bound" "\<bar>pc_total p\<bar> \<le> dec_bound"
    using b by (simp_all add: order_limit_def dec_bound_def)
  then show "round2 (js_of_dec (dec_of_js (pl_shopSubtotal p))) = pl_shopSubtotal p"
    "round2 (js_of_dec (dec_of_js (pl_shopDiscount p))) = pl_shopDiscount p"
    "round2 (js_of_dec (dec_of_js (pl_shippingFee p))) = pl_shippingFee p"
    "round2 (js_of_dec (dec_of_js (pl_shopTotal p))) = pl_shopTotal p"
    unfolding e by (simp_all only: stored_back)
qed

lemma order_stored_back:
  assumes "exact_order items op" "cart_priceable items" "length (op_plans op) \<le> 400"
  shows "round2 (js_of_dec (dec_of_js (op_grandTotal op))) = op_grandTotal op"
    "round2 (js_of_dec (dec_of_js (op_globalDiscount op))) = round2 (op_globalDiscount op)"
    "round2 (op_globalDiscount op) = op_globalDiscount op"
proof -
  have ex: "\<forall>p \<in> set (op_plans op). exact_plan p"
    and sum: "(\<Sum>p\<leftarrow>op_plans op. pc_sub p) = shop_cents items"
    and g: "op_globalDiscount op = js_of_dec (discount_cents (op_globalCoupon op) (shop_cents items))"
    and t: "op_grandTotal op = js_of_dec (max 0 ((\<Sum>p\<leftarrow>op_plans op. pc_total p)
                                      - discount_cents (op_globalCoupon op) (shop_cents items)))"
    using assms(1) unfolding exact_order_def by blast+
  have S: "0 \<le> shop_cents items" "shop_cents items \<le> order_limit" "shop_cents items \<le> dec_bound"
    using assms(2) shop_cents_nonneg by (auto simp: cart_priceable_def order_limit_def dec_bound_def)
  have tb: "0 \<le> (\<Sum>p\<leftarrow>op_plans op. pc_total p)" "(\<Sum>p\<leftarrow>op_plans op. pc_total p) \<le> dec_bound - order_limit"
    using sum_total_bounds [OF ex assms(3)] sum S by auto
  note db = discount_bounds(2,3) [OF S(1,3), of "op_globalCoupon op"]
  have "\<bar>discount_cents (op_globalCoupon op) (shop_cents items)\<bar> \<le> dec_bound" using db S by simp
  note gb = stored_back [OF this] round2_js_of_dec [OF this]
  show "round2 (js_of_dec (dec_of_js (op_globalDiscount op))) = round2 (op_globalDiscount op)"
    "round2 (op_globalDiscount op) = op_globalDiscount op" unfolding g using gb by (simp_all only:)
  have "\<bar>max 0 ((\<Sum>p\<leftarrow>op_plans op. pc_total p) - discount_cents (op_globalCoupon op) (shop_cents items))\<bar> \<le> dec_bound"
    using tb db S by (auto simp: order_limit_def)
  from stored_back [OF this] show "round2 (js_of_dec (dec_of_js (op_grandTotal op))) = op_grandTotal op"
    unfolding t .
qed

text \<open>The whole effect of a checkout that placed an order.\<close>

lemma checkout_writes:
  assumes "runCheckoutTransaction calc u dto key env d = Inr (d', rs, jobs)"
    and "Some key \<notin> o_idempotency_key ` set (orders d)" "ids_fresh d"
    and "unique_keys p_id (products d)" "unique_keys v_id (variants d)"
  obtains addr valid items d1 op ord cs us sids where
    "findOwnedAddressOrFail u (dto_address_id dto) d = Inr addr"
    "getActiveCartItemsForCheckout u d = (valid, [])" "valid \<noteq> []" "items = map to_order_line valid"
    "d1 = move_stock (-1) (stock_targets items) d"
    "plan_order calc addr (dto_global_coupon_code dto) (dto_shop_coupons dto) (env_now env) d1 items = Inr op"
    "ord = order_payload (next_uuid d) u key (op_grandTotal op) (op_globalCoupon op) (op_globalDiscount op)
             (snapshotAddress addr) (env_now env) (generateOrderNumber (env_now env) (env_rnd env 0))"
    "o_order_number ord \<notin> o_order_number ` set (orders d)"
    "sids = plan_sids (Suc (next_uuid d)) (op_plans op)"
    "d' = d1\<lparr>orders := orders d @ [ord],
       sub_orders := sub_orders d @ map2 (sub_order_row (next_uuid d) (env_now env)) (op_plans op) sids,
       order_items := order_items d @ plan_item_rows (Suc (next_uuid d)) (op_plans op),
       payments := payments d @ [pending_payment (plan_end (Suc (next_uuid d)) (op_plans op)) (next_uuid d)
          (dto_payment_method dto) (dec_of_js (op_grandTotal op)) (env_now env)],
       coupons := cs, user_coupons := us,
       cart_items := delete_rows (\<lambda>ci. ci_user_id ci = Some u) (cart_items d),
       outbox := outbox d @ [order_created_event ord op sids u d],
       next_uuid := Suc (plan_end (Suc (next_uuid d)) (op_plans op))\<rparr>"
    "rs = buildCheckoutResponse ord op sids (snapshotAddress addr) (dto_payment_method dto)"
    "jobs = (if dto_payment_method dto = VNPAY
             then scheduleExpiryJob (env_redis env) (next_uuid d) (env_now env + vnpay_soft_window_ms) (env_now env)
             else [])"
proof -
  obtain addr valid items d1 res op ord where c:
    "findOwnedAddressOrFail u (dto_address_id dto) d = Inr addr"
    "getActiveCartItemsForCheckout u d = (valid, [])" "valid \<noteq> []" "items = map to_order_line valid"
    "lockAndDeductStockForCheckout (stock_targets items) d = Inr (d1, res)"
    "plan_order calc addr (dto_global_coupon_code dto) (dto_shop_coupons dto) (env_now env) d1 items = Inr op"
    "ord = order_payload (next_uuid d1) u key (op_grandTotal op) (op_globalCoupon op) (op_globalDiscount op)
             (snapshotAddress addr) (env_now env) (generateOrderNumber (env_now env) (env_rnd env 0))"
    "o_order_number ord \<notin> o_order_number ` set (orders d1)"
    "persist_checkout u dto env ord op (d1\<lparr>orders := orders d1 @ [ord], next_uuid := Suc (next_uuid d1)\<rparr>)
       = (d', plan_sids (Suc (next_uuid d1)) (op_plans op), jobs)"
    "rs = buildCheckoutResponse ord op (plan_sids (Suc (next_uuid d1)) (op_plans op)) (snapshotAddress addr)
            (dto_payment_method dto)"
    using assms(1,2) by (rule checkout_cases)
  have d1: "d1 = move_stock (-1) (stock_targets items) d"
    using c(5) by (auto simp: deduct_cases [OF assms(4,5)] split: if_splits)
  then have same: "orders d1 = orders d" "sub_orders d1 = sub_orders d" "order_items d1 = order_items d"
      "payments d1 = payments d" "cart_items d1 = cart_items d" "outbox d1 = outbox d" "shops d1 = shops d"
      "next_uuid d1 = next_uuid d"
    by (simp_all add: move_stock_def)
  let ?d2 = "d1\<lparr>orders := orders d1 @ [ord], next_uuid := Suc (next_uuid d1)\<rparr>"
  have oid: "o_id ord = next_uuid d" using c(7) same by (simp add: order_payload_def)
  have ev: "order_created_event ord op sids u ?d2 = order_created_event ord op sids u d" for sids
    by (rule event_frame) (simp add: same)
  have "\<forall>p \<in> set (payments ?d2). pay_id p < next_uuid ?d2"
    using assms(3) by (auto simp: ids_fresh_def same less_SucI)
  then obtain cs us where p: "d' = ?d2\<lparr>sub_orders := sub_orders ?d2 @ map2 (sub_order_row (o_id ord) (env_now env))
           (op_plans op) (plan_sids (Suc (next_uuid d1)) (op_plans op)),
       order_items := order_items ?d2 @ plan_item_rows (next_uuid ?d2) (op_plans op),
       payments := payments ?d2 @ [pending_payment (plan_end (next_uuid ?d2) (op_plans op)) (o_id ord)
          (dto_payment_method dto) (dec_of_js (op_grandTotal op)) (env_now env)],
       coupons := cs, user_coupons := us,
       cart_items := delete_rows (\<lambda>ci. ci_user_id ci = Some u) (cart_items ?d2),
       outbox := outbox ?d2 @ [order_created_event ord op (plan_sids (Suc (next_uuid d1)) (op_plans op)) u ?d2],
       next_uuid := Suc (plan_end (next_uuid ?d2) (op_plans op))\<rparr>"
    "jobs = (if dto_payment_method dto = VNPAY
             then scheduleExpiryJob (env_redis env) (o_id ord) (env_now env + vnpay_soft_window_ms) (env_now env)
             else [])"
    by (rule persist_eq [OF c(9)])
  show thesis
    by (rule that [OF c(1-4) d1 c(6) c(7) [unfolded same] _ refl])
      (use c(8,10) p(2) in \<open>simp_all only: same oid\<close>, simp_all add: p(1) ev, simp_all add: same oid)
qed

lemma active_nil: "getActiveCartItemsForCheckout u d = (valid, unav) \<Longrightarrow> valid = fst (getActiveCartItemsForCheckout u d)"
  by simp

lemma plans_of_order:
  assumes "plan_order (calculateShippingFee M) addr gc sc now d items = Inr op" "cart_priceable items"
  shows "exact_order items op" "length (op_plans op) \<le> 400" "\<forall>p \<in> set (op_plans op). exact_plan p"
proof -
  show ex: "exact_order items op" by (rule haversine.plan_order_exact [OF assms])
  show "length (op_plans op) \<le> 400" by (rule plan_length [OF assms])
  from ex show "\<forall>p \<in> set (op_plans op). exact_plan p" unfolding exact_order_def by blast
qed

text \<open>The rows of the sub-orders, read column by column.\<close>

lemma sub_order_columns:
  assumes "length sids = length ps"
  shows "map so_sub_total (map2 (sub_order_row oid now) ps sids) = map (\<lambda>p. dec_of_js (pl_shopSubtotal p)) ps"
    "map so_total_amount (map2 (sub_order_row oid now) ps sids) = map (\<lambda>p. dec_of_js (pl_shopTotal p)) ps"
  using assms by (induction ps sids rule: list_induct2') (auto simp: sub_order_row_def)

lemma sub_order_members:
  "so \<in> set (map2 (sub_order_row oid now) ps sids) \<Longrightarrow> \<exists>p \<in> set ps. \<exists>sid. so = sub_order_row oid now p sid"
  by (auto dest: set_zip_leftD)

subsection \<open>A checkout\<close>

text \<open>One line of five lamps, paid on delivery.\<close>

definition lamp_db :: db where
  "lamp_db = demo_db\<lparr>cart_items := [(cart_items demo_db ! 0)\<lparr>ci_quantity := 5\<rparr>]\<rparr>"

definition lamp_dto :: checkout_dto where
  "lamp_dto = \<lparr>dto_address_id = 41, dto_payment_method = COD, dto_global_coupon_code = None, dto_shop_coupons = []\<rparr>"

definition lamp_env :: checkout_env where
  "lamp_env = \<lparr>env_now = 1767225600000, env_rnd = (\<lambda>_. [1, 2, 3, 4]), env_redis = True\<rparr>"

lemma lamp_lines: "getActiveCartItemsForCheckout 1 (lamp_db\<lparr>idempotency_keys := ks\<rparr>)
    = ([\<lparr>cl_item = ol_item demo_line, cl_product = Some (ol_product demo_line), cl_shop = Some (ol_shop demo_line),
        cl_variant = None\<rparr>], [])"
  by (simp add: getActiveCartItemsForCheckout_def load_cart_def user_rows_def lamp_db_def demo_db_def load_line_def
      find_opt_def find_row_def evaluateItemStaticAvailability_def shop_active_def demo_line_def Let_def)

lemma lamp_no_keys [simp]: "lamp_db\<lparr>idempotency_keys := []\<rparr> = lamp_db"
  by (simp add: lamp_db_def demo_db_def empty_db_def)

lemma lamp_items: "map to_order_line (fst (getActiveCartItemsForCheckout 1 lamp_db)) = [demo_line]"
  using lamp_lines [of "[]"] by (simp add: to_order_line_def demo_line_def)

lemma lamp_checkout_keys:
  obtains d' rs jobs where
    "runCheckoutTransaction (calculateShippingFee demo_math) 1 lamp_dto key lamp_env
       (lamp_db\<lparr>idempotency_keys := ks\<rparr>) = Inr (d', rs, jobs)"
proof -
  let ?db = "lamp_db\<lparr>idempotency_keys := ks\<rparr>"
  have sub: "computeShopSubtotal [demo_line] = 500000"
  proof -
    have "computeShopSubtotal [demo_line] = js_of_dec 50000000"
      by (subst shop_subtotal_exact)
        (simp_all add: demo_line_def demo_db_def line_nonneg_def shop_cents_def line_exact_def dec_bound_def)
    then show ?thesis by (simp add: js_of_dec_def)
  qed
  have grp: "groupItemsByShop [demo_line] = [(ol_shop demo_line, [demo_line])]"
    by (simp add: groupItemsByShop_def group_by_def group_add_def)
  obtain op where op: "\<And>d. plan_order (calculateShippingFee demo_math) (addresses demo_db ! 0) None [] (env_now lamp_env) d [demo_line] = Inr op"
    by (simp add: plan_order_def grp plan_sub_order_def sub lockAndValidateCoupon_def blank_code_def
        coupon_code_for_def shipping_fee_of_def calculateShippingFee_def free_shipping_threshold_def Let_def)
  let ?t = "stock_targets [demo_line]"
  have u: "unique_keys p_id (products ?db)" "unique_keys v_id (variants ?db)"
    by (simp_all add: lamp_db_def demo_db_def unique_keys_def)
  obtain res where ded: "lockAndDeductStockForCheckout ?t ?db = Inr (move_stock (-1) ?t ?db, res)"
    unfolding deduct_cases [OF u]
    by (simp add: stock_targets_def demo_line_def line_available_def parent_covers_def lamp_db_def demo_db_def
        find_row_def requested_product_def)
  have addr: "findOwnedAddressOrFail 1 (dto_address_id lamp_dto) ?db = Inr (addresses demo_db ! 0)"
    by (simp add: findOwnedAddressOrFail_def lamp_db_def demo_db_def lamp_dto_def)
  have own: "\<not> owns_a_shop_of 1 [demo_line] ?db"
    by (simp add: owns_a_shop_of_def lamp_db_def demo_db_def demo_line_def)
  have ords: "orders (move_stock (-1) ?t ?db) = []" by (simp add: move_stock_def lamp_db_def demo_db_def empty_db_def)
  have co: "\<exists>t ord. createOrderWithRetry 1 key a gc gd snap now rnd
      \<lparr>tx_db = move_stock (-1) ?t ?db, tx_aborted = False\<rparr> = (t, Inr ord)" for a gc gd snap now rnd
    unfolding createOrderWithRetry_def
    by (subst create_order_loop.simps) (simp add: order_number_max_retries_def insert_order_def ords)
  have env: "dto_global_coupon_code lamp_dto = None" "dto_shop_coupons lamp_dto = []" by (simp_all add: lamp_dto_def)
  obtain t ord where co': "createOrderWithRetry 1 key (op_grandTotal op) (op_globalCoupon op) (op_globalDiscount op)
      (snapshotAddress (addresses demo_db ! 0)) (env_now lamp_env) (env_rnd lamp_env)
      \<lparr>tx_db = move_stock (-1) ?t ?db, tx_aborted = False\<rparr> = (t, Inr ord)"
    using co by blast
  obtain d' sids jobs where p: "persist_checkout 1 lamp_dto lamp_env ord op (tx_db t) = (d', sids, jobs)"
    using prod_cases3 by blast
  let ?c = "\<lparr>cl_item = ol_item demo_line, cl_product = Some (ol_product demo_line),
      cl_shop = Some (ol_shop demo_line), cl_variant = None\<rparr>"
  have line: "to_order_line ?c = demo_line" by (simp add: to_order_line_def demo_line_def)
  note lines = lamp_lines [unfolded One_nat_def]
  show thesis
    by (rule that)
      (use addr own ded op co' p in \<open>simp add: runCheckoutTransaction_def lines line env Let_def\<close>)
qed

lemma lamp_checkout:
  obtains d' rs jobs where
    "runCheckoutTransaction (calculateShippingFee demo_math) 1 lamp_dto ''k'' lamp_env lamp_db = Inr (d', rs, jobs)"
  using lamp_checkout_keys [of "''k''" "[]"] by (metis lamp_no_keys)



lemma find_snoc: "\<forall>y \<in> set ys. \<not> P y \<Longrightarrow> P x \<Longrightarrow> find P (ys @ [x]) = Some x"
  by (induction ys) auto

text \<open>The sub-orders of the order just written, rebuilt from the tables.\<close>

lemma rebuilt_plan:
  assumes "exact_plan p" "(p, sid) \<in> set (zip ps sids)" "sids = plan_sids (Suc n) ps"
    and "order_items d' = old @ plan_item_rows (Suc n) ps" "\<forall>oi \<in> set old. oi_sub_order_id oi < n"
    and "find_row s_id (s_id (pl_shop p)) (shops d') = Some (pl_shop p)"
    and "\<And>sid. map (rebuilt_item d') (item_rows sid (pl_items p)) = map response_item_of (pl_items p)"
  shows "rebuilt_sub_order d' (sub_order_row oid now p sid) = response_sub_order_of p sid"
proof -
  have "Suc n \<le> sid" using plan_sids_bounds [of sid "Suc n" ps] assms(2,3) by (auto dest: set_zip_rightD)
  then have "filter (\<lambda>oi. oi_sub_order_id oi = sid) old = []" using assms(5) by (force simp: filter_empty_conv)
  moreover have "filter (\<lambda>oi. oi_sub_order_id oi = sid) (plan_item_rows (Suc n) ps) = item_rows sid (pl_items p)"
    unfolding plan_item_rows_def assms(3) [symmetric]
    by (rule filter_concat_rows [OF _ assms(2)]) (simp add: assms(3) distinct_plan_sids)
  ultimately have "map (rebuilt_item d') (filter (\<lambda>oi. oi_sub_order_id oi = sid) (order_items d'))
      = map response_item_of (pl_items p)"
    using assms(7) by (simp add: assms(4))
  then show ?thesis
    by (simp add: rebuilt_sub_order_def response_sub_order_of_def sub_order_row_def find_opt_def assms(6)
        plan_stored_back [OF assms(1)])
qed

text \<open>
  A retry of a checkout whose order is already stored rebuilds the same response from the
  tables: ids, names, every amount to the hundredth, the lines with their prices. Two things
  differ in form only: a discount of zero is 0 and not null, and missing texts of the address are
  empty strings and not null.
\<close>

theorem recovery_rebuilds_response:
  assumes "runCheckoutTransaction (calculateShippingFee M) u dto key env d = Inr (d', rs, jobs)"
    and "Some key \<notin> o_idempotency_key ` set (orders d)" "ids_fresh d"
    and "unique_keys p_id (products d)" "unique_keys v_id (variants d)"
    and "cart_priceable (map to_order_line (fst (getActiveCartItemsForCheckout u d)))"
    and "\<forall>ci \<in> set (cart_items d). 1 \<le> ci_quantity ci"
  shows "recoverResponseFromExistingOrder key d' =
     Inr (rs\<lparr>rs_global_discount_amount :=
               Some (case rs_global_discount_amount rs of None \<Rightarrow> 0 | Some g \<Rightarrow> g),
             rs_shipping_address := rebuilt_address (Some (rs_shipping_address rs))\<rparr>)"
proof -
  obtain addr valid its d1 op ord cs us sids where
    c: "getActiveCartItemsForCheckout u d = (valid, [])" "its = map to_order_line valid"
      "d1 = move_stock (-1) (stock_targets its) d"
      "plan_order (calculateShippingFee M) addr (dto_global_coupon_code dto) (dto_shop_coupons dto) (env_now env) d1 its = Inr op" and
    o: "ord = order_payload (next_uuid d) u key (op_grandTotal op) (op_globalCoupon op) (op_globalDiscount op)
             (snapshotAddress addr) (env_now env) (generateOrderNumber (env_now env) (env_rnd env 0))" and
    sids: "sids = plan_sids (Suc (next_uuid d)) (op_plans op)" and
    d': "d' = d1\<lparr>orders := orders d @ [ord],
       sub_orders := sub_orders d @ map2 (sub_order_row (next_uuid d) (env_now env)) (op_plans op) sids,
       order_items := order_items d @ plan_item_rows (Suc (next_uuid d)) (op_plans op),
       payments := payments d @ [pending_payment (plan_end (Suc (next_uuid d)) (op_plans op)) (next_uuid d)
          (dto_payment_method dto) (dec_of_js (op_grandTotal op)) (env_now env)],
       coupons := cs, user_coupons := us,
       cart_items := delete_rows (\<lambda>ci. ci_user_id ci = Some u) (cart_items d),
       outbox := outbox d @ [order_created_event ord op sids u d],
       next_uuid := Suc (plan_end (Suc (next_uuid d)) (op_plans op))\<rparr>" and
    rs: "rs = buildCheckoutResponse ord op sids (snapshotAddress addr) (dto_payment_method dto)"
    by (rule checkout_writes [OF assms(1-5)]) (rule that)
  let ?n = "next_uuid d"
  have price: "cart_priceable its" using c(1,2) assms(6) by simp
  note pl = plans_of_order [OF c(4) price]
  note stored = order_stored_back [OF pl(1) price pl(2)]
  have loaded: "\<forall>l \<in> set its. line_loaded d l \<and> 1 \<le> ci_quantity (ol_item l)"
    using sold_lines_loaded [OF c(1)] assms(7) unfolding c(2) by (auto simp: line_loaded_def)
  have ids: "map p_id (products d') = map p_id (products d)" "map v_id (variants d') = map v_id (variants d)"
    "shops d' = shops d"
    by (simp_all add: d' c(3) move_stock_def comp_def)
  have subs: "rebuilt_sub_order d' (sub_order_row ?n (env_now env) p sid) = response_sub_order_of p sid"
    if "(p, sid) \<in> set (zip (op_plans op) sids)" for p sid
  proof (rule rebuilt_plan [OF _ that sids])
    have p: "p \<in> set (op_plans op)" using that by (rule set_zip_leftD)
    show "exact_plan p" using pl(3) p by blast
    show "order_items d' = order_items d @ plan_item_rows (Suc ?n) (op_plans op)" by (simp add: d')
    show "\<forall>oi \<in> set (order_items d). oi_sub_order_id oi < ?n" using assms(3) by (simp add: ids_fresh_def)
    show "find_row s_id (s_id (pl_shop p)) (shops d') = Some (pl_shop p)"
      using plan_members(2) [OF c(4) p] loaded by (auto simp: ids line_loaded_def)
    show "map (rebuilt_item d') (item_rows k (pl_items p)) = map response_item_of (pl_items p)" for k
      by (rule rebuilt_items [OF price plan_members(1) [OF c(4) p] loaded ids(1,2)])
  qed
  have "filter (\<lambda>so. so_order_id so = Some ?n) (sub_orders d) = []"
    using assms(3) by (auto simp: ids_fresh_def filter_empty_conv)
  moreover have "filter (\<lambda>so. so_order_id so = Some ?n) (map2 (sub_order_row ?n (env_now env)) (op_plans op) sids)
      = map2 (sub_order_row ?n (env_now env)) (op_plans op) sids"
    by (rule filter_True) (use sub_order_members in \<open>fastforce simp: sub_order_row_def\<close>)
  ultimately have all: "map (rebuilt_sub_order d') (filter (\<lambda>so. so_order_id so = Some ?n) (sub_orders d'))
      = map2 response_sub_order_of (op_plans op) sids"
    using subs by (simp add: d' case_prod_unfold)
  have "find_row pay_order_id ?n (payments d) = None" using assms(3) by (auto simp: ids_fresh_def find_row_None_iff)
  then have pay: "find_row pay_order_id ?n (payments d')
      = Some (pending_payment (plan_end (Suc ?n) (op_plans op)) ?n (dto_payment_method dto)
          (dec_of_js (op_grandTotal op)) (env_now env))"
    by (simp add: d' find_row_append find_row_Cons pending_payment_def)
  have "\<forall>y \<in> set (orders d). o_idempotency_key y \<noteq> Some key" using assms(2) by (metis image_eqI)
  moreover have "o_idempotency_key ord = Some key" by (simp add: o order_payload_def)
  ultimately have "find (\<lambda>ord. o_idempotency_key ord = Some key) (orders d') = Some ord"
    by (simp add: d' find_snoc)
  then show ?thesis
    using all pay stored
    by (simp add: recoverResponseFromExistingOrder_def buildCheckoutResponseFromOrder_def rs buildCheckoutResponse_def
        o order_payload_def pending_payment_def)
qed

theorem recovery_rebuilds_response_witness:
  "\<exists>d' rs jobs rs'.
     runCheckoutTransaction (calculateShippingFee demo_math) 1 lamp_dto ''k'' lamp_env lamp_db = Inr (d', rs, jobs)
   \<and> recoverResponseFromExistingOrder ''k'' d' = Inr rs' \<and> rs_sub_orders rs' = rs_sub_orders rs
   \<and> rs_total_amount rs' = rs_total_amount rs"
proof -
  obtain d' rs jobs where
    run: "runCheckoutTransaction (calculateShippingFee demo_math) 1 lamp_dto ''k'' lamp_env lamp_db = Inr (d', rs, jobs)"
    by (rule lamp_checkout)
  have db: "Some ''k'' \<notin> o_idempotency_key ` set (orders lamp_db)" "ids_fresh lamp_db"
    "unique_keys p_id (products lamp_db)" "unique_keys v_id (variants lamp_db)"
    "\<forall>ci \<in> set (cart_items lamp_db). 1 \<le> ci_quantity ci"
    by (simp_all add: lamp_db_def demo_db_def empty_db_def ids_fresh_def unique_keys_def)
  from recovery_rebuilds_response [OF run db(1-4) _ db(5)] lamp_items demo_line_priceable run show ?thesis
    by auto
qed

text \<open>
  A collision of the generated order number is fatal, whatever the later attempts would draw:
  the failed insert has aborted the transaction, so the second attempt gets that error, is not a
  unique violation, and ends the loop.
\<close>

theorem order_number_collision_fails:
  assumes "generateOrderNumber now (rnd 0) \<in> o_order_number ` set (orders d)"
    and "Some key \<notin> o_idempotency_key ` set (orders d)"
  shows "createOrderWithRetry u key amt gcp gd snap now rnd \<lparr>tx_db = d, tx_aborted = False\<rparr>
       = (\<lparr>tx_db = d, tx_aborted = True\<rparr>, Inl TransactionAborted)"
proof -
  have "create_order_loop gen mk (Suc 0) \<lparr>tx_db = d, tx_aborted = True\<rparr>
      = (\<lparr>tx_db = d, tx_aborted = True\<rparr>, Inl TransactionAborted)" for gen mk
    by (subst create_order_loop.simps)
      (simp add: insert_order_def isPgUniqueViolation_def order_number_max_retries_def)
  then show ?thesis
    using assms unfolding createOrderWithRetry_def
    by (subst create_order_loop.simps)
      (simp add: insert_order_def isPgUniqueViolation_def order_number_max_retries_def order_payload_def)
qed

definition numbered_db :: db where
  "numbered_db = demo_db\<lparr>orders := [order_payload 90 1 ''k0'' 0 None 0 (snapshotAddress (addresses demo_db ! 0)) 0
     (generateOrderNumber 0 [1, 2, 3, 4])]\<rparr>"

theorem order_number_collision_fails_witness:
  "snd (createOrderWithRetry 1 ''k'' 0 None 0 (snapshotAddress (addresses demo_db ! 0)) 0
      (\<lambda>i. [1, 2, 3, 4 + i]) \<lparr>tx_db = numbered_db, tx_aborted = False\<rparr>) = Inl TransactionAborted"
  by (subst order_number_collision_fails) (simp_all add: numbered_db_def order_payload_def)

lemma upper_alnum: "is_alnum c \<Longrightarrow> is_digit (upper_char c) \<or> (upper_char c \<ge> CHR ''A'' \<and> upper_char c \<le> CHR ''Z'')"
  by (auto simp: is_alnum_def upper_char_def is_digit_def Let_def less_eq_char_def)

text \<open>
  The random part of an order number is six characters, each a digit or a capital letter,
  whatever bytes were drawn.
\<close>

theorem order_number_format:
  "\<exists>date r. generateOrderNumber now bytes = ''#ORD-'' @ date @ ''-'' @ r \<and> length r = 6
     \<and> list_all (\<lambda>c. is_digit c \<or> (CHR ''A'' \<le> c \<and> c \<le> CHR ''Z'')) r"
proof -
  have "list_all (\<lambda>c. is_digit c \<or> (CHR ''A'' \<le> c \<and> c \<le> CHR ''Z'')) (random_chars bytes)"
    by (auto simp: random_chars_def Let_def list_all_iff less_eq_char_def dest!: in_set_takeD upper_alnum)
  moreover have "length (random_chars bytes) = 6" by (simp add: random_chars_def Let_def)
  moreover obtain y m day where "civil_of_days (now div 86400000) = (y, m, day)" using prod_cases3 by blast
  ultimately show ?thesis
    by (intro exI [of _ "show_nat (nat y) @ pad2 m @ pad2 day"] exI [of _ "random_chars bytes"])
      (simp add: generateOrderNumber_def)
qed

text \<open>
  Sending the checkout again after its order was committed does not reach the recovery: the first
  run emptied the cart, so the second one, whatever its environment, stops at the empty cart.
\<close>

theorem retry_finds_empty_cart:
  assumes "runCheckoutTransaction calc u dto key env d = Inr (d', rs, jobs)"
    and "Some key \<notin> o_idempotency_key ` set (orders d)" "ids_fresh d"
    and "unique_keys p_id (products d)" "unique_keys v_id (variants d)"
  shows "runCheckoutTransaction calc' u dto key env' d' = Inl (BadRequest (OrderMsg CartEmpty))"
proof -
  obtain addr its d1 ord sos ois ps cs us ev n where
    c: "findOwnedAddressOrFail u (dto_address_id dto) d = Inr addr"
      "d1 = move_stock (-1) (stock_targets its) d" and
    d': "d' = d1\<lparr>orders := orders d @ [ord], sub_orders := sos, order_items := ois, payments := ps,
       coupons := cs, user_coupons := us,
       cart_items := delete_rows (\<lambda>ci. ci_user_id ci = Some u) (cart_items d),
       outbox := ev, next_uuid := n\<rparr>"
    by (rule checkout_writes [OF assms(1-5)]) (rule that)
  have "findOwnedAddressOrFail u (dto_address_id dto) d' = Inr addr"
    using c by (simp add: findOwnedAddressOrFail_def d' move_stock_def)
  moreover have "user_rows u d' = []" by (simp add: user_rows_def d' delete_rows_def)
  then have "getActiveCartItemsForCheckout u d' = ([], [])"
    by (simp add: getActiveCartItemsForCheckout_def load_cart_def)
  ultimately show ?thesis by (simp add: runCheckoutTransaction_def)
qed

theorem retry_finds_empty_cart_witness:
  "\<exists>d' rs jobs.
     runCheckoutTransaction (calculateShippingFee demo_math) 1 lamp_dto ''k'' lamp_env lamp_db = Inr (d', rs, jobs)
   \<and> runCheckoutTransaction (calculateShippingFee demo_math) 1 lamp_dto ''k'' lamp_env d' = Inl (BadRequest (OrderMsg CartEmpty))"
proof -
  obtain d' rs jobs where
    run: "runCheckoutTransaction (calculateShippingFee demo_math) 1 lamp_dto ''k'' lamp_env lamp_db = Inr (d', rs, jobs)"
    by (rule lamp_checkout)
  have "Some ''k'' \<notin> o_idempotency_key ` set (orders lamp_db)" "ids_fresh lamp_db"
    "unique_keys p_id (products lamp_db)" "unique_keys v_id (variants lamp_db)"
    by (simp_all add: lamp_db_def demo_db_def empty_db_def ids_fresh_def unique_keys_def)
  from retry_finds_empty_cart [OF run this] run show ?thesis by blast
qed

end
