(* ===== verification/Idempotency.thy ===== *)
theory Idempotency
  imports Checkout
begin

text \<open>
  The idempotent checkout of \<open>orders.service.ts\<close> and the clean-up of its keys
  (\<open>src/backend/src/modules/orders/idempotency-cleanup.cron.ts\<close>): a request claims its key in a
  transaction of its own, runs the checkout, then caches the response under the key or gives the
  key back. Requests run concurrently, may die between any two of these steps, and the clean-up
  may delete a key at any moment; \<open>checkout_step\<close> interleaves them.
\<close>

subsection \<open>Claiming a key\<close>

definition insert_key :: "uuid \<Rightarrow> string \<Rightarrow> millis \<Rightarrow> db \<Rightarrow> http_error + db" where
  "insert_key userId key now d =
     (if key \<in> ik_key ` set (idempotency_keys d) then Inl (UniqueViolation KeyPrimary)
      else Inr (d\<lparr>idempotency_keys := idempotency_keys d @
             [\<lparr>ik_key = key, ik_status = KeyPending, ik_response_code = None, ik_response_body = None,
               ik_user_id = userId, ik_created_at = now\<rparr>]\<rparr>))"

text \<open>The row that was in the way, read after the rollback: it may be gone, or changed, by then.\<close>

definition existing_key :: "uuid \<Rightarrow> string \<Rightarrow> db \<Rightarrow> http_error + checkout_response" where
  "existing_key userId key d =
     (case find_row ik_key key (idempotency_keys d) of
        None \<Rightarrow> Inl (Conflict (OrderMsg KeyBeingCleaned))
      | Some existing \<Rightarrow>
          if ik_user_id existing \<noteq> userId then Inl (Forbidden (OrderMsg KeyOfOtherUser))
          else if ik_status existing = KeyPending then Inl (Conflict (OrderMsg KeyInProgress))
          else (case ik_response_body existing of
                  None \<Rightarrow> Inl (InternalServerError (OrderMsg NoCachedBody))
                | Some body \<Rightarrow> Inr body))"

datatype claim = Claimed db | Replay checkout_response | ClaimError http_error

text \<open>\<open>d\<close> is the database of the insert, \<open>d2\<close> the one the existing row is read from.\<close>

definition claimIdempotencyKey :: "uuid \<Rightarrow> string \<Rightarrow> millis \<Rightarrow> db \<Rightarrow> db \<Rightarrow> claim" where
  "claimIdempotencyKey userId key now d d2 =
     (case insert_key userId key now d of
        Inr d' \<Rightarrow> Claimed d'
      | Inl e \<Rightarrow>
          if \<not> isPgUniqueViolation e None then ClaimError (InternalServerError (OrderMsg KeyClaimFailed))
          else (case existing_key userId key d2 of Inl e' \<Rightarrow> ClaimError e' | Inr body \<Rightarrow> Replay body))"

subsection \<open>Giving the key back, or caching the response\<close>

definition markKeyCompleted :: "string \<Rightarrow> int \<Rightarrow> checkout_response \<Rightarrow> db \<Rightarrow> db" where
  "markKeyCompleted key code body d =
     d\<lparr>idempotency_keys := update_row ik_key key
         (\<lambda>row. row\<lparr>ik_status := KeyCompleted, ik_response_code := Some code, ik_response_body := Some body\<rparr>)
         (idempotency_keys d)\<rparr>"

definition deletePendingKeyForRetry :: "string \<Rightarrow> db \<Rightarrow> db" where
  "deletePendingKeyForRetry key d =
     d\<lparr>idempotency_keys := delete_rows (\<lambda>row. ik_key row = key \<and> ik_status row = KeyPending) (idempotency_keys d)\<rparr>"

definition normalizeError :: "http_error \<Rightarrow> http_error" where
  "normalizeError e =
     (case e of
        BadRequest r \<Rightarrow> e | Conflict r \<Rightarrow> e | Forbidden r \<Rightarrow> e | NotFound r \<Rightarrow> e | InternalServerError r \<Rightarrow> e
      | _ \<Rightarrow> InternalServerError (OrderMsg CheckoutFailed))"

definition completed_ttl_ms :: millis where "completed_ttl_ms = 24 * 60 * 60 * 1000"

definition pending_stale_ms :: millis where "pending_stale_ms = 5 * 60 * 1000"

definition handleCleanup :: "millis \<Rightarrow> db \<Rightarrow> db" where
  "handleCleanup now d =
     d\<lparr>idempotency_keys := delete_rows
         (\<lambda>row. (ik_status row = KeyCompleted \<and> ik_created_at row < now - completed_ttl_ms)
              \<or> (ik_status row = KeyPending \<and> ik_created_at row < now - pending_stale_ms))
         (idempotency_keys d)\<rparr>"

subsection \<open>The request\<close>

definition is_hex :: "char \<Rightarrow> bool" where
  "is_hex c = (let n = (of_char c :: nat)
     in (48 \<le> n \<and> n \<le> 57) \<or> (65 \<le> n \<and> n \<le> 70) \<or> (97 \<le> n \<and> n \<le> 102))"

text \<open>\<open>UUID_PATTERN\<close> of the controller: hexadecimal digits but for four hyphens.\<close>

definition uuid_pattern :: "string \<Rightarrow> bool" where
  "uuid_pattern s \<longleftrightarrow>
     length s = 36
   \<and> list_all (\<lambda>i. if i \<in> {8, 13, 18, 23} then s ! i = CHR ''-'' else is_hex (s ! i)) [0..<36]"

definition check_key_header :: "string option \<Rightarrow> http_error + string" where
  "check_key_header h =
     (case h of
        None \<Rightarrow> Inl (BadRequest (OrderMsg KeyMissing))
      | Some key \<Rightarrow>
          if key = '''' then Inl (BadRequest (OrderMsg KeyMissing))
          else if \<not> uuid_pattern key then Inl (BadRequest (OrderMsg KeyNotUuid))
          else Inr key)"

text \<open>
  \<open>checkout\<close> when nothing else runs in between: phase 1 at \<open>now\<close>, phase 2 with \<open>env\<close>. The flag tells
  whether the last statement, which the code lets fail with a warning, succeeds.
\<close>

definition checkout ::
  "calculator \<Rightarrow> uuid \<Rightarrow> checkout_dto \<Rightarrow> string \<Rightarrow> millis \<Rightarrow> checkout_env \<Rightarrow> bool \<Rightarrow> db
    \<Rightarrow> db \<times> (http_error + checkout_response) \<times> expiry_job list" where
  "checkout calc userId dto key now env last_ok d =
     (case claimIdempotencyKey userId key now d d of
        Replay body \<Rightarrow> (d, Inr body, [])
      | ClaimError e \<Rightarrow> (d, Inl e, [])
      | Claimed d1 \<Rightarrow>
          (case runCheckoutTransaction calc userId dto key env d1 of
             Inl e \<Rightarrow> (if last_ok then deletePendingKeyForRetry key d1 else d1, Inl (normalizeError e), [])
           | Inr (d2, rs, jobs) \<Rightarrow> (if last_ok then markKeyCompleted key 201 rs d2 else d2, Inr rs, jobs)))"

subsection \<open>Concurrent requests\<close>

datatype phase = Running | Failing http_error | Committed checkout_response

record in_flight =
  if_user :: uuid
  if_dto :: checkout_dto
  if_key :: string
  if_phase :: phase

record checkout_state =
  ck_db :: db
  ck_running :: "in_flight list"
  ck_answers :: "(uuid \<times> string \<times> (http_error + checkout_response)) list"

text \<open>What the rest of the service may do to the database: anything but create orders, change their
  ids or keys, or touch the keys table.\<close>

definition order_ids :: "db \<Rightarrow> (uuid \<times> string option) list" where
  "order_ids d = map (\<lambda>ord. (o_id ord, o_idempotency_key ord)) (orders d)"

inductive checkout_step :: "calculator \<Rightarrow> checkout_state \<Rightarrow> checkout_state \<Rightarrow> bool" for calc where
  claimed: "insert_key u key now (ck_db s) = Inr d' \<Longrightarrow>
     checkout_step calc s (s\<lparr>ck_db := d',
       ck_running := \<lparr>if_user = u, if_dto = dto, if_key = key, if_phase = Running\<rparr> # ck_running s\<rparr>)"
| refused: "key \<in> ik_key ` set (idempotency_keys (d0 :: db)) \<Longrightarrow>
     checkout_step calc s (s\<lparr>ck_answers := (u, key, existing_key u key (ck_db s)) # ck_answers s\<rparr>)"
| committed: "r \<in> set (ck_running s) \<Longrightarrow> if_phase r = Running \<Longrightarrow>
     runCheckoutTransaction calc (if_user r) (if_dto r) (if_key r) env (ck_db s) = Inr (d', rs, jobs) \<Longrightarrow>
     checkout_step calc s (s\<lparr>ck_db := d',
       ck_running := r\<lparr>if_phase := Committed rs\<rparr> # remove1 r (ck_running s)\<rparr>)"
| failed: "r \<in> set (ck_running s) \<Longrightarrow> if_phase r = Running \<Longrightarrow>
     runCheckoutTransaction calc (if_user r) (if_dto r) (if_key r) env (ck_db s) = Inl e \<Longrightarrow>
     checkout_step calc s (s\<lparr>ck_running := r\<lparr>if_phase := Failing e\<rparr> # remove1 r (ck_running s)\<rparr>)"
| cached: "r \<in> set (ck_running s) \<Longrightarrow> if_phase r = Committed rs \<Longrightarrow>
     checkout_step calc s (s\<lparr>ck_db := (if ok then markKeyCompleted (if_key r) 201 rs (ck_db s) else ck_db s),
       ck_running := remove1 r (ck_running s), ck_answers := (if_user r, if_key r, Inr rs) # ck_answers s\<rparr>)"
| released: "r \<in> set (ck_running s) \<Longrightarrow> if_phase r = Failing e \<Longrightarrow>
     checkout_step calc s (s\<lparr>ck_db := (if ok then deletePendingKeyForRetry (if_key r) (ck_db s) else ck_db s),
       ck_running := remove1 r (ck_running s),
       ck_answers := (if_user r, if_key r, Inl (normalizeError e)) # ck_answers s\<rparr>)"
| crashed: "checkout_step calc s (s\<lparr>ck_running := remove1 r (ck_running s)\<rparr>)"
| cleaned: "checkout_step calc s (s\<lparr>ck_db := handleCleanup now (ck_db s)\<rparr>)"
| elsewhere: "order_ids d' = order_ids (ck_db s) \<Longrightarrow> idempotency_keys d' = idempotency_keys (ck_db s) \<Longrightarrow>
     checkout_step calc s (s\<lparr>ck_db := d'\<rparr>)"

inductive_cases checkout_stepE: "checkout_step calc s s'"

subsection \<open>What a checkout does to the orders\<close>

lemma deduct_frame:
  "lockAndDeductStockForCheckout items d = Inr (d1, res) \<Longrightarrow> \<exists>ps vs. d1 = d\<lparr>variants := vs, products := ps\<rparr>"
  by (auto simp: lockAndDeductStockForCheckout_def save_stock_def Let_def split: sum.splits if_splits)

lemma persist_frame:
  assumes "persist_checkout u dto env ord op d = (d', sids, jobs)"
  shows "orders d' = orders d" "idempotency_keys d' = idempotency_keys d"
proof -
  obtain d1 sids' where 1: "save_plans (o_id ord) (env_now env) (op_plans op) d = (d1, sids')" by fastforce
  obtain d2 p jobs' where 2: "createPendingForOrder (o_id ord) (op_grandTotal op) (dto_payment_method dto)
      (env_now env) (env_redis env) d1 = (d2, p, jobs')" using prod_cases3 by blast
  have o: "orders d2 = orders d" "idempotency_keys d2 = idempotency_keys d"
    using 1 2 by (auto simp: save_plans_eq createPendingForOrder_def Let_def)
  obtain cs us where 3: "consume_and_mark u (env_now env) d2 (op_globalCoupon op) = d2\<lparr>coupons := cs, user_coupons := us\<rparr>"
    using consume_frame by blast
  let ?cs = "map pl_shopCoupon (op_plans op)"
  obtain cs' us' where 4: "foldl (consume_and_mark u (env_now env)) (d2\<lparr>coupons := cs, user_coupons := us\<rparr>) ?cs
      = d2\<lparr>coupons := cs, user_coupons := us\<rparr>\<lparr>coupons := cs', user_coupons := us'\<rparr>"
    using consume_all_frame by blast
  from assms o show "orders d' = orders d" "idempotency_keys d' = idempotency_keys d"
    by (auto simp: persist_checkout_def Let_def 1 2 3 4 clearActiveCart_def)
qed

text \<open>A checkout adds one order, for a key that had none, or adds nothing and answers with the order
  that has the key.\<close>

definition answers_order :: "(uuid \<times> string option) list \<Rightarrow> string \<Rightarrow> checkout_response \<Rightarrow> bool" where
  "answers_order ids key rs \<longleftrightarrow> (rs_order_id rs, Some key) \<in> set ids"

lemma key_clash:
  assumes "Some key \<in> o_idempotency_key ` set (orders d)" "lockAndDeductStockForCheckout items d = Inr (d1, res)"
  shows "createOrderWithRetry u key amt gc gd snap now rnd \<lparr>tx_db = d1, tx_aborted = False\<rparr>
      = (\<lparr>tx_db = d1, tx_aborted = True\<rparr>, Inl (UniqueViolation OrderIdempotencyUnique))"
proof -
  obtain ps vs where "d1 = d\<lparr>variants := vs, products := ps\<rparr>" using deduct_frame [OF assms(2)] by blast
  then have "Some key \<in> o_idempotency_key ` set (orders d1)" using assms(1) by simp
  then show ?thesis unfolding createOrderWithRetry_def
    by (subst create_order_loop.simps)
      (simp add: insert_order_def isPgUniqueViolation_def order_number_max_retries_def order_payload_def)
qed

lemma checkout_orders:
  assumes "runCheckoutTransaction calc u dto key env d = Inr (d', rs, jobs)"
  shows "idempotency_keys d' = idempotency_keys d \<and> answers_order (order_ids d') key rs
    \<and> (d' = d \<or> Some key \<notin> snd ` set (order_ids d) \<and> order_ids d' = order_ids d @ [(rs_order_id rs, Some key)])"
proof (cases "Some key \<in> o_idempotency_key ` set (orders d)")
  case False
  obtain addr items d1 res op ord where c:
    "lockAndDeductStockForCheckout (stock_targets items) d = Inr (d1, res)"
    "ord = order_payload (next_uuid d1) u key (op_grandTotal op) (op_globalCoupon op) (op_globalDiscount op)
             (snapshotAddress addr) (env_now env) (generateOrderNumber (env_now env) (env_rnd env 0))"
    "persist_checkout u dto env ord op (d1\<lparr>orders := orders d1 @ [ord], next_uuid := Suc (next_uuid d1)\<rparr>)
       = (d', plan_sids (Suc (next_uuid d1)) (op_plans op), jobs)"
    "rs = buildCheckoutResponse ord op (plan_sids (Suc (next_uuid d1)) (op_plans op)) (snapshotAddress addr)
            (dto_payment_method dto)"
    by (rule checkout_cases [OF assms False]) (rule that)
  obtain ps vs where d1: "d1 = d\<lparr>variants := vs, products := ps\<rparr>" using deduct_frame [OF c(1)] by blast
  have ord: "o_idempotency_key ord = Some key" "rs_order_id rs = o_id ord"
    by (simp_all add: c(2,4) order_payload_def buildCheckoutResponse_def)
  have "orders d' = orders d @ [ord]" "idempotency_keys d' = idempotency_keys d"
    using persist_frame [OF c(3)] by (simp_all add: d1)
  then have "order_ids d' = order_ids d @ [(rs_order_id rs, Some key)]"
    by (simp add: order_ids_def ord)
  moreover have "Some key \<notin> snd ` set (order_ids d)" using False by (force simp: order_ids_def)
  ultimately show ?thesis using \<open>idempotency_keys d' = _\<close> by (simp add: answers_order_def)
next
  case True
  have "d' = d \<and> recoverResponseFromExistingOrder key d = Inr rs"
    using assms by (auto simp: runCheckoutTransaction_def Let_def key_clash [OF True] isPgUniqueViolation_def
        split: sum.splits if_splits prod.splits)
  then obtain ord where "d' = d" "find (\<lambda>ord. o_idempotency_key ord = Some key) (orders d) = Some ord"
      "rs = buildCheckoutResponseFromOrder d ord"
    by (auto simp: recoverResponseFromExistingOrder_def split: option.splits)
  then show ?thesis
    by (auto simp: find_Some_iff answers_order_def order_ids_def buildCheckoutResponseFromOrder_def image_iff)

qed

subsection \<open>The invariant of concurrent checkouts\<close>

definition one_order_per_key :: "(uuid \<times> string option) list \<Rightarrow> bool" where
  "one_order_per_key ids \<longleftrightarrow> (\<forall>k. length (filter (\<lambda>x. snd x = Some k) ids) \<le> 1)"

lemma one_order_snoc:
  "one_order_per_key ids \<Longrightarrow> Some k \<notin> snd ` set ids \<Longrightarrow> one_order_per_key (ids @ [(i, Some k)])"
  by (auto simp: one_order_per_key_def filter_empty_conv image_iff)

lemma one_order_answers:
  assumes "one_order_per_key ids" "answers_order ids k rs" "answers_order ids k rs'"
  shows "rs_order_id rs = rs_order_id rs'"
proof -
  let ?f = "filter (\<lambda>x. snd x = Some k) ids"
  have m: "(rs_order_id rs, Some k) \<in> set ?f" "(rs_order_id rs', Some k) \<in> set ?f"
    using assms(2,3) by (auto simp: answers_order_def)
  have "length ?f \<le> 1" using assms(1) by (simp add: one_order_per_key_def)
  with m show ?thesis by (cases ?f) (auto simp: le_Suc_eq)
qed

definition keys_cached :: "(uuid \<times> string option) list \<Rightarrow> idempotency list \<Rightarrow> bool" where
  "keys_cached ids rows \<longleftrightarrow>
     (\<forall>row \<in> set rows. \<forall>rs. ik_response_body row = Some rs \<longrightarrow> answers_order ids (ik_key row) rs)"

definition checkout_inv :: "checkout_state \<Rightarrow> bool" where
  "checkout_inv s \<longleftrightarrow>
     (let ids = order_ids (ck_db s)
      in one_order_per_key ids
       \<and> keys_cached ids (idempotency_keys (ck_db s))
       \<and> (\<forall>r \<in> set (ck_running s). \<forall>rs. if_phase r = Committed rs \<longrightarrow> answers_order ids (if_key r) rs)
       \<and> (\<forall>a \<in> set (ck_answers s). \<forall>rs. snd (snd a) = Inr rs \<longrightarrow> answers_order ids (fst (snd a)) rs))"

lemma answers_append: "answers_order ids k rs \<Longrightarrow> answers_order (ids @ extra) k rs"
  by (simp add: answers_order_def)

lemma keys_cached_subset: "keys_cached ids rows \<Longrightarrow> set rows' \<subseteq> set rows \<Longrightarrow> keys_cached ids rows'"
  by (auto simp: keys_cached_def)

lemma existing_key_answers:
  "keys_cached ids (idempotency_keys d) \<Longrightarrow> existing_key u key d = Inr rs \<Longrightarrow> answers_order ids key rs"
  by (auto simp: existing_key_def keys_cached_def dest!: find_row_SomeD split: option.splits if_splits)

lemma keys_cached_mark:
  "keys_cached ids (idempotency_keys d) \<Longrightarrow> answers_order ids key rs \<Longrightarrow>
   keys_cached ids (idempotency_keys (markKeyCompleted key code rs d))"
  by (auto simp: keys_cached_def markKeyCompleted_def update_row_def)

lemma checkout_step_inv:
  assumes "checkout_step calc s s'" "checkout_inv s"
  shows "checkout_inv s'"
  using assms(1)
proof (cases rule: checkout_step.cases)
  case (claimed u key now d' dto)
  then show ?thesis
    using assms(2) by (auto simp: checkout_inv_def insert_key_def order_ids_def keys_cached_def Let_def split: if_splits)
next
  case (refused key d0 u)
  then show ?thesis
    using assms(2) existing_key_answers by (auto simp: checkout_inv_def Let_def)
next
  case (committed r env d' rs jobs)
  note new = checkout_orders [OF committed(4)]
  have run: "\<forall>q \<in> set (ck_running s'). q = r\<lparr>if_phase := Committed rs\<rparr> \<or> q \<in> set (ck_running s)"
    using committed(1) by (auto dest: notin_set_remove1)
  have s': "ck_db s' = d'" "ck_answers s' = ck_answers s" using committed(1) by simp_all
  have ids: "one_order_per_key (order_ids d') \<and> (\<exists>extra. order_ids d' = order_ids (ck_db s) @ extra)"
    using new assms(2) one_order_snoc by (auto simp: checkout_inv_def Let_def)
  then obtain extra where extra: "order_ids d' = order_ids (ck_db s) @ extra" by blast
  have "keys_cached (order_ids d') (idempotency_keys d')"
    using new assms(2) answers_append unfolding extra by (auto simp: checkout_inv_def keys_cached_def Let_def)
  moreover have "answers_order (order_ids d') (if_key r) rs" using new by blast
  ultimately show ?thesis
    using assms(2) ids run answers_append [of "order_ids (ck_db s)" _ _ extra] unfolding checkout_inv_def Let_def s' extra
    by fastforce
next
  case (failed r env e)
  then show ?thesis using assms(2) by (auto simp: checkout_inv_def Let_def dest: notin_set_remove1)
next
  case (cached r rs ok)
  then have "answers_order (order_ids (ck_db s)) (if_key r) rs" using assms(2) by (auto simp: checkout_inv_def Let_def)
  then show ?thesis
    using assms(2) cached keys_cached_mark
    by (auto simp: checkout_inv_def Let_def order_ids_def markKeyCompleted_def dest: notin_set_remove1)
next
  case (released r e ok)
  then show ?thesis
    using assms(2) keys_cached_subset
    by (auto simp: checkout_inv_def Let_def order_ids_def deletePendingKeyForRetry_def keys_cached_def dest: notin_set_remove1)
next
  case (crashed r)
  then show ?thesis using assms(2) by (auto simp: checkout_inv_def Let_def dest: notin_set_remove1)
next
  case (cleaned now)
  then show ?thesis using assms(2) by (auto simp: checkout_inv_def Let_def order_ids_def handleCleanup_def keys_cached_def)
next
  case (elsewhere d')
  then show ?thesis using assms(2) by (simp add: checkout_inv_def Let_def)
qed

lemma checkout_reach_inv: "(checkout_step calc)\<^sup>*\<^sup>* s s' \<Longrightarrow> checkout_inv s \<Longrightarrow> checkout_inv s'"
  by (induction rule: rtranclp_induct) (auto intro: checkout_step_inv)

subsection \<open>Properties\<close>

text \<open>
  C2. However requests, retries, crashes, failed clean-up statements, the clean-up job and the rest of
  the service interleave, an idempotency key never has two orders, and any two successful answers
  to requests with the same key name the same order.
\<close>

theorem one_order_per_idempotency_key:
  assumes "(checkout_step calc)\<^sup>*\<^sup>* \<lparr>ck_db = d0, ck_running = [], ck_answers = []\<rparr> s"
    and "one_order_per_key (order_ids d0)" "keys_cached (order_ids d0) (idempotency_keys d0)"
  shows "length (filter (\<lambda>ord. o_idempotency_key ord = Some k) (orders (ck_db s))) \<le> 1
    \<and> ((u, k, Inr rs) \<in> set (ck_answers s) \<and> (u', k, Inr rs') \<in> set (ck_answers s)
         \<longrightarrow> rs_order_id rs = rs_order_id rs')"
proof -
  have inv: "checkout_inv s"
    by (rule checkout_reach_inv [OF assms(1)]) (simp add: checkout_inv_def assms(2,3))
  then have one: "one_order_per_key (order_ids (ck_db s))" by (simp add: checkout_inv_def Let_def)
  then have "length (filter (\<lambda>x. snd x = Some k) (order_ids (ck_db s))) \<le> 1" by (simp add: one_order_per_key_def)
  then have "length (filter (\<lambda>ord. o_idempotency_key ord = Some k) (orders (ck_db s))) \<le> 1"
    by (simp add: order_ids_def filter_map comp_def)
  moreover have "answers_order (order_ids (ck_db s)) k rs"
    if "(u, k, Inr rs) \<in> set (ck_answers s)" for u rs
    using inv that unfolding checkout_inv_def Let_def by fastforce
  ultimately show ?thesis using one_order_answers [OF one] by blast
qed

definition lamp_key :: idempotency where
  "lamp_key = \<lparr>ik_key = ''k'', ik_status = KeyPending, ik_response_code = None, ik_response_body = None,
     ik_user_id = 1, ik_created_at = 0\<rparr>"

lemma lamp_claim: "insert_key 1 ''k'' 0 lamp_db = Inr (lamp_db\<lparr>idempotency_keys := [lamp_key]\<rparr>)"
  by (simp add: insert_key_def lamp_db_def demo_db_def empty_db_def lamp_key_def)

theorem one_order_per_idempotency_key_witness:
  "\<exists>s. (checkout_step (calculateShippingFee demo_math))\<^sup>*\<^sup>* \<lparr>ck_db = lamp_db, ck_running = [], ck_answers = []\<rparr> s
     \<and> filter (\<lambda>ord. o_idempotency_key ord = Some ''k'') (orders (ck_db s)) \<noteq> []
     \<and> length (filter (\<lambda>ord. o_idempotency_key ord = Some ''k'') (orders (ck_db s))) \<le> 1"
proof -
  let ?step = "checkout_step (calculateShippingFee demo_math)"
  let ?s0 = "\<lparr>ck_db = lamp_db, ck_running = [], ck_answers = []\<rparr>"
  let ?r = "\<lparr>if_user = 1, if_dto = lamp_dto, if_key = ''k'', if_phase = Running\<rparr>"
  let ?s1 = "?s0\<lparr>ck_db := lamp_db\<lparr>idempotency_keys := [lamp_key]\<rparr>, ck_running := [?r]\<rparr>"
  obtain d' rs jobs where run: "runCheckoutTransaction (calculateShippingFee demo_math) 1 lamp_dto ''k'' lamp_env
      (lamp_db\<lparr>idempotency_keys := [lamp_key]\<rparr>) = Inr (d', rs, jobs)"
    by (rule lamp_checkout_keys)
  let ?s2 = "?s1\<lparr>ck_db := d', ck_running := [?r\<lparr>if_phase := Committed rs\<rparr>]\<rparr>"
  have "?step ?s0 ?s1" using checkout_step.claimed [of 1 "''k''" 0 ?s0 _ _ lamp_dto] lamp_claim by simp
  moreover have "?step ?s1 ?s2" using checkout_step.committed [of ?r ?s1 _ lamp_env d' rs jobs] run by simp
  ultimately have reach: "?step\<^sup>*\<^sup>* ?s0 ?s2" by (meson converse_rtranclp_into_rtranclp rtranclp.rtrancl_refl)
  have "answers_order (order_ids d') ''k'' rs" using checkout_orders [OF run] by blast
  then have "filter (\<lambda>ord. o_idempotency_key ord = Some ''k'') (orders (ck_db ?s2)) \<noteq> []"
    by (auto simp: answers_order_def order_ids_def filter_empty_conv)
  moreover have "one_order_per_key (order_ids lamp_db)" "keys_cached (order_ids lamp_db) (idempotency_keys lamp_db)"
    by (simp_all add: one_order_per_key_def keys_cached_def order_ids_def lamp_db_def demo_db_def empty_db_def)
  ultimately show ?thesis using reach one_order_per_idempotency_key [OF reach] by blast
qed

text \<open>
  A checkout that has answered and cached its answer is answered the same when it is sent again,
  with the database untouched and no new job, whatever the second body says; to anybody else
  the key is forbidden.
\<close>

theorem checkout_replays:
  assumes "checkout calc u dto key now env True d = (d', Inr rs, jobs)"
  shows "checkout calc' u dto' key now' env' ok d' = (d', Inr rs, [])
    \<and> (v \<noteq> u \<longrightarrow> checkout calc' v dto' key now' env' ok d' = (d', Inl (Forbidden (OrderMsg KeyOfOtherUser)), []))"
proof -
  obtain row where row: "find_row ik_key key (idempotency_keys d') = Some row"
    "ik_user_id row = u" "ik_status row = KeyCompleted" "ik_response_body row = Some rs"
  proof (cases "insert_key u key now d")
    case (Inl e)
    then have "d' = d" "existing_key u key d = Inr rs"
      using assms by (auto simp: checkout_def claimIdempotencyKey_def split: if_splits sum.splits)
    then show thesis
      by (auto simp: existing_key_def split: option.splits if_splits idempotency_status.splits)
        (metis idempotency_status.exhaust that)
  next
    case (Inr d1)
    then obtain d2 where run: "runCheckoutTransaction calc u dto key env d1 = Inr (d2, rs, jobs)"
        "d' = markKeyCompleted key 201 rs d2"
      using assms by (auto simp: checkout_def claimIdempotencyKey_def split: sum.splits)
    have "idempotency_keys d2 = idempotency_keys d1" using checkout_orders [OF run(1)] by blast
    then have rows: "idempotency_keys d2 = idempotency_keys d @ [\<lparr>ik_key = key, ik_status = KeyPending,
        ik_response_code = None, ik_response_body = None, ik_user_id = u, ik_created_at = now\<rparr>]"
      and "find_row ik_key key (idempotency_keys d) = None"
      using Inr by (auto simp: insert_key_def find_row_None_iff split: if_splits)
    then have "find_row ik_key key (idempotency_keys d') = Some \<lparr>ik_key = key, ik_status = KeyCompleted,
        ik_response_code = Some 201, ik_response_body = Some rs, ik_user_id = u, ik_created_at = now\<rparr>"
      by (simp add: run(2) markKeyCompleted_def find_row_update_row find_row_append find_row_Cons)
    then show thesis by (rule that) simp_all
  qed
  then have "key \<in> ik_key ` set (idempotency_keys d')" using find_row_SomeD by fastforce
  with row show ?thesis
    by (simp add: checkout_def claimIdempotencyKey_def insert_key_def isPgUniqueViolation_def existing_key_def)
qed

theorem checkout_replays_witness:
  "\<exists>d' rs jobs. checkout (calculateShippingFee demo_math) 1 lamp_dto ''k'' 0 lamp_env True lamp_db = (d', Inr rs, jobs)
     \<and> checkout (calculateShippingFee demo_math) 1 lamp_dto ''k'' 0 lamp_env True d' = (d', Inr rs, [])"
proof -
  obtain d' rs jobs where run: "runCheckoutTransaction (calculateShippingFee demo_math) 1 lamp_dto ''k'' lamp_env
      (lamp_db\<lparr>idempotency_keys := [lamp_key]\<rparr>) = Inr (d', rs, jobs)"
    by (rule lamp_checkout_keys)
  have "checkout (calculateShippingFee demo_math) 1 lamp_dto ''k'' 0 lamp_env True lamp_db
      = (markKeyCompleted ''k'' 201 rs d', Inr rs, jobs)"
    unfolding checkout_def claimIdempotencyKey_def lamp_claim by (simp add: run [unfolded One_nat_def])
  from this checkout_replays [OF this] show ?thesis by blast
qed

text \<open>
  A checkout that is refused after its key was claimed leaves the database exactly as it was, so
  the same key can be used again; what the client sees is one of the five exceptions.
\<close>

theorem failed_checkout_leaves_nothing:
  assumes "checkout calc u dto key now env True d = (d', Inl e, jobs)"
  shows "d' = d \<and> jobs = []
    \<and> (\<exists>r. e \<in> {BadRequest r, Conflict r, Forbidden r, NotFound r, InternalServerError r})"
proof -
  have norm: "\<exists>r. normalizeError e \<in> {BadRequest r, Conflict r, Forbidden r, NotFound r, InternalServerError r}" for e
    by (cases e) (auto simp: normalizeError_def)
  show ?thesis
  proof (cases "insert_key u key now d")
    case (Inl _)
    then show ?thesis
      using assms by (auto simp: checkout_def claimIdempotencyKey_def existing_key_def split: if_splits sum.splits option.splits)
  next
    case (Inr d1)
    then obtain e' where run: "runCheckoutTransaction calc u dto key env d1 = Inl e'"
        "d' = deletePendingKeyForRetry key d1" "e = normalizeError e'" "jobs = []"
      using assms by (auto simp: checkout_def claimIdempotencyKey_def split: sum.splits)
    have "filter (\<lambda>row. ik_key row = key \<longrightarrow> ik_status row \<noteq> KeyPending) (idempotency_keys d) = idempotency_keys d"
      using Inr by (intro filter_True) (auto simp: insert_key_def split: if_splits)
    then have "d' = d" using Inr by (auto simp: run(2) deletePendingKeyForRetry_def insert_key_def delete_rows_def split: if_splits)
    with run norm show ?thesis by blast
  qed
qed

theorem failed_checkout_leaves_nothing_witness:
  "fst (checkout (calculateShippingFee demo_math) 1 (lamp_dto\<lparr>dto_address_id := 7\<rparr>) ''k'' 0 lamp_env True lamp_db) = lamp_db"
proof -
  have "findOwnedAddressOrFail 1 7 (lamp_db\<lparr>idempotency_keys := [lamp_key]\<rparr>) = Inl (NotFound (CommonMsg AddressNotFound))"
    by (simp add: findOwnedAddressOrFail_def lamp_db_def demo_db_def)
  then have "\<exists>d' e. checkout (calculateShippingFee demo_math) 1 (lamp_dto\<lparr>dto_address_id := 7\<rparr>) ''k'' 0 lamp_env True lamp_db
      = (d', Inl e, [])"
    unfolding checkout_def claimIdempotencyKey_def lamp_claim by (simp add: runCheckoutTransaction_def)
  then show ?thesis using failed_checkout_leaves_nothing by fastforce
qed

text \<open>Nothing before the insert of the order reads the orders.\<close>

lemma deduct_orders:
  "lockAndDeductStockForCheckout items (d\<lparr>orders := os\<rparr>) =
     (case lockAndDeductStockForCheckout items d of Inl e \<Rightarrow> Inl e | Inr (d1, res) \<Rightarrow> Inr (d1\<lparr>orders := os\<rparr>, res))"
  by (simp add: lockAndDeductStockForCheckout_def save_stock_def locked_products_def locked_variants_def Let_def)

lemma coupon_orders: "lockAndValidateCoupon code ty sid sub now (d\<lparr>orders := os\<rparr>) = lockAndValidateCoupon code ty sid sub now d"
  by (simp add: lockAndValidateCoupon_def Let_def split: option.split)

lemma plan_orders: "plan_order calc addr gc sc now (d\<lparr>orders := os\<rparr>) items = plan_order calc addr gc sc now d items"
proof -
  have "plan_sub_order calc addr sc now (d\<lparr>orders := os\<rparr>) = plan_sub_order calc addr sc now d"
    by (intro ext) (simp add: plan_sub_order_def coupon_orders Let_def)
  then show ?thesis by (simp add: plan_order_def coupon_orders Let_def split: sum.split)
qed

lemma cart_orders: "getActiveCartItemsForCheckout u (d\<lparr>orders := os\<rparr>) = getActiveCartItemsForCheckout u d"
proof -
  have "load_line (d\<lparr>orders := os\<rparr>) = load_line d" by (intro ext) (simp add: load_line_def)
  then show ?thesis by (simp add: getActiveCartItemsForCheckout_def load_cart_def user_rows_def)
qed

text \<open>
  Once the key row is gone, a checkout whose key an order already has answers with that order,
  whoever placed it: the owner is not compared with the caller. Where a checkout would have gone
  through, the same checkout after anybody's order with that key writes nothing and hands out
  that order's address, items and amounts.
\<close>

theorem recovery_ignores_owner:
  assumes "runCheckoutTransaction calc u dto key env d = Inr (d', rs, jobs)"
    and "Some key \<notin> o_idempotency_key ` set (orders d)" "o_idempotency_key ord = Some key"
    and "e = d\<lparr>orders := orders d @ [ord]\<rparr>"
  shows "runCheckoutTransaction calc u dto key env e = Inr (e, buildCheckoutResponseFromOrder e ord, [])"
proof -
  obtain addr valid items d1 res op where c:
    "findOwnedAddressOrFail u (dto_address_id dto) d = Inr addr"
    "getActiveCartItemsForCheckout u d = (valid, [])" "valid \<noteq> []" "items = map to_order_line valid"
    "\<not> owns_a_shop_of u items d"
    "lockAndDeductStockForCheckout (stock_targets items) d = Inr (d1, res)"
    "plan_order calc addr (dto_global_coupon_code dto) (dto_shop_coupons dto) (env_now env) d1 items = Inr op"
    by (rule checkout_cases [OF assms(1,2)]) (rule that)
  have ded: "lockAndDeductStockForCheckout (stock_targets items) e = Inr (d1\<lparr>orders := orders e\<rparr>, res)"
    by (simp add: assms(4) deduct_orders c(6))
  have same: "findOwnedAddressOrFail u (dto_address_id dto) e = Inr addr"
    "getActiveCartItemsForCheckout u e = (valid, [])" "\<not> owns_a_shop_of u items e"
    using c(1,2,5) by (simp_all add: assms(4) findOwnedAddressOrFail_def cart_orders owns_a_shop_of_def)
  have "\<forall>y \<in> set (orders d). o_idempotency_key y \<noteq> Some key" using assms(2) by (metis image_eqI)
  then have rec: "recoverResponseFromExistingOrder key e = Inr (buildCheckoutResponseFromOrder e ord)"
    using assms(3) by (simp add: recoverResponseFromExistingOrder_def assms(4) find_snoc)
  have "Some key \<in> o_idempotency_key ` set (orders e)" using assms(3) by (simp add: assms(4))
  note clash = key_clash [OF this ded]
  show ?thesis
    using same c(3) c(7) ded rec
    by (simp add: runCheckoutTransaction_def c(4) Let_def plan_orders clash [unfolded c(4)] isPgUniqueViolation_def)
qed

theorem recovery_ignores_owner_witness:
  "\<exists>rs ord. o_customer_id ord = Some 9
     \<and> runCheckoutTransaction (calculateShippingFee demo_math) 1 lamp_dto ''k'' lamp_env (lamp_db\<lparr>orders := [ord]\<rparr>)
        = Inr (lamp_db\<lparr>orders := [ord]\<rparr>, rs, []) \<and> rs_order_id rs = 90"
proof -
  obtain d' rs jobs where
    run: "runCheckoutTransaction (calculateShippingFee demo_math) 1 lamp_dto ''k'' lamp_env lamp_db = Inr (d', rs, jobs)"
    by (rule lamp_checkout)
  have none: "orders lamp_db = []" by (simp add: lamp_db_def demo_db_def empty_db_def)
  let ?ord = "order_payload 90 9 ''k'' 0 None 0 (snapshotAddress (addresses demo_db ! 0)) 0 ''n''"
  have key: "o_idempotency_key ?ord = Some ''k''" "o_customer_id ?ord = Some 9" "o_id ?ord = 90"
    by (simp_all add: order_payload_def)
  have "Some ''k'' \<notin> o_idempotency_key ` set (orders lamp_db)" by (simp add: none)
  from recovery_ignores_owner [OF run this key(1) refl] key(2,3) show ?thesis
    by (auto simp: none buildCheckoutResponseFromOrder_def intro!: exI [of _ ?ord])
qed

end
