(* ===== verification/OrderLifecycle.thy ===== *)
theory OrderLifecycle
  imports Idempotency
begin

text \<open>
  The life of an order after the checkout, from \<open>orders.service.ts\<close>: sub-orders move through their
  state machine, are cancelled by the customer, the seller or the expiry of an unpaid order, and
  the master order is recomputed from its sub-orders after every change. The expiry is triggered
  by a queue (\<open>vnpay-expiry.processor.ts\<close>) and a sweep (\<open>vnpay-expiry.sweep.ts\<close>).
\<close>

subsection \<open>The state machine and the status of the master\<close>

fun sub_order_state_machine :: "order_status \<Rightarrow> order_status list" where
  "sub_order_state_machine Pending = [Processing, Cancelled]"
| "sub_order_state_machine Processing = [Shipping, Cancelled]"
| "sub_order_state_machine Shipping = [Delivered]"
| "sub_order_state_machine Delivered = []"
| "sub_order_state_machine Cancelled = []"
| "sub_order_state_machine Returned = []"

definition status_progression :: "order_status list" where
  "status_progression = [Pending, Processing, Shipping, Delivered]"

text \<open>\<open>indexOf\<close>, with \<open>None\<close> for -1.\<close>

fun index_of :: "'a \<Rightarrow> 'a list \<Rightarrow> nat option" where
  "index_of x [] = None"
| "index_of x (y # ys) = (if y = x then Some 0 else map_option Suc (index_of x ys))"

text \<open>\<open>None\<close> is the infinity \<open>minRank\<close> starts from.\<close>

definition deriveMasterStatus :: "order_status list \<Rightarrow> order_status" where
  "deriveMasterStatus statuses =
     (let active = filter (\<lambda>s. s \<noteq> Cancelled) statuses
      in if active = [] then Cancelled
         else
           let minRank = foldl (\<lambda>m s. case index_of s status_progression of
                             None \<Rightarrow> m
                           | Some rank \<Rightarrow> (case m of None \<Rightarrow> Some rank
                                         | Some k \<Rightarrow> if rank < k then Some rank else m)) None active
           in case minRank of None \<Rightarrow> hd active | Some k \<Rightarrow> status_progression ! k)"

subsection \<open>Restocking a sub-order\<close>

definition items_of :: "sub_order \<Rightarrow> db \<Rightarrow> order_item list" where
  "items_of so d = filter (\<lambda>oi. oi_sub_order_id oi = so_id so) (order_items d)"

text \<open>Items whose product is gone are left out; a variant that is gone loads as null.\<close>

definition restock_targets :: "sub_order \<Rightarrow> db \<Rightarrow> stock_item list" where
  "restock_targets so d =
     map (\<lambda>oi. \<lparr>si_product_id = the (oi_product_id oi),
                si_variant_id = map_option v_id (find_opt v_id (oi_variant_id oi) (variants d)),
                si_quantity = oi_quantity oi\<rparr>)
       (filter (\<lambda>oi. find_opt p_id (oi_product_id oi) (products d) \<noteq> None) (items_of so d))"

definition owner_of :: "sub_order \<Rightarrow> db \<Rightarrow> uuid option" where
  "owner_of so d = Option.bind (find_opt o_id (so_order_id so) (orders d)) o_customer_id"

text \<open>\<open>releaseCoupon\<close> and, when the order has a customer, the mark in the wallet.\<close>

definition refund_coupon :: "uuid option \<Rightarrow> uuid \<Rightarrow> db \<Rightarrow> db" where
  "refund_coupon userId couponId d =
     (let d1 = releaseCoupon couponId d
      in case userId of None \<Rightarrow> d1 | Some u \<Rightarrow> markWalletUnused u couponId d1)"

definition restockAndRefundSubOrder :: "sub_order \<Rightarrow> db \<Rightarrow> http_error + db" where
  "restockAndRefundSubOrder so d =
     (let targets = restock_targets so d
      in case (if targets = [] then Inr d else lockAndRestock targets d) of
           Inl e \<Rightarrow> Inl e
         | Inr d1 \<Rightarrow>
             Inr (case find_opt c_id (so_shop_coupon_id so) (coupons d) of
                    None \<Rightarrow> d1
                  | Some c \<Rightarrow> refund_coupon (owner_of so d) (c_id c) d1))"

subsection \<open>Recomputing the master\<close>

definition siblings :: "uuid \<Rightarrow> db \<Rightarrow> sub_order list" where
  "siblings orderId d = filter (\<lambda>so. so_order_id so = Some orderId) (sub_orders d)"

definition active_subs :: "sub_order list \<Rightarrow> sub_order list" where
  "active_subs sos = filter (\<lambda>so. so_status so \<noteq> Cancelled) sos"

text \<open>The discount of a sub-order under the coupon as it is now.\<close>

definition current_shop_discount :: "db \<Rightarrow> sub_order \<Rightarrow> rat" where
  "current_shop_discount d so =
     (case find_opt c_id (so_shop_coupon_id so) (coupons d) of
        None \<Rightarrow> 0
      | Some c \<Rightarrow> computeCouponDiscount c (js_of_dec (so_sub_total so)))"

text \<open>The pair of \<open>remainingShopSubtotals\<close> and \<open>sumActiveShopTotals\<close>.\<close>

definition add_active :: "db \<Rightarrow> rat \<times> rat \<Rightarrow> sub_order \<Rightarrow> rat \<times> rat" where
  "add_active d acc so =
     (let subTotal = js_of_dec (so_sub_total so); shippingFee = js_of_dec (so_shipping_fee so);
          shopDiscount = current_shop_discount d so
      in (round2 (js_add (fst acc) subTotal),
          round2 (js_add (snd acc) (js_add (js_sub subTotal shopDiscount) shippingFee))))"

text \<open>The platform's coupon after the change: given up with its use returned, or applied anew.\<close>

definition reevaluate_global ::
  "order_row \<Rightarrow> bool \<Rightarrow> rat \<Rightarrow> db \<Rightarrow> db \<times> coupon option \<times> rat" where
  "reevaluate_global ord none_active remaining d =
     (case find_opt c_id (o_global_coupon_id ord) (coupons d) of
        None \<Rightarrow> (d, None, 0)
      | Some c \<Rightarrow>
          if (case c_min_order_value c of None \<Rightarrow> False | Some m \<Rightarrow> remaining < js_of_dec m) \<or> none_active
          then (refund_coupon (o_customer_id ord) (c_id c) d, None, 0)
          else (d, Some c, computeCouponDiscount c remaining))"

definition recomputeMasterAfterSubOrderChange ::
  "uuid \<Rightarrow> millis \<Rightarrow> db \<Rightarrow> http_error + (db \<times> order_status \<times> rat)" where
  "recomputeMasterAfterSubOrderChange orderId now d =
     (case find_row o_id orderId (orders d) of
        None \<Rightarrow> Inl (NotFound (OrderMsg MasterNotFound))
      | Some ord \<Rightarrow>
          let sibs = siblings orderId d;
              active = active_subs sibs;
              (remaining, sumActive) = foldl (add_active d) (0, 0) active;
              (d1, coupon, globalDiscount) = reevaluate_global ord (active = []) remaining d;
              newTotal = round2 (max 0 (js_sub sumActive globalDiscount));
              newStatus = deriveMasterStatus (map so_status sibs);
              ord' = ord\<lparr>o_total_amount := dec_of_js newTotal, o_status := newStatus,
                         o_global_discount_amount := map_option (\<lambda>_. dec_of_js globalDiscount) coupon,
                         o_global_coupon_code := map_option c_code coupon,
                         o_global_coupon_id := map_option c_id coupon\<rparr>;
              d2 = d1\<lparr>orders := save_row o_id ord' (orders d1)\<rparr>;
              d3 = updateAmountForOrder orderId newTotal d2;
              d4 = (if newStatus = Delivered then markCodCompleted orderId now d3 else d3)
          in Inr (d4, newStatus, newTotal))"

subsection \<open>Cancelling and moving a sub-order\<close>

definition save_sub :: "sub_order \<Rightarrow> db \<Rightarrow> db" where
  "save_sub so d = d\<lparr>sub_orders := save_row so_id so (sub_orders d)\<rparr>"

definition shop_of :: "sub_order \<Rightarrow> db \<Rightarrow> shop option" where
  "shop_of so d = find_opt s_id (so_shop_id so) (shops d)"

definition order_cancelled_event :: "order_row \<Rightarrow> sub_order \<Rightarrow> uuid \<Rightarrow> db \<Rightarrow> outbox_event" where
  "order_cancelled_event ord so userId d =
     (let cancelShopId = map_option s_id (shop_of so d)
      in OrderCancelledEv (o_id ord) (o_order_number ord) (so_id so) userId cancelShopId
           (Option.bind cancelShopId (\<lambda>k. getSellerIdsByShopIds [k] d k)))"

type_synonym status_change = "uuid \<times> order_status \<times> rat"

definition cancelSubOrder ::
  "uuid \<Rightarrow> uuid \<Rightarrow> millis \<Rightarrow> db \<Rightarrow> http_error + (db \<times> uuid \<times> uuid \<times> order_status \<times> rat)" where
  "cancelSubOrder userId subOrderId now d =
     (case find_row so_id subOrderId (sub_orders d) of
        None \<Rightarrow> Inl (NotFound (OrderMsg SubOrderNotFound))
      | Some so \<Rightarrow>
          (case find_opt o_id (so_order_id so) (orders d) of
             None \<Rightarrow> Inl (NotFound (OrderMsg SubOrderNotFound))
           | Some ord \<Rightarrow>
               if o_customer_id ord \<noteq> Some userId then Inl (NotFound (OrderMsg SubOrderNotFound))
               else if so_status so \<noteq> Pending then Inl (BadRequest (OrderMsg NotSelfCancellable))
               else
                 (case restockAndRefundSubOrder so d of
                    Inl e \<Rightarrow> Inl e
                  | Inr d1 \<Rightarrow>
                      (let d2 = save_sub (so\<lparr>so_status := Cancelled\<rparr>) d1
                       in case recomputeMasterAfterSubOrderChange (o_id ord) now d2 of
                            Inl e \<Rightarrow> Inl e
                          | Inr (d3, status, amount) \<Rightarrow>
                              Inr (d3\<lparr>outbox := outbox d3 @ [order_cancelled_event ord so userId d3]\<rparr>,
                                   o_id ord, so_id so, status, amount)))))"

definition isVnpayUnpaid :: "uuid \<Rightarrow> db \<Rightarrow> bool" where
  "isVnpayUnpaid orderId d =
     (case find_row pay_order_id orderId (payments d) of
        None \<Rightarrow> False
      | Some p \<Rightarrow> pay_method p = VNPAY \<and> pay_status p \<noteq> PayCompleted)"

text \<open>What \<open>updateSubOrderStatus\<close> answers: the sub-order, its status, and the master's status and total.\<close>

type_synonym status_answer = "uuid \<times> order_status \<times> order_status \<times> rat"

definition updateSubOrderStatus ::
  "uuid \<Rightarrow> uuid \<Rightarrow> order_status \<Rightarrow> millis \<Rightarrow> db \<Rightarrow> http_error + (db \<times> status_answer)" where
  "updateSubOrderStatus sellerId subOrderId newStatus now d =
     (case find_row so_id subOrderId (sub_orders d) of
        None \<Rightarrow> Inl (NotFound (OrderMsg SubOrderNotFound))
      | Some so \<Rightarrow>
          (case find_opt o_id (so_order_id so) (orders d) of
             None \<Rightarrow> Inl (NotFound (OrderMsg SubOrderNotFound))
           | Some ord \<Rightarrow>
               if map_option s_seller_id (shop_of so d) \<noteq> Some sellerId
               then Inl (NotFound (OrderMsg SubOrderNotFound))
               else if isVnpayUnpaid (o_id ord) d then Inl (BadRequest (OrderMsg UnpaidOnline))
               else if so_status so = newStatus
               then Inr (d, so_id so, so_status so, o_status ord, js_of_dec (o_total_amount ord))
               else if newStatus \<notin> set (sub_order_state_machine (so_status so))
               then Inl (BadRequest (OrderMsg (IllegalTransition (so_status so) newStatus)))
               else
                 (case (if newStatus = Cancelled then restockAndRefundSubOrder so d else Inr d) of
                    Inl e \<Rightarrow> Inl e
                  | Inr d1 \<Rightarrow>
                      (let so' = (if newStatus = Delivered
                                  then so\<lparr>so_status := newStatus, so_delivered_at := Some now\<rparr>
                                  else so\<lparr>so_status := newStatus\<rparr>);
                           d2 = save_sub so' d1
                       in case recomputeMasterAfterSubOrderChange (o_id ord) now d2 of
                            Inl e \<Rightarrow> Inl e
                          | Inr (d3, status, amount) \<Rightarrow>
                              (case o_customer_id ord of
                                 None \<Rightarrow> Inl JsTypeError
                               | Some customer \<Rightarrow>
                                   Inr (d3\<lparr>outbox := outbox d3 @
                                          [OrderStatusUpdated (o_id ord) (o_order_number ord) (so_id so)
                                             (Some customer) (so_shop_id so) newStatus]\<rparr>,
                                        so_id so, newStatus, status, amount))))))"

subsection \<open>Expiry of unpaid orders\<close>

definition isWithinPaymentWindow :: "int \<Rightarrow> int option \<Rightarrow> bool" where
  "isWithinPaymentWindow orderAgeMs latestAttemptAgeMs =
     (let softAgeMs = (case latestAttemptAgeMs of None \<Rightarrow> orderAgeMs | Some t \<Rightarrow> t)
      in softAgeMs < vnpay_soft_window_ms \<and> orderAgeMs < vnpay_hard_window_ms)"

fun cancel_pending :: "sub_order list \<Rightarrow> db \<Rightarrow> http_error + db" where
  "cancel_pending [] d = Inr d"
| "cancel_pending (so # sos) d =
     (case restockAndRefundSubOrder so d of
        Inl e \<Rightarrow> Inl e
      | Inr d1 \<Rightarrow> cancel_pending sos (save_sub (so\<lparr>so_status := Cancelled\<rparr>) d1))"

definition expireUnpaidVnpayOrder :: "uuid \<Rightarrow> millis \<Rightarrow> millis \<Rightarrow> db \<Rightarrow> http_error + (db \<times> bool)" where
  "expireUnpaidVnpayOrder orderId db_now now d =
     (case getVnpayExpiryInfo orderId db_now d of
        None \<Rightarrow> Inr (d, False)
      | Some info \<Rightarrow>
          (case find_row o_id orderId (orders d) of
             None \<Rightarrow> Inr (d, False)
           | Some ord \<Rightarrow>
               if o_status ord = Cancelled then Inr (d, False)
               else if isWithinPaymentWindow (ei_orderAgeMs info) (ei_latestAttemptAgeMs info) then Inr (d, False)
               else
                 (case cancel_pending (filter (\<lambda>so. so_status so = Pending) (siblings orderId d)) d of
                    Inl e \<Rightarrow> Inl e
                  | Inr d1 \<Rightarrow>
                      (case recomputeMasterAfterSubOrderChange orderId now d1 of
                         Inl e \<Rightarrow> Inl e
                       | Inr (d2, _) \<Rightarrow> Inr (markVnpayExpired (ei_paymentId info) d2, True)))))"

text \<open>The sweep: an error in one order ends it, what the earlier ones did stays.\<close>

fun sweep_orders :: "uuid list \<Rightarrow> millis \<Rightarrow> millis \<Rightarrow> db \<Rightarrow> nat \<Rightarrow> db \<times> (http_error + nat)" where
  "sweep_orders [] db_now now d expired = (d, Inr expired)"
| "sweep_orders (k # ks) db_now now d expired =
     (case expireUnpaidVnpayOrder k db_now now d of
        Inl e \<Rightarrow> (d, Inl e)
      | Inr (d', b) \<Rightarrow> sweep_orders ks db_now now d' (if b then expired + 1 else expired))"

definition sweepExpiredVnpayOrders :: "nat \<Rightarrow> millis \<Rightarrow> millis \<Rightarrow> db \<Rightarrow> db \<times> (http_error + nat \<times> nat)" where
  "sweepExpiredVnpayOrders limit db_now now d =
     (let orderIds = findExpiredVnpayOrderIds vnpay_hard_window_ms limit db_now d
      in case sweep_orders orderIds db_now now d 0 of
           (d', Inl e) \<Rightarrow> (d', Inl e)
         | (d', Inr expired) \<Rightarrow> (d', Inr (length orderIds, expired)))"

definition sweep_batch_size :: nat where "sweep_batch_size = 20"

text \<open>The interval job: it swallows errors; the flag of a running sweep is given.\<close>

definition sweepExpiredOrders :: "bool \<Rightarrow> bool \<Rightarrow> millis \<Rightarrow> millis \<Rightarrow> db \<Rightarrow> db" where
  "sweepExpiredOrders enabled isProcessing db_now now d =
     (if \<not> enabled \<or> isProcessing then d else fst (sweepExpiredVnpayOrders sweep_batch_size db_now now d))"

text \<open>The queue worker.\<close>

definition process_expiry_job :: "expiry_job \<Rightarrow> millis \<Rightarrow> millis \<Rightarrow> db \<Rightarrow> http_error + (db \<times> bool)" where
  "process_expiry_job job db_now now d = expireUnpaidVnpayOrder (fst job) db_now now d"

subsection \<open>Rows found under one key and saved under another\<close>

lemma save_found:
  assumes "unique_keys key t" "unique_keys key2 t" "find_row key2 k t = Some r" "key r' = key r"
  shows "save_row key r' t = map (\<lambda>x. if key2 x = k then r' else x) t"
proof -
  have r: "r \<in> set t" "key2 r = k" using find_row_SomeD [OF assms(3)] by auto
  have "key x = key r \<longleftrightarrow> key2 x = k" if "x \<in> set t" for x
    using that r assms(1,2) by (auto simp: unique_keys_def distinct_map inj_on_def)
  moreover have "key r' \<in> set (map key t)" using r assms(4) by simp
  ultimately show ?thesis by (auto simp: save_row_def assms(4))
qed

lemma map_found: "unique_keys key t \<Longrightarrow> find_row key k t = Some r \<Longrightarrow>
    map (\<lambda>x. if key x = k then f r else x) t = map (\<lambda>x. if key x = k then f x else x) t"
  by (intro map_cong) (auto dest: find_row_in_set)

text \<open>What a change of an order's amount, and a delivery, do to the payments.\<close>

definition settle :: "uuid \<Rightarrow> rat \<Rightarrow> bool \<Rightarrow> millis \<Rightarrow> payment \<Rightarrow> payment" where
  "settle oid amt delivered now p =
     (if pay_order_id p \<noteq> oid then p
      else if delivered \<and> pay_method p = COD \<and> pay_status p = PayPending
      then p\<lparr>pay_amount := dec_of_js amt, pay_status := PayCompleted, pay_paid_at := Some now\<rparr>
      else p\<lparr>pay_amount := dec_of_js amt\<rparr>)"

lemma update_amount_map:
  assumes "unique_keys pay_id (payments d)" "unique_keys pay_order_id (payments d)"
  shows "updateAmountForOrder oid amt d =
    d\<lparr>payments := map (\<lambda>p. if pay_order_id p = oid then p\<lparr>pay_amount := dec_of_js amt\<rparr> else p) (payments d)\<rparr>"
proof (cases "find_row pay_order_id oid (payments d)")
  case None
  then have "map (\<lambda>p. if pay_order_id p = oid then p\<lparr>pay_amount := dec_of_js amt\<rparr> else p) (payments d) = payments d"
    by (intro map_idI) (auto simp: find_row_None_iff)
  then show ?thesis by (simp add: updateAmountForOrder_def None)
next
  case (Some p)
  show ?thesis
    using save_found [OF assms Some, of "p\<lparr>pay_amount := dec_of_js amt\<rparr>"] map_found [OF assms(2) Some]
    by (simp add: updateAmountForOrder_def Some save_payment_def)
qed

lemma mark_cod_map:
  assumes "unique_keys pay_id (payments d)" "unique_keys pay_order_id (payments d)"
  shows "markCodCompleted oid t d =
    d\<lparr>payments := map (\<lambda>p. if pay_order_id p = oid \<and> pay_method p = COD \<and> pay_status p = PayPending
                          then p\<lparr>pay_status := PayCompleted, pay_paid_at := Some t\<rparr> else p) (payments d)\<rparr>"
proof (cases "find_row pay_order_id oid (payments d)")
  case None
  then have "map (\<lambda>p. if pay_order_id p = oid \<and> pay_method p = COD \<and> pay_status p = PayPending
      then p\<lparr>pay_status := PayCompleted, pay_paid_at := Some t\<rparr> else p) (payments d) = payments d"
    by (intro map_idI) (auto simp: find_row_None_iff)
  then show ?thesis by (simp add: markCodCompleted_def None)
next
  case (Some p)
  let ?f = "\<lambda>p. if pay_method p = COD \<and> pay_status p = PayPending
      then p\<lparr>pay_status := PayCompleted, pay_paid_at := Some t\<rparr> else p"
  have self: "p \<in> set (payments d)" "find_row pay_id (pay_id p) (payments d) = Some p"
    using find_row_SomeD [OF Some] find_row_in_set [OF assms(1)] by auto
  have "markCodCompleted oid t d = d\<lparr>payments := save_row pay_id (?f p) (payments d)\<rparr>"
    using save_row_self [OF assms(1) self(2)] by (simp add: markCodCompleted_def Some save_payment_def)
  also have "save_row pay_id (?f p) (payments d) = map (\<lambda>x. if pay_order_id x = oid then ?f p else x) (payments d)"
    by (rule save_found [OF assms Some]) simp
  also have "\<dots> = map (\<lambda>x. if pay_order_id x = oid then ?f x else x) (payments d)" by (rule map_found [OF assms(2) Some])
  finally show ?thesis by (simp add: if_distrib cong: if_cong)
qed

lemma settle_map:
  assumes "unique_keys pay_id (payments d)" "unique_keys pay_order_id (payments d)"
  shows "(let d3 = updateAmountForOrder oid amt d in if delivered then markCodCompleted oid now d3 else d3)
     = d\<lparr>payments := map (settle oid amt delivered now) (payments d)\<rparr>"
proof -
  let ?d3 = "updateAmountForOrder oid amt d"
  have keys: "unique_keys pay_id (payments ?d3)" "unique_keys pay_order_id (payments ?d3)"
    using assms by (simp_all add: update_amount_map unique_keys_def comp_def if_distrib cong: if_cong)
  note m = mark_cod_map [OF keys, of oid now, unfolded update_amount_map [OF assms]]
  let ?paid = "\<lambda>p. if pay_order_id p = oid \<and> pay_method p = COD \<and> pay_status p = PayPending
            then p\<lparr>pay_status := PayCompleted, pay_paid_at := Some now\<rparr> else p"
  let ?amt = "\<lambda>p. if pay_order_id p = oid then p\<lparr>pay_amount := dec_of_js amt\<rparr> else p"
  have s: "settle oid amt True now = ?paid \<circ> ?amt" "settle oid amt False now = ?amt"
    by (auto simp: settle_def fun_eq_iff)
  show ?thesis
    by (cases delivered) (simp_all add: Let_def update_amount_map [OF assms] m s del: comp_apply)
qed

subsection \<open>What the operations change\<close>

definition keys_ok :: "db \<Rightarrow> bool" where
  "keys_ok d \<longleftrightarrow>
     unique_keys p_id (products d) \<and> unique_keys v_id (variants d) \<and> unique_keys o_id (orders d)
   \<and> unique_keys so_id (sub_orders d) \<and> unique_keys pay_id (payments d)
   \<and> unique_keys pay_order_id (payments d) \<and> ids_fresh d"

lemma keys_okD:
  "keys_ok d \<Longrightarrow> unique_keys p_id (products d)" "keys_ok d \<Longrightarrow> unique_keys v_id (variants d)"
  "keys_ok d \<Longrightarrow> unique_keys o_id (orders d)" "keys_ok d \<Longrightarrow> unique_keys so_id (sub_orders d)"
  "keys_ok d \<Longrightarrow> unique_keys pay_id (payments d)" "keys_ok d \<Longrightarrow> unique_keys pay_order_id (payments d)"
  "keys_ok d \<Longrightarrow> ids_fresh d"
  by (simp_all add: keys_ok_def)

lemma requested_append [simp]:
  "requested_product (xs @ ys) k = requested_product xs k + requested_product ys k"
  "requested_variant (xs @ ys) k = requested_variant xs k + requested_variant ys k"
  "requested_product [] k = 0" "requested_variant [] k = 0"
  by (simp_all add: requested_product_def requested_variant_def)

lemma move_nothing [simp]: "move_stock c [] d = d"
proof -
  have "move_product c [] = id" "move_variant c [] = id"
    by (simp_all add: move_product_def move_variant_def fun_eq_iff)
  then show ?thesis by (simp add: move_stock_def)
qed

lemma move_move: "move_product 1 xs (move_product 1 ys p) = move_product 1 (ys @ xs) p"
  "move_variant 1 xs (move_variant 1 ys v) = move_variant 1 (ys @ xs) v"
  by (simp_all add: move_product_def move_variant_def)

lemma refund_frame: "\<exists>cs us. refund_coupon u k d = d\<lparr>coupons := cs, user_coupons := us\<rparr>"
proof -
  obtain cs where r: "releaseCoupon k d = d\<lparr>coupons := cs\<rparr>"
  proof (cases "find_row c_id k (coupons d)")
    case None
    then show thesis by (intro that [of "coupons d"]) (simp add: releaseCoupon_def)
  next
    case (Some c)
    then show thesis by (intro that) (simp add: releaseCoupon_def)
  qed
  show ?thesis
  proof (cases u)
    case None
    then show ?thesis
      by (intro exI [of _ cs] exI [of _ "user_coupons d"]) (simp add: refund_coupon_def r)
  next
    case (Some v)
    then show ?thesis
      by (simp add: refund_coupon_def r markWalletUnused_def) (intro exI, rule refl)
  qed
qed

lemma restock_frame:
  assumes "restockAndRefundSubOrder so d = Inr d1" "unique_keys p_id (products d)" "unique_keys v_id (variants d)"
  obtains cs us where "d1 = (move_stock 1 (restock_targets so d) d)\<lparr>coupons := cs, user_coupons := us\<rparr>"
proof -
  from assms(1) obtain d0 where d0: "(if restock_targets so d = [] then Inr d else lockAndRestock (restock_targets so d) d) = Inr d0"
    and d1: "d1 = (case find_opt c_id (so_shop_coupon_id so) (coupons d) of
                    None \<Rightarrow> d0 | Some c \<Rightarrow> refund_coupon (owner_of so d) (c_id c) d0)"
    by (auto simp: restockAndRefundSubOrder_def Let_def split: sum.splits)
  have m: "d0 = move_stock 1 (restock_targets so d) d"
    using d0 save_stock_locked [OF assms(2,3)] by (auto simp: restock_unfold split: if_splits)
  show thesis
  proof (cases "find_opt c_id (so_shop_coupon_id so) (coupons d)")
    case None
    then show thesis using that [where cs = "coupons d0" and us = "user_coupons d0"] d1 m by simp
  next
    case (Some c)
    then show thesis using that refund_frame [of "owner_of so d" "c_id c" d0] d1 m by auto
  qed
qed

lemma move_stock_keys [simp]:
  "map p_id (products (move_stock c items d)) = map p_id (products d)"
  "map v_id (variants (move_stock c items d)) = map v_id (variants d)"
  by (simp_all add: move_stock_def comp_def)

lemma find_opt_keys:
  "map key t' = map key t \<Longrightarrow> map_option key (find_opt key ko t') = map_option key (find_opt key ko t)"
proof -
  assume m: "map key t' = map key t"
  have "map_option key (find_row key k t) = (if k \<in> set (map key t) then Some k else None)" for k t
    by (cases "find_row key k t") (auto simp: find_row_None_iff dest!: find_row_SomeD)
  then show ?thesis by (cases ko) (simp_all add: find_opt_def m del: set_map)
qed

lemma restock_targets_keys:
  assumes "map p_id (products d') = map p_id (products d)" "map v_id (variants d') = map v_id (variants d)"
    and "order_items d' = order_items d" "so_id so' = so_id so"
  shows "restock_targets so' d' = restock_targets so d"
proof -
  have "(find_opt p_id k (products d') \<noteq> None) = (find_opt p_id k (products d) \<noteq> None)" for k
    using find_opt_keys [OF assms(1), of k] by (metis option.map_disc_iff)
  then show ?thesis
    using find_opt_keys [OF assms(2)] by (simp add: restock_targets_def items_of_def assms(3,4))
qed

definition cancelled :: "sub_order \<Rightarrow> sub_order" where "cancelled so = so\<lparr>so_status := Cancelled\<rparr>"

definition cancel_in :: "sub_order list \<Rightarrow> sub_order \<Rightarrow> sub_order" where
  "cancel_in sos s = (if s \<in> set sos then cancelled s else s)"

lemma save_sub_map:
  assumes "unique_keys so_id (sub_orders d)" "so \<in> set (sub_orders d)" "so_id so' = so_id so"
  shows "save_sub so' d = d\<lparr>sub_orders := map (\<lambda>s. if s = so then so' else s) (sub_orders d)\<rparr>"
proof -
  have "find_row so_id (so_id so) (sub_orders d) = Some so" using find_row_in_set [OF assms(1,2)] .
  from save_found [OF assms(1,1) this assms(3)]
  have "save_row so_id so' (sub_orders d) = map (\<lambda>s. if so_id s = so_id so then so' else s) (sub_orders d)" .
  also have "\<dots> = map (\<lambda>s. if s = so then so' else s) (sub_orders d)"
    using assms(1,2) by (intro map_cong) (auto simp: unique_keys_def distinct_map inj_on_def)
  finally show ?thesis by (simp add: save_sub_def)
qed

lemma cancel_pending_frame:
  assumes "cancel_pending sos d = Inr d1" "unique_keys p_id (products d)" "unique_keys v_id (variants d)"
    and "unique_keys so_id (sub_orders d)" "set sos \<subseteq> set (sub_orders d)" "distinct sos"
  shows "\<exists>cs us. d1 = (move_stock 1 (concat (map (\<lambda>s. restock_targets s d) sos)) d)
            \<lparr>sub_orders := map (cancel_in sos) (sub_orders d), coupons := cs, user_coupons := us\<rparr>"
  using assms
proof (induction sos arbitrary: d)
  case Nil
  have "cancel_in [] = id" by (simp add: cancel_in_def fun_eq_iff)
  with Nil show ?case by (intro exI [of _ "coupons d"] exI [of _ "user_coupons d"]) simp
next
  case (Cons so sos)
  from Cons.prems(1) obtain d0 where r: "restockAndRefundSubOrder so d = Inr d0"
    and rest: "cancel_pending sos (save_sub (cancelled so) d0) = Inr d1"
    by (auto simp: cancelled_def split: sum.splits)
  obtain cs us where d0: "d0 = (move_stock 1 (restock_targets so d) d)\<lparr>coupons := cs, user_coupons := us\<rparr>"
    using restock_frame [OF r Cons.prems(2,3)] .
  let ?S = "map (\<lambda>s. if s = so then cancelled so else s) (sub_orders d)"
  let ?d2 = "d0\<lparr>sub_orders := ?S\<rparr>"
  have subs: "sub_orders d0 = sub_orders d" by (simp add: d0 move_stock_def)
  have save: "save_sub (cancelled so) d0 = ?d2"
    using save_sub_map [of d0 so "cancelled so"] Cons.prems(4,5) by (simp add: subs cancelled_def)
  have ids: "map so_id (sub_orders ?d2) = map so_id (sub_orders d)" by (auto simp: cancelled_def)
  have keys: "map p_id (products ?d2) = map p_id (products d)" "map v_id (variants ?d2) = map v_id (variants d)"
    "order_items ?d2 = order_items d"
    by (simp_all add: d0) (simp add: move_stock_def)
  have u: "unique_keys p_id (products ?d2)" "unique_keys v_id (variants ?d2)" "unique_keys so_id (sub_orders ?d2)"
    using Cons.prems(2-4) by (simp_all only: unique_keys_def keys ids)
  have "set sos \<subseteq> set (sub_orders ?d2)" using Cons.prems(5,6) by force
  from Cons.IH [OF rest [unfolded save] u this] Cons.prems(6) obtain cs' us' where
    d1: "d1 = (move_stock 1 (concat (map (\<lambda>s. restock_targets s ?d2) sos)) ?d2)
            \<lparr>sub_orders := map (cancel_in sos) (sub_orders ?d2), coupons := cs', user_coupons := us'\<rparr>"
    by auto
  have t: "restock_targets s ?d2 = restock_targets s d" for s by (rule restock_targets_keys [OF keys refl])
  have c: "(\<lambda>x. cancel_in sos (if x = so then cancelled so else x)) = cancel_in (so # sos)"
    by (auto simp: cancel_in_def cancelled_def fun_eq_iff)
  show ?case
    by (rule exI [of _ cs'], rule exI [of _ us'])
      (simp add: d1 t, simp add: d0 move_stock_def move_move comp_def c)
qed

text \<open>What the recomputation never changes in an order.\<close>

definition same_order :: "order_row \<Rightarrow> order_row \<Rightarrow> bool" where
  "same_order x y \<longleftrightarrow> o_id y = o_id x \<and> o_customer_id y = o_customer_id x
     \<and> o_idempotency_key y = o_idempotency_key x \<and> o_order_number y = o_order_number x
     \<and> o_created_at y = o_created_at x \<and> o_shipping_address y = o_shipping_address x"

lemma reevaluate_frame:
  "\<exists>cs us. fst (reevaluate_global ord none_active remaining d) = d\<lparr>coupons := cs, user_coupons := us\<rparr>"
proof (cases "find_opt c_id (o_global_coupon_id ord) (coupons d)")
  case None
  then show ?thesis
    by (intro exI [of _ "coupons d"] exI [of _ "user_coupons d"]) (simp add: reevaluate_global_def)
next
  case (Some c)
  have "\<exists>cs us. d = d\<lparr>coupons := cs, user_coupons := us\<rparr>"
    by (intro exI [of _ "coupons d"] exI [of _ "user_coupons d"]) simp
  with Some refund_frame [of "o_customer_id ord" "c_id c" d] show ?thesis by (simp add: reevaluate_global_def)
qed

lemma recompute_frame:
  assumes "recomputeMasterAfterSubOrderChange oid now d = Inr (d', st, amt)"
    and "unique_keys pay_id (payments d)" "unique_keys pay_order_id (payments d)"
  obtains ord ord' cs us where "find_row o_id oid (orders d) = Some ord" "same_order ord ord'"
    "o_status ord' = st" "o_total_amount ord' = dec_of_js amt" "st = deriveMasterStatus (map so_status (siblings oid d))"
    "d' = d\<lparr>coupons := cs, user_coupons := us, orders := save_row o_id ord' (orders d),
            payments := map (settle oid amt (st = Delivered) now) (payments d)\<rparr>"
proof -
  from assms(1) obtain ord where ord: "find_row o_id oid (orders d) = Some ord"
    by (auto simp: recomputeMasterAfterSubOrderChange_def split: option.splits)
  obtain rem sm where f: "foldl (add_active d) (0, 0) (active_subs (siblings oid d)) = (rem, sm)" by fastforce
  obtain d1 co gd where g: "reevaluate_global ord (active_subs (siblings oid d) = []) rem d = (d1, co, gd)"
    using prod_cases3 by blast
  obtain cs us where d1: "d1 = d\<lparr>coupons := cs, user_coupons := us\<rparr>"
    using reevaluate_frame [of ord "active_subs (siblings oid d) = []" rem d] by (auto simp: g)
  let ?amt = "round2 (max 0 (js_sub sm gd))" and ?st = "deriveMasterStatus (map so_status (siblings oid d))"
  let ?ord = "ord\<lparr>o_total_amount := dec_of_js ?amt, o_status := ?st,
                  o_global_discount_amount := map_option (\<lambda>_. dec_of_js gd) co,
                  o_global_coupon_code := map_option c_code co, o_global_coupon_id := map_option c_id co\<rparr>"
  let ?d2 = "d1\<lparr>orders := save_row o_id ?ord (orders d1)\<rparr>"
  have r: "st = ?st" "amt = ?amt"
    "d' = (let d3 = updateAmountForOrder oid ?amt ?d2 in if ?st = Delivered then markCodCompleted oid now d3 else d3)"
    using assms(1) by (auto simp: recomputeMasterAfterSubOrderChange_def ord f g Let_def)
  have "d' = ?d2\<lparr>payments := map (settle oid ?amt (?st = Delivered) now) (payments ?d2)\<rparr>"
    unfolding r(3) by (rule settle_map) (simp_all add: d1 assms(2,3))
  then show thesis
    using r by (intro that [where ord' = ?ord, OF ord]) (simp_all add: d1 same_order_def)
qed

text \<open>A change of status of some sub-orders of one order, with everything that follows from it.\<close>

definition status_change :: "sub_order list \<Rightarrow> order_status \<Rightarrow> uuid \<Rightarrow> db \<Rightarrow> db \<Rightarrow> bool" where
  "status_change sos st oid d d' \<longleftrightarrow>
     set sos \<subseteq> set (siblings oid d) \<and> distinct sos
   \<and> (\<forall>s \<in> set sos. st \<in> set (sub_order_state_machine (so_status s)))
   \<and> (let targets = (if st = Cancelled then concat (map (\<lambda>s. restock_targets s d) sos) else [])
      in products d' = map (move_product 1 targets) (products d)
       \<and> variants d' = map (move_variant 1 targets) (variants d))
   \<and> order_items d' = order_items d \<and> next_uuid d' = next_uuid d \<and> shops d' = shops d
   \<and> (\<exists>f. sub_orders d' = map (\<lambda>s. if s \<in> set sos then f s else s) (sub_orders d)
        \<and> (\<forall>s. so_id (f s) = so_id s \<and> so_order_id (f s) = so_order_id s \<and> so_status (f s) = st))
   \<and> (\<exists>ord ord' g. find_row o_id oid (orders d) = Some ord \<and> same_order ord ord'
        \<and> o_status ord' = deriveMasterStatus (map so_status (siblings oid d'))
        \<and> orders d' = save_row o_id ord' (orders d) \<and> payments d' = map g (payments d)
        \<and> (\<forall>p. pay_id (g p) = pay_id p \<and> pay_order_id (g p) = pay_order_id p
             \<and> pay_amount (g p) = (if pay_order_id p = oid then o_total_amount ord' else pay_amount p))
        \<and> (\<forall>p. pay_method (g p) = pay_method p)
        \<and> (\<forall>p \<in> set (payments d). pay_status p = PayCompleted \<longrightarrow> pay_status (g p) = PayCompleted))"

lemma status_change_subs:
  assumes "status_change sos st oid d d'"
  obtains f where "sub_orders d' = map (\<lambda>s. if s \<in> set sos then f s else s) (sub_orders d)"
    "\<forall>s. so_id (f s) = so_id s \<and> so_order_id (f s) = so_order_id s \<and> so_status (f s) = st"
    "set sos \<subseteq> set (siblings oid d)"
  using assms unfolding status_change_def by (elim conjE exE) (rule that)

lemma status_change_orders:
  assumes "status_change sos st oid d d'"
  obtains ord ord' g where "find_row o_id oid (orders d) = Some ord" "same_order ord ord'"
    "o_status ord' = deriveMasterStatus (map so_status (siblings oid d'))"
    "orders d' = save_row o_id ord' (orders d)" "payments d' = map g (payments d)"
    "\<forall>p. pay_id (g p) = pay_id p \<and> pay_order_id (g p) = pay_order_id p
       \<and> pay_amount (g p) = (if pay_order_id p = oid then o_total_amount ord' else pay_amount p)"
    "\<forall>p. pay_method (g p) = pay_method p"
    "\<forall>p \<in> set (payments d). pay_status p = PayCompleted \<longrightarrow> pay_status (g p) = PayCompleted"
  using assms unfolding status_change_def by (elim conjE exE) (rule that)

lemma settle_simps [simp]:
  "pay_id (settle oid amt dl now p) = pay_id p" "pay_order_id (settle oid amt dl now p) = pay_order_id p"
  "pay_amount (settle oid amt dl now p) = (if pay_order_id p = oid then dec_of_js amt else pay_amount p)"
  "pay_method (settle oid amt dl now p) = pay_method p"
  "pay_status p = PayCompleted \<Longrightarrow> pay_status (settle oid amt dl now p) = PayCompleted"
  by (simp_all add: settle_def)

lemma siblings_members: "set sos \<subseteq> set (siblings oid d) \<Longrightarrow> set sos \<subseteq> set (sub_orders d)"
  by (auto simp: siblings_def)

text \<open>The common end of the three operations: from the restocked state to the answer.\<close>

lemma status_changeI:
  assumes "set sos \<subseteq> set (siblings oid d)" "distinct sos" "keys_ok d"
    and "\<forall>s \<in> set sos. st \<in> set (sub_order_state_machine (so_status s))"
    and "targets = (if st = Cancelled then concat (map (\<lambda>s. restock_targets s d) sos) else [])"
    and "d2 = (move_stock 1 targets d)\<lparr>coupons := cs, user_coupons := us,
           sub_orders := map (\<lambda>s. if s \<in> set sos then f s else s) (sub_orders d)\<rparr>"
    and "\<forall>s. so_id (f s) = so_id s \<and> so_order_id (f s) = so_order_id s \<and> so_status (f s) = st"
    and "recomputeMasterAfterSubOrderChange oid now d2 = Inr (d3, st', amt)"
    and "products d' = products d3" "variants d' = variants d3" "order_items d' = order_items d3"
    and "next_uuid d' = next_uuid d3" "sub_orders d' = sub_orders d3" "orders d' = orders d3" "shops d' = shops d3"
    and "payments d' = map h (payments d3)"
    and "\<forall>p. pay_id (h p) = pay_id p \<and> pay_order_id (h p) = pay_order_id p \<and> pay_amount (h p) = pay_amount p
        \<and> pay_method (h p) = pay_method p"
    and "\<forall>p \<in> set (payments d). pay_status p = PayCompleted \<longrightarrow>
        (\<forall>q. pay_id q = pay_id p \<longrightarrow> pay_status (h q) = pay_status q)"
  shows "status_change sos st oid d d'"
proof -
  have same: "payments d2 = payments d" "orders d2 = orders d" "order_items d2 = order_items d"
    "next_uuid d2 = next_uuid d" "shops d2 = shops d"
    by (simp_all add: assms(6) move_stock_def)
  have u: "unique_keys pay_id (payments d2)" "unique_keys pay_order_id (payments d2)"
    using assms(3) by (simp_all add: same keys_ok_def)
  obtain ord ord' cs' us' where r: "find_row o_id oid (orders d2) = Some ord" "same_order ord ord'"
    "o_status ord' = st'" "o_total_amount ord' = dec_of_js amt" "st' = deriveMasterStatus (map so_status (siblings oid d2))"
    "d3 = d2\<lparr>coupons := cs', user_coupons := us', orders := save_row o_id ord' (orders d2),
            payments := map (settle oid amt (st' = Delivered) now) (payments d2)\<rparr>"
    using recompute_frame [OF assms(8) u] .
  have sib: "siblings oid d' = siblings oid d2" by (simp add: siblings_def assms(13) r(6))
  have d2: "sub_orders d2 = map (\<lambda>s. if s \<in> set sos then f s else s) (sub_orders d)"
    "products d2 = map (move_product 1 targets) (products d)" "variants d2 = map (move_variant 1 targets) (variants d)"
    by (simp_all add: assms(6) move_stock_def)
  show ?thesis
    unfolding status_change_def Let_def assms(5) [symmetric]
  proof (intro conjI)
    show "\<exists>f. sub_orders d' = map (\<lambda>s. if s \<in> set sos then f s else s) (sub_orders d)
        \<and> (\<forall>s. so_id (f s) = so_id s \<and> so_order_id (f s) = so_order_id s \<and> so_status (f s) = st)"
      using assms(7) by (intro exI [of _ f]) (simp add: assms(13) r(6) d2)
    show "\<exists>ord ord' g. find_row o_id oid (orders d) = Some ord \<and> same_order ord ord'
        \<and> o_status ord' = deriveMasterStatus (map so_status (siblings oid d'))
        \<and> orders d' = save_row o_id ord' (orders d) \<and> payments d' = map g (payments d)
        \<and> (\<forall>p. pay_id (g p) = pay_id p \<and> pay_order_id (g p) = pay_order_id p
             \<and> pay_amount (g p) = (if pay_order_id p = oid then o_total_amount ord' else pay_amount p))
        \<and> (\<forall>p. pay_method (g p) = pay_method p)
        \<and> (\<forall>p \<in> set (payments d). pay_status p = PayCompleted \<longrightarrow> pay_status (g p) = PayCompleted)"
      using r assms(17,18)
      by (intro exI [of _ ord] exI [of _ ord'] exI [of _ "h \<circ> settle oid amt (st' = Delivered) now"])
        (simp add: same sib assms(14,16))
  qed (use assms(1,2,4) in \<open>simp_all add: assms(9-12,15) r(6) d2 same\<close>)
qed

lemma in_siblings:
  "find_row so_id k (sub_orders d) = Some so \<Longrightarrow> find_opt o_id (so_order_id so) (orders d) = Some ord \<Longrightarrow>
   so \<in> set (siblings (o_id ord) d)"
  by (auto simp: siblings_def find_opt_def dest!: find_row_SomeD split: option.splits)

text \<open>One sub-order, restocked when it is cancelled, saved with its new status.\<close>

lemma single_change:
  assumes "keys_ok d" "so \<in> set (sub_orders d)"
    and "(if st = Cancelled then restockAndRefundSubOrder so d else Inr d) = Inr d1"
    and "so_id so' = so_id so"
  obtains cs us where "save_sub so' d1 = (move_stock 1 (if st = Cancelled then restock_targets so d else []) d)
      \<lparr>coupons := cs, user_coupons := us,
       sub_orders := map (\<lambda>s. if s = so then so' else s) (sub_orders d)\<rparr>"
proof -
  have u: "unique_keys p_id (products d)" "unique_keys v_id (variants d)" "unique_keys so_id (sub_orders d)"
    using assms(1) by (simp_all add: keys_ok_def)
  obtain cs us where d1: "d1 = (move_stock 1 (if st = Cancelled then restock_targets so d else []) d)
      \<lparr>coupons := cs, user_coupons := us\<rparr>"
  proof (cases "st = Cancelled")
    case True
    with assms(3) restock_frame [OF _ u(1,2)] that show thesis by (metis (full_types))
  next
    case False
    with assms(3) that [where cs = "coupons d" and us = "user_coupons d"] show thesis by simp
  qed
  then have "sub_orders d1 = sub_orders d" by (simp add: move_stock_def)
  with save_sub_map [of d1 so so'] u(3) assms(2,4) d1 show thesis by (intro that) simp
qed

lemma cancel_change:
  assumes "cancelSubOrder userId k now d = Inr (d', oid, k', st, amt)" "keys_ok d"
  obtains so where "find_row so_id k (sub_orders d) = Some so" "so_status so = Pending"
    "status_change [so] Cancelled oid d d'" "owner_of so d = Some userId"
proof -
  from assms(1) obtain so ord d1 d3 where so: "find_row so_id k (sub_orders d) = Some so"
    and ord: "find_opt o_id (so_order_id so) (orders d) = Some ord" "o_id ord = oid"
    and st: "so_status so = Pending" and owner: "o_customer_id ord = Some userId"
    and r: "restockAndRefundSubOrder so d = Inr d1"
      "recomputeMasterAfterSubOrderChange oid now (save_sub (so\<lparr>so_status := Cancelled\<rparr>) d1) = Inr (d3, st, amt)"
    and d': "d' = d3\<lparr>outbox := outbox d3 @ [order_cancelled_event ord so userId d3]\<rparr>"
    by (auto simp: cancelSubOrder_def Let_def split: option.splits sum.splits if_splits)
  have sib: "so \<in> set (siblings oid d)" using in_siblings [OF so ord(1)] ord(2) by simp
  have so': "so \<in> set (sub_orders d)" using find_row_SomeD [OF so] by blast
  obtain cs us where d2: "save_sub (so\<lparr>so_status := Cancelled\<rparr>) d1
      = (move_stock 1 (restock_targets so d) d)\<lparr>coupons := cs, user_coupons := us,
           sub_orders := map (\<lambda>s. if s = so then so\<lparr>so_status := Cancelled\<rparr> else s) (sub_orders d)\<rparr>"
    by (rule single_change [OF assms(2) so', of Cancelled d1 "so\<lparr>so_status := Cancelled\<rparr>"]) (use r(1) in auto)
  have eq: "(\<lambda>s. if s = so then so\<lparr>so_status := Cancelled\<rparr> else s)
      = (\<lambda>s. if s \<in> set [so] then s\<lparr>so_status := Cancelled\<rparr> else s)" by auto
  have "status_change [so] Cancelled oid d d'"
    by (rule status_changeI [where f = "\<lambda>s. s\<lparr>so_status := Cancelled\<rparr>" and h = id, OF _ _ assms(2) _ refl _ _ r(2)])
      (use sib st in \<open>simp_all add: d2 eq d'\<close>)
  moreover have "owner_of so d = Some userId" by (simp add: owner_of_def ord owner)
  ultimately show thesis using that so st by blast
qed

lemma update_change:
  assumes "updateSubOrderStatus sellerId k new now d = Inr (d', ans)" "keys_ok d"
  shows "(d' = d \<and> (\<exists>so. find_row so_id k (sub_orders d) = Some so \<and> so_status so = new))
    \<or> (\<exists>so oid. find_row so_id k (sub_orders d) = Some so \<and> status_change [so] new oid d d' \<and> \<not> isVnpayUnpaid oid d)"
proof -
  from assms(1) obtain so ord where so: "find_row so_id k (sub_orders d) = Some so"
    and ord: "find_opt o_id (so_order_id so) (orders d) = Some ord" "\<not> isVnpayUnpaid (o_id ord) d"
    by (auto simp: updateSubOrderStatus_def Let_def split: option.splits if_splits)
  show ?thesis
  proof (cases "so_status so = new")
    case True
    then have "d' = d" using assms(1) so ord
      by (auto simp: updateSubOrderStatus_def Let_def split: if_splits)
    with so True show ?thesis by blast
  next
    case False
    let ?so = "if new = Delivered then so\<lparr>so_status := new, so_delivered_at := Some now\<rparr> else so\<lparr>so_status := new\<rparr>"
    let ?f = "\<lambda>s. if new = Delivered then s\<lparr>so_status := new, so_delivered_at := Some now\<rparr> else s\<lparr>so_status := new\<rparr>"
    from assms(1) so ord False obtain d1 d3 st amt c where allowed: "new \<in> set (sub_order_state_machine (so_status so))"
      and r: "(if new = Cancelled then restockAndRefundSubOrder so d else Inr d) = Inr d1"
        "recomputeMasterAfterSubOrderChange (o_id ord) now (save_sub ?so d1) = Inr (d3, st, amt)"
      and d': "d' = d3\<lparr>outbox := outbox d3 @ [OrderStatusUpdated (o_id ord) (o_order_number ord) (so_id so)
                       (Some c) (so_shop_id so) new]\<rparr>"
      by (auto simp: updateSubOrderStatus_def Let_def split: option.splits sum.splits if_splits)
    have so': "so \<in> set (sub_orders d)" using find_row_SomeD [OF so] by blast
    obtain cs us where d2: "save_sub ?so d1
      = (move_stock 1 (if new = Cancelled then restock_targets so d else []) d)\<lparr>coupons := cs, user_coupons := us,
           sub_orders := map (\<lambda>s. if s = so then ?so else s) (sub_orders d)\<rparr>"
      by (rule single_change [OF assms(2) so' r(1), of ?so]) auto
    have eq: "(\<lambda>s. if s = so then ?so else s) = (\<lambda>s. if s \<in> set [so] then ?f s else s)" by auto
    have "status_change [so] new (o_id ord) d d'"
      by (rule status_changeI [where f = ?f and h = id and cs = cs and us = us, OF _ _ assms(2) _ refl _ _ r(2)])
        (use in_siblings [OF so ord(1)] allowed in \<open>simp_all add: d2 eq d'\<close>)
    with so ord show ?thesis by blast
  qed
qed

lemma mark_expired_map:
  assumes "unique_keys pay_id (payments d)"
  shows "markVnpayExpired k d =
    d\<lparr>payments := map (\<lambda>p. if pay_id p = k then p\<lparr>pay_status := PayFailed\<rparr> else p) (payments d)\<rparr>"
proof (cases "find_row pay_id k (payments d)")
  case None
  then have "map (\<lambda>p. if pay_id p = k then p\<lparr>pay_status := PayFailed\<rparr> else p) (payments d) = payments d"
    by (intro map_idI) (auto simp: find_row_None_iff)
  then show ?thesis by (simp add: markVnpayExpired_def None)
next
  case (Some p)
  show ?thesis
    using save_found [OF assms assms Some, of "p\<lparr>pay_status := PayFailed\<rparr>"] map_found [OF assms Some]
    by (simp add: markVnpayExpired_def Some save_payment_def)
qed

lemma expiry_info_order:
  assumes "getVnpayExpiryInfo oid db_now d = Some info" "unique_keys pay_order_id (payments d)"
  obtains p ord where "find_row pay_order_id oid (payments d) = Some p" "pay_method p = VNPAY"
    "pay_status p \<notin> {PayCompleted, PayRefunded}" "find_row o_id oid (orders d) = Some ord"
    "info = \<lparr>ei_paymentId = pay_id p, ei_orderAgeMs = db_now - o_created_at ord,
             ei_latestAttemptAgeMs = map_option (\<lambda>t. db_now - t) (latest_attempt_at (pay_id p) d)\<rparr>"
proof -
  from assms(1) obtain p ord where f: "find (\<lambda>p. pay_order_id p = oid \<and> pay_method p = VNPAY
      \<and> pay_status p \<notin> {PayCompleted, PayRefunded}) (payments d) = Some p"
    "find_row o_id oid (orders d) = Some ord"
    "info = \<lparr>ei_paymentId = pay_id p, ei_orderAgeMs = db_now - o_created_at ord,
             ei_latestAttemptAgeMs = map_option (\<lambda>t. db_now - t) (latest_attempt_at (pay_id p) d)\<rparr>"
    by (auto simp: getVnpayExpiryInfo_def split: option.splits)
  from f(1) have p: "p \<in> set (payments d)" "pay_order_id p = oid" "pay_method p = VNPAY"
    "pay_status p \<notin> {PayCompleted, PayRefunded}"
    by (auto simp: find_Some_iff)
  with find_row_in_set [OF assms(2) p(1)] f(2,3) show thesis by (intro that) auto
qed

lemma find_by_key:
  assumes "find_row key k t = Some p" "P p"
  shows "find (\<lambda>p. key p = k \<and> P p) t = Some p"
  using assms by (induction t) (auto simp: find_row_Cons split: if_splits)

text \<open>What an expiry needs and does.\<close>

definition expiry_due :: "uuid \<Rightarrow> millis \<Rightarrow> db \<Rightarrow> payment \<Rightarrow> bool" where
  "expiry_due oid db_now d p \<longleftrightarrow>
     find_row pay_order_id oid (payments d) = Some p \<and> pay_method p = VNPAY
   \<and> pay_status p \<notin> {PayCompleted, PayRefunded}
   \<and> (\<exists>ord. find_row o_id oid (orders d) = Some ord \<and> o_status ord \<noteq> Cancelled
        \<and> \<not> isWithinPaymentWindow (db_now - o_created_at ord)
             (map_option (\<lambda>t. db_now - t) (latest_attempt_at (pay_id p) d)))"

lemma expire_change:
  assumes "expireUnpaidVnpayOrder oid db_now now d = Inr (d', b)" "keys_ok d"
  shows "(\<not> b \<and> d' = d) \<or> (b \<and> (\<exists>p. expiry_due oid db_now d p)
     \<and> status_change (filter (\<lambda>so. so_status so = Pending) (siblings oid d)) Cancelled oid d d'
     \<and> (\<exists>q. find_row pay_order_id oid (payments d') = Some q \<and> pay_status q = PayFailed))"
proof (cases b)
  case False
  then show ?thesis using assms(1) by (auto simp: expireUnpaidVnpayOrder_def split: option.splits sum.splits if_splits)
next
  case True
  let ?sos = "filter (\<lambda>so. so_status so = Pending) (siblings oid d)"
  from assms(1) True obtain info ord d1 d2 st amt where i: "getVnpayExpiryInfo oid db_now d = Some info"
    and ord: "find_row o_id oid (orders d) = Some ord" "o_status ord \<noteq> Cancelled"
    and w: "\<not> isWithinPaymentWindow (ei_orderAgeMs info) (ei_latestAttemptAgeMs info)"
    and c: "cancel_pending ?sos d = Inr d1" and r: "recomputeMasterAfterSubOrderChange oid now d1 = Inr (d2, st, amt)"
    and d': "d' = markVnpayExpired (ei_paymentId info) d2"
    by (auto simp: expireUnpaidVnpayOrder_def split: option.splits sum.splits if_splits)
  have k: "unique_keys p_id (products d)" "unique_keys v_id (variants d)" "unique_keys so_id (sub_orders d)"
    "unique_keys pay_id (payments d)" "unique_keys pay_order_id (payments d)"
    using assms(2) by (simp_all add: keys_ok_def)
  obtain p ord' where p: "find_row pay_order_id oid (payments d) = Some p" "pay_method p = VNPAY"
    "pay_status p \<notin> {PayCompleted, PayRefunded}" "find_row o_id oid (orders d) = Some ord'"
    "info = \<lparr>ei_paymentId = pay_id p, ei_orderAgeMs = db_now - o_created_at ord',
             ei_latestAttemptAgeMs = map_option (\<lambda>t. db_now - t) (latest_attempt_at (pay_id p) d)\<rparr>"
    using expiry_info_order [OF i k(5)] .
  have due: "expiry_due oid db_now d p" using p ord w by (simp add: expiry_due_def)
  have "distinct (sub_orders d)" using k(3) by (simp add: unique_keys_def distinct_map)
  then have dist: "distinct ?sos" by (simp add: siblings_def)
  have sub: "set ?sos \<subseteq> set (siblings oid d)" by auto
  obtain cs us where d1: "d1 = (move_stock 1 (concat (map (\<lambda>s. restock_targets s d) ?sos)) d)
      \<lparr>sub_orders := map (cancel_in ?sos) (sub_orders d), coupons := cs, user_coupons := us\<rparr>"
    using cancel_pending_frame [OF c k(1-3) _ dist] by (auto simp: siblings_def)
  have same: "payments d1 = payments d" by (simp add: d1 move_stock_def)
  let ?g = "settle oid amt (st = Delivered) now"
  have g: "payments d2 = map ?g (payments d)"
    by (rule recompute_frame [OF r]) (simp_all add: same k)
  let ?h = "\<lambda>q. if pay_id q = ei_paymentId info then q\<lparr>pay_status := PayFailed\<rparr> else q"
  have u2: "unique_keys pay_id (payments d2)" using k(4) by (simp add: g unique_keys_def comp_def)
  note d'' = mark_expired_map [OF u2, of "ei_paymentId info"]
  have paid: "\<forall>q \<in> set (payments d). pay_status q = PayCompleted \<longrightarrow> pay_id q \<noteq> ei_paymentId info"
  proof (intro ballI impI notI)
    fix q assume q: "q \<in> set (payments d)" "pay_status q = PayCompleted" "pay_id q = ei_paymentId info"
    have "p \<in> set (payments d)" using find_row_SomeD [OF p(1)] by blast
    then have "q = p" using q(1,3) p(5) k(4) by (auto simp: unique_keys_def distinct_map inj_on_def)
    with q(2) p(3) show False by simp
  qed
  have "status_change ?sos Cancelled oid d d'"
    by (rule status_changeI [where f = cancelled and h = ?h and cs = cs and us = us, OF sub dist assms(2) _ refl _ _ r])
      (simp_all add: d1 d' d'' cancelled_def cancel_in_def [abs_def] paid)
  moreover have "find_row pay_order_id oid (payments d') = Some (?h (?g p))"
  proof -
    have "payments d' = map (\<lambda>x. ?h (?g x)) (payments d)" by (simp add: d' d'' g comp_def)
    then show ?thesis using find_row_map [of "payments d" pay_order_id "\<lambda>x. ?h (?g x)" oid] p(1) by simp
  qed
  moreover have "pay_status (?h (?g p)) = PayFailed" using p(5) by simp
  ultimately show ?thesis using True due by blast
qed

subsection \<open>The recomputed total\<close>

definition shop_part :: "db \<Rightarrow> sub_order \<Rightarrow> int" where
  "shop_part d so = so_sub_total so
     - discount_cents (find_opt c_id (so_shop_coupon_id so) (coupons d)) (so_sub_total so) + so_shipping_fee so"

definition sub_order_sane :: "sub_order \<Rightarrow> bool" where
  "sub_order_sane so \<longleftrightarrow> 0 \<le> so_sub_total so \<and> 0 \<le> so_shipping_fee so \<and> so_shipping_fee so \<le> 15000000"

lemma shop_part_near:
  assumes "sub_order_sane so" "so_sub_total so \<le> order_limit"
  shows "near (1 / 2 ^ 16) (shop_part d so)
      (js_add (js_sub (js_of_dec (so_sub_total so)) (current_shop_discount d so)) (js_of_dec (so_shipping_fee so)))"
    and "0 \<le> shop_part d so" "shop_part d so \<le> so_sub_total so + 15000000"
proof -
  let ?b = "so_sub_total so" and ?c = "find_opt c_id (so_shop_coupon_id so) (coupons d)"
  have B: "0 \<le> ?b" "?b \<le> dec_bound" using assms by (auto simp: sub_order_sane_def order_limit_def dec_bound_def)
  note dis = discount_bounds [OF B, of ?c]
  have cur: "current_shop_discount d so = js_of_dec (discount_cents ?c ?b)"
    unfolding dis(1) [symmetric] by (simp add: current_shop_discount_def discount_of_def split: option.split)
  show "0 \<le> shop_part d so" "shop_part d so \<le> ?b + 15000000"
    using dis assms(1) by (auto simp: shop_part_def sub_order_sane_def)
  have "near (1 / 2 ^ 19 + 1 / 2 ^ 19 + 1 / 2 ^ 18) (?b - discount_cents ?c ?b)
      (js_sub (js_of_dec ?b) (js_of_dec (discount_cents ?c ?b)))"
    using dis B by (intro near_sub near_js_dec) auto
  then have "near (1 / 2 ^ 19 + 1 / 2 ^ 19 + 1 / 2 ^ 18 + 1 / 2 ^ 19 + 1 / 2 ^ 18) (?b - discount_cents ?c ?b + so_shipping_fee so)
      (js_add (js_sub (js_of_dec ?b) (js_of_dec (discount_cents ?c ?b))) (js_of_dec (so_shipping_fee so)))"
    using dis assms by (intro near_add near_js_dec) (auto simp: sub_order_sane_def order_limit_def dec_bound_def)
  then show "near (1 / 2 ^ 16) (shop_part d so)
      (js_add (js_sub (js_of_dec ?b) (current_shop_discount d so)) (js_of_dec (so_shipping_fee so)))"
    unfolding cur shop_part_def by (rule near_mono) simp
qed

lemma add_active_exact:
  assumes "\<forall>so \<in> set sos. sub_order_sane so" "length sos \<le> 400" "(\<Sum>so\<leftarrow>sos. so_sub_total so) \<le> order_limit"
  shows "foldl (add_active d) (0, 0) sos = (js_of_dec (\<Sum>so\<leftarrow>sos. so_sub_total so), js_of_dec (\<Sum>so\<leftarrow>sos. shop_part d so))
    \<and> 0 \<le> (\<Sum>so\<leftarrow>sos. so_sub_total so) \<and> 0 \<le> (\<Sum>so\<leftarrow>sos. shop_part d so)
    \<and> (\<Sum>so\<leftarrow>sos. shop_part d so) \<le> (\<Sum>so\<leftarrow>sos. so_sub_total so) + 15000000 * int (length sos)"
  using assms
proof (induction sos rule: rev_induct)
  case (snoc so sos)
  have so: "sub_order_sane so" and sos: "\<forall>so \<in> set sos. sub_order_sane so" "length sos \<le> 400" using snoc.prems by auto
  have nn: "0 \<le> (\<Sum>so\<leftarrow>sos. so_sub_total so)" using sos(1) by (intro sum_list_nonneg) (auto simp: sub_order_sane_def)
  have b: "0 \<le> so_sub_total so" using so by (simp add: sub_order_sane_def)
  have lim: "(\<Sum>so\<leftarrow>sos. so_sub_total so) \<le> order_limit" "so_sub_total so \<le> order_limit" using snoc.prems(3) b nn by auto
  let ?S = "\<Sum>so\<leftarrow>sos. so_sub_total so" and ?T = "\<Sum>so\<leftarrow>sos. shop_part d so"
  note IH = snoc.IH [OF sos lim(1)] and part = shop_part_near [OF so lim(2), of d]
  have T: "0 \<le> ?T" "?T \<le> ?S + 15000000 * int (length sos)" using IH by auto
  have bound: "?T + shop_part d so \<le> dec_bound" "?T \<le> dec_bound" "?S + so_sub_total so \<le> dec_bound"
    using T part snoc.prems(2,3) b by (auto simp: order_limit_def dec_bound_def)
  have 1: "round2 (js_add (js_of_dec ?S) (js_of_dec (so_sub_total so))) = js_of_dec (?S + so_sub_total so)"
    using nn b bound(3) by (intro round2_add_dec) auto
  have "near (1 / 2 ^ 19 + 1 / 2 ^ 16 + 1 / 2 ^ 18) (?T + shop_part d so)
      (js_add (js_of_dec ?T) (js_add (js_sub (js_of_dec (so_sub_total so)) (current_shop_discount d so))
         (js_of_dec (so_shipping_fee so))))"
    using T part bound by (intro near_add near_js_dec part(1)) auto
  then have "near (1 / 256) (?T + shop_part d so)
      (js_add (js_of_dec ?T) (js_add (js_sub (js_of_dec (so_sub_total so)) (current_shop_discount d so))
         (js_of_dec (so_shipping_fee so))))" by (rule near_mono) simp
  then have 2: "round2 (js_add (js_of_dec ?T) (js_add (js_sub (js_of_dec (so_sub_total so)) (current_shop_discount d so))
         (js_of_dec (so_shipping_fee so)))) = js_of_dec (?T + shop_part d so)"
    using T part bound by (intro round2_near) auto
  show ?case using IH 1 2 T part b nn by (simp add: add_active_def)
qed simp


text \<open>The platform's discount after a change: nothing when no coupon applies any more.\<close>

definition global_cents :: "coupon option \<Rightarrow> sub_order list \<Rightarrow> int" where
  "global_cents c sos =
     (let rest = (\<Sum>so\<leftarrow>sos. so_sub_total so)
      in if sos = [] \<or> (\<exists>m. Option.bind c c_min_order_value = Some m \<and> rest < m) then 0
         else discount_cents c rest)"

definition minimum_in_range :: "coupon \<Rightarrow> bool" where
  "minimum_in_range c \<longleftrightarrow> pred_option (\<lambda>m. \<bar>m\<bar> \<le> dec_bound) (c_min_order_value c)"

lemma reevaluate_cents:
  assumes "0 \<le> (\<Sum>so\<leftarrow>sos. so_sub_total so)" "(\<Sum>so\<leftarrow>sos. so_sub_total so) \<le> order_limit"
    and "pred_option minimum_in_range (find_opt c_id (o_global_coupon_id ord) (coupons d))"
  shows "snd (snd (reevaluate_global ord (sos = []) (js_of_dec (\<Sum>so\<leftarrow>sos. so_sub_total so)) d))
     = js_of_dec (global_cents (find_opt c_id (o_global_coupon_id ord) (coupons d)) sos)"
    and "0 \<le> global_cents (find_opt c_id (o_global_coupon_id ord) (coupons d)) sos"
    and "global_cents (find_opt c_id (o_global_coupon_id ord) (coupons d)) sos \<le> (\<Sum>so\<leftarrow>sos. so_sub_total so)"
proof -
  let ?S = "\<Sum>so\<leftarrow>sos. so_sub_total so" and ?c = "find_opt c_id (o_global_coupon_id ord) (coupons d)"
  have B: "?S \<le> dec_bound" using assms(2) by (simp add: order_limit_def dec_bound_def)
  note dis = discount_bounds [OF assms(1) B, of ?c]
  show "0 \<le> global_cents ?c sos" "global_cents ?c sos \<le> ?S"
    using dis assms(1) by (auto simp: global_cents_def Let_def)
  show "snd (snd (reevaluate_global ord (sos = []) (js_of_dec ?S) d)) = js_of_dec (global_cents ?c sos)"
  proof (cases ?c)
    case None
    then show ?thesis using dis(1) by (simp add: reevaluate_global_def global_cents_def Let_def discount_of_def)
  next
    case (Some c)
    have less: "js_of_dec ?S < js_of_dec m \<longleftrightarrow> ?S < m" if "c_min_order_value c = Some m" for m
      using js_of_dec_le_iff [of m ?S] assms(1) B assms(3) Some that by (simp add: not_le [symmetric] minimum_in_range_def)
    show ?thesis
    proof (cases "c_min_order_value c")
      case None
      with Some dis(1) show ?thesis by (simp add: reevaluate_global_def global_cents_def Let_def discount_of_def)
    next
      case (Some m)
      with \<open>?c = Some c\<close> dis(1) less [OF Some] show ?thesis
        by (simp add: reevaluate_global_def global_cents_def Let_def discount_of_def)
    qed
  qed
qed

subsection \<open>Properties\<close>

text \<open>C12. After a change the master's total is exactly what its remaining sub-orders cost, each with
  the shop discount its coupon gives now, less the platform's discount where it still applies
  (and never negative), and the payment asks for that amount.\<close>

theorem recomputed_total_exact:
  assumes "recomputeMasterAfterSubOrderChange oid now d = Inr (d', st, amt)" "find_row o_id oid (orders d) = Some ord"
    and "unique_keys pay_id (payments d)" "unique_keys pay_order_id (payments d)"
    and "act = active_subs (siblings oid d)" "\<forall>so \<in> set act. sub_order_sane so" "length act \<le> 400"
    and "(\<Sum>so\<leftarrow>act. so_sub_total so) \<le> order_limit"
    and "pred_option minimum_in_range (find_opt c_id (o_global_coupon_id ord) (coupons d))"
  shows "map_option o_total_amount (find_row o_id oid (orders d'))
       = Some (max 0 ((\<Sum>so\<leftarrow>act. shop_part d so) - global_cents (find_opt c_id (o_global_coupon_id ord) (coupons d)) act))
     \<and> map_option pay_amount (find_row pay_order_id oid (payments d'))
       = map_option (\<lambda>_. max 0 ((\<Sum>so\<leftarrow>act. shop_part d so) - global_cents (find_opt c_id (o_global_coupon_id ord) (coupons d)) act))
           (find_row pay_order_id oid (payments d))"
proof -
  let ?S = "\<Sum>so\<leftarrow>act. so_sub_total so" and ?T = "\<Sum>so\<leftarrow>act. shop_part d so"
    and ?g = "global_cents (find_opt c_id (o_global_coupon_id ord) (coupons d)) act"
  note fold = add_active_exact [OF assms(6-8), of d]
  have S: "0 \<le> ?S" using fold by blast
  note g = reevaluate_cents [OF S assms(8,9)]
  have g3: "?g \<le> order_limit" using g(3) assms(8) by simp
  have T: "0 \<le> ?T" "?T \<le> dec_bound - order_limit" using fold assms(7,8) by (auto simp: order_limit_def dec_bound_def)
  have "round2 (max 0 (js_sub (js_of_dec ?T) (js_of_dec ?g))) = js_of_dec (max 0 (?T - ?g))"
    using T g(2) g3 by (intro grand_total_exact near_mono [OF near_js_dec]) (auto simp: order_limit_def dec_bound_def)
  moreover have "amt = round2 (max 0 (js_sub (js_of_dec ?T) (js_of_dec ?g)))"
    using assms(1) fold g(1)
    by (simp add: recomputeMasterAfterSubOrderChange_def assms(2) assms(5) [symmetric] Let_def split: prod.splits)
  moreover have "dec_of_js (js_of_dec (max 0 (?T - ?g))) = max 0 (?T - ?g)"
    using T g(2,3) by (intro dec_of_js_of_dec) (auto simp: order_limit_def)
  ultimately have amt: "dec_of_js amt = max 0 (?T - ?g)" by simp
  obtain ord' cs us where o: "same_order ord ord'" "o_total_amount ord' = dec_of_js amt"
    "orders d' = save_row o_id ord' (orders d)"
    "payments d' = map (settle oid amt (st = Delivered) now) (payments d)"
    by (rule recompute_frame [OF assms(1,3,4)]) (auto simp: assms(2))
  have id: "o_id ord = oid" using find_row_SomeD [OF assms(2)] by blast
  have "find_row o_id oid (orders d') = Some ord'"
    using o(1) id by (simp add: o(3) same_order_def find_row_save)
  moreover have "map_option pay_amount (find_row pay_order_id oid (payments d'))
      = map_option (\<lambda>_. dec_of_js amt) (find_row pay_order_id oid (payments d))"
    by (cases "find_row pay_order_id oid (payments d)") (auto simp: o(4) find_row_map dest: find_row_SomeD)
  ultimately show ?thesis using o(2) amt by simp
qed


text \<open>An order of two shops, paid on delivery: a lamp at 100000 twice, a shirt at 50000.\<close>

definition cod_db :: db where
  "cod_db = demo_db\<lparr>
     orders := [\<lparr>o_id = 90, o_customer_id = Some 1, o_global_coupon_id = Some 51, o_total_amount = 26500000,
       o_global_discount_amount = Some 2500000, o_global_coupon_code = Some ''SALE10'',
       o_shipping_address = None, o_status = Pending, o_idempotency_key = Some ''k'',
       o_order_number = ''ORD'', o_created_at = 1000\<rparr>],
     sub_orders := [\<lparr>so_id = 91, so_shop_id = Some 11, so_order_id = Some 90, so_shop_coupon_id = None,
       so_sub_total = 20000000, so_shipping_fee = 1500000, so_shop_discount_amount = 0,
       so_shop_coupon_code = None, so_total_amount = 21500000, so_status = Processing,
       so_delivered_at = None, so_created_at = 1000\<rparr>,
      \<lparr>so_id = 92, so_shop_id = Some 12, so_order_id = Some 90, so_shop_coupon_id = None,
       so_sub_total = 5000000, so_shipping_fee = 2500000, so_shop_discount_amount = 0,
       so_shop_coupon_code = None, so_total_amount = 7500000, so_status = Pending,
       so_delivered_at = None, so_created_at = 1000\<rparr>],
     order_items := [\<lparr>oi_id = 94, oi_variant_id = None, oi_sub_order_id = 91, oi_product_id = Some 21,
       oi_quantity = 2, oi_price_at_purchase = 10000000, oi_product_name = ''Lamp'', oi_variant_name = None,
       oi_product_thumbnail = None, oi_variant_attributes = None\<rparr>,
      \<lparr>oi_id = 95, oi_variant_id = Some 31, oi_sub_order_id = 92, oi_product_id = Some 22,
       oi_quantity = 1, oi_price_at_purchase = 5000000, oi_product_name = ''Shirt'', oi_variant_name = Some ''M'',
       oi_product_thumbnail = None, oi_variant_attributes = None\<rparr>],
     payments := [\<lparr>pay_id = 93, pay_order_id = 90, pay_method = COD, pay_status = PayPending,
       pay_amount = 26500000, pay_vnp_txn_ref = None, pay_vnp_transaction_no = None,
       pay_vnp_response_code = None, pay_paid_at = None, pay_raw = None, pay_created_at = 1000\<rparr>]\<rparr>"

lemma cod_db_simps [simp]:
  "products cod_db = products demo_db" "variants cod_db = variants demo_db" "coupons cod_db = coupons demo_db"
  "shops cod_db = shops demo_db" "map so_id (sub_orders cod_db) = [91, 92]" "map oi_id (order_items cod_db) = [94, 95]"
  "map o_id (orders cod_db) = [90]" "map pay_id (payments cod_db) = [93]" "map pay_order_id (payments cod_db) = [90]"
  "next_uuid cod_db = 100"
  by (simp_all add: cod_db_def demo_db_def)

lemma recompute_defined:
  assumes "find_row o_id oid (orders d) = Some ord"
  shows "\<exists>d' st amt. recomputeMasterAfterSubOrderChange oid now d = Inr (d', st, amt)"
proof -
  obtain rem sm where f: "foldl (add_active d) (0, 0) (active_subs (siblings oid d)) = (rem, sm)" by fastforce
  obtain d1 co gd where "reevaluate_global ord (active_subs (siblings oid d) = []) rem d = (d1, co, gd)"
    using prod_cases3 by blast
  with f show ?thesis by (simp add: recomputeMasterAfterSubOrderChange_def assms Let_def)
qed

lemma recomputed_total_exact_witness:
  "\<exists>d' st amt. recomputeMasterAfterSubOrderChange 90 0 cod_db = Inr (d', st, amt)
     \<and> map_option o_total_amount (find_row o_id 90 (orders d'))
       = Some (29000000 - discount_cents (Some (coupons demo_db ! 0)) 25000000)"
proof -
  have o: "find_row o_id 90 (orders cod_db) = Some (orders cod_db ! 0)" by (simp add: cod_db_def find_row_Cons)
  obtain d' st amt where r: "recomputeMasterAfterSubOrderChange 90 0 cod_db = Inr (d', st, amt)"
    using recompute_defined [OF o] by blast
  have s: "active_subs (siblings 90 cod_db) = sub_orders cod_db"
    by (simp add: active_subs_def siblings_def cod_db_def)
  have sane: "\<forall>so \<in> set (sub_orders cod_db). sub_order_sane so" "length (sub_orders cod_db) \<le> 400"
    "(\<Sum>so\<leftarrow>sub_orders cod_db. so_sub_total so) = 25000000"
    by (simp_all add: cod_db_def sub_order_sane_def)
  have zero: "shop_part cod_db so = so_sub_total so + so_shipping_fee so" if "so \<in> set (sub_orders cod_db)" for so
    using that by (auto simp: cod_db_def shop_part_def find_opt_def discount_cents_def discount_of_def
      cents_of_def floor_eq_iff)
  have parts: "(\<Sum>so\<leftarrow>sub_orders cod_db. shop_part cod_db so) = 29000000"
    by (simp add: zero cong: map_cong) (simp add: cod_db_def)
  have c: "find_opt c_id (o_global_coupon_id (orders cod_db ! 0)) (coupons cod_db) = Some (coupons demo_db ! 0)"
    by (simp add: find_opt_def cod_db_def demo_db_def find_row_Cons)
  have g: "global_cents (Some (coupons demo_db ! 0)) (sub_orders cod_db) = discount_cents (Some (coupons demo_db ! 0)) 25000000"
    using sane(3) by (simp add: global_cents_def demo_db_def) (simp add: cod_db_def)
  have dis: "discount_cents (Some (coupons demo_db ! 0)) 25000000 \<le> 25000000"
    by (rule discount_bounds(3)) (simp_all add: dec_bound_def)
  have m: "pred_option minimum_in_range (find_opt c_id (o_global_coupon_id (orders cod_db ! 0)) (coupons cod_db))"
    unfolding c by (simp add: minimum_in_range_def demo_db_def dec_bound_def)
  from recomputed_total_exact [OF r o _ _ s [symmetric] sane(1,2) _ m] sane(3)
  have "map_option o_total_amount (find_row o_id 90 (orders d'))
      = Some (max 0 (29000000 - discount_cents (Some (coupons demo_db ! 0)) 25000000))"
    unfolding c g parts by (simp add: unique_keys_def order_limit_def)
  with r dis show ?thesis by simp
qed

text \<open>C27. An order expires exactly when it has an unpaid VNPAY payment, is not cancelled and its payment
  window is over; then its pending sub-orders, and only those, are cancelled and the payment has
  failed. Otherwise nothing happens.\<close>

theorem expiry_only_unpaid:
  assumes "expireUnpaidVnpayOrder oid db_now now d = Inr (d', b)" "keys_ok d"
  shows "(b \<longleftrightarrow> (\<exists>p. expiry_due oid db_now d p))
     \<and> (if b then map (\<lambda>so. (so_id so, so_order_id so, so_status so)) (sub_orders d')
           = map (\<lambda>so. (so_id so, so_order_id so,
                if so_order_id so = Some oid \<and> so_status so = Pending then Cancelled else so_status so)) (sub_orders d)
           \<and> map_option pay_status (find_row pay_order_id oid (payments d')) = Some PayFailed
        else d' = d)"
proof (cases b)
  case False
  have "\<not> expiry_due oid db_now d p" for p
  proof
    assume "expiry_due oid db_now d p"
    then obtain ord where p: "find_row pay_order_id oid (payments d) = Some p" "pay_method p = VNPAY"
      "pay_status p \<notin> {PayCompleted, PayRefunded}" and ord: "find_row o_id oid (orders d) = Some ord" "o_status ord \<noteq> Cancelled"
      and w: "\<not> isWithinPaymentWindow (db_now - o_created_at ord) (map_option (\<lambda>t. db_now - t) (latest_attempt_at (pay_id p) d))"
      by (auto simp: expiry_due_def)
    have "find (\<lambda>p. pay_order_id p = oid \<and> pay_method p = VNPAY \<and> pay_status p \<notin> {PayCompleted, PayRefunded}) (payments d) = Some p"
      by (rule find_by_key [OF p(1)]) (use p in simp)
    then show False using assms(1) False ord w
      by (auto simp: expireUnpaidVnpayOrder_def getVnpayExpiryInfo_def split: sum.splits prod.splits)
  qed
  with expire_change [OF assms] False show ?thesis by auto
next
  case True
  let ?sos = "filter (\<lambda>so. so_status so = Pending) (siblings oid d)"
  from expire_change [OF assms] True obtain p q where due: "expiry_due oid db_now d p"
    and ch: "status_change ?sos Cancelled oid d d'"
    and q: "find_row pay_order_id oid (payments d') = Some q" "pay_status q = PayFailed" by blast
  obtain f where f: "sub_orders d' = map (\<lambda>s. if s \<in> set ?sos then f s else s) (sub_orders d)"
    "\<forall>s. so_id (f s) = so_id s \<and> so_order_id (f s) = so_order_id s \<and> so_status (f s) = Cancelled"
    using status_change_subs [OF ch] .
  have "map (\<lambda>so. (so_id so, so_order_id so, so_status so)) (sub_orders d')
      = map (\<lambda>so. (so_id so, so_order_id so,
           if so_order_id so = Some oid \<and> so_status so = Pending then Cancelled else so_status so)) (sub_orders d)"
    unfolding f(1) using f(2) by (auto simp: siblings_def)
  with True due q show ?thesis by auto
qed


text \<open>The same order, to be paid through VNPAY.\<close>

definition vnp_db :: db where
  "vnp_db = cod_db\<lparr>payments := [(payments cod_db ! 0)\<lparr>pay_method := VNPAY\<rparr>]\<rparr>"

lemma vnp_keys_ok: "keys_ok vnp_db"
  by (simp add: keys_ok_def vnp_db_def cod_db_def demo_db_def unique_keys_def ids_fresh_def empty_db_def)

definition shirt_order :: sub_order where
  "shirt_order = sub_orders cod_db ! 1"

lemma vnp_shirt_cancelled: "\<exists>d1. restockAndRefundSubOrder shirt_order vnp_db = Inr d1
     \<and> orders d1 = orders vnp_db \<and> sub_orders d1 = sub_orders vnp_db"
proof -
  let ?t = "[\<lparr>si_product_id = 22, si_variant_id = Some 31, si_quantity = 1\<rparr>]"
  have t: "restock_targets shirt_order vnp_db = ?t"
    by (simp add: restock_targets_def items_of_def shirt_order_def vnp_db_def cod_db_def find_opt_def demo_db_def find_row_Cons)
  have "lockAndRestock ?t vnp_db = Inr (move_stock 1 ?t vnp_db)"
    by (rule restock_cases) (simp_all add: vnp_db_def demo_db_def unique_keys_def find_row_Cons)
  moreover have "find_opt c_id (so_shop_coupon_id shirt_order) (coupons vnp_db) = None"
    by (simp add: shirt_order_def cod_db_def find_opt_def)
  ultimately show ?thesis by (simp add: restockAndRefundSubOrder_def t Let_def move_stock_def)
qed

lemma expiry_only_unpaid_witness:
  "\<exists>d'. expireUnpaidVnpayOrder 90 2000000 0 vnp_db = Inr (d', True)
     \<and> map (\<lambda>so. (so_id so, so_order_id so, so_status so)) (sub_orders d')
         = [(91, Some 90, Processing), (92, Some 90, Cancelled)]
     \<and> map_option pay_status (find_row pay_order_id 90 (payments d')) = Some PayFailed"
proof -
  obtain d1 where d1: "restockAndRefundSubOrder shirt_order vnp_db = Inr d1"
    "orders d1 = orders vnp_db" "sub_orders d1 = sub_orders vnp_db" using vnp_shirt_cancelled by blast
  let ?d2 = "save_sub (shirt_order\<lparr>so_status := Cancelled\<rparr>) d1"
  have pend: "filter (\<lambda>so. so_status so = Pending) (siblings 90 vnp_db) = [shirt_order]"
    by (simp add: siblings_def vnp_db_def) (simp add: cod_db_def shirt_order_def)
  have c: "cancel_pending [shirt_order] vnp_db = Inr ?d2"
    by (simp add: d1)
  have o: "find_row o_id 90 (orders vnp_db) = Some (orders cod_db ! 0)" by (simp add: vnp_db_def cod_db_def find_row_Cons)
  moreover have "orders ?d2 = orders vnp_db" by (simp add: save_sub_def d1)
  ultimately obtain d2 st amt where r: "recomputeMasterAfterSubOrderChange 90 0 ?d2 = Inr (d2, st, amt)"
    using recompute_defined [of 90 ?d2] by metis
  obtain info where i: "getVnpayExpiryInfo 90 2000000 vnp_db = Some info" "ei_orderAgeMs info = 1999000"
    using o by (simp add: getVnpayExpiryInfo_def vnp_db_def cod_db_def)
  have w: "\<not> isWithinPaymentWindow (ei_orderAgeMs info) (ei_latestAttemptAgeMs info)"
    by (simp add: isWithinPaymentWindow_def i(2) vnpay_hard_window_ms_def)
  have nc: "o_status (orders cod_db ! 0) \<noteq> Cancelled" by (simp add: cod_db_def)
  have run: "expireUnpaidVnpayOrder 90 2000000 0 vnp_db = Inr (markVnpayExpired (ei_paymentId info) d2, True)"
    using c r o nc w by (simp add: expireUnpaidVnpayOrder_def i(1) pend)
  have "map (\<lambda>so. (so_id so, so_order_id so, if so_order_id so = Some 90 \<and> so_status so = Pending then Cancelled else so_status so))
      (sub_orders vnp_db) = [(91, Some 90, Processing), (92, Some 90, Cancelled)]"
    by (simp add: vnp_db_def cod_db_def)
  with expiry_only_unpaid [OF run vnp_keys_ok] run show ?thesis by auto
qed

end
