(* ===== verification/OrderHistory.thy ===== *)
theory OrderHistory
  imports OrderLifecycle
begin

text \<open>
  Histories of orders: any sequence of checkouts, cancellations, moves by the seller, expiries,
  payment URLs and IPNs. The books of an order (its status and its amount) stay right, the stock
  moves between the shelf and the orders without loss, and the status of a sub-order only follows
  the edges of its state machine.
\<close>

subsection \<open>The books: statuses and amounts\<close>

text \<open>The master mirrors its sub-orders and the payment its total.\<close>

definition books :: "db \<Rightarrow> bool" where
  "books d \<longleftrightarrow>
     (\<forall>ord \<in> set (orders d). o_status ord = deriveMasterStatus (map so_status (siblings (o_id ord) d)))
   \<and> (\<forall>p \<in> set (payments d). \<forall>ord \<in> set (orders d).
        pay_order_id p = o_id ord \<longrightarrow> pay_amount p = o_total_amount ord)"

lemma status_change_keys:
  assumes "status_change sos st oid d d'" "keys_ok d"
  shows "keys_ok d'"
proof -
  note k = keys_okD [OF assms(2)]
  obtain f where f: "sub_orders d' = map (\<lambda>s. if s \<in> set sos then f s else s) (sub_orders d)"
      "\<forall>s. so_id (f s) = so_id s \<and> so_order_id (f s) = so_order_id s \<and> so_status (f s) = st"
    using status_change_subs [OF assms(1)] .
  obtain ord ord' g where o: "find_row o_id oid (orders d) = Some ord" "same_order ord ord'"
      "orders d' = save_row o_id ord' (orders d)" "payments d' = map g (payments d)"
      "\<forall>p. pay_id (g p) = pay_id p \<and> pay_order_id (g p) = pay_order_id p
         \<and> pay_amount (g p) = (if pay_order_id p = oid then o_total_amount ord' else pay_amount p)"
    using status_change_orders [OF assms(1)] .
  have m: "order_items d' = order_items d" "next_uuid d' = next_uuid d"
    "map p_id (products d') = map p_id (products d)" "map v_id (variants d') = map v_id (variants d)"
    using assms(1) by (auto simp: status_change_def Let_def)
  have so: "map so_id (sub_orders d') = map so_id (sub_orders d)"
    "map so_order_id (sub_orders d') = map so_order_id (sub_orders d)"
    using f by auto
  have pay: "map pay_id (payments d') = map pay_id (payments d)"
    "map pay_order_id (payments d') = map pay_order_id (payments d)"
    using o(4,5) by auto
  have ord: "ord \<in> set (orders d)" "o_id ord' = o_id ord"
    using find_row_SomeD [OF o(1)] o(2) by (auto simp: same_order_def)
  then have os: "map o_id (orders d') = map o_id (orders d)"
    unfolding o(3) by (intro save_row_keys_same) auto
  have "ids_fresh d'"
  proof -
    have "\<forall>k \<in> set (map o_id (orders d')). k < next_uuid d'" "\<forall>k \<in> set (map so_id (sub_orders d')). k < next_uuid d'"
      "\<forall>k \<in> set (map pay_id (payments d')). k < next_uuid d'" "\<forall>k \<in> set (map pay_order_id (payments d')). k < next_uuid d'"
      "\<forall>k \<in> set (map so_order_id (sub_orders d')). \<forall>l. k = Some l \<longrightarrow> l < next_uuid d'"
      unfolding os so pay m using k(7) by (auto simp: ids_fresh_def)
    moreover have "\<forall>oi \<in> set (order_items d'). oi_sub_order_id oi < next_uuid d'"
      unfolding m using k(7) by (auto simp: ids_fresh_def)
    ultimately show ?thesis by (simp add: ids_fresh_def)
  qed
  then show ?thesis
    using k unfolding keys_ok_def unique_keys_def m(3,4) os so pay by simp
qed

lemma status_change_books:
  assumes "status_change sos st oid d d'" "keys_ok d" "books d"
  shows "books d'"
proof -
  obtain f where f: "sub_orders d' = map (\<lambda>s. if s \<in> set sos then f s else s) (sub_orders d)"
      "\<forall>s. so_id (f s) = so_id s \<and> so_order_id (f s) = so_order_id s \<and> so_status (f s) = st"
    and sos: "set sos \<subseteq> set (siblings oid d)"
    using status_change_subs [OF assms(1)] .
  obtain ord ord' g where o: "find_row o_id oid (orders d) = Some ord" "same_order ord ord'"
      "o_status ord' = deriveMasterStatus (map so_status (siblings oid d'))"
      "orders d' = save_row o_id ord' (orders d)" "payments d' = map g (payments d)"
      "\<forall>p. pay_id (g p) = pay_id p \<and> pay_order_id (g p) = pay_order_id p
         \<and> pay_amount (g p) = (if pay_order_id p = oid then o_total_amount ord' else pay_amount p)"
    using status_change_orders [OF assms(1)] .
  have oid: "o_id ord' = oid" using find_row_SomeD [OF o(1)] o(2) by (simp add: same_order_def)
  have cases: "x = ord' \<or> x \<in> set (orders d) \<and> o_id x \<noteq> oid" if "x \<in> set (orders d')" for x
    using that keys_okD(3) [OF assms(2)] oid by (auto simp: o(4) in_set_save_row)
  have other: "siblings k d' = siblings k d" if "k \<noteq> oid" for k
  proof -
    have s: "s \<in> set sos \<Longrightarrow> so_order_id s = Some oid" for s using sos by (auto simp: siblings_def)
    have "filter (\<lambda>so. so_order_id so = Some k) (map (\<lambda>s. if s \<in> set sos then f s else s) ss)
        = filter (\<lambda>so. so_order_id so = Some k) ss" for ss
      using s f(2) that by (induction ss) auto
    then show ?thesis by (simp add: siblings_def f(1))
  qed
  have "o_status x = deriveMasterStatus (map so_status (siblings (o_id x) d'))" if "x \<in> set (orders d')" for x
    using cases [OF that] o(3) oid other assms(3) by (auto simp: books_def)
  moreover have "pay_amount p = o_total_amount x"
    if p: "p \<in> set (payments d')" and x: "x \<in> set (orders d')" "pay_order_id p = o_id x" for p x
  proof -
    from p obtain q where q: "q \<in> set (payments d)" "p = g q" by (auto simp: o(5))
    from cases [OF x(1)] show ?thesis
    proof
      assume "x = ord'"
      then show ?thesis using x(2) q(2) o(6) oid by simp
    next
      assume "x \<in> set (orders d) \<and> o_id x \<noteq> oid"
      then show ?thesis using x(2) q o(6) assms(3) by (auto simp: books_def)
    qed
  qed
  ultimately show ?thesis by (simp add: books_def)
qed

lemma groups_nonempty: "items \<noteq> [] \<Longrightarrow> groupItemsByShop items \<noteq> []"
proof -
  assume "items \<noteq> []"
  then have "(\<lambda>l. s_id (ol_shop l)) ` set items \<noteq> {}" by simp
  then have "group_by (\<lambda>l. s_id (ol_shop l)) items \<noteq> []"
    using keys_group_by [of "\<lambda>l. s_id (ol_shop l)" items] by (metis list.set(1) list.simps(8) set_empty2)
  then show ?thesis by (simp add: groupItemsByShop_def)
qed

lemma plans_nonempty: "plan_order calc addr gc sc now d items = Inr op \<Longrightarrow> items \<noteq> [] \<Longrightarrow> op_plans op \<noteq> []"
  using groups_nonempty [of items]
  by (auto simp: plan_order_def Let_def dest!: map_result_length split: sum.splits)

text \<open>The least advanced status of a list, as a rank.\<close>

definition least_rank :: "order_status list \<Rightarrow> nat option" where
  "least_rank ss =
     (if Pending \<in> set ss then Some 0 else if Processing \<in> set ss then Some 1
      else if Shipping \<in> set ss then Some 2 else if Delivered \<in> set ss then Some 3 else None)"

fun lower :: "nat option \<Rightarrow> nat option \<Rightarrow> nat option" where
  "lower None y = y"
| "lower (Some a) None = Some a"
| "lower (Some a) (Some b) = Some (min a b)"

lemma rank_fold:
  "foldl (\<lambda>m s. case index_of s status_progression of None \<Rightarrow> m
        | Some rank \<Rightarrow> (case m of None \<Rightarrow> Some rank | Some k \<Rightarrow> if rank < k then Some rank else m)) m ss
     = lower m (least_rank ss)"
proof (induction ss arbitrary: m)
  case Nil
  show ?case by (cases m) (simp_all add: least_rank_def)
next
  case (Cons s ss)
  have "lower (case index_of s status_progression of None \<Rightarrow> m
        | Some rank \<Rightarrow> (case m of None \<Rightarrow> Some rank | Some k \<Rightarrow> if rank < k then Some rank else m)) (least_rank ss)
      = lower m (least_rank (s # ss))"
    by (cases s; cases m) (auto simp: status_progression_def least_rank_def min_def)
  then show ?case using Cons.IH by simp
qed

lemma derive_least:
  "deriveMasterStatus ss =
     (if set ss \<subseteq> {Cancelled} then Cancelled
      else if Pending \<in> set ss then Pending else if Processing \<in> set ss then Processing
      else if Shipping \<in> set ss then Shipping else if Delivered \<in> set ss then Delivered else Returned)"
proof -
  let ?a = "filter (\<lambda>s. s \<noteq> Cancelled) ss"
  have e: "?a = [] \<longleftrightarrow> set ss \<subseteq> {Cancelled}" by (auto simp: filter_empty_conv)
  have m: "s \<in> set ?a \<longleftrightarrow> s \<in> set ss" if "s \<noteq> Cancelled" for s using that by simp
  have h: "hd ?a = Returned" if "?a \<noteq> []" "least_rank ?a = None"
  proof -
    have "hd ?a \<in> set ?a" "hd ?a \<noteq> Cancelled"
      using that(1) hd_in_set [of ?a] by (auto simp del: hd_in_set)
    with that(2) show ?thesis by (cases "hd ?a") (auto simp: least_rank_def split: if_splits)
  qed
  show ?thesis
    unfolding deriveMasterStatus_def Let_def rank_fold lower.simps(1) e [symmetric]
    using h by (auto simp: least_rank_def status_progression_def)
qed

lemma new_sub_columns:
  assumes "length sids = length ps"
  shows "map so_id (map2 (sub_order_row oid now) ps sids) = sids"
    "map so_status (map2 (sub_order_row oid now) ps sids) = replicate (length ps) Pending"
    "map so_order_id (map2 (sub_order_row oid now) ps sids) = replicate (length ps) (Some oid)"
  using assms by (induction ps sids rule: list_induct2') (auto simp: sub_order_row_def)

text \<open>The sum over the items a checkout writes is the sum over the lines it sells.\<close>

lemma item_rows_sum:
  "(\<Sum>oi\<leftarrow>item_rows sid ls. if oi_product_id oi = Some k then oi_quantity oi else 0)
     = (\<Sum>l\<leftarrow>ls. if p_id (ol_product l) = k then ci_quantity (ol_item l) else 0)"
proof -
  have "length ks = length ls \<Longrightarrow>
      (\<Sum>oi\<leftarrow>map2 (order_item_row sid) ls ks. if oi_product_id oi = Some k then oi_quantity oi else 0)
      = (\<Sum>l\<leftarrow>ls. if p_id (ol_product l) = k then ci_quantity (ol_item l) else 0)" for ks
    by (induction ls ks rule: list_induct2') (auto simp: order_item_row_def)
  then show ?thesis by (simp add: item_rows_def del: upt_Suc)
qed

lemma plan_rows_sum:
  "(\<Sum>oi\<leftarrow>plan_item_rows n ps. if oi_product_id oi = Some k then oi_quantity oi else 0)
     = (\<Sum>p\<leftarrow>ps. \<Sum>l\<leftarrow>pl_items p. if p_id (ol_product l) = k then ci_quantity (ol_item l) else 0)"
proof -
  have "length sids = length ps \<Longrightarrow>
      (\<Sum>oi\<leftarrow>concat (map2 (\<lambda>p sid. item_rows sid (pl_items p)) ps sids).
         if oi_product_id oi = Some k then oi_quantity oi else 0)
      = (\<Sum>p\<leftarrow>ps. \<Sum>l\<leftarrow>pl_items p. if p_id (ol_product l) = k then ci_quantity (ol_item l) else 0)" for sids
    by (induction ps sids rule: list_induct2') (auto simp: item_rows_sum)
  then show ?thesis by (simp add: plan_item_rows_def)
qed

lemma plans_sum:
  fixes w :: "order_line \<Rightarrow> int"
  assumes "plan_order calc addr gc sc now d items = Inr op"
  shows "(\<Sum>p\<leftarrow>op_plans op. sum_list (map w (pl_items p))) = sum_list (map w items)"
proof -
  from assms have "map_result (plan_sub_order calc addr sc now d) (groupItemsByShop items) = Inr (op_plans op)"
    by (auto simp: plan_order_def Let_def split: sum.splits)
  then have all: "list_all2 (\<lambda>g p. plan_sub_order calc addr sc now d g = Inr p) (groupItemsByShop items) (op_plans op)"
    by (simp add: map_result_Inr_iff)
  have "(\<Sum>p\<leftarrow>ps. sum_list (map w (pl_items p))) = (\<Sum>g\<leftarrow>gs. sum_list (map w (snd g)))"
    if "list_all2 (\<lambda>g p. plan_sub_order calc addr sc now d g = Inr p) gs ps" for gs ps
    using that by induction (auto simp: plan_sub_order_def Let_def split: sum.splits)
  note this [OF all]
  also have "(\<Sum>g\<leftarrow>groupItemsByShop items. sum_list (map w (snd g)))
      = (\<Sum>ls\<leftarrow>map snd (groupItemsByShop items). sum_list (map w ls))" by (simp add: comp_def)
  also have "\<dots> = sum_list (map w items)"
    unfolding groupItemsByShop_snd by (simp add: comp_def sum_group_by)
  finally show ?thesis .
qed

lemma item_rows_ids: "map oi_id (item_rows sid ls) = [Suc sid..<Suc sid + length ls]"
proof -
  have "length ks = length ls \<Longrightarrow> map oi_id (map2 (order_item_row sid) ls ks) = ks" for ks
    by (induction ls ks rule: list_induct2') (auto simp: order_item_row_def)
  then show ?thesis by (simp add: item_rows_def del: upt_Suc)
qed

lemma plan_item_ids:
  "distinct (map oi_id (plan_item_rows n ps)) \<and> (\<forall>oi \<in> set (plan_item_rows n ps). n < oi_id oi \<and> oi_id oi < plan_end n ps)"
proof (induction ps arbitrary: n)
  case (Cons p ps)
  let ?m = "Suc n + length (pl_items p)"
  have m: "plan_end n (p # ps) = plan_end ?m ps" by (simp add: plan_end_def)
  have le: "?m \<le> plan_end ?m ps" by (simp add: plan_end_def)
  have r: "plan_item_rows n (p # ps) = item_rows n (pl_items p) @ plan_item_rows ?m ps" by (simp add: plan_item_rows_def)
  have h: "oi_id oi \<in> set [Suc n..<?m]" if "oi \<in> set (item_rows n (pl_items p))" for oi
    using that unfolding item_rows_ids [symmetric] set_map by (rule imageI)
  have t: "?m < oi_id oi \<and> oi_id oi < plan_end ?m ps" if "oi \<in> set (plan_item_rows ?m ps)" for oi
    using Cons.IH [of ?m] that by blast
  have b: "n < oi_id oi \<and> oi_id oi < plan_end ?m ps" if "oi \<in> set (plan_item_rows n (p # ps))" for oi
    using that h [of oi] t [of oi] le unfolding r by force
  have "set [Suc n..<?m] \<inter> oi_id ` set (plan_item_rows ?m ps) = {}" using t by fastforce
  then have "distinct (map oi_id (plan_item_rows n (p # ps)))"
    unfolding r map_append item_rows_ids distinct_append set_map using Cons.IH [of ?m] by (simp del: upt_Suc)
  with b show ?case unfolding m by blast
qed (simp add: plan_item_rows_def)

text \<open>The rows a checkout adds, and the stock it moves for them.\<close>

lemma placed_tables:
  assumes "runCheckoutTransaction calc u dto key env d = Inr (d', rs, jobs)" "keys_ok d" "d' \<noteq> d"
  obtains ord new its p targets where
    "orders d' = orders d @ [ord]" "o_id ord = next_uuid d" "o_status ord = Pending" "o_total_amount ord = pay_amount p"
    "sub_orders d' = sub_orders d @ new" "new \<noteq> []" "distinct (map so_id new)"
    "\<forall>s \<in> set new. next_uuid d < so_id s \<and> so_id s < next_uuid d' \<and> so_order_id s = Some (next_uuid d) \<and> so_status s = Pending"
    "order_items d' = order_items d @ its" "oi_sub_order_id ` set its \<subseteq> so_id ` set new" "distinct (map oi_id its)"
    "\<forall>oi \<in> set its. next_uuid d < oi_id oi \<and> oi_id oi < next_uuid d'"
    "payments d' = payments d @ [p]" "pay_order_id p = next_uuid d" "next_uuid d < pay_id p" "pay_id p < next_uuid d'"
    "pay_status p = PayPending" "products d' = map (move_product (-1) targets) (products d)"
    "variants d' = map (move_variant (-1) targets) (variants d)"
    "\<forall>k. requested_product targets k = (\<Sum>oi\<leftarrow>its. if oi_product_id oi = Some k then oi_quantity oi else 0)"
    "next_uuid d < next_uuid d'" "return_requests d' = return_requests d" "return_items d' = return_items d"
proof -
  have key: "Some key \<notin> o_idempotency_key ` set (orders d)"
    using assms(3) checkout_orders [OF assms(1)] by (force simp: order_ids_def)
  note k = keys_okD [OF assms(2)]
  obtain addr valid its d1 op ord cs us sids where
    c: "valid \<noteq> []" "its = map to_order_line valid" "d1 = move_stock (-1) (stock_targets its) d"
      "plan_order calc addr (dto_global_coupon_code dto) (dto_shop_coupons dto) (env_now env) d1 its = Inr op" and
    o: "ord = order_payload (next_uuid d) u key (op_grandTotal op) (op_globalCoupon op) (op_globalDiscount op)
             (snapshotAddress addr) (env_now env) (generateOrderNumber (env_now env) (env_rnd env 0))" and
    sids: "sids = plan_sids (Suc (next_uuid d)) (op_plans op)" and
    d': "d' = d1\<lparr>orders := orders d @ [ord],
       sub_orders := sub_orders d @ map2 (sub_order_row (next_uuid d) (env_now env)) (op_plans op) sids,
       order_items := order_items d @ plan_item_rows (Suc (next_uuid d)) (op_plans op),
       payments := payments d @ [pending_payment (plan_end (Suc (next_uuid d)) (op_plans op)) (next_uuid d)
          (dto_payment_method dto) (dec_of_js (op_grandTotal op)) (env_now env)],
       coupons := cs, user_coupons := us,
       cart_items := delete_rows (\<lambda>ci. ci_user_id ci = Some u) (cart_items d),
       outbox := outbox d @ [order_created_event ord op sids u d],
       next_uuid := Suc (plan_end (Suc (next_uuid d)) (op_plans op))\<rparr>"
    by (rule checkout_writes [OF assms(1) key k(7,1,2)]) (rule that)
  let ?n = "next_uuid d" and ?ps = "op_plans op"
  let ?new = "map2 (sub_order_row ?n (env_now env)) ?ps sids" and ?last = "plan_end (Suc ?n) ?ps"
    and ?its = "plan_item_rows (Suc ?n) ?ps" and ?t = "stock_targets its"
  have le: "Suc ?n \<le> ?last" by (simp add: plan_end_def)
  have len: "length sids = length ?ps" by (simp add: sids)
  note cols = new_sub_columns [OF len, of ?n "env_now env"]
  have "its \<noteq> []" using c(1,2) by simp
  then have ne: "?new \<noteq> []" using plans_nonempty [OF c(4)] len by (cases ?ps; cases sids) auto
  have bounds: "\<forall>sid \<in> set sids. Suc ?n \<le> sid \<and> sid < ?last" using plan_sids_bounds unfolding sids by blast
  have subs: "\<forall>s \<in> set ?new. ?n < so_id s \<and> so_id s < next_uuid d' \<and> so_order_id s = Some ?n \<and> so_status s = Pending"
  proof
    fix x assume x: "x \<in> set ?new"
    have "so_id x \<in> set (map so_id ?new)" "so_order_id x \<in> set (map so_order_id ?new)"
      "so_status x \<in> set (map so_status ?new)" using x unfolding set_map [of _ ?new] by (blast intro: imageI)+
    then show "?n < so_id x \<and> so_id x < next_uuid d' \<and> so_order_id x = Some ?n \<and> so_status x = Pending"
      unfolding cols using bounds by (fastforce simp: d' split: if_splits)
  qed
  have items: "oi_sub_order_id ` set ?its \<subseteq> so_id ` set ?new"
  proof -
    have "oi_sub_order_id oi \<in> set sids" if "oi \<in> set ?its" for oi
      using that unfolding plan_item_rows_def sids [symmetric] by (auto dest!: item_rows_parent set_zip_rightD)
    then show ?thesis unfolding set_map [symmetric] cols by auto
  qed
  have req: "\<forall>k. requested_product ?t k = (\<Sum>oi\<leftarrow>?its. if oi_product_id oi = Some k then oi_quantity oi else 0)"
    unfolding plan_rows_sum plans_sum [OF c(4)]
    by (simp add: requested_product_def stock_targets_def comp_def cong: if_cong)
  have oi: "distinct (map oi_id ?its)" "\<forall>oi \<in> set ?its. ?n < oi_id oi \<and> oi_id oi < next_uuid d'"
    using plan_item_ids [of "Suc ?n" ?ps] by (fastforce simp: d')+
  have dist: "distinct (map so_id ?new)" unfolding cols by (simp add: sids distinct_plan_sids)
  show thesis
    by (rule that [of ord "pending_payment ?last ?n (dto_payment_method dto) (dec_of_js (op_grandTotal op)) (env_now env)"
          ?new ?its ?t])
      (use subs items req oi ne dist le in
        \<open>simp_all add: d' c(3) o order_payload_def pending_payment_def move_stock_def\<close>)
qed

text \<open>A checkout opens books that balance.\<close>

lemma placed_books:
  assumes "runCheckoutTransaction calc u dto key env d = Inr (d', rs, jobs)" "keys_ok d"
  shows "keys_ok d' \<and> (books d \<longrightarrow> books d')"
proof (cases "d' = d")
  case False
  note k = keys_okD [OF assms(2)]
  let ?n = "next_uuid d"
  obtain ord new its p targets where t:
    "orders d' = orders d @ [ord]" "o_id ord = ?n" "o_status ord = Pending" "o_total_amount ord = pay_amount p"
    "sub_orders d' = sub_orders d @ new" "new \<noteq> []" "distinct (map so_id new)"
    and subs: "\<forall>s \<in> set new. ?n < so_id s \<and> so_id s < next_uuid d' \<and> so_order_id s = Some ?n \<and> so_status s = Pending"
    and items: "order_items d' = order_items d @ its" "oi_sub_order_id ` set its \<subseteq> so_id ` set new"
    and pay: "payments d' = payments d @ [p]" "pay_order_id p = ?n" "?n < pay_id p" "pay_id p < next_uuid d'"
    and mv: "products d' = map (move_product (-1) targets) (products d)" "variants d' = map (move_variant (-1) targets) (variants d)"
    and up: "?n < next_uuid d'"
    by (rule placed_tables [OF assms(1,2) False]) (rule that)
  have fresh: "\<forall>x \<in> set (orders d). o_id x < ?n" "\<forall>x \<in> set (sub_orders d). so_id x < ?n"
    "\<forall>x \<in> set (sub_orders d). \<forall>l. so_order_id x = Some l \<longrightarrow> l < ?n" "\<forall>x \<in> set (order_items d). oi_sub_order_id x < ?n"
    "\<forall>x \<in> set (payments d). pay_id x < ?n \<and> pay_order_id x < ?n"
    using k(7) by (auto simp: ids_fresh_def)
  have "unique_keys p_id (products d')" "unique_keys v_id (variants d')"
    using k(1,2) by (simp_all add: mv unique_keys_def comp_def)
  moreover have "unique_keys o_id (orders d')" "unique_keys so_id (sub_orders d')"
    "unique_keys pay_id (payments d')" "unique_keys pay_order_id (payments d')"
    using k(3-6) t(2,7) fresh subs pay by (fastforce simp: t(1,5) pay(1) unique_keys_def)+
  moreover have "ids_fresh d'"
    unfolding ids_fresh_def
  proof (intro conjI ballI allI impI)
    fix x assume "x \<in> set (orders d')"
    then show "o_id x < next_uuid d'" using fresh(1) t(2) up by (force simp: t(1))
  next
    fix x assume x: "x \<in> set (sub_orders d')"
    then show "so_id x < next_uuid d'" using fresh(2) subs up unfolding t(5) by force
    show "l < next_uuid d'" if "so_order_id x = Some l" for l using x that fresh(3) subs up unfolding t(5) by force
  next
    fix x assume "x \<in> set (order_items d')"
    then show "oi_sub_order_id x < next_uuid d'" using fresh(4) items(2) subs up unfolding items(1) by force
  next
    fix x assume "x \<in> set (payments d')"
    then show "pay_id x < next_uuid d'" "pay_order_id x < next_uuid d'" using fresh(5) pay up by force+
  qed
  ultimately have "keys_ok d'" by (simp add: keys_ok_def)
  moreover have "books d'" if bk: "books d"
  proof -
    have old: "siblings l d' = siblings l d" if "l < ?n" for l
      using subs that by (fastforce simp: siblings_def t(5) filter_empty_conv)
    have "filter (\<lambda>so. so_order_id so = Some ?n) (sub_orders d) = []"
      using fresh(3) by (auto simp: filter_empty_conv)
    moreover have "filter (\<lambda>so. so_order_id so = Some ?n) new = new" using subs by (intro filter_True) blast
    ultimately have "siblings ?n d' = new" by (simp add: siblings_def t(5))
    then have "set (map so_status (siblings ?n d')) = {Pending}" using subs t(6) by (cases new) auto
    then have "deriveMasterStatus (map so_status (siblings ?n d')) = Pending" unfolding derive_least by auto
    then have "o_status x = deriveMasterStatus (map so_status (siblings (o_id x) d'))" if "x \<in> set (orders d')" for x
      using that bk fresh(1) old t(2,3) by (auto simp: t(1) books_def)
    moreover have "pay_amount q = o_total_amount x"
      if "q \<in> set (payments d')" "x \<in> set (orders d')" "pay_order_id q = o_id x" for q x
      using that bk fresh(1,5) t(2,4) pay(2) by (fastforce simp: t(1) pay(1) books_def)
    ultimately show ?thesis by (simp add: books_def)
  qed
  ultimately show ?thesis by blast
qed (use assms in simp)

text \<open>A payment saved with its order and amount unchanged.\<close>

lemma payment_books:
  assumes "keys_ok d"
    and "payments d' = payments d \<or> (payments d' = save_row pay_id p' (payments d)
      \<and> find_row pay_id (pay_id p') (payments d) = Some p \<and> pay_order_id p' = pay_order_id p \<and> pay_amount p' = pay_amount p)"
    and "products d' = products d" "variants d' = variants d" "orders d' = orders d" "sub_orders d' = sub_orders d"
    "order_items d' = order_items d" "next_uuid d \<le> next_uuid d'"
  shows "keys_ok d' \<and> (books d \<longrightarrow> books d')"
proof -
  note k = keys_okD [OF assms(1)]
  have same: "map f (payments d') = map f (payments d)" if "f p' = f p \<or> payments d' = payments d" for f :: "payment \<Rightarrow> 'x"
    using assms(2) map_save_same [of pay_id p' "payments d" p f] k(5) that by auto
  have p: "payments d' = payments d \<or> pay_id p' = pay_id p \<and> pay_order_id p' = pay_order_id p \<and> pay_amount p' = pay_amount p"
    using assms(2) by (auto dest: find_row_SomeD)
  then have ids: "map pay_id (payments d') = map pay_id (payments d)" "map pay_order_id (payments d') = map pay_order_id (payments d)"
    and am: "map (\<lambda>p. (pay_order_id p, pay_amount p)) (payments d') = map (\<lambda>p. (pay_order_id p, pay_amount p)) (payments d)"
    by (intro same; auto)+
  have "\<forall>x \<in> set (map pay_id (payments d')). x < next_uuid d'" "\<forall>x \<in> set (map pay_order_id (payments d')). x < next_uuid d'"
    unfolding ids using k(7) assms(8) by (auto simp: ids_fresh_def intro: less_le_trans)
  then have "ids_fresh d'"
    using k(7) assms(5-8) unfolding ids_fresh_def by (auto intro: less_le_trans)
  then have "keys_ok d'" using k assms(3-6) by (simp add: keys_ok_def unique_keys_def ids)
  moreover have "pay_amount p = o_total_amount x"
    if bk: "books d" and that: "p \<in> set (payments d')" "x \<in> set (orders d')" "pay_order_id p = o_id x" for p x
  proof -
    have "(pay_order_id p, pay_amount p) \<in> set (map (\<lambda>p. (pay_order_id p, pay_amount p)) (payments d))"
      using that(1) unfolding am [symmetric] by force
    then show ?thesis using that(2,3) bk assms(5) by (auto simp: books_def)
  qed
  ultimately show ?thesis using assms(5,6) by (auto simp: books_def siblings_def)
qed

lemma ipn_books:
  assumes "keys_ok d"
  shows "keys_ok (fst (handleVnpayIpn cfg q now d)) \<and> (books d \<longrightarrow> books (fst (handleVnpayIpn cfg q now d)))"
proof -
  obtain d' code where r: "handleVnpayIpn cfg q now d = (d', code)" by fastforce
  then have "keys_ok d' \<and> (books d \<longrightarrow> books d')"
  proof (cases rule: ipn_cases)
    case (2 a dup)
    from 2(5) show ?thesis
    proof (cases rule: sync_cases)
      case 1
      then show ?thesis by (intro payment_books [OF assms]) simp_all
    next
      case (2 p p')
      then have "find_row pay_id (pay_id p') (payments d) = Some p" using find_row_SomeD by fastforce
      with 2 show ?thesis by (intro payment_books [OF assms, of _ p' p]) (auto simp: save_payment_def)
    qed
  qed (use assms in simp)
  with r show ?thesis by simp
qed

lemma url_books:
  assumes "createVnpayPaymentUrl cfg oid u ip db_now now redis d = Inr (d', x)" "keys_ok d"
  shows "keys_ok d' \<and> (books d \<longrightarrow> books d')"
proof -
  from assms(1) obtain pid num iss where "issue_attempt pid oid num db_now now d = Inr (d', iss)"
    by (auto simp: createVnpayPaymentUrl_def Let_def intro: that split: sum.splits prod.splits)
  then show ?thesis
  proof (cases rule: issue_cases)
    case (1 locked info a p')
    then have "find_row pay_id (pay_id p') (payments d) = Some locked" using find_row_SomeD by fastforce
    with 1 show ?thesis by (intro payment_books [OF assms(2), of _ p' locked]) auto
  qed
qed

subsection \<open>Histories\<close>

text \<open>Everything that happens to orders, and whatever else happens away from them.\<close>

inductive order_step :: "calculator \<Rightarrow> db \<Rightarrow> db \<Rightarrow> bool" for calc where
  placed: "runCheckoutTransaction calc u dto key env d = Inr (d', rs, jobs) \<Longrightarrow> order_step calc d d'"
| cancelled_by_customer: "cancelSubOrder u k now d = Inr (d', r) \<Longrightarrow> order_step calc d d'"
| moved_by_seller: "updateSubOrderStatus u k st now d = Inr (d', ans) \<Longrightarrow> order_step calc d d'"
| expired: "expireUnpaidVnpayOrder oid db_now now d = Inr (d', b) \<Longrightarrow> order_step calc d d'"
| url_issued: "createVnpayPaymentUrl cfg oid u ip db_now now redis d = Inr (d', x) \<Longrightarrow> order_step calc d d'"
| ipn_received: "order_step calc d (fst (handleVnpayIpn cfg q now d))"
| elsewhere: "products d' = products d \<Longrightarrow> variants d' = variants d \<Longrightarrow> orders d' = orders d \<Longrightarrow>
     sub_orders d' = sub_orders d \<Longrightarrow> order_items d' = order_items d \<Longrightarrow> payments d' = payments d \<Longrightarrow>
     next_uuid d \<le> next_uuid d' \<Longrightarrow> order_step calc d d'"

lemma order_step_keys_books:
  assumes "order_step calc d d'" "keys_ok d"
  shows "keys_ok d' \<and> (books d \<longrightarrow> books d')"
proof -
  have change: ?thesis if "status_change sos st oid d d'" for sos st oid
    using status_change_keys [OF that assms(2)] status_change_books [OF that assms(2)] by blast
  show ?thesis
    using assms(1)
  proof (cases rule: order_step.cases)
    case (cancelled_by_customer u k now r)
    then obtain oid k' st amt where "cancelSubOrder u k now d = Inr (d', oid, k', st, amt)" by (cases r) auto
    then show ?thesis using cancel_change [OF _ assms(2)] change by metis
  next
    case (moved_by_seller u k st now ans)
    then show ?thesis using update_change [OF _ assms(2)] change assms(2) by metis
  next
    case (expired oid db_now now b)
    then show ?thesis using expire_change [OF _ assms(2)] change assms(2) by metis
  next
    case elsewhere
    then show ?thesis by (intro payment_books [OF assms(2)]) simp_all
  next
    case placed
    then show ?thesis using placed_books assms(2) by metis
  next
    case url_issued
    then show ?thesis using url_books assms(2) by metis
  next
    case ipn_received
    then show ?thesis using ipn_books assms(2) by metis
  qed
qed

lemma order_steps_books:
  "(order_step calc)\<^sup>*\<^sup>* d d' \<Longrightarrow> keys_ok d \<Longrightarrow> books d \<Longrightarrow> keys_ok d' \<and> books d'"
  by (induction rule: rtranclp_induct) (auto dest: order_step_keys_books)

subsection \<open>Stock on the shelf and stock that is sold\<close>

text \<open>What the sub-orders that are not cancelled hold of a product.\<close>

definition live :: "db \<Rightarrow> uuid \<Rightarrow> bool" where
  "live d sid \<longleftrightarrow> (\<exists>so \<in> set (sub_orders d). so_id so = sid \<and> so_status so \<noteq> Cancelled)"

definition sold :: "db \<Rightarrow> uuid \<Rightarrow> int" where
  "sold d k = (\<Sum>oi\<leftarrow>order_items d.
     if oi_product_id oi = Some k \<and> live d (oi_sub_order_id oi) then oi_quantity oi else 0)"

definition on_shelf :: "db \<Rightarrow> uuid \<Rightarrow> int" where
  "on_shelf d k = (case find_row p_id k (products d) of None \<Rightarrow> 0 | Some p \<Rightarrow> p_stock_quantity p)"

lemma on_shelf_move:
  assumes "products d' = map (move_product c items) (products d)" "k \<in> p_id ` set (products d)"
  shows "on_shelf d' k = on_shelf d k + c * requested_product items k"
proof -
  obtain p where "find_row p_id k (products d) = Some p" using assms(2) find_row_None_iff [of p_id k] by blast
  with find_row_SomeD [OF this] show ?thesis
    by (simp add: on_shelf_def assms(1) find_row_map) (simp add: move_product_def)
qed

text \<open>Each item belongs to one sub-order, so the sums over some sub-orders add up.\<close>

lemma sum_by_parent:
  fixes w :: "order_item \<Rightarrow> int"
  assumes "distinct (map so_id sos)"
  shows "(\<Sum>s\<leftarrow>sos. \<Sum>oi\<leftarrow>filter (\<lambda>oi. oi_sub_order_id oi = so_id s) ois. w oi)
       = (\<Sum>oi\<leftarrow>ois. if oi_sub_order_id oi \<in> so_id ` set sos then w oi else 0)"
  using assms
proof (induction sos)
  case (Cons s sos)
  have "(\<Sum>oi\<leftarrow>ois. if oi_sub_order_id oi \<in> so_id ` set (s # sos) then w oi else 0)
      = (\<Sum>oi\<leftarrow>ois. (if oi_sub_order_id oi = so_id s then w oi else 0)
           + (if oi_sub_order_id oi \<in> so_id ` set sos then w oi else 0))"
    using Cons.prems by (intro arg_cong [where f = sum_list] map_cong) auto
  then show ?case using Cons by (simp add: sum_list_addf sum_filter_if)
qed simp

lemma requested_targets:
  assumes "k \<in> p_id ` set (products d)"
  shows "requested_product (restock_targets so d) k
       = (\<Sum>oi\<leftarrow>items_of so d. if oi_product_id oi = Some k then oi_quantity oi else 0)"
proof -
  have "find_opt p_id (Some k) (products d) \<noteq> None"
    using assms find_row_None_iff [of p_id k "products d"] by (simp add: find_opt_def)
  then have w: "(if find_opt p_id (oi_product_id oi) (products d) \<noteq> None
        then (if the (oi_product_id oi) = k then oi_quantity oi else 0) else 0)
      = (if oi_product_id oi = Some k then oi_quantity oi else 0)" for oi
    by (cases "oi_product_id oi") (auto simp: find_opt_def)
  show ?thesis
    by (simp only: requested_product_def restock_targets_def map_map comp_def stock_item.simps sum_filter_if w)
qed

lemma requested_concat: "requested_product (concat xss) k = (\<Sum>xs\<leftarrow>xss. requested_product xs k)"
  by (induction xss) simp_all

lemma not_from_cancelled: "st \<in> set (sub_order_state_machine s) \<Longrightarrow> s \<noteq> Cancelled"
  by (cases s) auto

lemma status_change_conserves:
  assumes "status_change sos st oid d d'" "keys_ok d" "k \<in> p_id ` set (products d)"
  shows "on_shelf d' k + sold d' k = on_shelf d k + sold d k"
proof -
  let ?targets = "if st = Cancelled then concat (map (\<lambda>s. restock_targets s d) sos) else []"
  obtain f where f: "sub_orders d' = map (\<lambda>s. if s \<in> set sos then f s else s) (sub_orders d)"
      "\<forall>s. so_id (f s) = so_id s \<and> so_order_id (f s) = so_order_id s \<and> so_status (f s) = st"
    and sib: "set sos \<subseteq> set (siblings oid d)"
    using status_change_subs [OF assms(1)] .
  have sos: "set sos \<subseteq> set (sub_orders d)" using sib by (rule siblings_members)
  have p: "products d' = map (move_product 1 ?targets) (products d)" and oi: "order_items d' = order_items d"
    and dist: "distinct sos" and from_live: "\<forall>s \<in> set sos. so_status s \<noteq> Cancelled"
    using assms(1) not_from_cancelled by (auto simp: status_change_def Let_def)
  have u: "unique_keys so_id (sub_orders d)" using assms(2) by (rule keys_okD)
  then have inj: "inj_on so_id (set (sub_orders d))" by (simp add: unique_keys_def distinct_map)
  then have dist': "distinct (map so_id sos)" using dist sos by (simp add: distinct_map inj_on_subset)
  have shelf: "on_shelf d' k = on_shelf d k + requested_product ?targets k"
    using on_shelf_move [OF p assms(3)] by simp
  have live_sos: "live d sid" if "sid \<in> so_id ` set sos" for sid
    using that sos from_live by (auto simp: live_def)
  have live': "live d' sid \<longleftrightarrow> (if sid \<in> so_id ` set sos then st \<noteq> Cancelled else live d sid)" for sid
  proof (cases "sid \<in> so_id ` set sos")
    case True
    then obtain s where s: "s \<in> set sos" "so_id s = sid" by blast
    have "x = s" if "x \<in> set (sub_orders d)" "so_id x = sid" for x
      using inj_onD [OF inj, of x s] that s sos by auto
    then show ?thesis using True s sos f(2) unfolding live_def f(1) by fastforce
  next
    case False
    then have "(if s \<in> set sos then f s else s) = s" if "so_id s = sid" for s using that by auto
    with False f(2) show ?thesis unfolding live_def f(1) by (auto split: if_splits)
  qed
  show ?thesis
  proof (cases "st = Cancelled")
    case False
    then have "live d' sid = live d sid" for sid using live' [of sid] live_sos [of sid] by simp
    then have "live d' = live d" ..
    then show ?thesis using False shelf by (simp add: sold_def oi)
  next
    case True
    let ?w = "\<lambda>oi. if oi_product_id oi = Some k then oi_quantity oi else 0"
    have "requested_product ?targets k = (\<Sum>s\<leftarrow>sos. \<Sum>oi\<leftarrow>items_of s d. ?w oi)"
      using True by (simp add: requested_concat comp_def requested_targets [OF assms(3)])
    also have "\<dots> = (\<Sum>oi\<leftarrow>order_items d. if oi_sub_order_id oi \<in> so_id ` set sos then ?w oi else 0)"
      unfolding items_of_def by (rule sum_by_parent [OF dist'])
    finally have r: "requested_product ?targets k
        = (\<Sum>oi\<leftarrow>order_items d. if oi_sub_order_id oi \<in> so_id ` set sos then ?w oi else 0)" .
    have "sold d k = (\<Sum>oi\<leftarrow>order_items d.
        (if oi_product_id oi = Some k \<and> live d' (oi_sub_order_id oi) then oi_quantity oi else 0)
        + (if oi_sub_order_id oi \<in> so_id ` set sos then ?w oi else 0))"
      unfolding sold_def using live' live_sos True
      by (intro arg_cong [where f = sum_list] map_cong) auto
    then have "sold d k = sold d' k + requested_product ?targets k"
      by (simp add: sum_list_addf r sold_def oi)
    with shelf show ?thesis by simp
  qed
qed

text \<open>A checkout moves what it sells from the shelf into the order.\<close>

lemma placed_conserves:
  assumes "runCheckoutTransaction calc u dto key env d = Inr (d', rs, jobs)" "keys_ok d" "k \<in> p_id ` set (products d)"
  shows "on_shelf d' k + sold d' k = on_shelf d k + sold d k \<and> k \<in> p_id ` set (products d')"
proof (cases "d' = d")
  case False
  let ?n = "next_uuid d" and ?w = "\<lambda>oi. if oi_product_id oi = Some k then oi_quantity oi else 0"
  obtain new its targets where subs: "sub_orders d' = sub_orders d @ new"
      "\<forall>s \<in> set new. ?n < so_id s \<and> so_id s < next_uuid d' \<and> so_order_id s = Some ?n \<and> so_status s = Pending"
    and its: "order_items d' = order_items d @ its" "oi_sub_order_id ` set its \<subseteq> so_id ` set new"
    and mv: "products d' = map (move_product (-1) targets) (products d)"
    and req: "\<forall>k. requested_product targets k = (\<Sum>oi\<leftarrow>its. if oi_product_id oi = Some k then oi_quantity oi else 0)"
    by (rule placed_tables [OF assms(1,2) False]) (rule that)
  have old: "live d' sid = live d sid" if "sid < ?n" for sid using that subs by (fastforce simp: live_def)
  have fresh: "live d' (oi_sub_order_id oi)" if "oi \<in> set its" for oi using that its(2) subs by (fastforce simp: live_def)
  have "sold d' k = (\<Sum>oi\<leftarrow>order_items d. if oi_product_id oi = Some k \<and> live d' (oi_sub_order_id oi) then oi_quantity oi else 0)
     + (\<Sum>oi\<leftarrow>its. if oi_product_id oi = Some k \<and> live d' (oi_sub_order_id oi) then oi_quantity oi else 0)"
    by (simp add: sold_def its(1))
  also have "(\<Sum>oi\<leftarrow>order_items d. if oi_product_id oi = Some k \<and> live d' (oi_sub_order_id oi) then oi_quantity oi else 0) = sold d k"
    unfolding sold_def using old keys_okD(7) [OF assms(2)]
    by (intro arg_cong [where f = sum_list] map_cong) (auto simp: ids_fresh_def)
  also have "(\<Sum>oi\<leftarrow>its. if oi_product_id oi = Some k \<and> live d' (oi_sub_order_id oi) then oi_quantity oi else 0) = (\<Sum>oi\<leftarrow>its. ?w oi)"
    using fresh by (intro arg_cong [where f = sum_list] map_cong) auto
  finally have "sold d' k = sold d k + requested_product targets k" using req by simp
  moreover have "on_shelf d' k = on_shelf d k - requested_product targets k"
    using on_shelf_move [OF mv assms(3)] by simp
  moreover have "k \<in> p_id ` set (products d')" using assms(3) by (simp add: mv image_image)
  ultimately show ?thesis by simp
qed (use assms in simp)

lemma order_step_conserves:
  assumes "order_step calc d d'" "keys_ok d" "k \<in> p_id ` set (products d)"
  shows "on_shelf d' k + sold d' k = on_shelf d k + sold d k \<and> k \<in> p_id ` set (products d')"
proof -
  have change: ?thesis if "status_change sos st oid d d'" for sos st oid
  proof -
    have "map p_id (products d') = map p_id (products d)" using that by (auto simp: status_change_def Let_def)
    then have "p_id ` set (products d') = p_id ` set (products d)" by (metis set_map)
    then show ?thesis using status_change_conserves [OF that assms(2,3)] assms(3) by simp
  qed
  have same: ?thesis if "products d' = products d" "sub_orders d' = sub_orders d" "order_items d' = order_items d"
    using that assms(3) by (simp add: on_shelf_def sold_def live_def)
  show ?thesis
    using assms(1)
  proof (cases rule: order_step.cases)
    case (placed u dto key env rs jobs)
    then show ?thesis using placed_conserves assms(2,3) by blast
  next
    case (cancelled_by_customer u k now r)
    then obtain oid k' st amt where "cancelSubOrder u k now d = Inr (d', oid, k', st, amt)" by (cases r) auto
    then show ?thesis using cancel_change [OF _ assms(2)] change by metis
  next
    case (moved_by_seller u k st now ans)
    then show ?thesis using update_change [OF _ assms(2)] change same by metis
  next
    case (expired oid db_now now b)
    then show ?thesis using expire_change [OF _ assms(2)] change same by metis
  next
    case (url_issued cfg oid u ip db_now now redis x)
    then obtain pid num iss where "issue_attempt pid oid num db_now now d = Inr (d', iss)"
      by (auto simp: createVnpayPaymentUrl_def Let_def intro: that split: sum.splits prod.splits)
    then show ?thesis
    proof (cases rule: issue_cases)
      case 1
      then show ?thesis by (intro same) simp_all
    qed
  next
    case (ipn_received cfg q now)
    then obtain code where "handleVnpayIpn cfg q now d = (d', code)" by (metis prod.collapse)
    then show ?thesis
    proof (cases rule: ipn_cases)
      case (2 a dup)
      from 2(5) have "products d' = products d \<and> sub_orders d' = sub_orders d \<and> order_items d' = order_items d"
        by (cases rule: sync_cases) (simp_all add: save_payment_def)
      then show ?thesis by (intro same) simp_all
    qed (use assms(3) in simp)
  next
    case elsewhere
    then show ?thesis by (intro same)
  qed
qed

lemma order_steps_conserve:
  assumes "(order_step calc)\<^sup>*\<^sup>* d d'" "keys_ok d" "books d" "k \<in> p_id ` set (products d)"
  shows "on_shelf d' k + sold d' k = on_shelf d k + sold d k \<and> k \<in> p_id ` set (products d')"
  using assms(1)
proof (induction rule: rtranclp_induct)
  case (step d' d'')
  have "keys_ok d'" using order_steps_books [OF step(1) assms(2,3)] by blast
  with order_step_conserves [OF step(2)] step.IH show ?case by fastforce
qed (use assms in simp)

subsection \<open>The state machine over histories\<close>

definition sub_order_edges :: "(order_status \<times> order_status) set" where
  "sub_order_edges = {(s, t). t \<in> set (sub_order_state_machine s)}"

definition final_status :: "order_status \<Rightarrow> bool" where
  "final_status s \<longleftrightarrow> sub_order_state_machine s = []"

lemma status_change_edges:
  assumes "status_change sos st oid d d'" "keys_ok d" "find_row so_id k (sub_orders d) = Some so"
  shows "\<exists>so'. find_row so_id k (sub_orders d') = Some so' \<and> (so_status so, so_status so') \<in> sub_order_edges\<^sup>="
proof -
  obtain f where f: "sub_orders d' = map (\<lambda>s. if s \<in> set sos then f s else s) (sub_orders d)"
      "\<forall>s. so_id (f s) = so_id s \<and> so_order_id (f s) = so_order_id s \<and> so_status (f s) = st"
    using status_change_subs [OF assms(1)] .
  have "\<forall>s \<in> set sos. st \<in> set (sub_order_state_machine (so_status s))" using assms(1) by (simp add: status_change_def)
  moreover have "find_row so_id k (sub_orders d') = Some (if so \<in> set sos then f so else so)"
    using f(2) assms(3) unfolding f(1) by (subst find_row_map) auto
  ultimately show ?thesis using f(2) by (auto simp: sub_order_edges_def)
qed

lemma order_step_edges:
  assumes "order_step calc d d'" "keys_ok d" "find_row so_id k (sub_orders d) = Some so"
  shows "\<exists>so'. find_row so_id k (sub_orders d') = Some so' \<and> (so_status so, so_status so') \<in> sub_order_edges\<^sup>="
proof -
  note change = status_change_edges [OF _ assms(2,3)]
  have same: ?thesis if "sub_orders d' = sub_orders d" using that assms(3) by simp
  show ?thesis
    using assms(1)
  proof (cases rule: order_step.cases)
    case (placed u dto key env rs jobs)
    have "\<exists>new. sub_orders d' = sub_orders d @ new"
    proof (cases "d' = d")
      case False
      show ?thesis by (rule placed_tables [OF placed assms(2) False]) blast
    qed simp
    with assms(3) show ?thesis by (auto simp: find_row_append)
  next
    case (cancelled_by_customer u k' now r)
    then obtain oid k'' st amt where "cancelSubOrder u k' now d = Inr (d', oid, k'', st, amt)" by (cases r) auto
    then show ?thesis using cancel_change [OF _ assms(2)] change by metis
  next
    case (moved_by_seller u k' st now ans)
    then show ?thesis using update_change [OF _ assms(2)] change same by metis
  next
    case (expired oid db_now now b)
    then show ?thesis using expire_change [OF _ assms(2)] change same by metis
  next
    case (url_issued cfg oid u ip db_now now redis x)
    then obtain pid num iss where "issue_attempt pid oid num db_now now d = Inr (d', iss)"
      by (auto simp: createVnpayPaymentUrl_def Let_def intro: that split: sum.splits prod.splits)
    then have "sub_orders d' = sub_orders d" by (cases rule: issue_cases) simp
    then show ?thesis by (rule same)
  next
    case (ipn_received cfg q now)
    then obtain code where "handleVnpayIpn cfg q now d = (d', code)" by (metis prod.collapse)
    then show ?thesis
    proof (cases rule: ipn_cases)
      case (2 a dup)
      from 2(5) have "sub_orders d' = sub_orders d" by (cases rule: sync_cases) (simp_all add: save_payment_def)
      then show ?thesis by (rule same)
    qed (use assms(3) in simp)
  next
    case elsewhere
    then show ?thesis by (intro same)
  qed
qed

lemma order_steps_edges:
  assumes "(order_step calc)\<^sup>*\<^sup>* d d'" "keys_ok d" "books d" "find_row so_id k (sub_orders d) = Some so"
  shows "\<exists>so'. find_row so_id k (sub_orders d') = Some so' \<and> (so_status so, so_status so') \<in> sub_order_edges\<^sup>*"
  using assms(1)
proof (induction rule: rtranclp_induct)
  case (step d' d'')
  then obtain so' where so': "find_row so_id k (sub_orders d') = Some so'" "(so_status so, so_status so') \<in> sub_order_edges\<^sup>*"
    by blast
  have "keys_ok d'" using order_steps_books [OF step(1) assms(2,3)] by blast
  from order_step_edges [OF step(2) this so'(1)] obtain so'' where
    "find_row so_id k (sub_orders d'') = Some so''" "(so_status so', so_status so'') \<in> sub_order_edges\<^sup>=" by blast
  moreover from this(2) have "(so_status so', so_status so'') \<in> sub_order_edges\<^sup>*" by auto
  ultimately show ?case using rtrancl_trans [OF so'(2)] by blast
qed (use assms(4) in blast)

lemma edges_from_final: "(s, t) \<in> sub_order_edges\<^sup>* \<Longrightarrow> final_status s \<Longrightarrow> t = s"
  by (induction rule: converse_rtrancl_induct) (auto simp: sub_order_edges_def final_status_def)


text \<open>Items are only ever added, under new ids.\<close>

lemma order_step_items:
  assumes "order_step calc d d'" "keys_ok d"
  shows "\<exists>its. order_items d' = order_items d @ its \<and> distinct (map oi_id its)
    \<and> (\<forall>oi \<in> set its. next_uuid d < oi_id oi \<and> oi_id oi < next_uuid d') \<and> next_uuid d \<le> next_uuid d'"
proof -
  have same: ?thesis if "order_items d' = order_items d" "next_uuid d \<le> next_uuid d'"
    using that by (intro exI [of _ "[]"]) simp
  have change: ?thesis if "status_change sos st oid d d'" for sos st oid
    by (rule same) (use that in \<open>simp_all add: status_change_def Let_def\<close>)
  show ?thesis
    using assms(1)
  proof (cases rule: order_step.cases)
    case (placed u dto key env rs jobs)
    show ?thesis
    proof (cases "d' = d")
      case False
      show ?thesis by (rule placed_tables [OF placed assms(2) False]) (intro exI conjI, assumption+, simp)
    qed (simp add: same)
  next
    case (cancelled_by_customer u k now r)
    then obtain oid k' st amt where "cancelSubOrder u k now d = Inr (d', oid, k', st, amt)" by (cases r) auto
    then show ?thesis using cancel_change [OF _ assms(2)] change by metis
  next
    case (moved_by_seller u k st now ans)
    then show ?thesis using update_change [OF _ assms(2)] change same by (metis order_refl)
  next
    case (expired oid db_now now b)
    then show ?thesis using expire_change [OF _ assms(2)] change same by (metis order_refl)
  next
    case (url_issued cfg oid u ip db_now now redis x)
    then obtain pid num iss where "issue_attempt pid oid num db_now now d = Inr (d', iss)"
      by (auto simp: createVnpayPaymentUrl_def Let_def intro: that split: sum.splits prod.splits)
    then show ?thesis
    proof (cases rule: issue_cases)
      case 1
      then show ?thesis by (intro same) simp_all
    qed
  next
    case (ipn_received cfg q now)
    then obtain code where "handleVnpayIpn cfg q now d = (d', code)" by (metis prod.collapse)
    then show ?thesis
    proof (cases rule: ipn_cases)
      case (2 a dup)
      from 2(5) have "order_items d' = order_items d \<and> next_uuid d' = next_uuid d"
        by (cases rule: sync_cases) (simp_all add: save_payment_def)
      then show ?thesis by (intro same) simp_all
    qed (simp add: same)
  next
    case elsewhere
    then show ?thesis by (intro same)
  qed
qed

subsection \<open>Unpaid orders wait\<close>

definition unpaid_wait :: "db \<Rightarrow> bool" where
  "unpaid_wait d \<longleftrightarrow>
     (\<forall>p \<in> set (payments d). pay_method p = VNPAY \<longrightarrow> pay_status p \<noteq> PayCompleted \<longrightarrow>
        (\<forall>so \<in> set (siblings (pay_order_id p) d). so_status so \<in> {Pending, Cancelled}))"

lemma unpaid_waitI:
  assumes "unpaid_wait d" "sub_orders d' = sub_orders d"
    and "\<And>q. q \<in> set (payments d') \<Longrightarrow> pay_method q = VNPAY \<Longrightarrow> pay_status q \<noteq> PayCompleted \<Longrightarrow>
      \<exists>p \<in> set (payments d). pay_order_id p = pay_order_id q \<and> pay_method p = VNPAY \<and> pay_status p \<noteq> PayCompleted"
  shows "unpaid_wait d'"
  using assms(1) assms(3) unfolding unpaid_wait_def siblings_def assms(2) by metis

lemma saved_payment_waits:
  assumes "unpaid_wait d" "sub_orders d' = sub_orders d" "payments d' = save_row pay_id q (payments d)"
    and "find_row pay_id k (payments d) = Some p" "pay_order_id q = pay_order_id p" "pay_method q = pay_method p"
      "pay_status p \<noteq> PayCompleted"
  shows "unpaid_wait d'"
proof (rule unpaid_waitI [OF assms(1,2)])
  fix r assume r: "r \<in> set (payments d')" "pay_method r = VNPAY" "pay_status r \<noteq> PayCompleted"
  have "r = q \<or> r \<in> set (payments d)" using r(1) set_save_row_subset [of pay_id q] by (auto simp: assms(3))
  then show "\<exists>p \<in> set (payments d). pay_order_id p = pay_order_id r \<and> pay_method p = VNPAY \<and> pay_status p \<noteq> PayCompleted"
    using r(2,3) assms(5-7) find_row_SomeD [OF assms(4)] by auto
qed

lemma status_change_waits:
  assumes "status_change sos st oid d d'" "keys_ok d" "unpaid_wait d" "st = Cancelled \<or> \<not> isVnpayUnpaid oid d"
  shows "unpaid_wait d'"
  unfolding unpaid_wait_def
proof (intro ballI impI)
  obtain f where f: "sub_orders d' = map (\<lambda>s. if s \<in> set sos then f s else s) (sub_orders d)"
      "\<forall>s. so_id (f s) = so_id s \<and> so_order_id (f s) = so_order_id s \<and> so_status (f s) = st"
    and sib: "set sos \<subseteq> set (siblings oid d)"
    using status_change_subs [OF assms(1)] .
  obtain g where g: "payments d' = map g (payments d)" "\<forall>p. pay_order_id (g p) = pay_order_id p \<and> pay_method (g p) = pay_method p"
      "\<forall>p \<in> set (payments d). pay_status p = PayCompleted \<longrightarrow> pay_status (g p) = PayCompleted"
    using status_change_orders [OF assms(1)] by metis
  fix q so assume q: "q \<in> set (payments d')" "pay_method q = VNPAY" "pay_status q \<noteq> PayCompleted"
    and so: "so \<in> set (siblings (pay_order_id q) d')"
  from q g obtain p where p: "p \<in> set (payments d)" "pay_order_id q = pay_order_id p" "pay_method p = VNPAY"
    "pay_status p \<noteq> PayCompleted" by auto
  from so f obtain s where s: "s \<in> set (siblings (pay_order_id p) d)" "so = (if s \<in> set sos then f s else s)"
    by (auto simp: siblings_def p(2) split: if_splits)
  have "so_status s \<in> {Pending, Cancelled}" using assms(3) p s(1) by (auto simp: unpaid_wait_def)
  moreover have "st = Cancelled" if "s \<in> set sos"
  proof -
    have "pay_order_id p = oid" using that sib s(1) by (auto simp: siblings_def)
    then have "isVnpayUnpaid oid d"
      using find_row_in_set [OF keys_okD(6) [OF assms(2)] p(1)] p(3,4) by (simp add: isVnpayUnpaid_def)
    then show ?thesis using assms(4) by blast
  qed
  ultimately show "so_status so \<in> {Pending, Cancelled}" using s(2) f(2) by auto
qed

lemma order_step_waits:
  assumes "order_step calc d d'" "keys_ok d" "unpaid_wait d"
  shows "unpaid_wait d'"
  using assms(1)
proof (cases rule: order_step.cases)
  case (placed u dto key env rs jobs)
  show ?thesis
  proof (cases "d' = d")
    case False
    let ?n = "next_uuid d"
    obtain new p where subs: "sub_orders d' = sub_orders d @ new"
        "\<forall>s \<in> set new. ?n < so_id s \<and> so_id s < next_uuid d' \<and> so_order_id s = Some ?n \<and> so_status s = Pending"
      and pay: "payments d' = payments d @ [p]" "pay_order_id p = ?n"
      by (rule placed_tables [OF placed assms(2) False]) (rule that)
    have fresh: "\<forall>x \<in> set (sub_orders d). so_order_id x \<noteq> Some ?n" "\<forall>x \<in> set (payments d). pay_order_id x < ?n"
      using keys_okD(7) [OF assms(2)] by (auto simp: ids_fresh_def)
    have old: "siblings l d' = siblings l d" if "l < ?n" for l
      using subs that by (fastforce simp: siblings_def filter_empty_conv)
    have "so_status so = Pending" if "so \<in> set (siblings ?n d')" for so
      using that subs fresh(1) by (auto simp: siblings_def)
    then show ?thesis using assms(3) fresh(2) old pay by (auto simp: unpaid_wait_def)
  qed (use assms(3) in simp)
next
  case (cancelled_by_customer u k now r)
  then obtain oid k' st amt where c: "cancelSubOrder u k now d = Inr (d', oid, k', st, amt)" by (cases r) auto
  show ?thesis by (rule cancel_change [OF c assms(2)]) (rule status_change_waits [OF _ assms(2,3)], auto)
next
  case (moved_by_seller u k st now ans)
  then show ?thesis using update_change [OF _ assms(2)] status_change_waits [OF _ assms(2,3)] assms(3) by metis
next
  case (expired oid db_now now b)
  then show ?thesis using expire_change [OF _ assms(2)] status_change_waits [OF _ assms(2,3)] assms(3) by metis
next
  case (url_issued cfg oid u ip db_now now redis x)
  then obtain pid num iss where "issue_attempt pid oid num db_now now d = Inr (d', iss)"
    by (auto simp: createVnpayPaymentUrl_def Let_def intro: that split: sum.splits prod.splits)
  then show ?thesis
  proof (cases rule: issue_cases)
    case (1 locked info a p')
    then show ?thesis by (intro saved_payment_waits [OF assms(3) _ _ 1(1), of d' p']) simp_all
  qed
next
  case (ipn_received cfg q now)
  then obtain code where "handleVnpayIpn cfg q now d = (d', code)" by (metis prod.collapse)
  then show ?thesis
  proof (cases rule: ipn_cases)
    case (2 a dup)
    from 2(5) show ?thesis
    proof (cases rule: sync_cases)
      case 1
      then show ?thesis by (intro unpaid_waitI [OF assms(3)]) auto
    next
      case (2 p p')
      then have "find_row pay_id (pa_payment_id a) (payments d) = Some p" by simp
      with 2 show ?thesis by (intro saved_payment_waits [OF assms(3), of d' p']) (auto simp: save_payment_def)
    qed
  qed (use assms(3) in simp)
next
  case elsewhere
  then show ?thesis by (intro unpaid_waitI [OF assms(3)]) auto
qed

lemma order_steps_wait:
  assumes "(order_step calc)\<^sup>*\<^sup>* d d'" "keys_ok d" "books d" "unpaid_wait d"
  shows "unpaid_wait d'"
  using assms(1)
proof (induction rule: rtranclp_induct)
  case (step d' d'')
  have "keys_ok d'" using order_steps_books [OF step(1) assms(2,3)] by blast
  with order_step_waits [OF step(2)] step.IH show ?case by blast
qed (use assms in simp)

subsection \<open>Properties\<close>

text \<open>The customer cancels the shirt of the order paid on delivery.\<close>

lemma cod_keys_ok: "keys_ok cod_db"
  by (simp add: keys_ok_def cod_db_def demo_db_def unique_keys_def ids_fresh_def empty_db_def)

lemma cod_books: "books cod_db"
  by (simp add: books_def cod_db_def siblings_def derive_least)

lemma cod_cancel: "\<exists>d'. order_step calc cod_db d' \<and> find_row o_id 90 (orders d') \<noteq> None
     \<and> map (\<lambda>so. (so_id so, so_order_id so, so_status so)) (sub_orders d')
       = [(91, Some 90, Processing), (92, Some 90, Cancelled)]"
proof -
  let ?t = "[\<lparr>si_product_id = 22, si_variant_id = Some 31, si_quantity = 1\<rparr>]"
  have so: "find_row so_id 92 (sub_orders cod_db) = Some shirt_order" by (simp add: cod_db_def shirt_order_def find_row_Cons)
  have t: "restock_targets shirt_order cod_db = ?t"
    by (simp add: restock_targets_def items_of_def shirt_order_def cod_db_def find_opt_def demo_db_def find_row_Cons)
  have "lockAndRestock ?t cod_db = Inr (move_stock 1 ?t cod_db)"
    by (rule restock_cases) (simp_all add: demo_db_def unique_keys_def)
  moreover have "find_opt c_id (so_shop_coupon_id shirt_order) (coupons cod_db) = None"
    by (simp add: shirt_order_def cod_db_def find_opt_def)
  ultimately have r: "restockAndRefundSubOrder shirt_order cod_db = Inr (move_stock 1 ?t cod_db)"
    by (simp add: restockAndRefundSubOrder_def t Let_def)
  then obtain d1 where d1: "restockAndRefundSubOrder shirt_order cod_db = Inr d1" "orders d1 = orders cod_db"
    by (simp add: move_stock_def)
  define d2 where "d2 = save_sub (shirt_order\<lparr>so_status := Cancelled\<rparr>) d1"
  have o: "find_row o_id 90 (orders cod_db) = Some (orders cod_db ! 0)" by (simp add: cod_db_def find_row_Cons)
  moreover have "orders d2 = orders cod_db" by (simp add: d2_def save_sub_def d1(2))
  ultimately obtain d3 st amt where rc: "recomputeMasterAfterSubOrderChange 90 0 d2 = Inr (d3, st, amt)"
    using recompute_defined [of 90 d2] by metis
  have f: "find_opt o_id (so_order_id shirt_order) (orders cod_db) = Some (orders cod_db ! 0)" "so_status shirt_order = Pending"
    "o_customer_id (orders cod_db ! 0) = Some 1" "o_id (orders cod_db ! 0) = 90"
    using o by (simp_all add: shirt_order_def cod_db_def find_opt_def)
  define d' where "d' = d3\<lparr>outbox := outbox d3 @ [order_cancelled_event (orders cod_db ! 0) shirt_order 1 d3]\<rparr>"
  have c: "cancelSubOrder 1 92 0 cod_db = Inr (d', 90, so_id shirt_order, st, amt)"
    by (simp add: cancelSubOrder_def so f d1(1) d2_def [symmetric] rc d'_def)
  obtain so' where ch: "find_row so_id 92 (sub_orders cod_db) = Some so'" "status_change [so'] Cancelled 90 cod_db d'"
    by (rule cancel_change [OF c cod_keys_ok])
  have so': "so' = shirt_order" using ch(1) so by simp
  obtain g where g: "sub_orders d' = map (\<lambda>s. if s \<in> set [so'] then g s else s) (sub_orders cod_db)"
    "\<forall>s. so_id (g s) = so_id s \<and> so_order_id (g s) = so_order_id s \<and> so_status (g s) = Cancelled"
    by (rule status_change_subs [OF ch(2)])
  have "map (\<lambda>so. (so_id so, so_order_id so, so_status so)) (sub_orders d') = [(91, Some 90, Processing), (92, Some 90, Cancelled)]"
    unfolding g(1) so' using g(2) by (simp add: shirt_order_def) (simp add: cod_db_def)
  moreover obtain ord' where "same_order (orders cod_db ! 0) ord'" "orders d' = save_row o_id ord' (orders cod_db)"
    by (rule status_change_orders [OF ch(2)]) (use o in auto)
  then have "find_row o_id 90 (orders d') \<noteq> None" using f(4) by (simp add: find_row_save same_order_def)
  ultimately show ?thesis using order_step.cancelled_by_customer [OF c, of calc] by (intro exI [of _ d'] conjI)
qed

lemma cod_history: "\<exists>d' ord. (order_step calc)\<^sup>*\<^sup>* cod_db d' \<and> find_row o_id 90 (orders d') = Some ord
     \<and> siblings 90 d' = sub_orders d' \<and> map so_status (sub_orders d') = [Processing, Cancelled]"
proof -
  obtain d' where d': "order_step calc cod_db d'" "find_row o_id 90 (orders d') \<noteq> None"
    and s: "map (\<lambda>so. (so_id so, so_order_id so, so_status so)) (sub_orders d') = [(91, Some 90, Processing), (92, Some 90, Cancelled)]"
    using cod_cancel [of calc] by (elim exE conjE) (rule that)
  from s obtain a b where "sub_orders d' = [a, b]" "so_order_id a = Some 90" "so_order_id b = Some 90"
    "so_status a = Processing" "so_status b = Cancelled" by (auto simp: map_eq_Cons_conv)
  then have "siblings 90 d' = sub_orders d'" "map so_status (sub_orders d') = [Processing, Cancelled]"
    by (simp_all add: siblings_def)
  with d' show ?thesis by (intro exI [of _ d']) auto
qed



text \<open>C4. No history loses or invents stock: what is on the shelf of a product and what its orders that
  are not cancelled hold of it always add up to the same number.\<close>

theorem stock_conserved:
  assumes "(order_step calc)\<^sup>*\<^sup>* d d'" "keys_ok d" "books d" "k \<in> p_id ` set (products d)"
  shows "on_shelf d' k + sold d' k = on_shelf d k + sold d k"
  using order_steps_conserve [OF assms] by blast

lemma stock_conserved_witness:
  "\<exists>d'. (order_step (calculateShippingFee demo_math))\<^sup>*\<^sup>* cod_db d' \<and> map so_status (sub_orders d') = [Processing, Cancelled]
     \<and> on_shelf d' 22 + sold d' 22 = 8"
proof -
  obtain d' where d': "(order_step (calculateShippingFee demo_math))\<^sup>*\<^sup>* cod_db d'" "map so_status (sub_orders d') = [Processing, Cancelled]"
    using cod_history [of "calculateShippingFee demo_math"] by (elim exE conjE) (rule that)
  have "on_shelf cod_db 22 = 7" by (simp add: on_shelf_def demo_db_def find_row_Cons)
  moreover have "sold cod_db 22 = 1" by (simp add: sold_def live_def cod_db_def)
  moreover have "22 \<in> p_id ` set (products cod_db)" by (simp add: demo_db_def)
  ultimately show ?thesis using stock_conserved [OF d'(1) cod_keys_ok cod_books, of 22] d' by auto
qed



end
