(* ===== verification/OrderQueries.thy ===== *)
theory OrderQueries
  imports OrderHistory
begin

text \<open>
  The queries of \<open>orders.service.ts\<close>: what a customer and a seller see of the orders, the
  statistics of a shop and the revenue a payout is computed from. Sub-orders of a VNPAY order that is
  not paid are hidden from the seller everywhere by the same filter.

  A query is the list of the rows it selects, in its order; joined rows are looked up. The order
  of rows with equal sort keys, which SQL leaves open, is that of insertion. The column
  \<open>updated_at\<close>, kept by the ORM, is an argument of the one query that sorts by it.
\<close>

subsection \<open>What a seller sees\<close>

definition buildVnpayPaidFilter :: "sub_order \<Rightarrow> db \<Rightarrow> bool" where
  "buildVnpayPaidFilter so d =
     (case find_opt pay_order_id (so_order_id so) (payments d) of
        None \<Rightarrow> True
      | Some p \<Rightarrow> pay_method p \<noteq> VNPAY \<or> pay_status p = PayCompleted)"

definition seller_sub_orders :: "uuid \<Rightarrow> order_status option \<Rightarrow> db \<Rightarrow> sub_order list" where
  "seller_sub_orders sellerId status d =
     order_desc (\<lambda>so. Some (so_created_at so))
       (filter (\<lambda>so. map_option s_seller_id (shop_of so d) = Some sellerId \<and> buildVnpayPaidFilter so d
                   \<and> (case status of None \<Rightarrow> True | Some s \<Rightarrow> so_status so = s)) (sub_orders d))"

definition getSellerSubOrders ::
  "uuid \<Rightarrow> order_status option \<Rightarrow> nat option \<Rightarrow> nat option \<Rightarrow> db \<Rightarrow> sub_order paginated" where
  "getSellerSubOrders sellerId status qpage qlimit d = paginate qpage qlimit (seller_sub_orders sellerId status d)"

definition getSellerSubOrderDetail :: "uuid \<Rightarrow> uuid \<Rightarrow> db \<Rightarrow> http_error + sub_order" where
  "getSellerSubOrderDetail sellerId subOrderId d =
     (case filter (\<lambda>so. so_id so = subOrderId \<and> map_option s_seller_id (shop_of so d) = Some sellerId
                      \<and> buildVnpayPaidFilter so d) (sub_orders d) of
        [] \<Rightarrow> Inl (NotFound (OrderMsg SubOrderNotFound))
      | so # _ \<Rightarrow> Inr so)"

subsection \<open>Revenue and statistics of a shop\<close>

definition delivered_of :: "uuid \<Rightarrow> db \<Rightarrow> sub_order list" where
  "delivered_of shopId d =
     filter (\<lambda>so. so_shop_id so = Some shopId \<and> so_status so = Delivered \<and> buildVnpayPaidFilter so d) (sub_orders d)"

text \<open>PostgreSQL adds the decimals exactly; the sum of no rows is NULL and becomes 0.\<close>

definition getShopDeliveredRevenue :: "uuid \<Rightarrow> db \<Rightarrow> rat" where
  "getShopDeliveredRevenue shopId d =
     (let rawRevenue = js_of_dec (\<Sum>so\<leftarrow>delivered_of shopId d. so_sub_total so - so_shop_discount_amount so)
      in round2 rawRevenue)"

definition all_statuses :: "order_status list" where
  "all_statuses = [Pending, Processing, Shipping, Delivered, Cancelled, Returned]"

record best_seller =
  bs_product_id :: "uuid option"
  bs_product_name :: string
  bs_product_thumbnail :: "string option"
  bs_total_sold :: int

record shop_stats =
  st_total_revenue :: rat
  st_total_orders :: nat
  st_status_counts :: "(order_status \<times> nat) list"
  st_best_sellers :: "best_seller list"

text \<open>The rows of the GROUP BY over the status.\<close>

definition status_count_rows :: "uuid \<Rightarrow> db \<Rightarrow> (order_status \<times> nat) list" where
  "status_count_rows shopId d =
     (let rows = filter (\<lambda>so. so_shop_id so = Some shopId \<and> buildVnpayPaidFilter so d) (sub_orders d)
      in map (\<lambda>(s, g). (s, length g)) (group_by so_status rows))"

definition count_statuses :: "(order_status \<times> nat) list \<Rightarrow> (order_status \<times> nat) list \<times> nat" where
  "count_statuses raw =
     foldl (\<lambda>(counts, tot) (s, n).
              (map (\<lambda>(t, m). if t = s then (t, n) else (t, m)) counts, tot + n))
       (map (\<lambda>s. (s, 0)) all_statuses, 0) raw"

text \<open>The parent of an item: the join leaves out items whose sub-order is not a delivered one of the shop.\<close>

definition sold_items :: "uuid \<Rightarrow> db \<Rightarrow> order_item list" where
  "sold_items shopId d =
     filter (\<lambda>oi. oi_sub_order_id oi \<in> so_id ` set (delivered_of shopId d)) (order_items d)"

definition best_sellers :: "uuid \<Rightarrow> db \<Rightarrow> best_seller list" where
  "best_sellers shopId d =
     (let groups = group_by (\<lambda>oi. (oi_product_id oi, oi_product_name oi, oi_product_thumbnail oi)) (sold_items shopId d);
          rows = map (\<lambda>((k, name, thumb), g). \<lparr>bs_product_id = k, bs_product_name = name,
                        bs_product_thumbnail = (if thumb = Some [] then None else thumb),
                        bs_total_sold = (\<Sum>oi\<leftarrow>g. oi_quantity oi)\<rparr>) groups
      in take 5 (sort_key (\<lambda>r. - bs_total_sold r) rows))"

definition getShopStats :: "uuid \<Rightarrow> db \<Rightarrow> shop_stats" where
  "getShopStats shopId d =
     (let (counts, tot) = count_statuses (status_count_rows shopId d)
      in \<lparr>st_total_revenue = getShopDeliveredRevenue shopId d, st_total_orders = tot,
          st_status_counts = counts, st_best_sellers = best_sellers shopId d\<rparr>)"

definition orders_countAll :: "db \<Rightarrow> nat" where
  "orders_countAll d = length (orders d)"

definition getDeliveredRevenue :: "db \<Rightarrow> rat" where
  "getDeliveredRevenue d =
     js_of_dec (\<Sum>ord\<leftarrow>filter (\<lambda>ord. o_status ord = Delivered) (orders d). o_total_amount ord)"

subsection \<open>What a customer sees\<close>

definition getCustomerOrders ::
  "uuid \<Rightarrow> order_status option \<Rightarrow> nat option \<Rightarrow> nat option \<Rightarrow> db \<Rightarrow> order_row paginated" where
  "getCustomerOrders userId status qpage qlimit d =
     paginate qpage qlimit (order_desc (\<lambda>ord. Some (o_created_at ord))
       (filter (\<lambda>ord. o_customer_id ord = Some userId
                    \<and> (case status of None \<Rightarrow> True | Some s \<Rightarrow> o_status ord = s)) (orders d)))"

definition getCustomerOrderDetail :: "uuid \<Rightarrow> uuid \<Rightarrow> db \<Rightarrow> http_error + order_row" where
  "getCustomerOrderDetail userId orderId d =
     (case find_row o_id orderId (orders d) of
        None \<Rightarrow> Inl (NotFound (OrderMsg OrderNotFound))
      | Some ord \<Rightarrow> if o_customer_id ord = Some userId then Inr ord else Inl (NotFound (OrderMsg OrderNotFound)))"

subsection \<open>Helpers of the reviews\<close>

definition findOrderItemForReview :: "uuid \<Rightarrow> db \<Rightarrow> order_item option" where
  "findOrderItemForReview orderItemId d = find_row oi_id orderItemId (order_items d)"

text \<open>The inner joins from an item to its sub-order and order.\<close>

definition delivered_item_of :: "uuid \<Rightarrow> db \<Rightarrow> order_item \<Rightarrow> bool" where
  "delivered_item_of userId d oi =
     (case find_row so_id (oi_sub_order_id oi) (sub_orders d) of
        None \<Rightarrow> False
      | Some so \<Rightarrow> owner_of so d = Some userId \<and> so_status so = Delivered)"

definition isDeliveredOrderItemOfUser :: "uuid \<Rightarrow> uuid \<Rightarrow> db \<Rightarrow> bool" where
  "isDeliveredOrderItemOfUser userId orderItemId d =
     (0 < length (filter (\<lambda>oi. oi_id oi = orderItemId \<and> delivered_item_of userId d oi) (order_items d)))"

definition getReviewableOrderItems ::
  "(uuid \<Rightarrow> millis) \<Rightarrow> uuid \<Rightarrow> uuid list \<Rightarrow> nat option \<Rightarrow> nat option \<Rightarrow> db \<Rightarrow> order_item paginated" where
  "getReviewableOrderItems updated_at userId excludeOrderItemIds qpage qlimit d =
     (let page = or_default qpage 1; limit = or_default qlimit 10; skip = (page - 1) * limit;
          rows = filter (\<lambda>oi. delivered_item_of userId d oi \<and> oi_id oi \<notin> set excludeOrderItemIds) (order_items d);
          items = take limit (drop skip (order_desc (\<lambda>oi. Some (updated_at (oi_sub_order_id oi))) rows))
      in \<lparr>pg_items = items, pg_page = page, pg_limit = limit, pg_totalItems = length rows,
          pg_totalPages = \<lceil>js_div (of_nat (length rows)) (of_nat limit)\<rceil>\<rparr>)"

subsection \<open>Properties\<close>

lemma count_fold:
  assumes "distinct (map fst raw)"
  shows "foldl (\<lambda>(counts, tot) (s, n). (map (\<lambda>(t, m). if t = s then (t, n) else (t, m)) counts, tot + n))
      (map (\<lambda>s. (s, c s)) ss, k) raw
    = (map (\<lambda>s. (s, case map_of raw s of None \<Rightarrow> c s | Some n \<Rightarrow> n)) ss, k + (\<Sum>(s, n)\<leftarrow>raw. n :: nat))"
  using assms
proof (induction raw arbitrary: c k)
  case (Cons x raw)
  obtain s n where x: "x = (s, n)" by fastforce
  have m: "map (\<lambda>(t, m). if t = s then (t, n) else (t, m)) (map (\<lambda>s. (s, c s)) ss)
      = map (\<lambda>t. (t, if t = s then n else c t)) ss" by auto
  have "map_of raw s = None" using Cons.prems x by (simp add: map_of_eq_None_iff)
  then show ?case using Cons.prems
    unfolding x foldl.simps prod.case m
    by (subst Cons.IH [of "\<lambda>t. if t = s then n else c t"]) (auto split: option.split)
qed simp

lemma map_of_groups:
  "map_of (map (\<lambda>(s, g). (s, length g)) (group_by f xs)) k
     = (if k \<in> f ` set xs then Some (length (filter (\<lambda>x. f x = k) xs)) else None)"
proof (cases "k \<in> f ` set xs")
  case True
  then obtain g where g: "(k, g) \<in> set (group_by f xs)" using keys_group_by [of f xs] by force
  have fst: "map fst (map (\<lambda>(s, g). (s, length g)) (group_by f xs)) = map fst (group_by f xs)" by auto
  have "(k, length g) \<in> set (map (\<lambda>(s, g). (s, length g)) (group_by f xs))" using g by force
  then have "map_of (map (\<lambda>(s, g). (s, length g)) (group_by f xs)) k = Some (length g)"
    by (intro map_of_is_SomeI) (simp_all only: fst distinct_group_by)
  with True group_by_members [OF g] show ?thesis by simp
next
  case False
  then have "k \<notin> set (map fst (map (\<lambda>(s, g). (s, length g)) (group_by f xs)))"
    using keys_group_by [of f xs] by (auto simp: image_image case_prod_beta)
  with False show ?thesis by (metis map_of_eq_None_iff set_map)
qed

lemma sum_group_lengths: "(\<Sum>(s, n)\<leftarrow>map (\<lambda>(s, g). (s, length g)) (group_by f xs). n) = length xs"
  using length_group_by [of f xs] by (simp add: length_concat comp_def case_prod_beta)

text \<open>The statistics of a shop count every sub-order the seller can see exactly once: each status with
  its number, the total as their sum, and the revenue that payouts are computed from.\<close>

theorem shop_stats_count:
  "getShopStats shopId d =
     (let visible = filter (\<lambda>so. so_shop_id so = Some shopId \<and> buildVnpayPaidFilter so d) (sub_orders d)
      in \<lparr>st_total_revenue = getShopDeliveredRevenue shopId d, st_total_orders = length visible,
          st_status_counts = map (\<lambda>s. (s, length (filter (\<lambda>so. so_status so = s) visible))) all_statuses,
          st_best_sellers = best_sellers shopId d\<rparr>)"
proof -
  let ?v = "filter (\<lambda>so. so_shop_id so = Some shopId \<and> buildVnpayPaidFilter so d) (sub_orders d)"
  let ?raw = "map (\<lambda>(s, g). (s, length g)) (group_by so_status ?v)"
  have "map fst ?raw = map fst (group_by so_status ?v)" by auto
  then have dist: "distinct (map fst ?raw)" by (simp only: distinct_group_by)
  have none: "filter (\<lambda>so. so_status so = s) ?v = []" if "s \<notin> so_status ` set ?v" for s
    using that by (auto simp: filter_empty_conv)
  have "(case map_of ?raw s of None \<Rightarrow> 0 | Some n \<Rightarrow> n) = length (filter (\<lambda>so. so_status so = s) ?v)" for s
    unfolding map_of_groups
  proof (cases "s \<in> so_status ` set ?v")
    case False
    with none [OF False] show "(case if s \<in> so_status ` set ?v then Some (length (filter (\<lambda>so. so_status so = s) ?v)) else None of
        None \<Rightarrow> 0 | Some n \<Rightarrow> n) = length (filter (\<lambda>so. so_status so = s) ?v)"
      by (simp only: if_False option.case list.size)
  qed (simp only: if_True option.case)
  then have "count_statuses ?raw
      = (map (\<lambda>s. (s, length (filter (\<lambda>so. so_status so = s) ?v))) all_statuses, length ?v)"
    unfolding count_statuses_def count_fold [OF dist] sum_group_lengths by simp
  then show ?thesis by (simp only: getShopStats_def status_count_rows_def Let_def prod.case)
qed

text \<open>The seller's list, the detail of a sub-order and the right to move it agree: the detail is
  answered exactly for the sub-orders of the list, and one that is not in the list cannot be moved.\<close>

theorem seller_views_agree:
  assumes "keys_ok d"
  shows "(getSellerSubOrderDetail sellerId k d = Inr so \<longleftrightarrow> so \<in> set (seller_sub_orders sellerId None d) \<and> so_id so = k)
    \<and> (isl (getSellerSubOrderDetail sellerId k d) \<longrightarrow> isl (updateSubOrderStatus sellerId k st now d))"
proof
  let ?P = "\<lambda>so. so_id so = k \<and> map_option s_seller_id (shop_of so d) = Some sellerId \<and> buildVnpayPaidFilter so d"
  have one: "x = y" if "x \<in> set (filter ?P (sub_orders d))" "y \<in> set (filter ?P (sub_orders d))" for x y
    using that keys_okD(4) [OF assms] by (auto simp: unique_keys_def distinct_map inj_on_def)
  have detail: "getSellerSubOrderDetail sellerId k d = Inr so \<longleftrightarrow> so \<in> set (filter ?P (sub_orders d))" for so
  proof (cases "filter ?P (sub_orders d)")
    case (Cons x xs)
    have "x = y" if "y \<in> set (x # xs)" for y using one [of x y] that unfolding Cons by simp
    then show ?thesis unfolding getSellerSubOrderDetail_def Cons by auto
  qed (simp add: getSellerSubOrderDetail_def)
  then show "getSellerSubOrderDetail sellerId k d = Inr so \<longleftrightarrow> so \<in> set (seller_sub_orders sellerId None d) \<and> so_id so = k"
    by (auto simp: seller_sub_orders_def)
  show "isl (getSellerSubOrderDetail sellerId k d) \<longrightarrow> isl (updateSubOrderStatus sellerId k st now d)"
  proof
    assume hidden: "isl (getSellerSubOrderDetail sellerId k d)"
    show "isl (updateSubOrderStatus sellerId k st now d)"
    proof (rule ccontr)
      assume "\<not> isl (updateSubOrderStatus sellerId k st now d)"
      then obtain so ord where so: "find_row so_id k (sub_orders d) = Some so"
          "find_opt o_id (so_order_id so) (orders d) = Some ord" "map_option s_seller_id (shop_of so d) = Some sellerId"
        and paid: "\<not> isVnpayUnpaid (o_id ord) d"
        by (auto simp: updateSubOrderStatus_def split: option.splits if_splits)
      have "so_order_id so = Some (o_id ord)"
        using so(2) by (auto simp: find_opt_def dest!: find_row_SomeD split: option.splits)
      then have "buildVnpayPaidFilter so d"
        using paid by (auto simp: buildVnpayPaidFilter_def find_opt_def isVnpayUnpaid_def split: option.splits)
      then have "so \<in> set (filter ?P (sub_orders d))" using so find_row_SomeD [OF so(1)] by auto
      with detail [of so] hidden show False by simp
    qed
  qed
qed

lemma seller_views_agree_witness:
  "getSellerSubOrderDetail 2 91 cod_db = Inr (sub_orders cod_db ! 0)
   \<and> isl (getSellerSubOrderDetail 2 91 vnp_db) \<and> isl (updateSubOrderStatus 2 91 Shipping 0 vnp_db)"
proof -
  have "sub_orders cod_db ! 0 \<in> set (seller_sub_orders 2 None cod_db)" "so_id (sub_orders cod_db ! 0) = 91"
    by (simp_all add: seller_sub_orders_def shop_of_def buildVnpayPaidFilter_def find_opt_def find_row_Cons cod_db_def demo_db_def)
  then have "getSellerSubOrderDetail 2 91 cod_db = Inr (sub_orders cod_db ! 0)"
    using seller_views_agree [OF cod_keys_ok, of 2 91 "sub_orders cod_db ! 0"] by blast
  moreover have "isl (getSellerSubOrderDetail 2 91 vnp_db)"
    by (simp add: getSellerSubOrderDetail_def shop_of_def buildVnpayPaidFilter_def find_opt_def find_row_Cons vnp_db_def
        cod_db_def demo_db_def)
  ultimately show ?thesis using seller_views_agree [OF vnp_keys_ok, of 2 91 _ Shipping 0] by blast
qed

text \<open>C29. In every history the goods of a VNPAY order wait for its payment: as long as it is not paid, its
  sub-orders are pending or cancelled. So no unpaid order is delivered, and the revenue of a shop
  is that of all its delivered sub-orders.\<close>

theorem unpaid_orders_wait:
  assumes "(order_step calc)\<^sup>*\<^sup>* d d'" "keys_ok d" "books d" "unpaid_wait d"
    and "find_row pay_order_id oid (payments d') = Some p" "pay_method p = VNPAY" "pay_status p \<noteq> PayCompleted"
  shows "so_status ` set (siblings oid d') \<subseteq> {Pending, Cancelled}
    \<and> delivered_of shopId d' = filter (\<lambda>so. so_shop_id so = Some shopId \<and> so_status so = Delivered) (sub_orders d')"
proof
  have w: "unpaid_wait d'" by (rule order_steps_wait [OF assms(1-4)])
  then show "so_status ` set (siblings oid d') \<subseteq> {Pending, Cancelled}"
    using assms(5-7) find_row_SomeD [OF assms(5)] by (auto simp: unpaid_wait_def)
  have "buildVnpayPaidFilter so d'" if "so \<in> set (sub_orders d')" "so_status so = Delivered" for so
    using w that by (force simp: buildVnpayPaidFilter_def find_opt_def unpaid_wait_def siblings_def
        dest!: find_row_SomeD split: option.split)
  then show "delivered_of shopId d' = filter (\<lambda>so. so_shop_id so = Some shopId \<and> so_status so = Delivered) (sub_orders d')"
    unfolding delivered_of_def by (intro filter_cong) auto
qed

text \<open>The order to be paid through VNPAY before the seller could touch it.\<close>

definition wait_db :: db where
  "wait_db = vnp_db\<lparr>sub_orders := map (\<lambda>so. so\<lparr>so_status := Pending\<rparr>) (sub_orders vnp_db)\<rparr>"

lemma unpaid_orders_wait_witness:
  "(order_step (calculateShippingFee demo_math))\<^sup>*\<^sup>* wait_db (fst (handleVnpayIpn demo_cfg [] 0 wait_db))
   \<and> so_status ` set (siblings 90 (fst (handleVnpayIpn demo_cfg [] 0 wait_db))) \<subseteq> {Pending, Cancelled}
   \<and> delivered_of 11 (fst (handleVnpayIpn demo_cfg [] 0 wait_db)) = []"
proof -
  let ?d = "fst (handleVnpayIpn demo_cfg [] 0 wait_db)"
  have step: "(order_step (calculateShippingFee demo_math))\<^sup>*\<^sup>* wait_db ?d"
    using order_step.ipn_received by (rule r_into_rtranclp)
  have same: "?d = wait_db" by (simp add: handleVnpayIpn_def verifySignature_def truthy_def)
  have k: "keys_ok wait_db" using vnp_keys_ok by (simp add: keys_ok_def wait_db_def unique_keys_def comp_def ids_fresh_def)
  have b: "books wait_db" "unpaid_wait wait_db"
    by (simp_all add: books_def unpaid_wait_def wait_db_def vnp_db_def cod_db_def siblings_def derive_least)
  have p: "find_row pay_order_id 90 (payments wait_db) = Some (payments vnp_db ! 0)"
    "pay_method (payments vnp_db ! 0) = VNPAY" "pay_status (payments vnp_db ! 0) \<noteq> PayCompleted"
    by (simp_all add: wait_db_def vnp_db_def cod_db_def find_row_Cons)
  have "filter (\<lambda>so. so_shop_id so = Some 11 \<and> so_status so = Delivered) (sub_orders wait_db) = []"
    by (simp add: wait_db_def filter_empty_conv)
  with unpaid_orders_wait [OF step k b, unfolded same, OF p, of 11] step same show ?thesis by simp
qed

end
