(* ===== verification/Payouts.thy ===== *)
theory Payouts
  imports OrderQueries
begin

text \<open>
  \<open>payouts.service.ts\<close> and \<open>payouts.state-machine.ts\<close>: the balance of a shop, the payout
  requests of its seller and their approval by an admin. The balance is the revenue of the delivered
  sub-orders less the commission of 5 percent and less what is paid or requested already.
  \<open>requestPayout\<close> locks the shop, so two requests of one shop follow each other; \<open>approvePayout\<close>
  and \<open>rejectPayout\<close> read without a lock, so each is the composition of its read and its write.
\<close>

subsection \<open>The state machine\<close>

fun payout_state_machine :: "payout_status \<Rightarrow> payout_status list" where
  "payout_state_machine PayoutPending = [PayoutCompleted, PayoutRejected]"
| "payout_state_machine PayoutProcessing = [PayoutCompleted, PayoutRejected]"
| "payout_state_machine PayoutCompleted = []"
| "payout_state_machine PayoutRejected = []"
| "payout_state_machine PayoutFailed = []"

definition canTransitionPayout :: "payout_status \<Rightarrow> payout_status \<Rightarrow> bool" where
  "canTransitionPayout from to \<longleftrightarrow> to \<in> set (payout_state_machine from)"

definition assertPayoutTransition :: "payout_status \<Rightarrow> payout_status \<Rightarrow> http_error + unit" where
  "assertPayoutTransition from to =
     (if canTransitionPayout from to then Inr ()
      else Inl (BadRequest (PayoutMsg (IllegalPayoutTransition from to))))"

subsection \<open>The balance\<close>

definition commission_rate :: rat where "commission_rate = fl (5 / 100)"

record balance =
  bal_gross_revenue :: rat
  bal_commission_amount :: rat
  bal_total_revenue :: rat
  bal_total_payouted :: rat
  bal_available_balance :: rat
  bal_pending_payout :: rat

definition is_open :: "payout \<Rightarrow> bool" where
  "is_open po \<longleftrightarrow> po_status po \<in> {PayoutPending, PayoutProcessing}"

definition sum_payouts :: "(payout \<Rightarrow> bool) \<Rightarrow> uuid \<Rightarrow> db \<Rightarrow> int" where
  "sum_payouts P shopId d = (\<Sum>po\<leftarrow>filter (\<lambda>po. po_shop_id po = Some shopId \<and> P po) (payouts d). po_amount po)"

definition calculateShopBalance :: "uuid \<Rightarrow> db \<Rightarrow> balance" where
  "calculateShopBalance shopId d =
     (let gross_revenue = getShopDeliveredRevenue shopId d;
          commission_amount = round2 (js_mul gross_revenue commission_rate);
          total_revenue = round2 (js_sub gross_revenue commission_amount);
          total_payouted = js_of_dec (sum_payouts (\<lambda>po. po_status po = PayoutCompleted) shopId d);
          pending_payout = js_of_dec (sum_payouts is_open shopId d);
          calculatedBalance = js_sub (js_sub total_revenue total_payouted) pending_payout
      in \<lparr>bal_gross_revenue = gross_revenue, bal_commission_amount = commission_amount,
          bal_total_revenue = total_revenue, bal_total_payouted = total_payouted,
          bal_available_balance = max 0 calculatedBalance, bal_pending_payout = pending_payout\<rparr>)"

definition getSellerBalance :: "uuid \<Rightarrow> db \<Rightarrow> http_error + balance" where
  "getSellerBalance sellerId d =
     (case findOneByUserId sellerId d of
        Inl e \<Rightarrow> Inl e
      | Inr shop \<Rightarrow> Inr (calculateShopBalance (s_id shop) d))"

subsection \<open>Requesting a payout\<close>

definition requestPayout :: "uuid \<Rightarrow> rat \<Rightarrow> millis \<Rightarrow> db \<Rightarrow> http_error + (db \<times> payout)" where
  "requestPayout sellerId requestAmount now d =
     (case findOneByUserId sellerId d of
        Inl e \<Rightarrow> Inl e
      | Inr shopRef \<Rightarrow>
          (case find_row s_id (s_id shopRef) (shops d) of
             None \<Rightarrow> Inl (NotFound (PayoutMsg PayoutShopMissing))
           | Some shop \<Rightarrow>
               (case s_bank_account_info shop of
                  None \<Rightarrow> Inl (BadRequest (PayoutMsg NoBankInfo))
                | Some bankInfo \<Rightarrow>
                    let pendingPayoutCount = length (filter (\<lambda>po. po_shop_id po = Some (s_id shop) \<and> is_open po) (payouts d))
                    in if 0 < pendingPayoutCount then Inl (BadRequest (PayoutMsg OpenPayoutExists))
                       else if bal_available_balance (calculateShopBalance (s_id shop) d) < requestAmount
                       then Inl (BadRequest (PayoutMsg OverBalance))
                       else
                         let po = \<lparr>po_id = next_uuid d, po_shop_id = Some (s_id shop),
                                   po_amount = dec_of_js requestAmount, po_commission_fee = 0,
                                   po_status = PayoutPending, po_reject_reason = None,
                                   po_bank_info_snapshot = bankInfo, po_resolved_by = None,
                                   po_resolved_at = None, po_created_at = now\<rparr>
                         in Inr (d\<lparr>payouts := payouts d @ [po], next_uuid := Suc (next_uuid d),
                                   outbox := outbox d @ [PayoutCreated (po_id po) requestAmount (s_id shop) (s_name shop)
                                                           (findAdminIds d)]\<rparr>, po))))"

definition getSellerPayoutHistory :: "uuid \<Rightarrow> nat option \<Rightarrow> nat option \<Rightarrow> db \<Rightarrow> http_error + payout paginated" where
  "getSellerPayoutHistory sellerId qpage qlimit d =
     (case findOneByUserId sellerId d of
        Inl e \<Rightarrow> Inl e
      | Inr shop \<Rightarrow> Inr (paginate qpage qlimit (order_desc (\<lambda>po. Some (po_created_at po))
                          (filter (\<lambda>po. po_shop_id po = Some (s_id shop)) (payouts d)))))"

definition getAdminPayouts :: "payout_status option \<Rightarrow> nat option \<Rightarrow> nat option \<Rightarrow> db \<Rightarrow> payout paginated" where
  "getAdminPayouts status qpage qlimit d =
     paginate qpage qlimit (order_desc (\<lambda>po. Some (po_created_at po))
       (filter (\<lambda>po. case status of None \<Rightarrow> True | Some s \<Rightarrow> po_status po = s) (payouts d)))"

subsection \<open>Approval and rejection\<close>

text \<open>The read: the payout as it is, when it may go to the new status.\<close>

definition read_payout :: "uuid \<Rightarrow> payout_status \<Rightarrow> db \<Rightarrow> http_error + payout" where
  "read_payout payoutId newStatus d =
     (case find_row po_id payoutId (payouts d) of
        None \<Rightarrow> Inl (NotFound (PayoutMsg PayoutNotFound))
      | Some po \<Rightarrow>
          (case assertPayoutTransition (po_status po) newStatus of
             Inl e \<Rightarrow> Inl e
           | Inr _ \<Rightarrow> Inr po))"

text \<open>The write: the entity that was read, with its changes, and the event. A shop that is gone loads as
  null, and reading its seller throws.\<close>

definition write_payout :: "payout \<Rightarrow> payout_status \<Rightarrow> string option \<Rightarrow> uuid \<Rightarrow> millis \<Rightarrow> db \<Rightarrow> http_error + (db \<times> payout)" where
  "write_payout po newStatus reason adminId now d =
     (let po' = po\<lparr>po_status := newStatus,
                   po_reject_reason := (if newStatus = PayoutRejected then reason else po_reject_reason po),
                   po_resolved_by := Some adminId, po_resolved_at := Some now\<rparr>
      in case find_opt s_id (po_shop_id po) (shops d) of
           None \<Rightarrow> Inl JsTypeError
         | Some shop \<Rightarrow>
             (case find_row u_id (s_seller_id shop) (users d) of
                None \<Rightarrow> Inl JsTypeError
              | Some seller \<Rightarrow>
                  Inr (d\<lparr>payouts := save_row po_id po' (payouts d),
                         outbox := outbox d @ [PayoutStatusChanged (po_id po) (u_id seller) (u_email seller)
                             (u_username seller) (s_name shop) (js_of_dec (po_amount po)) newStatus
                             (if newStatus = PayoutRejected then reason else None)]\<rparr>, po')))"

definition approvePayout :: "uuid \<Rightarrow> uuid \<Rightarrow> millis \<Rightarrow> db \<Rightarrow> http_error + (db \<times> payout)" where
  "approvePayout payoutId adminId now d =
     (case read_payout payoutId PayoutCompleted d of
        Inl e \<Rightarrow> Inl e
      | Inr po \<Rightarrow> write_payout po PayoutCompleted None adminId now d)"

definition rejectPayout :: "uuid \<Rightarrow> string \<Rightarrow> uuid \<Rightarrow> millis \<Rightarrow> db \<Rightarrow> http_error + (db \<times> payout)" where
  "rejectPayout payoutId reason adminId now d =
     (case read_payout payoutId PayoutRejected d of
        Inl e \<Rightarrow> Inl e
      | Inr po \<Rightarrow> write_payout po PayoutRejected (Some reason) adminId now d)"

subsection \<open>The commission in cents\<close>

definition commission_cents :: "int \<Rightarrow> int" where
  "commission_cents g = cents_of (js_mul (js_of_dec g) commission_rate)"

lemma fl_between:
  assumes "\<bar>x\<bar> \<le> 2 powi b" "- 1022 \<le> b"
  shows "x - 2 powi (b - 53) \<le> fl x \<and> fl x \<le> x + 2 powi (b - 53)"
  using fl_err_abs [OF assms] unfolding abs_le_iff by linarith

lemma commission_near:
  assumes "0 \<le> g" "g \<le> dec_bound"
  shows "\<bar>20 * commission_cents g - g\<bar> \<le> 10"
proof -
  define a r where "a = js_of_dec g" and "r = commission_rate"
  have g: "0 \<le> (of_int g :: rat)" "of_int g \<le> (2 ^ 40 :: rat)" using dec_bound_rat [of g] assms by simp_all
  have a: "of_int g / 100 - 1 / 2 ^ 19 \<le> a" "a \<le> of_int g / 100 + 1 / 2 ^ 19"
    using near_dec [of g] assms by (auto simp: a_def near_iff)
  have r: "5 / 100 - 1 / 2 ^ 57 \<le> r" "r \<le> 5 / 100 + 1 / 2 ^ 57"
    using fl_between [of "5 / 100" "- 4"] by (simp_all add: r_def commission_rate_def power_int_minus inverse_eq_divide)
  have a0: "0 \<le> a" unfolding a_def by (rule js_of_dec_nonneg [OF assms(1)])
  have "a * r \<le> (of_int g / 100 + 1 / 2 ^ 19) * (5 / 100 + 1 / 2 ^ 57)"
    using a r a0 g by (intro mult_mono) auto
  also have "\<dots> \<le> of_int g / 2000 + 1 / 2 ^ 22" using g by (simp add: field_simps)
  finally have hi: "a * r \<le> of_int g / 2000 + 1 / 2 ^ 22" .
  have "a * (5 / 100 - 1 / 2 ^ 57) \<le> a * r" using a0 r by (intro mult_left_mono) auto
  moreover have "(of_int g / 100 - 1 / 2 ^ 19) * (5 / 100 - 1 / 2 ^ 57) \<le> a * (5 / 100 - 1 / 2 ^ 57)"
    using a by (intro mult_right_mono) auto
  moreover have "of_int g / 2000 - 1 / 2 ^ 22 \<le> (of_int g / 100 - 1 / 2 ^ 19) * (5 / 100 - 1 / 2 ^ 57 :: rat)"
  proof -
    have "(of_int g / 100 - 1 / 2 ^ 19) * (5 / 100 - 1 / 2 ^ 57)
      = of_int g / 2000 - of_int g / (100 * 2 ^ 57) - 5 / (100 * 2 ^ 19) + (1 / 2 ^ 76 :: rat)"
      by (simp add: left_diff_distrib right_diff_distrib)
    moreover have "of_int g / (100 * 2 ^ 57) + 5 / (100 * 2 ^ 19) \<le> (1 / 2 ^ 22 :: rat)" using g by simp
    ultimately show ?thesis by simp
  qed
  ultimately have lo: "of_int g / 2000 - 1 / 2 ^ 22 \<le> a * r" by (blast intro: order_trans)
  define P where "P = a * r"
  note hi = hi [folded P_def] and lo = lo [folded P_def]
  have "\<bar>P\<bar> \<le> (2 powi 31 :: rat)" using hi lo g by (simp add: abs_le_iff)
  from fl_between [OF this] have "P - 1 / 2 ^ 22 \<le> fl (P)" "fl (P) \<le> P + 1 / 2 ^ 22"
    by (simp_all add: power_int_minus inverse_eq_divide)
  with hi lo have m: "of_int g / 2000 - 1 / 2 ^ 21 \<le> fl (P)" "fl (P) \<le> of_int g / 2000 + 1 / 2 ^ 21"
    by simp_all
  then have "\<bar>fl (P) * 100\<bar> \<le> (2 powi 38 :: rat)" using g by (simp add: abs_le_iff)
  from fl_between [OF this] have "fl (P) * 100 - 1 / 2 ^ 15 \<le> fl (fl (P) * 100)"
    "fl (fl (P) * 100) \<le> fl (P) * 100 + 1 / 2 ^ 15"
    by (simp_all add: power_int_minus inverse_eq_divide)
  with m have v: "of_int g / 20 - 1 / 100 \<le> fl (fl (P) * 100)" "fl (fl (P) * 100) \<le> of_int g / 20 + 1 / 100"
    by simp_all
  let ?c = "commission_cents g"
  have c: "?c = \<lfloor>fl (fl (P) * 100) + 1/2\<rfloor>"
    by (simp add: commission_cents_def cents_of_def js_mul_def a_def r_def P_def)
  have "of_int ?c \<le> fl (fl (P) * 100) + 1/2" "fl (fl (P) * 100) + 1/2 < of_int ?c + (1 :: rat)"
    unfolding c by linarith+
  with v have "of_int (20 * ?c - g) < (of_int 11 :: rat)" "of_int (- 11) < (of_int (20 * ?c - g) :: rat)"
    by simp_all
  then have "20 * ?c - g < 11" "- 11 < 20 * ?c - g" by (simp_all only: of_int_less_iff)
  then show ?thesis by linarith
qed

text \<open>The revenue of a shop in cents, and what is left of it for the seller.\<close>

definition revenue_cents :: "uuid \<Rightarrow> db \<Rightarrow> int" where
  "revenue_cents shopId d = (\<Sum>so\<leftarrow>delivered_of shopId d. so_sub_total so - so_shop_discount_amount so)"

definition net_cents :: "int \<Rightarrow> int" where
  "net_cents g = g - commission_cents g"

lemma commission_bounds:
  assumes "0 \<le> g" "g \<le> dec_bound"
  shows "0 \<le> commission_cents g" "commission_cents g \<le> g" "0 \<le> net_cents g" "net_cents g \<le> g"
proof -
  have c: "\<bar>20 * commission_cents g - g\<bar> \<le> 10" by (rule commission_near [OF assms])
  show "0 \<le> commission_cents g" "commission_cents g \<le> g" using c assms(1) by arith+
  then show "0 \<le> net_cents g" "net_cents g \<le> g" by (simp_all add: net_cents_def)
qed

lemma net_mono:
  assumes "0 \<le> g" "g \<le> h" "h \<le> dec_bound"
  shows "net_cents g \<le> net_cents h"
proof (cases "g = h")
  case False
  have "\<bar>20 * commission_cents g - g\<bar> \<le> 10" "\<bar>20 * commission_cents h - h\<bar> \<le> 10"
    using assms by (intro commission_near; simp)+
  then show ?thesis using False assms(2) unfolding net_cents_def by arith
qed simp

lemma balance_exact:
  assumes "0 \<le> revenue_cents k d" "revenue_cents k d \<le> dec_bound"
  shows "bal_gross_revenue (calculateShopBalance k d) = js_of_dec (revenue_cents k d)"
    "bal_commission_amount (calculateShopBalance k d) = js_of_dec (commission_cents (revenue_cents k d))"
    "bal_total_revenue (calculateShopBalance k d) = js_of_dec (net_cents (revenue_cents k d))"
proof -
  let ?g = "revenue_cents k d"
  note b = commission_bounds [OF assms]
  have g: "getShopDeliveredRevenue k d = js_of_dec ?g"
    using assms by (simp add: getShopDeliveredRevenue_def revenue_cents_def round2_js_of_dec)
  have c: "round2 (js_mul (js_of_dec ?g) commission_rate) = js_of_dec (commission_cents ?g)"
    by (simp add: round2_cents commission_cents_def)
  have "near (1 / 2 ^ 19 + 1 / 2 ^ 19 + 1 / 2 ^ 18) (?g - commission_cents ?g) (js_sub (js_of_dec ?g) (js_of_dec (commission_cents ?g)))"
    using assms b by (intro near_sub near_js_dec) auto
  then have "near (1 / 256) (net_cents ?g) (js_sub (js_of_dec ?g) (js_of_dec (commission_cents ?g)))"
    unfolding net_cents_def by (rule near_mono) simp
  then have n: "round2 (js_sub (js_of_dec ?g) (js_of_dec (commission_cents ?g))) = js_of_dec (net_cents ?g)"
    using assms b by (intro round2_near) auto
  show "bal_gross_revenue (calculateShopBalance k d) = js_of_dec ?g"
    "bal_commission_amount (calculateShopBalance k d) = js_of_dec (commission_cents ?g)"
    "bal_total_revenue (calculateShopBalance k d) = js_of_dec (net_cents ?g)"
    by (simp_all add: calculateShopBalance_def Let_def g c n)
qed

text \<open>What is paid or asked for.\<close>

definition committed :: "uuid \<Rightarrow> db \<Rightarrow> int" where
  "committed k d = sum_payouts (\<lambda>po. po_status po = PayoutCompleted \<or> is_open po) k d"

definition payouts_ok :: "db \<Rightarrow> bool" where
  "payouts_ok d \<longleftrightarrow> unique_keys po_id (payouts d) \<and> (\<forall>po \<in> set (payouts d). po_id po < next_uuid d \<and> 0 \<le> po_amount po)"

text \<open>No shop has asked for more than it earned, nor more than once at a time.\<close>

definition solvent :: "db \<Rightarrow> bool" where
  "solvent d \<longleftrightarrow> (\<forall>k. 0 \<le> revenue_cents k d \<and> committed k d \<le> net_cents (revenue_cents k d)
     \<and> length (filter (\<lambda>po. po_shop_id po = Some k \<and> is_open po) (payouts d)) \<le> 1)"

lemma sum_payouts_split:
  "committed k d = sum_payouts (\<lambda>po. po_status po = PayoutCompleted) k d + sum_payouts is_open k d"
proof -
  have "(\<Sum>po\<leftarrow>filter (\<lambda>po. po_shop_id po = Some k \<and> (po_status po = PayoutCompleted \<or> is_open po)) ps. po_amount po)
      = (\<Sum>po\<leftarrow>filter (\<lambda>po. po_shop_id po = Some k \<and> po_status po = PayoutCompleted) ps. po_amount po)
      + (\<Sum>po\<leftarrow>filter (\<lambda>po. po_shop_id po = Some k \<and> is_open po) ps. po_amount po)" for ps
    by (induction ps) (auto simp: is_open_def)
  then show ?thesis by (simp add: committed_def sum_payouts_def)
qed

lemma sum_payouts_nonneg:
  "payouts_ok d \<Longrightarrow> 0 \<le> sum_payouts P k d"
  unfolding sum_payouts_def payouts_ok_def by (intro sum_list_nonneg) auto

lemma dec_of_js_mono: "v \<le> w \<Longrightarrow> 0 \<le> v \<Longrightarrow> dec_of_js v \<le> dec_of_js w"
  by (simp add: dec_of_js_def floor_mono)

lemma request_cases:
  assumes "requestPayout sellerId amount now d = Inr (d', po)"
  obtains shop where "findOneByUserId sellerId d = Inr shop" "po_shop_id po = Some (s_id shop)"
    "filter (\<lambda>po. po_shop_id po = Some (s_id shop) \<and> is_open po) (payouts d) = []"
    "amount \<le> bal_available_balance (calculateShopBalance (s_id shop) d)"
    "po_id po = next_uuid d" "po_amount po = dec_of_js amount" "po_status po = PayoutPending"
    "payouts d' = payouts d @ [po]" "next_uuid d' = Suc (next_uuid d)"
    "sub_orders d' = sub_orders d" "orders d' = orders d" "payments d' = payments d"
proof -
  from assms obtain s0 shop where "findOneByUserId sellerId d = Inr s0" "find_row s_id (s_id s0) (shops d) = Some shop"
    "filter (\<lambda>po. po_shop_id po = Some (s_id shop) \<and> is_open po) (payouts d) = []"
    "amount \<le> bal_available_balance (calculateShopBalance (s_id shop) d)"
    "po_shop_id po = Some (s_id shop)" "po_id po = next_uuid d" "po_amount po = dec_of_js amount" "po_status po = PayoutPending"
    "payouts d' = payouts d @ [po]" "next_uuid d' = Suc (next_uuid d)"
    "sub_orders d' = sub_orders d" "orders d' = orders d" "payments d' = payments d"
    by (auto simp: requestPayout_def Let_def split: sum.splits option.splits if_splits)
  moreover have "s_id shop = s_id s0" using calculation(2) by (auto dest: find_row_SomeD)
  ultimately show thesis using that [of s0] by simp
qed

lemma resolve_cases:
  assumes "approvePayout k adm now d = Inr (d', po') \<or> rejectPayout k reason adm now d = Inr (d', po')"
  obtains po where "find_row po_id k (payouts d) = Some po" "is_open po" "po_status po' \<in> {PayoutCompleted, PayoutRejected}"
    "po_id po' = po_id po" "po_shop_id po' = po_shop_id po" "po_amount po' = po_amount po"
    "payouts d' = save_row po_id po' (payouts d)" "next_uuid d' = next_uuid d"
    "sub_orders d' = sub_orders d" "orders d' = orders d" "payments d' = payments d"
proof -
  have "is_open po" if "canTransitionPayout (po_status po) st" for po st
    using that by (cases "po_status po") (auto simp: canTransitionPayout_def is_open_def)
  then show thesis
    using assms that
    by (auto simp: approvePayout_def rejectPayout_def read_payout_def write_payout_def assertPayoutTransition_def Let_def
        split: option.splits sum.splits if_splits)
qed

lemma revenue_same:
  assumes "sub_orders d' = sub_orders d" "payments d' = payments d"
  shows "revenue_cents k d' = revenue_cents k d"
  using assms by (simp add: revenue_cents_def delivered_of_def buildVnpayPaidFilter_def)

lemma length_filter_imp: "(\<And>x. x \<in> set xs \<Longrightarrow> P x \<Longrightarrow> Q x) \<Longrightarrow> length (filter P xs) \<le> length (filter Q xs)"
  by (induction xs) (auto simp: le_SucI)

text \<open>Histories of payouts: while a shop earns, its revenue only grows.\<close>

inductive payout_step :: "db \<Rightarrow> db \<Rightarrow> bool" where
  requested: "requestPayout sellerId amount now d = Inr (d', po) \<Longrightarrow> of_int payout_min_amount \<le> amount \<Longrightarrow> payout_step d d'"
| approved: "approvePayout k adminId now d = Inr (d', po) \<Longrightarrow> payout_step d d'"
| rejected: "rejectPayout k reason adminId now d = Inr (d', po) \<Longrightarrow> payout_step d d'"
| earned: "payouts d' = payouts d \<Longrightarrow> (\<And>k. revenue_cents k d \<le> revenue_cents k d') \<Longrightarrow> next_uuid d \<le> next_uuid d' \<Longrightarrow>
     payout_step d d'"

lemma near_sub_0:
  assumes "near (1 / 2 ^ 19 + 1 / 2 ^ 19 + 1 / 2 ^ 18) k v" "\<bar>k\<bar> \<le> dec_bound"
  shows "near (1 / 256) k (js_sub v (js_of_dec 0))"
proof -
  have "near (1 / 2 ^ 19 + 1 / 2 ^ 19 + 1 / 2 ^ 18 + 1 / 2 ^ 18) k (fl v)" by (rule near_fl [OF assms]) simp
  then have "near (1 / 256) k (fl v)" by (rule near_mono) simp
  then show ?thesis by (simp add: js_sub_def)
qed

lemma request_ok:
  assumes "requestPayout sellerId amount now d = Inr (d', po)" "of_int payout_min_amount \<le> amount"
    and "payouts_ok d" "solvent d" "\<And>k. revenue_cents k d \<le> dec_bound"
  shows "payouts_ok d' \<and> solvent d' \<and> (\<forall>k. revenue_cents k d' = revenue_cents k d)"
proof -
  obtain shop :: shop where r: "po_shop_id po = Some (s_id shop)"
    "filter (\<lambda>po. po_shop_id po = Some (s_id shop) \<and> is_open po) (payouts d) = []"
    "amount \<le> bal_available_balance (calculateShopBalance (s_id shop) d)"
    "po_id po = next_uuid d" "po_amount po = dec_of_js amount" "po_status po = PayoutPending"
    "payouts d' = payouts d @ [po]" "next_uuid d' = Suc (next_uuid d)" "sub_orders d' = sub_orders d" "payments d' = payments d"
    by (rule request_cases [OF assms(1)]) (rule that)
  let ?k = "s_id shop"
  let ?g = "revenue_cents ?k d" and ?P = "sum_payouts (\<lambda>po. po_status po = PayoutCompleted) ?k d"
  have pos: "0 < amount" using assms(2) by (simp add: payout_min_amount_def)
  have sol: "0 \<le> ?g" "committed ?k d \<le> net_cents ?g" using assms(4) by (simp_all add: solvent_def)
  note b = commission_bounds [OF sol(1) assms(5)]
  have open0: "sum_payouts is_open ?k d = 0" by (simp add: sum_payouts_def r(2))
  have P: "0 \<le> ?P" "?P \<le> net_cents ?g" using sum_payouts_nonneg [OF assms(3)] sol(2) open0 by (simp_all add: sum_payouts_split)
  let ?v = "js_sub (js_sub (js_of_dec (net_cents ?g)) (js_of_dec ?P)) (js_of_dec 0)"
  have n: "near (1 / 2 ^ 19 + 1 / 2 ^ 19 + 1 / 2 ^ 18) (net_cents ?g - ?P) (js_sub (js_of_dec (net_cents ?g)) (js_of_dec ?P))"
    using P b assms(5) [of ?k] by (intro near_sub near_js_dec) auto
  have "\<bar>net_cents ?g - ?P\<bar> \<le> dec_bound" using P b assms(5) [of ?k] by linarith
  with n have v: "near (1 / 256) (net_cents ?g - ?P) ?v" by (rule near_sub_0)
  have "bal_available_balance (calculateShopBalance ?k d) = max 0 ?v"
    using balance_exact(3) [OF sol(1) assms(5)] by (simp add: calculateShopBalance_def Let_def open0)
  then have "amount \<le> ?v" using r(3) pos by (simp add: max_def split: if_splits)
  then have le: "po_amount po \<le> net_cents ?g - ?P" using dec_of_js_mono [of amount ?v] pos dec_of_js_near [OF v] r(5) by simp
  have po0: "0 \<le> po_amount po" using dec_of_js_mono [of 0 amount] pos r(5) by (simp add: dec_of_js_def)
  have rev: "revenue_cents k d' = revenue_cents k d" for k by (rule revenue_same) (fact r)+
  have "payouts_ok d'" using assms(3) po0 r(4) by (fastforce simp: payouts_ok_def r(7,8) unique_keys_def)
  moreover have "committed k d' \<le> net_cents (revenue_cents k d') \<and> length (filter (\<lambda>po. po_shop_id po = Some k \<and> is_open po) (payouts d')) \<le> 1" for k
  proof (cases "k = ?k")
    case True
    have "committed ?k d' = committed ?k d + po_amount po" using r(1,6) by (simp add: committed_def sum_payouts_def r(7) is_open_def)
    then show ?thesis using True le open0 rev r(1,2,6) by (simp add: sum_payouts_split r(7))
  next
    case False
    then have "committed k d' = committed k d" using r(1) by (simp add: committed_def sum_payouts_def r(7))
    then show ?thesis using False assms(4) rev r(1) by (simp add: solvent_def r(7))
  qed
  ultimately show ?thesis using assms(4) rev by (simp add: solvent_def)
qed

lemma resolve_ok:
  assumes "approvePayout k adm now d = Inr (d', po') \<or> rejectPayout k reason adm now d = Inr (d', po')"
    and "payouts_ok d" "solvent d"
  shows "payouts_ok d' \<and> solvent d' \<and> (\<forall>k. revenue_cents k d' = revenue_cents k d)"
proof -
  obtain po where r: "find_row po_id k (payouts d) = Some po" "is_open po" "po_status po' \<in> {PayoutCompleted, PayoutRejected}"
    "po_id po' = po_id po" "po_shop_id po' = po_shop_id po" "po_amount po' = po_amount po"
    "payouts d' = save_row po_id po' (payouts d)" "next_uuid d' = next_uuid d" "sub_orders d' = sub_orders d" "payments d' = payments d"
    by (rule resolve_cases [OF assms(1)]) (rule that)
  have u: "unique_keys po_id (payouts d)" using assms(2) by (simp add: payouts_ok_def)
  have po: "po \<in> set (payouts d)" "po_id po = k" using find_row_SomeD [OF r(1)] by auto
  have rev: "revenue_cents j d' = revenue_cents j d" for j by (rule revenue_same) (fact r)+
  have "payouts_ok d'"
    using assms(2) r(4,6) po unfolding payouts_ok_def r(7,8) by (force simp: unique_keys_save in_set_save_row)
  moreover have less: "committed j d' \<le> committed j d" for j
  proof -
    let ?f = "\<lambda>po. if po_shop_id po = Some j \<and> (po_status po = PayoutCompleted \<or> is_open po) then po_amount po else 0"
    have "find_row po_id (po_id po') (payouts d) = Some po" using r(1,4) po(2) by simp
    from sum_list_save_row [OF u this, of ?f]
    have "committed j d' = committed j d - ?f po + ?f po'"
      by (simp only: committed_def sum_payouts_def sum_filter_if r(7))
    moreover have "?f po' \<le> ?f po" using r(2,5,6) assms(2) po(1) by (auto simp: payouts_ok_def)
    ultimately show ?thesis by simp
  qed
  moreover have fewer: "length (filter (\<lambda>po. po_shop_id po = Some j \<and> is_open po) (payouts d'))
      \<le> length (filter (\<lambda>po. po_shop_id po = Some j \<and> is_open po) (payouts d))" for j
  proof -
    have "po_id po' \<in> set (map po_id (payouts d))" unfolding r(4) using po(1) by simp
    then have e: "payouts d' = map (\<lambda>x. if po_id x = po_id po' then po' else x) (payouts d)"
      by (simp add: r(7) save_row_def)
    have "\<not> is_open po'" using r(3) by (auto simp: is_open_def)
    then show ?thesis
      unfolding e filter_map length_map
    proof (intro length_filter_imp)
      fix x assume "\<not> is_open po'" "((\<lambda>po. po_shop_id po = Some j \<and> is_open po) \<circ>
          (\<lambda>x. if po_id x = po_id po' then po' else x)) x"
      then show "po_shop_id x = Some j \<and> is_open x" by (cases "po_id x = po_id po'") simp_all
    qed
  qed
  moreover have "0 \<le> revenue_cents j d'" "committed j d' \<le> net_cents (revenue_cents j d')"
    "length (filter (\<lambda>po. po_shop_id po = Some j \<and> is_open po) (payouts d')) \<le> 1" for j
    using assms(3) order_trans [OF less [of j], of "net_cents (revenue_cents j d)"] order_trans [OF fewer [of j], of 1]
    unfolding solvent_def rev by blast+
  ultimately show ?thesis using rev by (simp add: solvent_def)
qed

lemma payout_step_ok:
  assumes "payout_step d d'" "payouts_ok d" "solvent d" "\<And>k. revenue_cents k d' \<le> dec_bound"
  shows "payouts_ok d' \<and> solvent d' \<and> (\<forall>k. revenue_cents k d \<le> revenue_cents k d')"
  using assms(1)
proof (cases rule: payout_step.cases)
  case (requested sellerId amount now po)
  then have "\<And>k. revenue_cents k d \<le> dec_bound"
    using assms(4) revenue_same [of d' d] by (metis request_cases)
  then show ?thesis using request_ok [OF requested assms(2,3)] by simp
next
  case (approved k adminId now po)
  then show ?thesis using resolve_ok [OF _ assms(2,3)] by fastforce
next
  case (rejected k reason adminId now po)
  then show ?thesis using resolve_ok [OF _ assms(2,3)] by fastforce
next
  case earned
  have "committed k d' \<le> net_cents (revenue_cents k d')" for k
  proof -
    have "committed k d \<le> net_cents (revenue_cents k d)" "0 \<le> revenue_cents k d" using assms(3) by (simp_all add: solvent_def)
    moreover have "committed k d' = committed k d" by (simp add: committed_def sum_payouts_def earned(1))
    ultimately show ?thesis using net_mono [OF _ earned(2) assms(4)] by (metis order_trans)
  qed
  moreover have "0 \<le> revenue_cents k d'" for k using earned(2) [of k] assms(3) unfolding solvent_def by (metis order_trans)
  ultimately show ?thesis using assms(2,3) earned by (fastforce simp: solvent_def payouts_ok_def)
qed

lemma payout_steps_ok:
  assumes "payout_step\<^sup>*\<^sup>* d d'" "payouts_ok d" "solvent d" "\<And>k. revenue_cents k d' \<le> dec_bound"
  shows "payouts_ok d' \<and> solvent d'"
proof -
  have mono: "revenue_cents k e \<le> revenue_cents k e'" if "payout_step e e'" for k e e'
    using that revenue_same [of e' e]
  proof (cases rule: payout_step.cases)
    case requested
    then show ?thesis using revenue_same [of e' e] by (metis request_cases order_refl)
  next
    case approved
    then show ?thesis using revenue_same [of e' e] by (metis resolve_cases order_refl)
  next
    case rejected
    then show ?thesis using revenue_same [of e' e] by (metis resolve_cases order_refl)
  qed
  show ?thesis
    using assms
  proof (induction rule: rtranclp_induct)
    case (step e e')
    have "revenue_cents k e \<le> dec_bound" for k using mono [OF step(2)] step.prems(3) by (metis order_trans)
    then show ?case using step payout_step_ok [OF step(2)] by blast
  qed simp
qed

subsection \<open>Properties\<close>


text \<open>The balance splits the revenue exactly: the commission is 5 percent rounded to the hundredth, and
  commission and net revenue add up to the gross revenue.\<close>

theorem commission_split_exact:
  assumes "0 \<le> revenue_cents k d" "revenue_cents k d \<le> dec_bound"
  shows "\<exists>c n. bal_gross_revenue (calculateShopBalance k d) = js_of_dec (c + n)
    \<and> bal_commission_amount (calculateShopBalance k d) = js_of_dec c
    \<and> bal_total_revenue (calculateShopBalance k d) = js_of_dec n
    \<and> c + n = revenue_cents k d \<and> \<bar>20 * c - (c + n)\<bar> \<le> 10 \<and> 0 \<le> c \<and> 0 \<le> n"
  using balance_exact [OF assms] commission_bounds [OF assms] commission_near [OF assms]
  by (intro exI [of _ "commission_cents (revenue_cents k d)"] exI [of _ "net_cents (revenue_cents k d)"])
    (simp add: net_cents_def)

text \<open>Approval and rejection do not exclude each other: when a rejection reads the payout before an
  approval commits, both succeed; the payout ends rejected although its approval was announced.\<close>

theorem approve_reject_race:
  assumes "read_payout k PayoutRejected d = Inr po" "approvePayout k a now d = Inr (d1, po1)"
  shows "\<exists>d2 po2. write_payout po PayoutRejected (Some reason) b now2 d1 = Inr (d2, po2)
    \<and> find_row po_id k (payouts d2) = Some po2 \<and> po_status po2 = PayoutRejected
    \<and> (\<exists>e1 e2. outbox d2 = outbox d @ [e1, e2])
    \<and> rejectPayout k reason b now2 d1 = Inl (BadRequest (PayoutMsg (IllegalPayoutTransition PayoutCompleted PayoutRejected)))"
proof -
  have po: "find_row po_id k (payouts d) = Some po" using assms(1)
    by (auto simp: read_payout_def split: option.splits sum.splits)
  obtain shop seller where s: "find_opt s_id (po_shop_id po) (shops d) = Some shop" "find_row u_id (s_seller_id shop) (users d) = Some seller"
    and d1: "payouts d1 = save_row po_id po1 (payouts d)" "shops d1 = shops d" "users d1 = users d"
      "po_id po1 = po_id po" "po_status po1 = PayoutCompleted" "\<exists>e. outbox d1 = outbox d @ [e]"
    using assms(2) po by (auto simp: approvePayout_def read_payout_def write_payout_def Let_def split: option.splits sum.splits)
  have k: "po_id po = k" using find_row_SomeD [OF po] by simp
  have stale: "rejectPayout k reason b now2 d1 = Inl (BadRequest (PayoutMsg (IllegalPayoutTransition PayoutCompleted PayoutRejected)))"
    by (simp add: rejectPayout_def read_payout_def assertPayoutTransition_def canTransitionPayout_def d1(1,4,5) k find_row_save)
  let ?po2 = "po\<lparr>po_status := PayoutRejected, po_reject_reason := Some reason, po_resolved_by := Some b, po_resolved_at := Some now2\<rparr>"
  obtain d2 where w: "write_payout po PayoutRejected (Some reason) b now2 d1 = Inr (d2, ?po2)"
    "payouts d2 = save_row po_id ?po2 (payouts d1)" "\<exists>e. outbox d2 = outbox d1 @ [e]"
    using s by (simp add: write_payout_def Let_def d1(2,3))
  have "find_row po_id k (payouts d2) = Some ?po2" by (simp add: w(2) find_row_save k)
  with w d1(6) stale show ?thesis by (intro exI [of _ d2] exI [of _ ?po2]) auto
qed

text \<open>A shop that delivered two lamps and asks for 150000 of the 190000 it is due.\<close>

definition paid_db :: db where
  "paid_db = cod_db\<lparr>sub_orders := map (\<lambda>so. so\<lparr>so_status := Delivered\<rparr>) (sub_orders cod_db),
     payouts := [\<lparr>po_id = 96, po_shop_id = Some 11, po_amount = 15000000, po_commission_fee = 0, po_status = PayoutPending,
       po_reject_reason = None, po_bank_info_snapshot = \<lparr>bank_name = ''VCB'', bank_account_number = ''0123456'',
       bank_account_holder = ''BINH''\<rparr>, po_resolved_by = None, po_resolved_at = None, po_created_at = 2000\<rparr>]\<rparr>"

lemma paid_revenue: "revenue_cents k paid_db = (if k = 11 then 20000000 else if k = 12 then 5000000 else 0)"
  by (simp add: revenue_cents_def delivered_of_def paid_db_def cod_db_def buildVnpayPaidFilter_def find_opt_def find_row_Cons)

lemma paid_ok: "payouts_ok paid_db" "solvent paid_db"
proof -
  show "payouts_ok paid_db" by (simp add: payouts_ok_def paid_db_def unique_keys_def)
  have "\<bar>20 * commission_cents 20000000 - 20000000\<bar> \<le> 10" by (rule commission_near) (simp_all add: dec_bound_def)
  then have n: "15000000 \<le> net_cents 20000000" by (simp add: net_cents_def)
  have z: "0 \<le> net_cents 5000000" "0 \<le> net_cents 0" by (rule commission_bounds(3); simp add: dec_bound_def)+
  have c: "committed k paid_db = (if k = 11 then 15000000 else 0)" for k
    by (simp add: committed_def sum_payouts_def is_open_def paid_db_def)
  show "solvent paid_db"
    unfolding solvent_def paid_revenue c using n z by (simp add: is_open_def paid_db_def)
qed

lemma paid_approved: "\<exists>d' po. approvePayout 96 4 0 paid_db = Inr (d', po) \<and> po_status po = PayoutCompleted"
  by (simp add: approvePayout_def read_payout_def write_payout_def assertPayoutTransition_def canTransitionPayout_def
      paid_db_def find_row_Cons find_opt_def cod_db_def demo_db_def Let_def)


lemma commission_split_exact_witness:
  "\<exists>c n. bal_commission_amount (calculateShopBalance 11 paid_db) = js_of_dec c
    \<and> bal_total_revenue (calculateShopBalance 11 paid_db) = js_of_dec n \<and> c + n = 20000000"
  using commission_split_exact [of 11 paid_db] by (auto simp: paid_revenue dec_bound_def)

lemma approve_reject_race_witness:
  "\<exists>d1 po po1 d2 po2. approvePayout 96 4 0 paid_db = Inr (d1, po1) \<and> po_status po1 = PayoutCompleted
    \<and> write_payout po PayoutRejected (Some ''x'') 4 1 d1 = Inr (d2, po2) \<and> po_status po2 = PayoutRejected"
proof -
  obtain d1 po1 where a: "approvePayout 96 4 0 paid_db = Inr (d1, po1)" "po_status po1 = PayoutCompleted"
    using paid_approved by blast
  have "read_payout 96 PayoutRejected paid_db = Inr (payouts paid_db ! 0)"
    by (simp add: read_payout_def assertPayoutTransition_def canTransitionPayout_def paid_db_def find_row_Cons)
  from approve_reject_race [OF this a(1), of "''x''" 4 1] a show ?thesis by blast
qed

end
