(* ===== verification/Returns.thy ===== *)
theory Returns
  imports Payouts
begin

text \<open>
  \<open>returns.service.ts\<close>: a customer returns items of a delivered sub-order, the seller approves or
  rejects, and when the goods are back the stock is restored and a sub-order that came back as a
  whole is marked returned (\<open>markSubOrderReturnedIfComplete\<close> of \<open>orders.service.ts\<close>).

  The refund of a line is its share of the goods of the sub-order, after the discount of the shop
  and the part of the platform's discount that falls on it, computed in JavaScript numbers.
\<close>

subsection \<open>The state machine\<close>

definition active_return_statuses :: "return_status list" where
  "active_return_statuses = [Requested, Approved]"

fun return_state_machine :: "return_status \<Rightarrow> return_status list" where
  "return_state_machine Requested = [Approved, ReturnRejected]"
| "return_state_machine Approved = [Received, ReturnRejected]"
| "return_state_machine ReturnRejected = []"
| "return_state_machine Received = []"
| "return_state_machine ReturnCancelled = []"

definition assertReturnTransition :: "return_status \<Rightarrow> return_status \<Rightarrow> http_error + unit" where
  "assertReturnTransition from to =
     (if to \<in> set (return_state_machine from) then Inr ()
      else Inl (BadRequest (ReturnMsg (IllegalReturnTransition from to))))"

subsection \<open>Answers\<close>

record return_line =
  rl_order_item_id :: uuid
  rl_quantity :: int

record return_dto =
  rd_sub_order_id :: uuid
  rd_reason :: return_reason
  rd_customer_note :: string
  rd_items :: "return_line list"

record return_item_response =
  rir_id :: uuid
  rir_order_item_id :: "uuid option"
  rir_product_name :: string
  rir_variant_name :: "string option"
  rir_quantity :: int
  rir_refund_amount :: dec2

record return_response =
  rrr_id :: uuid
  rrr_sub_order_id :: uuid
  rrr_status :: return_status
  rrr_reason :: return_reason
  rrr_customer_note :: "string option"
  rrr_seller_note :: "string option"
  rrr_resolved_at :: "millis option"
  rrr_refund_total :: dec2
  rrr_items :: "return_item_response list"
  rrr_created_at :: millis

definition items_of_return :: "uuid \<Rightarrow> db \<Rightarrow> return_item list" where
  "items_of_return returnId d = filter (\<lambda>ri. ri_return_request_id ri = returnId) (return_items d)"

definition return_item_response_of :: "db \<Rightarrow> return_item \<Rightarrow> return_item_response" where
  "return_item_response_of d ri =
     (case find_row oi_id (ri_order_item_id ri) (order_items d) of
        None \<Rightarrow> \<lparr>rir_id = ri_id ri, rir_order_item_id = None, rir_product_name = [], rir_variant_name = None,
                 rir_quantity = ri_quantity ri, rir_refund_amount = ri_refund_amount ri\<rparr>
      | Some oi \<Rightarrow> \<lparr>rir_id = ri_id ri, rir_order_item_id = Some (oi_id oi), rir_product_name = oi_product_name oi,
                 rir_variant_name = oi_variant_name oi, rir_quantity = ri_quantity ri,
                 rir_refund_amount = ri_refund_amount ri\<rparr>)"

definition return_toResponse :: "db \<Rightarrow> return_request \<Rightarrow> return_response" where
  "return_toResponse d r =
     \<lparr>rrr_id = rr_id r, rrr_sub_order_id = rr_sub_order_id r, rrr_status = rr_status r, rrr_reason = rr_reason r,
      rrr_customer_note = rr_customer_note r, rrr_seller_note = rr_seller_note r,
      rrr_resolved_at = rr_resolved_at r, rrr_refund_total = rr_refund_total r,
      rrr_items = map (return_item_response_of d) (items_of_return (rr_id r) d),
      rrr_created_at = rr_created_at r\<rparr>"

definition getReturnDetail :: "uuid \<Rightarrow> uuid \<Rightarrow> db \<Rightarrow> http_error + return_response" where
  "getReturnDetail userId returnId d =
     (case find_row rr_id returnId (return_requests d) of
        None \<Rightarrow> Inl (NotFound (ReturnMsg ReturnNotFound))
      | Some r \<Rightarrow> if rr_customer_id r = userId then Inr (return_toResponse d r)
                  else Inl (NotFound (ReturnMsg ReturnNotFound)))"

definition seller_of_return :: "return_request \<Rightarrow> db \<Rightarrow> uuid option" where
  "seller_of_return r d = map_option s_seller_id (find_opt s_id (rr_shop_id r) (shops d))"

definition getSellerReturnDetail :: "uuid \<Rightarrow> uuid \<Rightarrow> db \<Rightarrow> http_error + return_response" where
  "getSellerReturnDetail sellerId returnId d =
     (case find_row rr_id returnId (return_requests d) of
        None \<Rightarrow> Inl (NotFound (ReturnMsg ReturnNotFound))
      | Some r \<Rightarrow> if seller_of_return r d = Some sellerId then Inr (return_toResponse d r)
                  else Inl (NotFound (ReturnMsg ReturnNotFound)))"

definition map_page :: "('a \<Rightarrow> 'b) \<Rightarrow> 'a paginated \<Rightarrow> 'b paginated" where
  "map_page f p = \<lparr>pg_items = map f (pg_items p), pg_page = pg_page p, pg_limit = pg_limit p,
                   pg_totalItems = pg_totalItems p, pg_totalPages = pg_totalPages p\<rparr>"

definition getMyReturns :: "uuid \<Rightarrow> nat option \<Rightarrow> nat option \<Rightarrow> db \<Rightarrow> return_response paginated" where
  "getMyReturns userId qpage qlimit d =
     map_page (return_toResponse d) (paginate qpage qlimit (order_desc (\<lambda>r. Some (rr_created_at r))
       (filter (\<lambda>r. rr_customer_id r = userId) (return_requests d))))"

definition getSellerReturns :: "uuid \<Rightarrow> nat option \<Rightarrow> nat option \<Rightarrow> db \<Rightarrow> return_response paginated" where
  "getSellerReturns sellerId qpage qlimit d =
     map_page (return_toResponse d) (paginate qpage qlimit (order_desc (\<lambda>r. Some (rr_created_at r))
       (filter (\<lambda>r. seller_of_return r d = Some sellerId) (return_requests d))))"

subsection \<open>The refund\<close>

text \<open>The goods of a sub-order after the shop's discount.\<close>

definition goods_of :: "sub_order \<Rightarrow> rat" where
  "goods_of so = max (js_sub (js_of_dec (so_sub_total so)) (js_of_dec (so_shop_discount_amount so))) 0"

definition refundable_base :: "sub_order \<Rightarrow> order_row \<Rightarrow> db \<Rightarrow> rat" where
  "refundable_base so ord d =
     (let subOrderGoods = goods_of so;
          globalDiscount = (case o_global_discount_amount ord of None \<Rightarrow> 0 | Some g \<Rightarrow> js_of_dec g);
          orderGoods = foldl (\<lambda>sum so. js_add sum (goods_of so)) 0 (siblings (o_id ord) d);
          globalShare = (if 0 < orderGoods then js_mul globalDiscount (js_div subOrderGoods orderGoods) else 0)
      in max (js_sub subOrderGoods globalShare) 0)"

definition refund_of_line :: "rat \<Rightarrow> rat \<Rightarrow> rat \<Rightarrow> int \<Rightarrow> rat" where
  "refund_of_line unitPrice subTotal refundableBase quantity =
     round2 (js_mul (js_div (js_mul unitPrice (of_int quantity)) subTotal) refundableBase)"

text \<open>What has come back of an order item.\<close>

definition is_received :: "db \<Rightarrow> return_item \<Rightarrow> bool" where
  "is_received d ri \<longleftrightarrow>
     map_option rr_status (find_row rr_id (ri_return_request_id ri) (return_requests d)) = Some Received"

definition received_of :: "uuid \<Rightarrow> db \<Rightarrow> int" where
  "received_of orderItemId d =
     (\<Sum>ri\<leftarrow>filter (\<lambda>ri. ri_order_item_id ri = orderItemId \<and> is_received d ri) (return_items d). ri_quantity ri)"

text \<open>The loop over the lines: the ids seen, the items so far and the sum of their refunds. An item is
  kept as the id of its order item, its quantity and its refund.\<close>

fun return_lines ::
  "sub_order \<Rightarrow> rat \<Rightarrow> rat \<Rightarrow> db \<Rightarrow> return_line list \<Rightarrow> uuid set \<Rightarrow> (uuid \<times> int \<times> rat) list \<Rightarrow> rat
     \<Rightarrow> http_error + ((uuid \<times> int \<times> rat) list \<times> rat)" where
  "return_lines so subTotal refundableBase d [] seen returnItems refundTotal = Inr (returnItems, refundTotal)"
| "return_lines so subTotal refundableBase d (line # lines) seen returnItems refundTotal =
     (if rl_order_item_id line \<in> seen then Inl (BadRequest (ReturnMsg DuplicateLine))
      else
        case find_row oi_id (rl_order_item_id line) (items_of so d) of
          None \<Rightarrow> Inl (BadRequest (ReturnMsg LineNotInSubOrder))
        | Some oi \<Rightarrow>
            let available = oi_quantity oi - received_of (oi_id oi) d
            in if available < rl_quantity line then Inl (BadRequest (ReturnMsg (OverAvailable available)))
               else
                 let refundAmount = refund_of_line (js_of_dec (oi_price_at_purchase oi)) subTotal refundableBase (rl_quantity line)
                 in return_lines so subTotal refundableBase d lines (insert (rl_order_item_id line) seen)
                      (returnItems @ [(oi_id oi, rl_quantity line, refundAmount)]) (js_add refundTotal refundAmount))"

subsection \<open>The customer\<close>

definition lockAndLoadSubOrderForReturn :: "uuid \<Rightarrow> db \<Rightarrow> sub_order option" where
  "lockAndLoadSubOrderForReturn subOrderId d = find_row so_id subOrderId (sub_orders d)"

definition has_active_return :: "uuid \<Rightarrow> db \<Rightarrow> bool" where
  "has_active_return subOrderId d \<longleftrightarrow>
     0 < length (filter (\<lambda>r. rr_sub_order_id r = subOrderId \<and> rr_status r \<in> set active_return_statuses) (return_requests d))"

definition save_return :: "return_request \<Rightarrow> (uuid \<times> int \<times> rat) list \<Rightarrow> db \<Rightarrow> db" where
  "save_return r its d =
     d\<lparr>return_requests := return_requests d @ [r],
       return_items := return_items d @
         map2 (\<lambda>(oid, q, amount) k. \<lparr>ri_id = k, ri_return_request_id = rr_id r, ri_order_item_id = oid, ri_quantity = q,
                                     ri_refund_amount = dec_of_js amount\<rparr>)
           its [Suc (rr_id r)..<Suc (rr_id r) + length its],
       next_uuid := Suc (rr_id r) + length its\<rparr>"

text \<open>The request row, the event, and the answer loaded after the commit.\<close>

definition return_row :: "uuid \<Rightarrow> return_dto \<Rightarrow> sub_order \<Rightarrow> rat \<Rightarrow> millis \<Rightarrow> db \<Rightarrow> return_request" where
  "return_row userId dto so refundTotal now d =
     \<lparr>rr_id = next_uuid d, rr_sub_order_id = rd_sub_order_id dto, rr_customer_id = userId,
      rr_shop_id = map_option s_id (shop_of so d), rr_status = Requested, rr_reason = rd_reason dto,
      rr_customer_note = Some (rd_customer_note dto), rr_refund_total = dec_of_js (round2 refundTotal),
      rr_seller_note = None, rr_resolved_at = None, rr_created_at = now\<rparr>"

definition finish_return ::
  "uuid \<Rightarrow> return_dto \<Rightarrow> sub_order \<Rightarrow> order_row \<Rightarrow> (uuid \<times> int \<times> rat) list \<Rightarrow> rat \<Rightarrow> millis \<Rightarrow> db
     \<Rightarrow> http_error + (db \<times> return_response)" where
  "finish_return userId dto so ord returnItems refundTotal now d =
     (let r = return_row userId dto so refundTotal now d;
          d1 = save_return r returnItems d;
          returnShopId = rr_shop_id r;
          d2 = d1\<lparr>outbox := outbox d1 @ [ReturnRequested (rr_id r) (so_id so) (o_order_number ord) returnShopId
                  (Option.bind returnShopId (\<lambda>k. getSellerIdsByShopIds [k] d k)) userId]\<rparr>
      in case getReturnDetail userId (rr_id r) d2 of
           Inl e \<Rightarrow> Inl e
         | Inr rsp \<Rightarrow> Inr (d2, rsp))"

definition createReturn :: "uuid \<Rightarrow> return_dto \<Rightarrow> millis \<Rightarrow> db \<Rightarrow> http_error + (db \<times> return_response)" where
  "createReturn userId dto now d =
     (let subOrderId = rd_sub_order_id dto
      in case lockAndLoadSubOrderForReturn subOrderId d of
        None \<Rightarrow> Inl (NotFound (ReturnMsg ReturnSubOrderNotFound))
      | Some so \<Rightarrow>
          case find_opt o_id (so_order_id so) (orders d) of
            None \<Rightarrow> Inl (NotFound (ReturnMsg ReturnSubOrderNotFound))
          | Some ord \<Rightarrow>
              if o_customer_id ord \<noteq> Some userId then Inl (NotFound (ReturnMsg ReturnSubOrderNotFound))
              else if so_status so \<noteq> Delivered then Inl (BadRequest (ReturnMsg NotDelivered))
              else
                case so_delivered_at so of
                  None \<Rightarrow> Inl (BadRequest (ReturnMsg NoDeliveryDate))
                | Some delivered_at \<Rightarrow>
                    let deadline = delivered_at + return_window_days * 24 * 60 * 60 * 1000
                    in if deadline < now then Inl (BadRequest (ReturnMsg WindowPassed))
                       else if has_active_return subOrderId d then Inl (Conflict (ReturnMsg ActiveReturnExists))
                       else if js_of_dec (so_sub_total so) \<le> 0 then Inl (BadRequest (ReturnMsg BadSubTotal))
                       else
                         case return_lines so (js_of_dec (so_sub_total so)) (refundable_base so ord d) d (rd_items dto) {} [] 0 of
                           Inl e \<Rightarrow> Inl e
                         | Inr (returnItems, refundTotal) \<Rightarrow> finish_return userId dto so ord returnItems refundTotal now d)"

definition cancelReturn :: "uuid \<Rightarrow> uuid \<Rightarrow> millis \<Rightarrow> db \<Rightarrow> http_error + (db \<times> uuid \<times> return_status)" where
  "cancelReturn userId returnId now d =
     (case find_row rr_id returnId (return_requests d) of
        None \<Rightarrow> Inl (NotFound (ReturnMsg ReturnNotFound))
      | Some r \<Rightarrow>
          if rr_customer_id r \<noteq> userId then Inl (NotFound (ReturnMsg ReturnNotFound))
          else if rr_status r \<noteq> Requested then Inl (BadRequest (ReturnMsg OnlyRequestedCancellable))
          else let r' = r\<lparr>rr_status := ReturnCancelled, rr_resolved_at := Some now\<rparr>
               in Inr (d\<lparr>return_requests := save_row rr_id r' (return_requests d)\<rparr>, rr_id r', rr_status r'))"

subsection \<open>The seller\<close>

text \<open>The event needs the order of the sub-order; reading its number throws when it is gone.\<close>

definition emitReturnStatusChanged :: "return_request \<Rightarrow> return_status \<Rightarrow> string option \<Rightarrow> db \<Rightarrow> http_error + db" where
  "emitReturnStatusChanged r newStatus sellerNote d =
     (case Option.bind (find_row so_id (rr_sub_order_id r) (sub_orders d)) (\<lambda>so. find_opt o_id (so_order_id so) (orders d)) of
        None \<Rightarrow> Inl JsTypeError
      | Some ord \<Rightarrow> Inr (d\<lparr>outbox := outbox d @ [ReturnStatusChanged (rr_id r) (rr_sub_order_id r) (o_order_number ord)
                                               (rr_customer_id r) newStatus sellerNote]\<rparr>))"

text \<open>The part \<open>sellerResolve\<close> and \<open>receiveReturn\<close> share: the request of this seller, when it may go to the
  new status.\<close>

definition seller_return :: "uuid \<Rightarrow> uuid \<Rightarrow> return_status \<Rightarrow> db \<Rightarrow> http_error + return_request" where
  "seller_return sellerId returnId newStatus d =
     (case find_row rr_id returnId (return_requests d) of
        None \<Rightarrow> Inl (NotFound (ReturnMsg ReturnNotFound))
      | Some r \<Rightarrow>
          if seller_of_return r d \<noteq> Some sellerId then Inl (NotFound (ReturnMsg ReturnNotFound))
          else (case assertReturnTransition (rr_status r) newStatus of
                  Inl e \<Rightarrow> Inl e
                | Inr _ \<Rightarrow> Inr r))"

text \<open>The answer after the commit: the request loaded again.\<close>

definition answer_seller :: "uuid \<Rightarrow> uuid \<Rightarrow> http_error + db \<Rightarrow> http_error + (db \<times> return_response)" where
  "answer_seller sellerId returnId res =
     (case res of
        Inl e \<Rightarrow> Inl e
      | Inr d \<Rightarrow> (case getSellerReturnDetail sellerId returnId d of
                      Inl e \<Rightarrow> Inl e
                    | Inr rsp \<Rightarrow> Inr (d, rsp)))"

definition sellerResolve ::
  "uuid \<Rightarrow> uuid \<Rightarrow> return_status \<Rightarrow> string option \<Rightarrow> millis \<Rightarrow> db \<Rightarrow> http_error + (db \<times> return_response)" where
  "sellerResolve sellerId returnId newStatus sellerNote now d =
     (case seller_return sellerId returnId newStatus d of
        Inl e \<Rightarrow> Inl e
      | Inr r \<Rightarrow>
          let r' = (if newStatus = ReturnRejected
                    then r\<lparr>rr_status := newStatus, rr_seller_note := sellerNote, rr_resolved_at := Some now\<rparr>
                    else r\<lparr>rr_status := newStatus\<rparr>);
              d1 = d\<lparr>return_requests := save_row rr_id r' (return_requests d)\<rparr>
          in answer_seller sellerId returnId (emitReturnStatusChanged r' newStatus sellerNote d1))"

definition approveReturn :: "uuid \<Rightarrow> uuid \<Rightarrow> millis \<Rightarrow> db \<Rightarrow> http_error + (db \<times> return_response)" where
  "approveReturn sellerId returnId now d = sellerResolve sellerId returnId Approved None now d"

definition rejectReturn :: "uuid \<Rightarrow> uuid \<Rightarrow> string \<Rightarrow> millis \<Rightarrow> db \<Rightarrow> http_error + (db \<times> return_response)" where
  "rejectReturn sellerId returnId note now d = sellerResolve sellerId returnId ReturnRejected (Some note) now d"

definition return_targets :: "return_request \<Rightarrow> db \<Rightarrow> stock_item list" where
  "return_targets r d =
     concat (map (\<lambda>ri.
       (case find_row oi_id (ri_order_item_id ri) (order_items d) of
          None \<Rightarrow> []
        | Some oi \<Rightarrow>
            (case find_opt p_id (oi_product_id oi) (products d) of
               None \<Rightarrow> []
             | Some p \<Rightarrow> [\<lparr>si_product_id = p_id p,
                          si_variant_id = map_option v_id (find_opt v_id (oi_variant_id oi) (variants d)),
                          si_quantity = ri_quantity ri\<rparr>]))) (items_of_return (rr_id r) d))"

text \<open>The sums of the query: order items of the received requests of a sub-order.\<close>

definition sumReceivedByOrderItem :: "uuid \<Rightarrow> db \<Rightarrow> (uuid \<times> int) list" where
  "sumReceivedByOrderItem subOrderId d =
     (let rows = filter (\<lambda>ri. \<exists>r \<in> set (return_requests d). rr_id r = ri_return_request_id ri
                       \<and> rr_sub_order_id r = subOrderId \<and> rr_status r = Received) (return_items d)
      in map (\<lambda>(oid, ris). (oid, \<Sum>ri\<leftarrow>ris. ri_quantity ri)) (group_by ri_order_item_id rows))"

definition markSubOrderReturnedIfComplete :: "uuid \<Rightarrow> (uuid \<times> int) list \<Rightarrow> db \<Rightarrow> db \<times> bool" where
  "markSubOrderReturnedIfComplete subOrderId receivedByOrderItem d =
     (let its = filter (\<lambda>oi. oi_sub_order_id oi = subOrderId) (order_items d)
      in if its = [] then (d, False)
         else if list_all (\<lambda>oi. oi_quantity oi \<le> (case map_of receivedByOrderItem (oi_id oi) of None \<Rightarrow> 0 | Some q \<Rightarrow> q)) its
         then (d\<lparr>sub_orders := update_row so_id subOrderId (\<lambda>so. so\<lparr>so_status := Returned\<rparr>) (sub_orders d)\<rparr>, True)
         else (d, False))"

definition receiveReturn :: "uuid \<Rightarrow> uuid \<Rightarrow> millis \<Rightarrow> db \<Rightarrow> http_error + (db \<times> return_response)" where
  "receiveReturn sellerId returnId now d =
     (case seller_return sellerId returnId Received d of
        Inl e \<Rightarrow> Inl e
      | Inr r \<Rightarrow>
          (let restockTargets = return_targets r d
           in case (if restockTargets = [] then Inr d else lockAndRestock restockTargets d) of
                Inl e \<Rightarrow> Inl e
              | Inr d1 \<Rightarrow>
                  (let r' = r\<lparr>rr_status := Received, rr_resolved_at := Some now\<rparr>;
                       d2 = d1\<lparr>return_requests := save_row rr_id r' (return_requests d1)\<rparr>;
                       receivedByItem = sumReceivedByOrderItem (rr_sub_order_id r) d2;
                       (d3, _) = markSubOrderReturnedIfComplete (rr_sub_order_id r) receivedByItem d2
                   in answer_seller sellerId returnId (emitReturnStatusChanged r' Received None d3))))"

subsection \<open>What the operations write\<close>

lemma items_of_new:
  assumes "length ks = length its"
  shows "map ri_order_item_id (map2 (\<lambda>(oid, q, amount) k. \<lparr>ri_id = k, ri_return_request_id = rid, ri_order_item_id = oid,
      ri_quantity = q, ri_refund_amount = dec_of_js amount\<rparr>) its ks) = map fst its"
  using assms by (induction its ks rule: list_induct2') auto

text \<open>The lines that pass are distinct items of the sub-order, each within what has not come back yet.\<close>

lemma return_lines_ok:
  assumes "return_lines so subTotal base d lines seen acc tot = Inr (its, tot')"
  shows "\<exists>new. its = acc @ new \<and> map fst new = map rl_order_item_id lines
    \<and> map (\<lambda>x. fst (snd x)) new = map rl_quantity lines \<and> distinct (map fst new) \<and> set (map fst new) \<inter> seen = {}
    \<and> (\<forall>(oid, q, amount) \<in> set new. \<exists>oi. find_row oi_id oid (items_of so d) = Some oi \<and> q \<le> oi_quantity oi - received_of oid d
         \<and> amount = refund_of_line (js_of_dec (oi_price_at_purchase oi)) subTotal base q)
    \<and> tot' = foldl js_add tot (map (\<lambda>x. snd (snd x)) new)"
  using assms
proof (induction lines arbitrary: seen acc tot)
  case (Cons line lines)
  let ?k = "rl_order_item_id line" and ?q = "rl_quantity line"
  from Cons.prems obtain oi where l: "?k \<notin> seen" "find_row oi_id ?k (items_of so d) = Some oi"
    "?q \<le> oi_quantity oi - received_of (oi_id oi) d"
    and r: "return_lines so subTotal base d lines (insert ?k seen)
      (acc @ [(oi_id oi, ?q, refund_of_line (js_of_dec (oi_price_at_purchase oi)) subTotal base ?q)])
      (js_add tot (refund_of_line (js_of_dec (oi_price_at_purchase oi)) subTotal base ?q)) = Inr (its, tot')"
    by (auto simp: Let_def not_less split: if_splits option.splits)
  have id: "oi_id oi = ?k" using find_row_SomeD [OF l(2)] by simp
  from Cons.IH [OF r] obtain new where new: "its = (acc @ [(oi_id oi, ?q, refund_of_line (js_of_dec (oi_price_at_purchase oi)) subTotal base ?q)]) @ new"
    "map fst new = map rl_order_item_id lines" "map (\<lambda>x. fst (snd x)) new = map rl_quantity lines" "distinct (map fst new)"
    "set (map fst new) \<inter> insert ?k seen = {}"
    "\<forall>(oid, q, amount) \<in> set new. \<exists>oi. find_row oi_id oid (items_of so d) = Some oi \<and> q \<le> oi_quantity oi - received_of oid d
         \<and> amount = refund_of_line (js_of_dec (oi_price_at_purchase oi)) subTotal base q"
    "tot' = foldl js_add (js_add tot (refund_of_line (js_of_dec (oi_price_at_purchase oi)) subTotal base ?q)) (map (\<lambda>x. snd (snd x)) new)"
    by blast
  show ?case
    using new l id by (intro exI [of _ "(oi_id oi, ?q, refund_of_line (js_of_dec (oi_price_at_purchase oi)) subTotal base ?q) # new"]) auto
qed simp

text \<open>A return that is created: one request and its items, and nothing else but the event.\<close>

lemma create_cases:
  assumes "createReturn userId dto now d = Inr (d', rsp)" "\<forall>r \<in> set (return_requests d). rr_id r < next_uuid d"
  obtains so ord its tot r where
    "find_row so_id (rd_sub_order_id dto) (sub_orders d) = Some so" "find_opt o_id (so_order_id so) (orders d) = Some ord"
    "o_customer_id ord = Some userId" "so_status so = Delivered" "\<not> has_active_return (so_id so) d" "0 < js_of_dec (so_sub_total so)"
    "return_lines so (js_of_dec (so_sub_total so)) (refundable_base so ord d) d (rd_items dto) {} [] 0 = Inr (its, tot)"
    "rr_id r = next_uuid d" "rr_sub_order_id r = so_id so" "rr_status r = Requested" "rr_customer_id r = userId"
    "rr_refund_total r = dec_of_js (round2 tot)"
    "return_requests d' = return_requests (save_return r its d)" "return_items d' = return_items (save_return r its d)"
    "next_uuid d' = next_uuid (save_return r its d)"
    "products d' = products d" "variants d' = variants d" "sub_orders d' = sub_orders d" "order_items d' = order_items d"
    "orders d' = orders d" "payments d' = payments d" "payouts d' = payouts d" "shops d' = shops d"
    "rsp = return_toResponse d' r"
proof -
  from assms(1) obtain so ord its tot where c:
    "find_row so_id (rd_sub_order_id dto) (sub_orders d) = Some so" "find_opt o_id (so_order_id so) (orders d) = Some ord"
    "o_customer_id ord = Some userId" "so_status so = Delivered" "\<not> has_active_return (rd_sub_order_id dto) d"
    "0 < js_of_dec (so_sub_total so)"
    "return_lines so (js_of_dec (so_sub_total so)) (refundable_base so ord d) d (rd_items dto) {} [] 0 = Inr (its, tot)"
    and fin: "finish_return userId dto so ord its tot now d = Inr (d', rsp)"
    unfolding createReturn_def lockAndLoadSubOrderForReturn_def Let_def
    by (auto simp: not_le split: option.splits if_splits sum.splits)
  have id: "so_id so = rd_sub_order_id dto" using find_row_SomeD [OF c(1)] by blast
  let ?r = "return_row userId dto so tot now d"
  have r: "rr_id ?r = next_uuid d" "rr_sub_order_id ?r = so_id so" "rr_status ?r = Requested" "rr_customer_id ?r = userId"
    "rr_refund_total ?r = dec_of_js (round2 tot)" by (simp_all add: return_row_def id)
  obtain ev where d': "d' = (save_return ?r its d)\<lparr>outbox := ev\<rparr>" and rsp: "getReturnDetail userId (rr_id ?r) d' = Inr rsp"
    using fin by (auto simp: finish_return_def Let_def split: sum.splits)
  have new: "find_row rr_id (rr_id ?r) (return_requests d') = Some ?r"
    using assms(2) by (auto simp: d' save_return_def r(1) find_row_append find_row_Cons split: option.split dest!: find_row_SomeD)
  show thesis
    by (rule that [OF c(1-4) _ c(6,7) r]) (use c(5) rsp new in \<open>simp_all add: d' save_return_def id getReturnDetail_def r(4)\<close>)
qed

subsection \<open>The refund of a line\<close>

text \<open>It is at most what was paid for the goods.\<close>

lemma refund_le:
  assumes "0 \<le> p" "0 \<le> q" "p * q \<le> dec_bound" "0 < s" "s \<le> dec_bound" "0 \<le> base" "base \<le> js_of_dec s"
  shows "\<exists>c. refund_of_line (js_of_dec p) (js_of_dec s) base q = js_of_dec c \<and> 0 \<le> c \<and> c \<le> p * q"
proof -
  define S P where "S = js_of_dec s" and "P = js_mul (js_of_dec p) (of_int q)"
  have P: "rnear 2 (p * q) P"
    unfolding P_def using rnear_mul_int [OF rnear_dec [OF assms(1)] assms(2)] by (simp add: numeral_2_eq_2)
  have S: "1 / 200 \<le> S" "S \<le> 2 ^ 40"
  proof -
    have n: "near (1 / 2 ^ 19) s S" unfolding S_def using assms(4,5) by (intro near_dec) simp
    have "(1 :: rat) \<le> of_int s" "of_int s \<le> (2 ^ 40 :: rat)" using assms(4) dec_bound_rat [of s] assms(4,5) by simp_all
    with n show "1 / 200 \<le> S" "S \<le> 2 ^ 40" unfolding near_iff by simp_all
  qed
  have "P = 0 \<or> 2 powi (- 1022) \<le> \<bar>P / S\<bar>"
  proof (cases "p * q = 0")
    case True
    have "P = 0" using P unfolding True rnear_def by simp
    then show ?thesis by (rule disjI1)
  next
    case False
    have "1 \<le> p * q" using False mult_nonneg_nonneg [OF assms(1,2)] by linarith
    then have "(of_int 1 :: rat) \<le> of_int (p * q)" by (simp only: of_int_le_iff)
    moreover have "near (1 / 256) (p * q) P" using P assms(3) by (intro rnear_near [of 2]) auto
    ultimately have "1 / 200 \<le> P" unfolding near_iff of_int_1 by linarith
    then have "1 / 200 / 2 ^ 40 \<le> P / S" using S by (intro frac_le) auto
    moreover have "(2 powi (- 1022) :: rat) \<le> 2 powi (- 50)" by (rule power_int_2_mono) simp
    then have "(2 powi (- 1022) :: rat) \<le> 1 / 200 / 2 ^ 40" by (simp add: power_int_minus inverse_eq_divide)
    ultimately have "2 powi (- 1022) \<le> P / S" by linarith
    then have "2 powi (- 1022) \<le> \<bar>P / S\<bar>" by (rule order_trans) (rule abs_ge_self)
    then show ?thesis by (rule disjI2)
  qed
  then have "rnear 3 (p * q) (js_div P S * S)" using rnear_div_mul [OF P, of S] S by (simp add: numeral_3_eq_3)
  then have "rnear 4 (p * q) (js_mul (js_div P S) S)" unfolding js_mul_def using rnear_fl [of 3] by simp
  then have k: "cents_of (js_mul (js_div P S) S) = p * q"
    using assms(1-3) by (intro cents_of_near rnear_near [of 4]) auto
  have P0: "0 \<le> P" unfolding P_def js_mul_def using assms(1,2) by (intro fl_nonneg mult_nonneg_nonneg js_of_dec_nonneg) auto
  have q0: "0 \<le> js_div P S" unfolding js_div_def using P0 S by (intro fl_nonneg divide_nonneg_nonneg) auto
  have "js_mul (js_div P S) base \<le> js_mul (js_div P S) S"
    unfolding js_mul_def using q0 assms(7) by (intro fl_mono mult_left_mono) (simp_all add: S_def)
  moreover have "0 \<le> js_mul (js_div P S) base" unfolding js_mul_def using q0 assms(6) by (intro fl_nonneg mult_nonneg_nonneg)
  then have "cents_of 0 \<le> cents_of (js_mul (js_div P S) base)" by (rule cents_of_mono)
  then have "0 \<le> cents_of (js_mul (js_div P S) base)" using cents_of_dec [of 0] by (simp add: dec_bound_def)
  ultimately show ?thesis
    using cents_of_mono k by (intro exI [of _ "cents_of (js_mul (js_div P S) base)"])
      (fastforce simp: refund_of_line_def round2_cents P_def S_def)
qed

lemma goods_bounds:
  assumes "0 \<le> so_shop_discount_amount so" "0 \<le> so_sub_total so"
  shows "0 \<le> goods_of so" "goods_of so \<le> js_of_dec (so_sub_total so)" "fl (goods_of so) = goods_of so"
proof -
  have "js_sub (js_of_dec (so_sub_total so)) (js_of_dec (so_shop_discount_amount so)) \<le> fl (js_of_dec (so_sub_total so))"
    unfolding js_sub_def using js_of_dec_nonneg [OF assms(1)] by (intro fl_mono) simp
  then show "goods_of so \<le> js_of_dec (so_sub_total so)"
    using js_of_dec_nonneg [OF assms(2)] by (simp add: goods_of_def js_of_dec_double)
  show "0 \<le> goods_of so" by (simp add: goods_of_def)
  show "fl (goods_of so) = goods_of so" by (simp add: goods_of_def js_sub_def max_def fl_idem)
qed

lemma base_bounds:
  assumes "0 \<le> so_shop_discount_amount so" "0 \<le> so_sub_total so" "\<forall>g. o_global_discount_amount ord = Some g \<longrightarrow> 0 \<le> g"
  shows "0 \<le> refundable_base so ord d" "refundable_base so ord d \<le> js_of_dec (so_sub_total so)"
proof -
  note g = goods_bounds [OF assms(1,2)]
  define og where "og = foldl (\<lambda>sum so. js_add sum (goods_of so)) 0 (siblings (o_id ord) d)"
  define gd where "gd = (case o_global_discount_amount ord of None \<Rightarrow> 0 | Some g \<Rightarrow> js_of_dec g)"
  define share where "share = (if 0 < og then js_mul gd (js_div (goods_of so) og) else 0)"
  have "0 \<le> gd" using assms(3) by (auto simp: gd_def js_of_dec_nonneg split: option.split)
  then have "0 \<le> share" using g(1) by (auto simp: share_def js_mul_def js_div_def intro!: fl_nonneg mult_nonneg_nonneg)
  then have "js_sub (goods_of so) share \<le> fl (goods_of so)" unfolding js_sub_def by (intro fl_mono) simp
  moreover have b: "refundable_base so ord d = max (js_sub (goods_of so) share) 0"
    by (simp add: refundable_base_def Let_def share_def gd_def og_def)
  ultimately show "refundable_base so ord d \<le> js_of_dec (so_sub_total so)" using g by simp
  show "0 \<le> refundable_base so ord d" by (simp add: b)
qed

subsection \<open>What a change of status writes\<close>

text \<open>A change of status of one request, and what it leaves alone.\<close>

definition request_change :: "return_request \<Rightarrow> return_request \<Rightarrow> db \<Rightarrow> db \<Rightarrow> bool" where
  "request_change r r' d d' \<longleftrightarrow>
     find_row rr_id (rr_id r) (return_requests d) = Some r \<and> rr_id r' = rr_id r \<and> rr_sub_order_id r' = rr_sub_order_id r
   \<and> return_requests d' = save_row rr_id r' (return_requests d) \<and> return_items d' = return_items d
   \<and> order_items d' = order_items d \<and> orders d' = orders d \<and> payments d' = payments d \<and> next_uuid d' = next_uuid d"

lemma cancel_return_cases:
  assumes "cancelReturn userId k now d = Inr (d', x)"
  obtains r r' where "request_change r r' d d'" "rr_status r = Requested" "rr_status r' = ReturnCancelled"
    "sub_orders d' = sub_orders d" "products d' = products d" "variants d' = variants d"
proof -
  from assms obtain r where r: "find_row rr_id k (return_requests d) = Some r" "rr_status r = Requested"
    and d': "d' = d\<lparr>return_requests := save_row rr_id (r\<lparr>rr_status := ReturnCancelled, rr_resolved_at := Some now\<rparr>) (return_requests d)\<rparr>"
    by (auto simp: cancelReturn_def Let_def split: option.splits if_splits)
  have "rr_id r = k" using find_row_SomeD [OF r(1)] by blast
  with r show thesis
    by (intro that [of r "r\<lparr>rr_status := ReturnCancelled, rr_resolved_at := Some now\<rparr>"]) (simp_all add: request_change_def d')
qed

lemma seller_returnD:
  assumes "seller_return sellerId k st d = Inr r"
  shows "find_row rr_id k (return_requests d) = Some r" "rr_id r = k" "st \<in> set (return_state_machine (rr_status r))"
    "seller_of_return r d = Some sellerId"
  using assms find_row_SomeD [of rr_id k "return_requests d" r]
  by (auto simp: seller_return_def assertReturnTransition_def split: option.splits if_splits)

lemma emit_frame: "emitReturnStatusChanged r st note d = Inr d' \<Longrightarrow> \<exists>ev. d' = d\<lparr>outbox := ev\<rparr>"
  by (auto simp: emitReturnStatusChanged_def split: option.splits)

lemma answer_frame: "answer_seller sellerId k res = Inr (d', rsp) \<Longrightarrow> res = Inr d'"
  by (auto simp: answer_seller_def split: sum.splits)

lemma resolve_return_cases:
  assumes "sellerResolve sellerId k st note now d = Inr (d', x)"
  obtains r r' where "request_change r r' d d'" "st \<in> set (return_state_machine (rr_status r))" "rr_status r' = st"
    "sub_orders d' = sub_orders d" "products d' = products d" "variants d' = variants d"
proof -
  let ?r' = "\<lambda>r. if st = ReturnRejected
                    then r\<lparr>rr_status := st, rr_seller_note := note, rr_resolved_at := Some now\<rparr>
                    else r\<lparr>rr_status := st\<rparr>"
  from assms obtain r where r: "seller_return sellerId k st d = Inr r"
    and "emitReturnStatusChanged (?r' r) st note (d\<lparr>return_requests := save_row rr_id (?r' r) (return_requests d)\<rparr>) = Inr d'"
    by (auto simp: sellerResolve_def Let_def split: sum.splits dest!: answer_frame)
  then obtain ev where d': "d' = d\<lparr>return_requests := save_row rr_id (?r' r) (return_requests d), outbox := ev\<rparr>"
    using emit_frame by blast
  show thesis
    by (rule that [of r "?r' r"]) (use seller_returnD [OF r] in \<open>simp_all add: request_change_def d'\<close>)
qed

text \<open>Whether everything of a sub-order came back, as the code decides it.\<close>

definition complete :: "uuid \<Rightarrow> db \<Rightarrow> bool" where
  "complete sid d \<longleftrightarrow> (let its = filter (\<lambda>oi. oi_sub_order_id oi = sid) (order_items d) in its \<noteq> []
     \<and> list_all (\<lambda>oi. oi_quantity oi \<le> (case map_of (sumReceivedByOrderItem sid d) (oi_id oi) of None \<Rightarrow> 0 | Some q \<Rightarrow> q)) its)"

lemma mark_complete:
  "fst (markSubOrderReturnedIfComplete sid (sumReceivedByOrderItem sid d) d)
     = (if complete sid d then d\<lparr>sub_orders := update_row so_id sid (\<lambda>so. so\<lparr>so_status := Returned\<rparr>) (sub_orders d)\<rparr> else d)"
  by (auto simp: markSubOrderReturnedIfComplete_def complete_def Let_def)

lemma complete_cong:
  "return_requests d' = return_requests d \<Longrightarrow> return_items d' = return_items d \<Longrightarrow> order_items d' = order_items d \<Longrightarrow>
   complete sid d' = complete sid d"
  by (simp add: complete_def sumReceivedByOrderItem_def)

lemma receive_cases:
  assumes "receiveReturn sellerId k now d = Inr (d', x)" "unique_keys p_id (products d)" "unique_keys v_id (variants d)"
  obtains r r' where "request_change r r' d d'" "rr_id r = k" "rr_status r = Approved" "rr_status r' = Received"
    "products d' = map (move_product 1 (return_targets r d)) (products d)"
    "variants d' = map (move_variant 1 (return_targets r d)) (variants d)"
    "sub_orders d' = (if complete (rr_sub_order_id r) d'
       then update_row so_id (rr_sub_order_id r) (\<lambda>so. so\<lparr>so_status := Returned\<rparr>) (sub_orders d) else sub_orders d)"
proof -
  let ?t = "\<lambda>r. return_targets r d" and ?r' = "\<lambda>r. r\<lparr>rr_status := Received, rr_resolved_at := Some now\<rparr>"
  from assms(1) obtain r d1 where r: "seller_return sellerId k Received d = Inr r"
    and d1: "(if ?t r = [] then Inr d else lockAndRestock (?t r) d) = Inr d1"
    and rest: "(let d2 = d1\<lparr>return_requests := save_row rr_id (?r' r) (return_requests d1)\<rparr>;
                    receivedByItem = sumReceivedByOrderItem (rr_sub_order_id r) d2;
                    (d3, _) = markSubOrderReturnedIfComplete (rr_sub_order_id r) receivedByItem d2
                in answer_seller sellerId k (emitReturnStatusChanged (?r' r) Received None d3)) = Inr (d', x)"
    unfolding receiveReturn_def by (auto simp: Let_def split: sum.splits)
  have d1': "d1 = move_stock 1 (?t r) d"
    using d1 save_stock_locked [OF assms(2,3)] by (auto simp: restock_unfold split: if_splits)
  let ?d2 = "d1\<lparr>return_requests := save_row rr_id (?r' r) (return_requests d1)\<rparr>"
  obtain d3 b where d3: "markSubOrderReturnedIfComplete (rr_sub_order_id r) (sumReceivedByOrderItem (rr_sub_order_id r) ?d2) ?d2 = (d3, b)"
    by fastforce
  have d3': "d3 = (if complete (rr_sub_order_id r) ?d2
      then ?d2\<lparr>sub_orders := update_row so_id (rr_sub_order_id r) (\<lambda>so. so\<lparr>so_status := Returned\<rparr>) (sub_orders ?d2)\<rparr> else ?d2)"
    using mark_complete [of "rr_sub_order_id r" ?d2] by (simp add: d3)
  have "emitReturnStatusChanged (?r' r) Received None d3 = Inr d'" using rest by (auto simp: d3 Let_def dest!: answer_frame)
  then obtain ev where d': "d' = d3\<lparr>outbox := ev\<rparr>" using emit_frame by blast
  have st: "rr_status r = Approved" using seller_returnD(3) [OF r] by (cases "rr_status r") auto
  have c: "complete (rr_sub_order_id r) d' = complete (rr_sub_order_id r) ?d2"
    by (rule complete_cong) (simp_all add: d' d3')
  show thesis
    by (rule that [of r "?r' r"])
      (simp_all only: c, use seller_returnD [OF r] st in \<open>simp_all add: request_change_def d' d3' d1' move_stock_def\<close>)
qed

subsection \<open>The refund of a return\<close>

text \<open>What was paid for a quantity of an item of the sub-order.\<close>

definition item_value :: "db \<Rightarrow> sub_order \<Rightarrow> uuid \<Rightarrow> int \<Rightarrow> int" where
  "item_value d so oid q = (case find_row oi_id oid (items_of so d) of None \<Rightarrow> 0 | Some oi \<Rightarrow> oi_price_at_purchase oi * q)"

lemma saved_items:
  fixes rid :: uuid
  assumes "length ks = length its"
  shows "map (\<lambda>ri. (ri_order_item_id ri, ri_quantity ri, ri_refund_amount ri))
      (map2 (\<lambda>(oid, q, amount) k. \<lparr>ri_id = k, ri_return_request_id = rid, ri_order_item_id = oid, ri_quantity = q,
         ri_refund_amount = dec_of_js amount\<rparr>) its ks) = map (\<lambda>(oid, q, amount). (oid, q, dec_of_js amount)) its"
  using assms by (induction its ks rule: list_induct2') auto

text \<open>The refunds of the lines in cents, each within the value of its line, and their sum.\<close>

lemma return_lines_cents:
  assumes lines: "return_lines so (js_of_dec (so_sub_total so)) base d lines {} [] 0 = Inr (its, tot)"
    and st: "0 < so_sub_total so" "so_sub_total so \<le> dec_bound" and base: "0 \<le> base" "base \<le> js_of_dec (so_sub_total so)"
    and price: "\<forall>oi \<in> set (order_items d). 0 \<le> oi_price_at_purchase oi"
    and q: "\<forall>l \<in> set lines. 0 \<le> rl_quantity l" "length lines \<le> 1000"
    and total: "(\<Sum>l\<leftarrow>lines. item_value d so (rl_order_item_id l) (rl_quantity l)) \<le> dec_bound"
  obtains cents where "map (\<lambda>x. (fst x, fst (snd x))) its = map (\<lambda>l. (rl_order_item_id l, rl_quantity l)) lines"
    "\<forall>x \<in> set its. dec_of_js (snd (snd x)) = cents x \<and> 0 \<le> cents x \<and> cents x \<le> item_value d so (fst x) (fst (snd x))"
    "dec_of_js (round2 tot) = (\<Sum>x\<leftarrow>its. cents x)"
proof -
  from return_lines_ok [OF lines] have l: "map fst its = map rl_order_item_id lines"
    "map (\<lambda>x. fst (snd x)) its = map rl_quantity lines"
    "\<forall>(oid, q, amount) \<in> set its. \<exists>oi. find_row oi_id oid (items_of so d) = Some oi
       \<and> amount = refund_of_line (js_of_dec (oi_price_at_purchase oi)) (js_of_dec (so_sub_total so)) base q"
    "tot = foldl js_add 0 (map (\<lambda>x. snd (snd x)) its)"
    by fastforce+
  let ?v = "\<lambda>x. item_value d so (fst x) (fst (snd x))"
  have lv: "map (\<lambda>x. (fst x, fst (snd x))) its = map (\<lambda>l. (rl_order_item_id l, rl_quantity l)) lines"
    using l(1,2) by (auto simp: list_eq_iff_nth_eq)
  have vals: "map ?v its = map (\<lambda>l. item_value d so (rl_order_item_id l) (rl_quantity l)) lines"
    using arg_cong [OF lv, of "map (\<lambda>(k, q). item_value d so k q)"] by (simp add: comp_def)
  have item: "\<exists>oi. find_row oi_id (fst x) (items_of so d) = Some oi \<and> 0 \<le> oi_price_at_purchase oi \<and> 0 \<le> fst (snd x)
      \<and> snd (snd x) = refund_of_line (js_of_dec (oi_price_at_purchase oi)) (js_of_dec (so_sub_total so)) base (fst (snd x))"
    if "x \<in> set its" for x
  proof -
    from l(3) that obtain oi where oi: "find_row oi_id (fst x) (items_of so d) = Some oi"
      "snd (snd x) = refund_of_line (js_of_dec (oi_price_at_purchase oi)) (js_of_dec (so_sub_total so)) base (fst (snd x))" by fastforce
    have "oi \<in> set (order_items d)" using find_row_SomeD [OF oi(1)] by (simp add: items_of_def)
    moreover have "fst (snd x) \<in> set (map (\<lambda>x. fst (snd x)) its)" using that by force
    then have "0 \<le> fst (snd x)" unfolding l(2) using q(1) by auto
    ultimately show ?thesis using oi price by blast
  qed
  have v0: "0 \<le> ?v x" if "x \<in> set its" for x
    using item [OF that] by (auto simp: item_value_def)
  have le: "?v x \<le> dec_bound" if "x \<in> set its" for x
  proof -
    have "?v x \<le> sum_list (map ?v its)" using that v0 by (intro member_le_sum_list) auto
    then show ?thesis using total unfolding vals by simp
  qed
  have "\<exists>k. snd (snd x) = js_of_dec k \<and> 0 \<le> k \<and> k \<le> ?v x" if x: "x \<in> set its" for x
  proof -
    from item [OF x] obtain oi where oi: "find_row oi_id (fst x) (items_of so d) = Some oi" "0 \<le> oi_price_at_purchase oi" "0 \<le> fst (snd x)"
      "snd (snd x) = refund_of_line (js_of_dec (oi_price_at_purchase oi)) (js_of_dec (so_sub_total so)) base (fst (snd x))" by blast
    show ?thesis
      unfolding oi(4) item_value_def oi(1) option.case
      using oi(2,3) le [OF x] st base by (intro refund_le) (simp_all add: item_value_def oi(1))
  qed
  then obtain cents where cents: "\<forall>x \<in> set its. snd (snd x) = js_of_dec (cents x) \<and> 0 \<le> cents x \<and> cents x \<le> ?v x" by metis
  have sum: "(\<Sum>x\<leftarrow>its. cents x) \<le> dec_bound"
    using sum_list_mono [of its cents ?v] cents total unfolding vals by fastforce
  have "length its = length lines" using l(1) by (metis length_map)
  then have len: "length its \<le> 1000" using q(2) by simp
  have "rnear (1 + length its) (0 + (\<Sum>x\<leftarrow>its. cents x)) (foldl (\<lambda>acc x. js_add acc (snd (snd x))) 0 its)"
  proof (rule rnear_foldl)
    show "\<forall>x \<in> set its. rnear 1 (cents x) (snd (snd x))" using cents rnear_dec by metis
  qed (use len rnear_0 in auto)
  then have "round2 tot = js_of_dec (\<Sum>x\<leftarrow>its. cents x)"
    unfolding l(4) using len sum by (intro round2_rnear) (auto simp: foldl_map)
  moreover have "0 \<le> (\<Sum>x\<leftarrow>its. cents x)" using cents by (intro sum_list_nonneg) auto
  ultimately have "dec_of_js (round2 tot) = (\<Sum>x\<leftarrow>its. cents x)" using sum by simp
  moreover have "dec_of_js (snd (snd x)) = cents x" if "x \<in> set its" for x using cents that le [OF that] by fastforce
  ultimately show thesis using that [OF lv] cents by blast
qed


definition delivered_db :: db where
  "delivered_db = cod_db\<lparr>sub_orders := map (\<lambda>so. so\<lparr>so_status := Delivered, so_delivered_at := Some 2000\<rparr>) (sub_orders cod_db)\<rparr>"

lemma delivered_return:
  "\<exists>d' rsp. createReturn 1 \<lparr>rd_sub_order_id = 91, rd_reason = Damaged, rd_customer_note = ''x'',
       rd_items = [\<lparr>rl_order_item_id = 94, rl_quantity = 1\<rparr>]\<rparr> 3000 delivered_db = Inr (d', rsp)"
proof -
  let ?dto = "\<lparr>rd_sub_order_id = 91, rd_reason = Damaged, rd_customer_note = ''x'', rd_items = [\<lparr>rl_order_item_id = 94, rl_quantity = 1\<rparr>]\<rparr>"
  let ?so = "sub_orders delivered_db ! 0" and ?ord = "orders delivered_db ! 0"
  have so: "find_row so_id 91 (sub_orders delivered_db) = Some ?so" "so_sub_total ?so = 20000000" "so_order_id ?so = Some 90"
      "so_status ?so = Delivered" "so_delivered_at ?so = Some 2000"
    and ord: "find_row o_id 90 (orders delivered_db) = Some ?ord" "o_customer_id ?ord = Some 1"
    and oi: "find_row oi_id 94 (items_of ?so delivered_db) = Some (order_items delivered_db ! 0)" "oi_quantity (order_items delivered_db ! 0) = 2"
    by (simp_all add: delivered_db_def cod_db_def find_row_Cons items_of_def)
  have act: "\<not> has_active_return 91 delivered_db" and rec: "received_of k delivered_db = 0" for k
    by (simp_all add: has_active_return_def received_of_def delivered_db_def cod_db_def demo_db_def empty_db_def)
  have pos: "\<not> js_of_dec 20000000 \<le> 0"
    using js_of_dec_le_iff [of 20000000 0] by (simp add: dec_bound_def)
  obtain its tot where l: "return_lines ?so (js_of_dec (so_sub_total ?so)) (refundable_base ?so ?ord delivered_db) delivered_db (rd_items ?dto) {} [] 0
      = Inr (its, tot)"
    by (simp add: oi rec Let_def)
  have "\<exists>d' rsp. finish_return 1 ?dto ?so ?ord its tot 3000 delivered_db = Inr (d', rsp)"
    by (simp add: finish_return_def Let_def getReturnDetail_def save_return_def return_row_def find_row_append find_row_Cons
        delivered_db_def cod_db_def demo_db_def empty_db_def)
  then show ?thesis
    using so(1,3-5) ord act pos l
    by (simp add: createReturn_def lockAndLoadSubOrderForReturn_def so(2) find_opt_def return_window_days_def Let_def)
qed


end
