(* ===== verification/ReturnHistory.thy ===== *)
theory ReturnHistory
  imports Returns
begin

text \<open>
  Histories of orders and returns. An item never comes back more often than it was bought, and the
  goods that came back are on the shelf again.
\<close>

subsection \<open>What is asked back and what came back\<close>

definition request_status :: "db \<Rightarrow> return_item \<Rightarrow> return_status option" where
  "request_status d ri = map_option rr_status (find_row rr_id (ri_return_request_id ri) (return_requests d))"

text \<open>The quantity of an order item in requests that are open or done, as opposed to refused ones.\<close>

definition held_of :: "uuid \<Rightarrow> db \<Rightarrow> int" where
  "held_of oid d = (\<Sum>ri\<leftarrow>return_items d.
     if ri_order_item_id ri = oid \<and> request_status d ri \<in> Some ` {Requested, Approved, Received} then ri_quantity ri else 0)"

lemma received_sum:
  "received_of oid d = (\<Sum>ri\<leftarrow>return_items d.
     if ri_order_item_id ri = oid \<and> request_status d ri = Some Received then ri_quantity ri else 0)"
  by (simp add: received_of_def is_received_def request_status_def sum_filter_if)

text \<open>The product a return item brings back, and how much of a product came back.\<close>

definition returned_product :: "db \<Rightarrow> return_item \<Rightarrow> uuid option" where
  "returned_product d ri = Option.bind (find_row oi_id (ri_order_item_id ri) (order_items d)) oi_product_id"

definition came_back :: "db \<Rightarrow> uuid \<Rightarrow> int" where
  "came_back d k = (\<Sum>ri\<leftarrow>return_items d.
     if returned_product d ri = Some k \<and> request_status d ri = Some Received then ri_quantity ri else 0)"

definition return_ok :: "db \<Rightarrow> bool" where
  "return_ok d \<longleftrightarrow>
     unique_keys rr_id (return_requests d) \<and> (\<forall>r \<in> set (return_requests d). rr_id r < next_uuid d)
   \<and> unique_keys oi_id (order_items d) \<and> (\<forall>oi \<in> set (order_items d). oi_id oi < next_uuid d)
   \<and> (\<forall>ri \<in> set (return_items d). 0 \<le> ri_quantity ri
        \<and> (\<exists>r \<in> set (return_requests d). \<exists>oi \<in> set (order_items d).
             rr_id r = ri_return_request_id ri \<and> oi_id oi = ri_order_item_id ri \<and> oi_sub_order_id oi = rr_sub_order_id r))
   \<and> (\<forall>r \<in> set (return_requests d). \<exists>so \<in> set (sub_orders d).
        so_id so = rr_sub_order_id r \<and> so_status so \<in> {Delivered, Returned})
   \<and> (\<forall>oi \<in> set (order_items d). held_of (oi_id oi) d \<le> max 0 (oi_quantity oi))"

lemma return_okD:
  assumes "return_ok d"
  shows "unique_keys rr_id (return_requests d)" "\<forall>r \<in> set (return_requests d). rr_id r < next_uuid d"
    "unique_keys oi_id (order_items d)" "\<forall>oi \<in> set (order_items d). oi_id oi < next_uuid d"
    "\<forall>ri \<in> set (return_items d). 0 \<le> ri_quantity ri"
    "\<forall>ri \<in> set (return_items d). \<exists>r \<in> set (return_requests d). \<exists>oi \<in> set (order_items d).
       rr_id r = ri_return_request_id ri \<and> oi_id oi = ri_order_item_id ri \<and> oi_sub_order_id oi = rr_sub_order_id r"
    "\<forall>r \<in> set (return_requests d). \<exists>so \<in> set (sub_orders d). so_id so = rr_sub_order_id r \<and> so_status so \<in> {Delivered, Returned}"
    "\<forall>oi \<in> set (order_items d). held_of (oi_id oi) d \<le> max 0 (oi_quantity oi)"
  using assms unfolding return_ok_def by simp_all

lemma sum_list_le_pointwise:
  fixes f g :: "'a \<Rightarrow> int"
  shows "(\<And>x. x \<in> set xs \<Longrightarrow> f x \<le> g x) \<Longrightarrow> sum_list (map f xs) \<le> sum_list (map g xs)"
  by (rule sum_list_mono)

lemma received_le_held:
  assumes "\<forall>ri \<in> set (return_items d). 0 \<le> ri_quantity ri"
  shows "received_of oid d \<le> held_of oid d"
  unfolding received_sum held_of_def using assms by (intro sum_list_mono) auto

text \<open>An item of the request table belongs to the sub-order of its request.\<close>

lemma request_statusD:
  assumes "return_ok d" "r \<in> set (return_requests d)" "ri_return_request_id ri = rr_id r"
  shows "request_status d ri = Some (rr_status r)"
  using find_row_in_set [OF return_okD(1) [OF assms(1)] assms(2)] assms(3) by (simp add: request_status_def)

lemma item_request:
  assumes "return_ok d" "ri \<in> set (return_items d)" "oi \<in> set (order_items d)" "ri_order_item_id ri = oi_id oi"
  obtains r where "r \<in> set (return_requests d)" "rr_id r = ri_return_request_id ri" "rr_sub_order_id r = oi_sub_order_id oi"
    "request_status d ri = Some (rr_status r)"
proof -
  from return_okD(6) [OF assms(1)] assms(2) obtain r oi' where r: "r \<in> set (return_requests d)" "oi' \<in> set (order_items d)"
    "rr_id r = ri_return_request_id ri" "oi_id oi' = ri_order_item_id ri" "oi_sub_order_id oi' = rr_sub_order_id r" by blast
  have "oi' = oi" using return_okD(3) [OF assms(1)] r(2,4) assms(3,4) unfolding unique_keys_def distinct_map by (metis inj_onD)
  with r request_statusD [OF assms(1) r(1), of ri] that show thesis by simp
qed

lemma held_is_received:
  assumes "return_ok d" "\<not> has_active_return (oi_sub_order_id oi) d" "oi \<in> set (order_items d)"
  shows "held_of (oi_id oi) d = received_of (oi_id oi) d"
proof -
  have "request_status d ri \<notin> Some ` {Requested, Approved}" if ri: "ri \<in> set (return_items d)" "ri_order_item_id ri = oi_id oi" for ri
  proof -
    obtain r where "r \<in> set (return_requests d)" "rr_sub_order_id r = oi_sub_order_id oi" "request_status d ri = Some (rr_status r)"
      by (rule item_request [OF assms(1) ri(1) assms(3) ri(2)])
    moreover have "filter (\<lambda>r. rr_sub_order_id r = oi_sub_order_id oi \<and> rr_status r \<in> set active_return_statuses) (return_requests d) = []"
      using assms(2) unfolding has_active_return_def by simp
    ultimately show ?thesis by (auto simp: filter_empty_conv active_return_statuses_def)
  qed
  then show ?thesis unfolding held_of_def received_sum by (intro arg_cong [where f = sum_list] map_cong) auto
qed

subsection \<open>Orders leave the returns alone\<close>

lemma ordered_ok:
  assumes "order_step calc d d'" "keys_ok d" "return_ok d" "return_requests d' = return_requests d" "return_items d' = return_items d"
  shows "return_ok d'" and "came_back d' k = came_back d k"
proof -
  note ok = return_okD [OF assms(3)]
  obtain its where its: "order_items d' = order_items d @ its" "distinct (map oi_id its)"
    "\<forall>oi \<in> set its. next_uuid d < oi_id oi \<and> oi_id oi < next_uuid d'" "next_uuid d \<le> next_uuid d'"
    using order_step_items [OF assms(1,2)] by (elim exE conjE) (rule that)
  have st: "request_status d' = request_status d" by (simp add: request_status_def assms(4) fun_eq_iff)
  then have held: "held_of oid d' = held_of oid d" for oid by (simp add: held_of_def assms(5))
  have new0: "held_of (oi_id oi) d = 0" if "oi \<in> set its" for oi
  proof -
    have "ri_order_item_id ri \<noteq> oi_id oi" if "ri \<in> set (return_items d)" for ri
      using ok(4,6) its(3) \<open>oi \<in> set its\<close> that by fastforce
    then have "held_of (oi_id oi) d = (\<Sum>ri\<leftarrow>return_items d. 0)"
      unfolding held_of_def by (intro arg_cong [where f = sum_list] map_cong) auto
    then show ?thesis by simp
  qed
  have subs: "\<exists>so \<in> set (sub_orders d'). so_id so = k \<and> so_status so \<in> {Delivered, Returned}"
    if so: "so \<in> set (sub_orders d)" "so_id so = k" "so_status so \<in> {Delivered, Returned}" for so k
  proof -
    have "find_row so_id k (sub_orders d) = Some so" using find_row_in_set [OF keys_okD(4) [OF assms(2)] so(1)] so(2) by simp
    from order_step_edges [OF assms(1,2) this] obtain so' where so': "find_row so_id k (sub_orders d') = Some so'"
      "(so_status so, so_status so') \<in> sub_order_edges\<^sup>=" by blast
    then have "so_status so' = so_status so" using so(3) by (auto simp: sub_order_edges_def)
    with so' so(3) show ?thesis by (auto dest: find_row_SomeD)
  qed
  have u: "unique_keys oi_id (order_items d')"
    using ok(3,4) its by (fastforce simp: unique_keys_def)
  show "return_ok d'"
    unfolding return_ok_def assms(4,5)
  proof (intro conjI ballI)
    fix r assume "r \<in> set (return_requests d)"
    then show "rr_id r < next_uuid d'" "\<exists>so \<in> set (sub_orders d'). so_id so = rr_sub_order_id r \<and> so_status so \<in> {Delivered, Returned}"
      using ok(2,7) its(4) subs by (force, blast)
  next
    fix oi assume oi: "oi \<in> set (order_items d')"
    then show "oi_id oi < next_uuid d'" using ok(4) its by fastforce
    show "held_of (oi_id oi) d' \<le> max 0 (oi_quantity oi)" using oi ok(8) new0 its(1) by (auto simp: held)
  next
    fix ri assume "ri \<in> set (return_items d)"
    with ok(6) obtain r oi where "r \<in> set (return_requests d)" "oi \<in> set (order_items d)" "rr_id r = ri_return_request_id ri"
      "oi_id oi = ri_order_item_id ri" "oi_sub_order_id oi = rr_sub_order_id r" by blast
    then show "\<exists>r \<in> set (return_requests d). \<exists>oi \<in> set (order_items d').
        rr_id r = ri_return_request_id ri \<and> oi_id oi = ri_order_item_id ri \<and> oi_sub_order_id oi = rr_sub_order_id r"
      unfolding its(1) by (intro bexI [of _ r] bexI [of _ oi]) auto
  qed (use ok u in auto)
  have "returned_product d' ri = returned_product d ri" if "ri \<in> set (return_items d)" for ri
  proof -
    from ok(6) that obtain oi where "oi \<in> set (order_items d)" "oi_id oi = ri_order_item_id ri" by blast
    then have "find_row oi_id (ri_order_item_id ri) (order_items d) \<noteq> None"
      unfolding find_row_None_iff by (metis image_eqI)
    then show ?thesis by (auto simp: returned_product_def its(1) find_row_append)
  qed
  then show "came_back d' k = came_back d k"
    unfolding came_back_def st assms(5) by (intro arg_cong [where f = sum_list] map_cong) auto
qed


subsection \<open>A request changes its status\<close>

lemma request_change_status:
  assumes "request_change r r' d d'"
  shows "request_status d' ri = (if ri_return_request_id ri = rr_id r then Some (rr_status r') else request_status d ri)"
    "ri_return_request_id ri = rr_id r \<Longrightarrow> request_status d ri = Some (rr_status r)"
  using assms by (auto simp: request_change_def request_status_def find_row_save)

lemma request_change_ok:
  assumes "request_change r r' d d'" "return_ok d"
    and "rr_status r' \<in> {Requested, Approved, Received} \<longrightarrow> rr_status r \<in> {Requested, Approved, Received}"
    and "\<forall>so \<in> set (sub_orders d). \<exists>so' \<in> set (sub_orders d'). so_id so' = so_id so
      \<and> (so_status so' = so_status so \<or> so_status so' = Returned)"
  shows "return_ok d'"
proof -
  note ok = return_okD [OF assms(2)]
  have c: "find_row rr_id (rr_id r) (return_requests d) = Some r" "rr_id r' = rr_id r" "rr_sub_order_id r' = rr_sub_order_id r"
    "return_requests d' = save_row rr_id r' (return_requests d)" "return_items d' = return_items d"
    "order_items d' = order_items d" "next_uuid d' = next_uuid d"
    using assms(1) by (simp_all add: request_change_def)
  have r: "r \<in> set (return_requests d)" using find_row_SomeD [OF c(1)] by blast
  have mem: "x \<in> set (return_requests d') \<longleftrightarrow> x = r' \<or> x \<in> set (return_requests d) \<and> rr_id x \<noteq> rr_id r" for x
    unfolding c(4) in_set_save_row [OF ok(1)] c(2) ..
  have held: "held_of oid d' \<le> held_of oid d" for oid
    unfolding held_of_def c(5)
  proof (intro sum_list_mono)
    fix ri assume "ri \<in> set (return_items d)"
    then have "0 \<le> ri_quantity ri" using ok(5) by blast
    then show "(if ri_order_item_id ri = oid \<and> request_status d' ri \<in> Some ` {Requested, Approved, Received} then ri_quantity ri else 0)
        \<le> (if ri_order_item_id ri = oid \<and> request_status d ri \<in> Some ` {Requested, Approved, Received} then ri_quantity ri else 0)"
      using assms(3) request_change_status [OF assms(1), of ri] by auto
  qed
  have sub: "\<exists>so \<in> set (sub_orders d'). so_id so = rr_sub_order_id x \<and> so_status so \<in> {Delivered, Returned}"
    if "x \<in> set (return_requests d)" for x
  proof -
    from ok(7) that obtain so where so: "so \<in> set (sub_orders d)" "so_id so = rr_sub_order_id x" "so_status so \<in> {Delivered, Returned}"
      by blast
    with assms(4) obtain so' where "so' \<in> set (sub_orders d')" "so_id so' = so_id so"
      "so_status so' = so_status so \<or> so_status so' = Returned" by blast
    with so show ?thesis by (intro bexI [of _ so']) auto
  qed
  have items: "\<exists>x \<in> set (return_requests d'). \<exists>oi \<in> set (order_items d).
      rr_id x = ri_return_request_id ri \<and> oi_id oi = ri_order_item_id ri \<and> oi_sub_order_id oi = rr_sub_order_id x"
    if "ri \<in> set (return_items d)" for ri
  proof -
    from ok(6) that obtain x oi where x: "x \<in> set (return_requests d)" "oi \<in> set (order_items d)" "rr_id x = ri_return_request_id ri"
      "oi_id oi = ri_order_item_id ri" "oi_sub_order_id oi = rr_sub_order_id x" by blast
    have "x = r" if "rr_id x = rr_id r"
      using ok(1) x(1) r that unfolding unique_keys_def distinct_map by (blast dest: inj_onD)
    with x c(2,3) show ?thesis by (intro bexI [of _ "if rr_id x = rr_id r then r' else x"] bexI [of _ oi]) (auto simp: mem)
  qed
  show ?thesis
    unfolding return_ok_def c(5,6,7)
  proof (intro conjI ballI)
    show "unique_keys rr_id (return_requests d')" unfolding c(4) by (rule unique_keys_save [OF ok(1)])
    fix x assume x: "x \<in> set (return_requests d')"
    then show "rr_id x < next_uuid d" using ok(2) r c(2) by (auto simp: mem)
    show "\<exists>so \<in> set (sub_orders d'). so_id so = rr_sub_order_id x \<and> so_status so \<in> {Delivered, Returned}"
      using x sub r c(3) by (auto simp: mem)
  next
    fix oi assume "oi \<in> set (order_items d)"
    then show "held_of (oi_id oi) d' \<le> max 0 (oi_quantity oi)" using held [of "oi_id oi"] ok(8) by force
  qed (use ok items in auto)
qed

text \<open>What came back grows by the items of a request that becomes received.\<close>

lemma request_change_came_back:
  assumes "request_change r r' d d'" "rr_status r \<noteq> Received"
  shows "came_back d' k = came_back d k + (if rr_status r' = Received
    then \<Sum>ri\<leftarrow>items_of_return (rr_id r) d. if returned_product d ri = Some k then ri_quantity ri else 0 else 0)"
proof -
  have c: "return_items d' = return_items d" "order_items d' = order_items d" using assms(1) by (simp_all add: request_change_def)
  have p: "returned_product d' = returned_product d" by (simp add: returned_product_def c(2) fun_eq_iff)
  have "came_back d' k = (\<Sum>ri\<leftarrow>return_items d.
      (if returned_product d ri = Some k \<and> request_status d ri = Some Received then ri_quantity ri else 0)
    + (if ri_return_request_id ri = rr_id r
       then (if rr_status r' = Received \<and> returned_product d ri = Some k then ri_quantity ri else 0) else 0))"
    unfolding came_back_def c(1) p
    using request_change_status [OF assms(1)] assms(2) by (intro arg_cong [where f = sum_list] map_cong refl) auto
  then show ?thesis
    by (simp add: sum_list_addf came_back_def items_of_return_def sum_filter_if cong: if_cong)
qed

lemma requested_return_targets:
  assumes "k \<in> p_id ` set (products d)"
  shows "requested_product (return_targets r d) k
       = (\<Sum>ri\<leftarrow>items_of_return (rr_id r) d. if returned_product d ri = Some k then ri_quantity ri else 0)"
proof -
  have k: "find_row p_id k (products d) \<noteq> None" using assms by (simp add: find_row_None_iff)
  have "requested_product (case find_row oi_id (ri_order_item_id ri) (order_items d) of None \<Rightarrow> []
        | Some oi \<Rightarrow> (case find_opt p_id (oi_product_id oi) (products d) of None \<Rightarrow> []
             | Some p \<Rightarrow> [\<lparr>si_product_id = p_id p, si_variant_id = map_option v_id (find_opt v_id (oi_variant_id oi) (variants d)),
                          si_quantity = ri_quantity ri\<rparr>])) k
      = (if returned_product d ri = Some k then ri_quantity ri else 0)" for ri
    using k by (auto simp: returned_product_def requested_product_def find_opt_def split: option.splits dest: find_row_SomeD)
  then show ?thesis by (simp add: return_targets_def requested_concat comp_def)
qed


subsection \<open>A request is created\<close>

lemma new_items:
  fixes rid :: uuid and n :: uuid
  defines "rows \<equiv> \<lambda>its. map2 (\<lambda>(oid, q, amount) k. \<lparr>ri_id = k, ri_return_request_id = rid, ri_order_item_id = oid,
      ri_quantity = q, ri_refund_amount = dec_of_js amount\<rparr>) its [n..<n + length its]"
  shows "set (map (\<lambda>ri. (ri_return_request_id ri, ri_order_item_id ri, ri_quantity ri)) (rows its)) = (\<lambda>(oid, q, amount). (rid, oid, q)) ` set its"
    "(\<Sum>ri\<leftarrow>rows its. if ri_order_item_id ri = oid then ri_quantity ri else 0) = (\<Sum>(k, q, amount)\<leftarrow>its. if k = oid then q else 0)"
proof -
  have "length ks = length its \<Longrightarrow>
      map (\<lambda>ri. (ri_return_request_id ri, ri_order_item_id ri, ri_quantity ri))
        (map2 (\<lambda>(oid, q, amount) k. \<lparr>ri_id = k, ri_return_request_id = rid, ri_order_item_id = oid,
           ri_quantity = q, ri_refund_amount = dec_of_js amount\<rparr>) its ks) = map (\<lambda>(oid, q, amount). (rid, oid, q)) its" for ks
    by (induction its ks rule: list_induct2') auto
  then have m: "map (\<lambda>ri. (ri_return_request_id ri, ri_order_item_id ri, ri_quantity ri)) (rows its) = map (\<lambda>(oid, q, amount). (rid, oid, q)) its"
    by (simp add: rows_def)
  from arg_cong [OF m, of set]
  show "set (map (\<lambda>ri. (ri_return_request_id ri, ri_order_item_id ri, ri_quantity ri)) (rows its)) = (\<lambda>(oid, q, amount). (rid, oid, q)) ` set its"
    by simp
  have "(\<Sum>ri\<leftarrow>rows its. if ri_order_item_id ri = oid then ri_quantity ri else 0)
      = sum_list (map (\<lambda>(r, k, q). if k = oid then q else 0) (map (\<lambda>ri. (ri_return_request_id ri, ri_order_item_id ri, ri_quantity ri)) (rows its)))"
    by (simp add: comp_def)
  then show "(\<Sum>ri\<leftarrow>rows its. if ri_order_item_id ri = oid then ri_quantity ri else 0) = (\<Sum>(k, q, amount)\<leftarrow>its. if k = oid then q else 0)"
    unfolding m by (simp only: map_map comp_def split_def fst_conv snd_conv)
qed

lemma sum_one_key:
  fixes its :: "('a \<times> int \<times> 'b) list"
  assumes "distinct (map fst its)"
  shows "(\<Sum>(k, q, x)\<leftarrow>its. if k = oid then q else 0) = (case map_of its oid of None \<Rightarrow> 0 | Some (q, x) \<Rightarrow> q)"
  using assms
proof (induction its)
  case (Cons i its)
  have "map_of its (fst i) = None" using Cons.prems by (simp add: map_of_eq_None_iff)
  then show ?case using Cons by (cases i) auto
qed simp

lemma created_return_ok:
  assumes "createReturn userId dto now d = Inr (d', rsp)" "return_ok d" "\<forall>l \<in> set (rd_items dto). 1 \<le> rl_quantity l"
  shows "return_ok d'" and "came_back d' k = came_back d k"
proof -
  note ok = return_okD [OF assms(2)]
  obtain so ord its tot r where c:
    "find_row so_id (rd_sub_order_id dto) (sub_orders d) = Some so"
    "so_status so = Delivered" "\<not> has_active_return (so_id so) d"
    "return_lines so (js_of_dec (so_sub_total so)) (refundable_base so ord d) d (rd_items dto) {} [] 0 = Inr (its, tot)"
    "rr_id r = next_uuid d" "rr_sub_order_id r = so_id so" "rr_status r = Requested"
    "return_requests d' = return_requests (save_return r its d)" "return_items d' = return_items (save_return r its d)"
    "next_uuid d' = next_uuid (save_return r its d)"
    "sub_orders d' = sub_orders d" "order_items d' = order_items d"
    by (rule create_cases [OF assms(1) ok(2)]) (rule that)
  define rows where "rows = map2 (\<lambda>(oid, q, amount) k. \<lparr>ri_id = k, ri_return_request_id = rr_id r, ri_order_item_id = oid,
      ri_quantity = q, ri_refund_amount = dec_of_js amount\<rparr>) its [Suc (rr_id r)..<Suc (rr_id r) + length its]"
  have d': "return_requests d' = return_requests d @ [r]" "return_items d' = return_items d @ rows"
    "next_uuid d' = Suc (next_uuid d) + length its"
    unfolding c(8,9,10) by (simp_all add: save_return_def rows_def c(5) del: upt_Suc)
  from return_lines_ok [OF c(4)] have l: "map fst its = map rl_order_item_id (rd_items dto)"
    "map (\<lambda>x. fst (snd x)) its = map rl_quantity (rd_items dto)" "distinct (map fst its)"
    "\<forall>(oid, q, amount) \<in> set its. \<exists>oi. find_row oi_id oid (items_of so d) = Some oi \<and> q \<le> oi_quantity oi - received_of oid d"
    by fastforce+
  have pos: "1 \<le> q" if "(oid, q, amount) \<in> set its" for oid q amount
  proof -
    have "q \<in> set (map (\<lambda>x. fst (snd x)) its)" using that by force
    then show ?thesis unfolding l(2) using assms(3) by auto
  qed
  note ni = new_items [where rid = "rr_id r" and n = "Suc (rr_id r)" and its = its, folded rows_def]
  have row: "\<exists>amount. (ri_order_item_id ri, ri_quantity ri, amount) \<in> set its \<and> ri_return_request_id ri = rr_id r" if "ri \<in> set rows" for ri
  proof -
    have "(ri_return_request_id ri, ri_order_item_id ri, ri_quantity ri) \<in> set (map (\<lambda>ri. (ri_return_request_id ri, ri_order_item_id ri, ri_quantity ri)) rows)"
      using that by (force simp del: set_map simp: set_map [of _ rows])
    then show ?thesis unfolding ni(1) by force
  qed
  have old_id: "rr_id x \<noteq> rr_id r" if "x \<in> set (return_requests d)" for x using ok(2) that c(5) by auto
  have old: "request_status d' ri = request_status d ri" if "ri \<in> set (return_items d)" for ri
    using ok(6) that old_id by (force simp: request_status_def d'(1) find_row_append find_row_None_iff split: option.split)
  have new: "request_status d' ri = Some Requested" if "ri \<in> set rows" for ri
  proof -
    have "find_row rr_id (rr_id r) (return_requests d) = None" unfolding find_row_None_iff by (metis old_id imageE)
    then show ?thesis using row [OF that] by (auto simp: request_status_def d'(1) find_row_append find_row_Cons c(7))
  qed
  have held: "held_of oid d' = held_of oid d + (case map_of its oid of None \<Rightarrow> 0 | Some (q, x) \<Rightarrow> q)" for oid
  proof -
    have "held_of oid d' = held_of oid d + (\<Sum>ri\<leftarrow>rows. if ri_order_item_id ri = oid then ri_quantity ri else 0)"
      unfolding held_of_def d'(2) map_append sum_list_append
      by (intro arg_cong2 [where f = "(+)"] arg_cong [where f = sum_list] map_cong) (simp_all add: old new)
    then show ?thesis by (simp add: ni(2) sum_one_key [OF l(3)])
  qed
  have so: "so \<in> set (sub_orders d)" using find_row_SomeD [OF c(1)] by blast
  have its_oi: "\<exists>oi \<in> set (order_items d). oi_id oi = oid \<and> oi_sub_order_id oi = so_id so \<and> q \<le> oi_quantity oi - received_of oid d"
    if "(oid, q, amount) \<in> set its" for oid q amount
    using l(4) that by (fastforce simp: items_of_def dest: find_row_SomeD)
  have bound: "held_of (oi_id oi) d' \<le> max 0 (oi_quantity oi)" if oi: "oi \<in> set (order_items d)" for oi
  proof (cases "map_of its (oi_id oi)")
    case None
    then show ?thesis using ok(8) oi by (simp add: held)
  next
    case (Some qx)
    then obtain q x where q: "map_of its (oi_id oi) = Some (q, x)" by (cases qx) auto
    from its_oi [OF map_of_SomeD [OF q]] obtain oi' where oi': "oi' \<in> set (order_items d)" "oi_id oi' = oi_id oi"
      "oi_sub_order_id oi' = so_id so" "q \<le> oi_quantity oi' - received_of (oi_id oi) d" by blast
    have e: "oi' = oi" using inj_onD [of oi_id "set (order_items d)" oi' oi] ok(3) oi' oi unfolding unique_keys_def distinct_map by blast
    have "held_of (oi_id oi) d = received_of (oi_id oi) d" using held_is_received [OF assms(2) _ oi] c(3) oi'(3) e by simp
    then show ?thesis using q oi' e by (simp add: held)
  qed
  have pr: "returned_product d' = returned_product d" by (simp add: returned_product_def c(12) fun_eq_iff)
  show "return_ok d'"
    unfolding return_ok_def c(11,12)
  proof (intro conjI ballI)
    show "unique_keys rr_id (return_requests d')" using ok(1) old_id by (fastforce simp: d'(1) unique_keys_def)
    fix x assume x: "x \<in> set (return_requests d')"
    then show "rr_id x < next_uuid d'" using ok(2) c(5) by (force simp: d'(1,3))
    show "\<exists>so \<in> set (sub_orders d). so_id so = rr_sub_order_id x \<and> so_status so \<in> {Delivered, Returned}"
      using x ok(7) so c(2,6) by (auto simp: d'(1))
  next
    fix oi assume "oi \<in> set (order_items d)"
    then show "oi_id oi < next_uuid d'" using ok(4) by (force simp: d'(3))
  next
    fix ri assume ri: "ri \<in> set (return_items d')"
    then show "0 \<le> ri_quantity ri" using ok(5) row pos by (fastforce simp: d'(2))
    show "\<exists>x \<in> set (return_requests d'). \<exists>oi \<in> set (order_items d).
        rr_id x = ri_return_request_id ri \<and> oi_id oi = ri_order_item_id ri \<and> oi_sub_order_id oi = rr_sub_order_id x"
    proof (cases "ri \<in> set rows")
      case True
      from row [OF this] obtain amount where a: "(ri_order_item_id ri, ri_quantity ri, amount) \<in> set its"
        "ri_return_request_id ri = rr_id r" by blast
      from its_oi [OF a(1)] obtain oi where "oi \<in> set (order_items d)" "oi_id oi = ri_order_item_id ri" "oi_sub_order_id oi = so_id so"
        by blast
      with a c(6) show ?thesis by (intro bexI [of _ r] bexI [of _ oi]) (auto simp: d'(1))
    next
      case False
      then obtain x oi where "x \<in> set (return_requests d)" "oi \<in> set (order_items d)" "rr_id x = ri_return_request_id ri"
        "oi_id oi = ri_order_item_id ri" "oi_sub_order_id oi = rr_sub_order_id x" using ri ok(6) by (auto simp: d'(2))
      then show ?thesis by (intro bexI [of _ x] bexI [of _ oi]) (auto simp: d'(1))
    qed
  qed (use ok bound in auto)
  have "came_back d' k = came_back d k + (\<Sum>ri\<leftarrow>rows. 0)"
    unfolding came_back_def d'(2) map_append sum_list_append pr
    by (intro arg_cong2 [where f = "(+)"] arg_cong [where f = sum_list] map_cong) (simp_all add: old new)
  then show "came_back d' k = came_back d k" by simp
qed


subsection \<open>Histories\<close>

inductive return_step :: "calculator \<Rightarrow> db \<Rightarrow> db \<Rightarrow> bool" for calc where
  created: "createReturn userId dto now d = Inr (d', rsp) \<Longrightarrow> \<forall>l \<in> set (rd_items dto). 1 \<le> rl_quantity l \<Longrightarrow> return_step calc d d'"
| cancelled: "cancelReturn userId k now d = Inr (d', x) \<Longrightarrow> return_step calc d d'"
| approved: "approveReturn sellerId k now d = Inr (d', rsp) \<Longrightarrow> return_step calc d d'"
| rejected: "rejectReturn sellerId k msg now d = Inr (d', rsp) \<Longrightarrow> return_step calc d d'"
| received: "receiveReturn sellerId k now d = Inr (d', rsp) \<Longrightarrow> return_step calc d d'"
| ordered: "order_step calc d d' \<Longrightarrow> return_requests d' = return_requests d \<Longrightarrow> return_items d' = return_items d \<Longrightarrow>
     return_step calc d d'"

lemma keys_ok_frame:
  assumes "keys_ok d" "map p_id (products d') = map p_id (products d)" "map v_id (variants d') = map v_id (variants d)"
    and "orders d' = orders d" "payments d' = payments d" "order_items d' = order_items d" "next_uuid d \<le> next_uuid d'"
    and "map (\<lambda>s. (so_id s, so_order_id s)) (sub_orders d') = map (\<lambda>s. (so_id s, so_order_id s)) (sub_orders d)"
  shows "keys_ok d'"
proof -
  note k = keys_okD [OF assms(1)]
  have "map so_id (sub_orders d') = map so_id (sub_orders d)" 
    using arg_cong [OF assms(8), of "map fst"] by (simp add: comp_def)
  moreover have "\<forall>x \<in> set (map (\<lambda>s. (so_id s, so_order_id s)) (sub_orders d')). fst x < next_uuid d' \<and> (\<forall>l. snd x = Some l \<longrightarrow> l < next_uuid d')"
    unfolding assms(8) using k(7) assms(7) by (auto simp: ids_fresh_def intro: less_le_trans)
  then have "ids_fresh d'" using k(7) assms(4-7) by (auto simp: ids_fresh_def intro: less_le_trans)
  ultimately show ?thesis using k assms(2-5) by (simp add: keys_ok_def unique_keys_def)
qed

lemma shelf_same:
  assumes "products d' = products d" "sub_orders d' = sub_orders d" "order_items d' = order_items d"
  shows "on_shelf d' k = on_shelf d k" "sold d' k = sold d k" "live d' sid = live d sid"
  using assms by (simp_all add: on_shelf_def sold_def live_def)

text \<open>The product k is on the shelf or sold as often as before, but for what came back.\<close>

definition conserves :: "uuid \<Rightarrow> db \<Rightarrow> db \<Rightarrow> bool" where
  "conserves k d d' \<longleftrightarrow> k \<in> p_id ` set (products d) \<longrightarrow>
     k \<in> p_id ` set (products d') \<and> on_shelf d' k + sold d' k - came_back d' k = on_shelf d k + sold d k - came_back d k"

lemma received_ok:
  assumes "receiveReturn sellerId j now d = Inr (d', x)" "keys_ok d" "return_ok d"
  shows "keys_ok d' \<and> return_ok d' \<and> conserves k d d'"
proof -
  note kk = keys_okD [OF assms(2)] and ok = return_okD [OF assms(3)]
  obtain r r' where c: "request_change r r' d d'" "rr_status r = Approved" "rr_status r' = Received"
    "products d' = map (move_product 1 (return_targets r d)) (products d)"
    "variants d' = map (move_variant 1 (return_targets r d)) (variants d)"
    "sub_orders d' = (if complete (rr_sub_order_id r) d'
       then update_row so_id (rr_sub_order_id r) (\<lambda>so. so\<lparr>so_status := Returned\<rparr>) (sub_orders d) else sub_orders d)"
    by (rule receive_cases [OF assms(1) kk(1,2)]) (rule that)
  then have c6: "sub_orders d' = sub_orders d \<or> sub_orders d' = update_row so_id (rr_sub_order_id r) (\<lambda>so. so\<lparr>so_status := Returned\<rparr>) (sub_orders d)"
    by presburger
  have f: "orders d' = orders d" "payments d' = payments d" "order_items d' = order_items d" "next_uuid d' = next_uuid d"
    "find_row rr_id (rr_id r) (return_requests d) = Some r"
    using c(1) by (simp_all add: request_change_def)
  have subs: "map (\<lambda>s. (so_id s, so_order_id s)) (sub_orders d') = map (\<lambda>s. (so_id s, so_order_id s)) (sub_orders d)"
    using c6 by (auto simp: update_row_def)
  have "keys_ok d'" by (rule keys_ok_frame [OF assms(2) _ _ f(1-3) _ subs]) (simp_all add: c(4,5) comp_def f(4))
  moreover have kept: "\<forall>so \<in> set (sub_orders d). \<exists>so' \<in> set (sub_orders d'). so_id so' = so_id so
      \<and> (so_status so' = so_status so \<or> so_status so' = Returned)"
  proof
    fix so assume "so \<in> set (sub_orders d)"
    then show "\<exists>so' \<in> set (sub_orders d'). so_id so' = so_id so \<and> (so_status so' = so_status so \<or> so_status so' = Returned)"
      using c6 unfolding update_row_def
      by (intro bexI [of _ "if sub_orders d' = sub_orders d \<or> so_id so \<noteq> rr_sub_order_id r then so else so\<lparr>so_status := Returned\<rparr>"])
        auto
  qed
  then have "return_ok d'" by (intro request_change_ok [OF c(1) assms(3)]) (auto simp: c(2))
  moreover have "live d' sid = live d sid" for sid
  proof -
    from ok(7) find_row_SomeD [OF f(5)] obtain so where so: "so \<in> set (sub_orders d)" "so_id so = rr_sub_order_id r"
      "so_status so \<in> {Delivered, Returned}" by blast
    show ?thesis
    proof (cases "sid = rr_sub_order_id r")
      case True
      have "live d sid" using so True by (auto simp: live_def)
      moreover obtain so' where "so' \<in> set (sub_orders d')" "so_id so' = so_id so" "so_status so' = so_status so \<or> so_status so' = Returned"
        using kept so(1) by blast
      then have "live d' sid" using so True by (auto simp: live_def)
      ultimately show ?thesis by simp
    next
      case False
      then show ?thesis using c6 by (auto simp: live_def update_row_def)
    qed
  qed
  then have "sold d' k = sold d k" by (simp add: sold_def f(3))
  then have "conserves k d d'"
    using on_shelf_move [OF c(4), of k] request_change_came_back [OF c(1), of k] requested_return_targets [of k d r] c(2,3)
    by (auto simp: conserves_def c(4) image_image)
  ultimately show ?thesis by simp
qed

lemma return_step_ok:
  assumes "return_step calc d d'" "keys_ok d" "return_ok d"
  shows "keys_ok d' \<and> return_ok d' \<and> conserves k d d'"
proof -
  have quiet: ?thesis if "return_ok d'" "came_back d' k = came_back d k" "products d' = products d" "variants d' = variants d"
      "sub_orders d' = sub_orders d" "order_items d' = order_items d" "orders d' = orders d" "payments d' = payments d"
      "next_uuid d \<le> next_uuid d'"
    using that shelf_same [OF that(3,5,6), of k] keys_ok_frame [OF assms(2) _ _ that(7,8,6,9)] by (simp add: conserves_def)
  have change: ?thesis if "request_change r r' d d'" "rr_status r \<in> {Requested, Approved}" "rr_status r' \<noteq> Received"
      "sub_orders d' = sub_orders d" "products d' = products d" "variants d' = variants d" for r r'
  proof (rule quiet)
    show "return_ok d'" by (rule request_change_ok [OF that(1) assms(3)]) (use that in auto)
    show "came_back d' k = came_back d k" using request_change_came_back [OF that(1), of k] that(2,3) by auto
  qed (use that in \<open>simp_all add: request_change_def\<close>)
  have resolve: ?thesis if "sellerResolve sellerId j st msg now d = Inr (d', x)" "st \<noteq> Received" for sellerId j st msg now x
  proof (rule resolve_return_cases [OF that(1)])
    fix r r' assume r: "request_change r r' d d'" "st \<in> set (return_state_machine (rr_status r))" "rr_status r' = st"
      "sub_orders d' = sub_orders d" "products d' = products d" "variants d' = variants d"
    have "rr_status r \<in> {Requested, Approved}" using r(2) by (cases "rr_status r") auto
    then show ?thesis using that(2) r by (intro change [of r r']) simp_all
  qed
  show ?thesis
    using assms(1)
  proof (cases rule: return_step.cases)
    case (created userId dto now rsp)
    note ok = created_return_ok [OF created(1) assms(3) created(2)]
    show ?thesis
      by (rule create_cases [OF created(1) return_okD(2) [OF assms(3)]])
        (intro quiet ok, simp_all add: save_return_def)
  next
    case (cancelled userId j now x)
    show ?thesis by (rule cancel_return_cases [OF cancelled]) (rule change, assumption, simp_all)
  next
    case (approved sellerId j now rsp)
    then show ?thesis by (intro resolve [of sellerId j Approved None now rsp]) (simp_all add: approveReturn_def)
  next
    case (rejected sellerId j msg now rsp)
    then show ?thesis by (intro resolve [of sellerId j ReturnRejected "Some msg" now rsp]) (simp_all add: rejectReturn_def)
  next
    case (received sellerId j now rsp)
    then show ?thesis using received_ok assms(2,3) by blast
  next
    case ordered
    from ordered_ok [OF ordered(1) assms(2,3) ordered(2,3)] order_step_conserves [OF ordered(1) assms(2)]
      order_step_keys_books [OF ordered(1) assms(2)]
    show ?thesis by (simp add: conserves_def)
  qed
qed

lemma return_steps_ok:
  assumes "(return_step calc)\<^sup>*\<^sup>* d d'" "keys_ok d" "return_ok d"
  shows "keys_ok d' \<and> return_ok d' \<and> conserves k d d'"
  using assms(1)
proof (induction rule: rtranclp_induct)
  case (step d' d'')
  then show ?case using return_step_ok [OF step(2), of k] by (simp add: conserves_def)
qed (use assms in \<open>simp add: conserves_def\<close>)


subsection \<open>When everything came back\<close>

lemma received_lookup:
  assumes "return_ok d" "oi \<in> set (order_items d)" "oi_sub_order_id oi = sid"
  shows "(case map_of (sumReceivedByOrderItem sid d) (oi_id oi) of None \<Rightarrow> 0 | Some q \<Rightarrow> q) = received_of (oi_id oi) d"
proof -
  let ?P = "\<lambda>ri. \<exists>r \<in> set (return_requests d). rr_id r = ri_return_request_id ri
      \<and> rr_sub_order_id r = oi_sub_order_id oi \<and> rr_status r = Received"
  define rows where "rows = filter ?P (return_items d)"
  have P: "?P ri \<longleftrightarrow> is_received d ri" if ri: "ri \<in> set (return_items d)" "ri_order_item_id ri = oi_id oi" for ri
  proof -
    obtain r where r: "r \<in> set (return_requests d)" "rr_id r = ri_return_request_id ri" "rr_sub_order_id r = oi_sub_order_id oi"
      "request_status d ri = Some (rr_status r)" by (rule item_request [OF assms(1) ri(1) assms(2) ri(2)])
    have "x = r" if "x \<in> set (return_requests d)" "rr_id x = ri_return_request_id ri" for x
      using return_okD(1) [OF assms(1)] r(1,2) that unfolding unique_keys_def distinct_map by (metis inj_onD)
    then have "?P ri \<longleftrightarrow> rr_status r = Received" using r(1-3) by metis
    moreover have "is_received d ri \<longleftrightarrow> rr_status r = Received"
      using r(4) unfolding is_received_def request_status_def by (simp only: option.inject)
    ultimately show ?thesis by simp
  qed
  have "filter (\<lambda>ri. ri_order_item_id ri = oi_id oi \<and> is_received d ri) (return_items d)
      = filter (\<lambda>ri. ri_order_item_id ri = oi_id oi) rows"
    unfolding rows_def filter_filter by (rule filter_cong [OF refl]) (use P in blast)
  then have "received_of (oi_id oi) d = (\<Sum>ri\<leftarrow>filter (\<lambda>ri. ri_order_item_id ri = oi_id oi) rows. ri_quantity ri)"
    by (simp add: received_of_def)
  moreover have "map_of (map (\<lambda>(oid, ris). (oid, \<Sum>ri\<leftarrow>ris. ri_quantity ri)) (group_by ri_order_item_id rows)) (oi_id oi)
      = map_option (\<lambda>ris. \<Sum>ri\<leftarrow>ris. ri_quantity ri) (map_of (group_by ri_order_item_id rows) (oi_id oi))"
    by (simp add: map_of_map)
  moreover have "filter (\<lambda>ri. ri_order_item_id ri = oi_id oi) rows
      = (case map_of (group_by ri_order_item_id rows) (oi_id oi) of None \<Rightarrow> [] | Some ris \<Rightarrow> ris)"
  proof (cases "map_of (group_by ri_order_item_id rows) (oi_id oi)")
    case None
    then have "oi_id oi \<notin> ri_order_item_id ` set rows"
      unfolding keys_group_by [symmetric] by (simp add: map_of_eq_None_iff)
    then show ?thesis using None by (simp add: filter_empty_conv) (metis imageI)
  next
    case (Some ris)
    then show ?thesis using group_by_members [OF map_of_SomeD] by fastforce
  qed
  ultimately show ?thesis
    by (auto simp: sumReceivedByOrderItem_def assms(3) [symmetric] rows_def [symmetric] split: option.split)
qed

lemma complete_received:
  assumes "return_ok d"
  shows "complete sid d \<longleftrightarrow> (\<exists>oi \<in> set (order_items d). oi_sub_order_id oi = sid)
    \<and> (\<forall>oi \<in> set (order_items d). oi_sub_order_id oi = sid \<longrightarrow> oi_quantity oi \<le> received_of (oi_id oi) d)"
  by (auto simp: complete_def Let_def list_all_iff filter_empty_conv received_lookup [OF assms _ refl]
      received_lookup [OF assms])

lemma received_mono:
  assumes "request_change r r' d d'" "rr_status r \<noteq> Received" "\<forall>ri \<in> set (return_items d). 0 \<le> ri_quantity ri"
  shows "received_of oid d \<le> received_of oid d'"
proof -
  have "return_items d' = return_items d" using assms(1) by (simp add: request_change_def)
  then show ?thesis
    unfolding received_sum using request_change_status [OF assms(1)] assms(2,3) by (auto intro!: sum_list_mono)
qed


subsection \<open>Properties\<close>

text \<open>Both lamps of the first sub-order are on their way back, approved by the seller.\<close>

definition back_db :: db where
  "back_db = cod_db\<lparr>sub_orders := map (\<lambda>so. so\<lparr>so_status := Delivered, so_delivered_at := Some 2000\<rparr>) (sub_orders cod_db),
     return_requests := [\<lparr>rr_id = 97, rr_sub_order_id = 91, rr_customer_id = 1, rr_shop_id = Some 11, rr_status = Approved,
       rr_reason = Damaged, rr_customer_note = Some ''x'', rr_refund_total = 18000000, rr_seller_note = None,
       rr_resolved_at = None, rr_created_at = 3000\<rparr>],
     return_items := [\<lparr>ri_id = 98, ri_return_request_id = 97, ri_order_item_id = 94, ri_quantity = 2, ri_refund_amount = 18000000\<rparr>]\<rparr>"

lemma back_ok: "keys_ok back_db" "return_ok back_db"
proof -
  show "keys_ok back_db"
    by (simp add: keys_ok_def back_db_def cod_db_def demo_db_def unique_keys_def ids_fresh_def empty_db_def)
  show "return_ok back_db"
    by (simp add: return_ok_def back_db_def cod_db_def demo_db_def unique_keys_def held_of_def request_status_def find_row_Cons)
qed


lemma receive_defined:
  assumes "seller_return sellerId k Received d = Inr r" "lockAndRestock (return_targets r d) d = Inr d1" "return_targets r d \<noteq> []"
    and "find_row so_id (rr_sub_order_id r) (sub_orders d) = Some so" "find_opt o_id (so_order_id so) (orders d) = Some ord"
    and "sub_orders d1 = sub_orders d" "orders d1 = orders d" "shops d1 = shops d" "return_requests d1 = return_requests d"
  shows "\<exists>d' x. receiveReturn sellerId k now d = Inr (d', x)"
proof -
  note r = seller_returnD [OF assms(1)]
  define r' where "r' = r\<lparr>rr_status := Received, rr_resolved_at := Some now\<rparr>"
  define d2 where "d2 = d1\<lparr>return_requests := save_row rr_id r' (return_requests d1)\<rparr>"
  obtain d3 b where m: "markSubOrderReturnedIfComplete (rr_sub_order_id r) (sumReceivedByOrderItem (rr_sub_order_id r) d2) d2 = (d3, b)"
    by fastforce
  have d3: "d3 = (if complete (rr_sub_order_id r) d2
      then d2\<lparr>sub_orders := update_row so_id (rr_sub_order_id r) (\<lambda>so. so\<lparr>so_status := Returned\<rparr>) (sub_orders d2)\<rparr> else d2)"
    using mark_complete [of "rr_sub_order_id r" d2] by (simp add: m)
  have f: "orders d3 = orders d" "shops d3 = shops d" "return_requests d3 = save_row rr_id r' (return_requests d)"
    by (simp_all add: d3 d2_def assms(6-9))
  have "\<exists>so'. find_row so_id (rr_sub_order_id r) (sub_orders d3) = Some so' \<and> so_order_id so' = so_order_id so"
    by (simp add: d3 d2_def assms(4,6) find_row_update_row)
  then obtain d4 where d4: "emitReturnStatusChanged r' Received None d3 = Inr d4" "shops d4 = shops d" "return_requests d4 = save_row rr_id r' (return_requests d)"
    using assms(5) f by (auto simp: emitReturnStatusChanged_def r'_def)
  have "find_row rr_id k (return_requests d4) = Some r'" using r(2) by (simp add: d4(3) find_row_save r'_def)
  moreover have "seller_of_return r' d4 = Some sellerId" using r(4) by (simp add: seller_of_return_def d4(2) r'_def)
  ultimately have "getSellerReturnDetail sellerId k d4 = Inr (return_toResponse d4 r')" by (simp add: getSellerReturnDetail_def)
  then have "receiveReturn sellerId k now d = Inr (d4, return_toResponse d4 r')"
    using assms(2,3) by (simp add: receiveReturn_def assms(1) Let_def r'_def [symmetric] d2_def [symmetric] m d4(1) answer_seller_def)
  then show ?thesis by blast
qed

lemma back_received: "\<exists>d' x. receiveReturn 2 97 4000 back_db = Inr (d', x)"
proof -
  let ?t = "[\<lparr>si_product_id = 21, si_variant_id = None, si_quantity = 2\<rparr>]" and ?so = "sub_orders back_db ! 0"
  have t: "return_targets (return_requests back_db ! 0) back_db = ?t"
    by (simp add: return_targets_def items_of_return_def back_db_def cod_db_def demo_db_def find_row_Cons find_opt_def)
  show ?thesis
  proof (rule receive_defined [of 2 97 back_db "return_requests back_db ! 0", unfolded t])
    show "seller_return 2 97 Received back_db = Inr (return_requests back_db ! 0)"
      by (simp add: seller_return_def back_db_def find_row_Cons seller_of_return_def find_opt_def demo_db_def assertReturnTransition_def)
    show "lockAndRestock ?t back_db = Inr (move_stock 1 ?t back_db)"
      by (rule restock_cases) (simp_all add: back_db_def demo_db_def unique_keys_def)
    show "find_row so_id (rr_sub_order_id (return_requests back_db ! 0)) (sub_orders back_db) = Some ?so"
      by (simp add: back_db_def cod_db_def find_row_Cons)
    show "find_opt o_id (so_order_id ?so) (orders back_db) = Some (orders back_db ! 0)"
      by (simp add: back_db_def cod_db_def find_row_Cons find_opt_def)
  qed (simp_all add: move_stock_def)
qed

text \<open>C30. In every history of orders and returns no item comes back more often than it was bought: what was
  received of it, and what was received of it together with what open requests ask for, never exceeds
  its quantity.\<close>

theorem returns_never_exceed:
  assumes "(return_step calc)\<^sup>*\<^sup>* d d'" "keys_ok d" "return_ok d" "oi \<in> set (order_items d')"
  shows "0 \<le> received_of (oi_id oi) d' \<and> received_of (oi_id oi) d' \<le> held_of (oi_id oi) d'
    \<and> held_of (oi_id oi) d' \<le> max 0 (oi_quantity oi)"
proof -
  have ok: "return_ok d'" using return_steps_ok [OF assms(1-3)] by blast
  have "0 \<le> received_of (oi_id oi) d'"
    unfolding received_sum using return_okD(5) [OF ok] by (intro sum_list_nonneg) auto
  then show ?thesis using received_le_held return_okD(5,8) [OF ok] assms(4) by blast
qed

lemma returns_never_exceed_witness:
  "\<exists>d' x. receiveReturn 2 97 4000 back_db = Inr (d', x) \<and> received_of 94 d' \<le> 2"
proof -
  obtain d' x where r: "receiveReturn 2 97 4000 back_db = Inr (d', x)" using back_received by blast
  then have s: "(return_step (calculateShippingFee demo_math))\<^sup>*\<^sup>* back_db d'" by (blast intro: return_step.received)
  have "request_change rq rq' back_db d' \<Longrightarrow> order_items d' = order_items cod_db" for rq rq'
    by (simp add: request_change_def back_db_def)
  then have "order_items d' = order_items cod_db" using receive_cases [OF r keys_okD(1,2) [OF back_ok(1)]] by metis
  then have "order_items cod_db ! 0 \<in> set (order_items d')" by (simp add: cod_db_def)
  from returns_never_exceed [OF s back_ok this] r show ?thesis by (fastforce simp: cod_db_def)
qed

text \<open>C31. No history of orders and returns loses or invents stock: what is on the shelf of a product, and what its
  orders that are not cancelled hold of it without what came back from them, add up to the same number.\<close>

theorem stock_conserved_with_returns:
  assumes "(return_step calc)\<^sup>*\<^sup>* d d'" "keys_ok d" "return_ok d" "k \<in> p_id ` set (products d)"
  shows "on_shelf d' k + (sold d' k - came_back d' k) = on_shelf d k + (sold d k - came_back d k)"
  using return_steps_ok [OF assms(1-3), of k] assms(4) by (simp add: conserves_def)

lemma stock_conserved_with_returns_witness:
  "\<exists>d' x. receiveReturn 2 97 4000 back_db = Inr (d', x) \<and> on_shelf d' 21 + (sold d' 21 - came_back d' 21) = 7"
proof -
  obtain d' x where r: "receiveReturn 2 97 4000 back_db = Inr (d', x)" using back_received by blast
  then have s: "(return_step (calculateShippingFee demo_math))\<^sup>*\<^sup>* back_db d'" by (blast intro: return_step.received)
  have "on_shelf back_db 21 = 5" by (simp add: on_shelf_def back_db_def demo_db_def find_row_Cons)
  moreover have "sold back_db 21 = 2" by (simp add: sold_def live_def back_db_def cod_db_def)
  moreover have "came_back back_db 21 = 0" by (simp add: came_back_def request_status_def back_db_def find_row_Cons)
  moreover have "21 \<in> p_id ` set (products back_db)" by (simp add: back_db_def demo_db_def)
  ultimately show ?thesis using stock_conserved_with_returns [OF s back_ok, of 21] r by auto
qed

text \<open>A received return puts the sub-order to Returned exactly when every item of it came back in full; the
  stock of the goods is restored and no other sub-order changes.\<close>

theorem returned_when_complete:
  assumes "receiveReturn sellerId k now d = Inr (d', x)" "keys_ok d" "return_ok d"
    and "find_row rr_id k (return_requests d) = Some r" "find_row so_id sid (sub_orders d) = Some so"
    and "everything = ((\<exists>oi \<in> set (order_items d). oi_sub_order_id oi = sid)
      \<and> list_all (\<lambda>oi. oi_quantity oi \<le> received_of (oi_id oi) d') (filter (\<lambda>oi. oi_sub_order_id oi = sid) (order_items d)))"
  shows "find_row so_id sid (sub_orders d')
      = Some (if sid = rr_sub_order_id r \<and> everything then so\<lparr>so_status := Returned\<rparr> else so)
    \<and> map_option rr_status (find_row rr_id k (return_requests d')) = Some Received
    \<and> products d' = map (move_product 1 (return_targets r d)) (products d)"
proof -
  note kk = keys_okD [OF assms(2)]
  obtain r0 r' where c: "request_change r0 r' d d'" "rr_status r' = Received"
    "products d' = map (move_product 1 (return_targets r0 d)) (products d)"
    "sub_orders d' = (if complete (rr_sub_order_id r0) d'
       then update_row so_id (rr_sub_order_id r0) (\<lambda>so. so\<lparr>so_status := Returned\<rparr>) (sub_orders d) else sub_orders d)"
    "rr_id r0 = k"
    by (rule receive_cases [OF assms(1) kk(1,2)]) (rule that)
  have r: "r0 = r" using c(1,5) assms(4) by (auto simp: request_change_def)
  have ok: "return_ok d'" using received_ok [OF assms(1-3)] by blast
  have e: "everything \<longleftrightarrow> complete sid d'"
    using c(1) by (auto simp: assms(6) complete_received [OF ok] request_change_def list_all_iff)
  have "find_row rr_id k (return_requests d') = Some r'" using c(1,5) by (auto simp: request_change_def find_row_save)
  then show ?thesis using c(2,3) e assms(5) by (auto simp: c(4) r find_row_update_row)
qed

lemma returned_when_complete_witness:
  "\<exists>d' x. receiveReturn 2 97 4000 back_db = Inr (d', x) \<and> map_option so_status (find_row so_id 91 (sub_orders d')) = Some Returned"
proof -
  obtain d' x where r: "receiveReturn 2 97 4000 back_db = Inr (d', x)" using back_received by blast
  have rq: "find_row rr_id 97 (return_requests back_db) = Some (return_requests back_db ! 0)"
    and so: "find_row so_id 91 (sub_orders back_db) = Some (sub_orders back_db ! 0)"
    by (simp_all add: back_db_def cod_db_def find_row_Cons)
  obtain r r' where c: "request_change r r' back_db d'" "rr_id r = 97" "rr_status r' = Received"
    by (rule receive_cases [OF r keys_okD(1,2) [OF back_ok(1)]]) (rule that)
  have "return_items d' = return_items back_db" using c(1) by (simp add: request_change_def)
  moreover have "request_status d' ri = Some Received" if "ri_return_request_id ri = 97" for ri
    using request_change_status(1) [OF c(1), of ri] c(2,3) that by simp
  ultimately have "received_of 94 d' = 2" by (simp add: received_sum back_db_def)
  then have "list_all (\<lambda>oi. oi_quantity oi \<le> received_of (oi_id oi) d') (filter (\<lambda>oi. oi_sub_order_id oi = 91) (order_items back_db))"
    "\<exists>oi \<in> set (order_items back_db). oi_sub_order_id oi = 91"
    by (simp_all add: back_db_def cod_db_def)
  with returned_when_complete [OF r back_ok rq so refl] r show ?thesis by (fastforce simp: back_db_def)
qed

end
