(* ===== verification/Notifications.thy ===== *)
theory Notifications
  imports Entities
begin

text \<open>
  The notification service: \<open>notification.service.ts\<close> writes a notification together with the row
  that reports it back, and \<open>notification-consumer.service.ts\<close> turns the event of the monolith into
  notifications, messages for the web sockets and mails.

  The title and the content of a notification are fixed texts around a few values; a \<open>notice\<close> is the
  text by its values. Amounts stay numbers (the texts show them through \<open>toLocaleString\<close>). A required
  string is missing when it is empty, a required id when it is absent.
\<close>

subsection \<open>Events\<close>

fun event_type :: "outbox_event \<Rightarrow> string" where
  "event_type (OrderCreated _ _ _ _ _) = ''order.created''"
| "event_type (OrderCancelledEv _ _ _ _ _ _) = ''order.cancelled''"
| "event_type (OrderStatusUpdated _ _ _ _ _ _) = ''order.status_updated''"
| "event_type (ReturnRequested _ _ _ _ _ _) = ''return.requested''"
| "event_type (ReturnStatusChanged _ _ _ _ _ _) = ''return.status_changed''"
| "event_type (PayoutCreated _ _ _ _ _) = ''payout.created''"
| "event_type (PayoutStatusChanged _ _ _ _ _ _ _ _) = ''payout.status_changed''"
| "event_type (ReviewCreated _ _ _ _ _ _) = ''review.created''"
| "event_type (ReviewReplied _ _ _ _) = ''review.replied''"
| "event_type (ShopRegistered _ _ _ _) = ''shop.registered''"
| "event_type (ProductModerated _ _ _ _ _ _ _ _) = ''product.moderated''"
| "event_type (ProductCreated _) = ''product.created''"
| "event_type (ProductUpdated _) = ''product.updated''"
| "event_type (ProductDeletedEv _) = ''product.deleted''"

datatype poison = MissingField | UnknownStatus | UnsupportedEvent

subsection \<open>Notifications\<close>

datatype notice =
    OrderPlacedText string rat
  | NewOrderText string
  | SubOrderCancelledText string
  | OrderCancelledSellerText string
  | SubOrderMovedText string order_status
  | NewReviewText string int
  | ReviewRepliedText string
  | PayoutRequestText string rat
  | ShopRegisteredText string
  | ShopReappliedText string
  | PayoutApprovedText rat
  | PayoutRejectedText rat "string option"
  | ReturnRequestedText string
  | ReturnApprovedText string
  | ReturnRejectedText string "string option"
  | ReturnReceivedText string
  | ProductTakenDownText string "string option"
  | ProductRestoredText string

datatype notification_data =
    OrderPlacedData uuid string rat
  | OrderNewSellerData uuid string uuid
  | SubOrderCancelledCustomerData uuid string
  | SubOrderCancelledSellerData uuid string uuid
  | SubOrderStatusChangedData uuid string order_status
  | ReviewNewSellerData uuid string
  | ReviewRepliedData uuid string
  | PayoutStatusChangedData uuid rat payout_status "string option"
  | PayoutCreatedData uuid rat string
  | ShopRegisteredData uuid string
  | ReturnRequestedSellerData uuid uuid string
  | ReturnStatusCustomerData uuid uuid string return_status "string option"
  | ProductModeratedData uuid string moderation_action "string option"

record notification_dto =
  nd_user_id :: uuid
  nd_type :: notification_type
  nd_text :: notice
  nd_data :: notification_data

record notification =
  n_id :: uuid
  n_user_id :: uuid
  n_type :: notification_type
  n_text :: notice
  n_data :: notification_data
  n_is_read :: bool
  n_created_at :: millis

text \<open>A row of \<open>notification_outbox\<close>; its event type is always \<open>notification.created\<close> and its payload
  the notification.\<close>

record ns_outbox_row =
  nso_id :: uuid
  nso_payload :: notification
  nso_published_at :: "millis option"
  nso_publish_attempts :: nat
  nso_created_at :: millis

record ns_db =
  ns_notifications :: "notification list"
  ns_outbox :: "ns_outbox_row list"
  ns_processed :: "uuid list"
  ns_next :: uuid

definition new_notification :: "uuid \<Rightarrow> millis \<Rightarrow> notification_dto \<Rightarrow> notification" where
  "new_notification k now dto =
     \<lparr>n_id = k, n_user_id = nd_user_id dto, n_type = nd_type dto, n_text = nd_text dto, n_data = nd_data dto,
      n_is_read = False, n_created_at = now\<rparr>"

definition new_outbox_row :: "uuid \<Rightarrow> millis \<Rightarrow> notification \<Rightarrow> ns_outbox_row" where
  "new_outbox_row k now n =
     \<lparr>nso_id = k, nso_payload = n, nso_published_at = None, nso_publish_attempts = 0, nso_created_at = now\<rparr>"

definition ns_create :: "notification_dto \<Rightarrow> millis \<Rightarrow> ns_db \<Rightarrow> ns_db \<times> notification" where
  "ns_create dto now s =
     (let saved = new_notification (ns_next s) now dto
      in (s\<lparr>ns_notifications := ns_notifications s @ [saved],
            ns_outbox := ns_outbox s @ [new_outbox_row (Suc (ns_next s)) now saved],
            ns_next := Suc (Suc (ns_next s))\<rparr>, saved))"

definition ns_createForUsers :: "uuid list \<Rightarrow> (uuid \<Rightarrow> notification_dto) \<Rightarrow> millis \<Rightarrow> ns_db \<Rightarrow> ns_db \<times> notification list" where
  "ns_createForUsers userIds dto now s =
     (if userIds = [] then (s, [])
      else
        let n = length userIds;
            saved = map2 (\<lambda>u k. new_notification k now (dto u)) userIds [ns_next s..<ns_next s + n]
        in (s\<lparr>ns_notifications := ns_notifications s @ saved,
              ns_outbox := ns_outbox s @ map2 (\<lambda>x k. new_outbox_row k now x) saved [ns_next s + n..<ns_next s + 2 * n],
              ns_next := ns_next s + 2 * n\<rparr>, saved))"

subsection \<open>Web sockets and mails\<close>

datatype ws_event =
    NotificationNewWs notification
  | OrderNewWs uuid string
  | OrderStatusChangedWs uuid string uuid order_status
  | ReviewNewWs uuid uuid string int
  | ReviewRepliedWs uuid uuid string
  | PayoutStatusChangedWs uuid rat payout_status notice
  | PayoutCreatedWs uuid rat uuid string
  | ShopRegisteredWs uuid string notice
  | ReturnRequestedWs uuid uuid string
  | ReturnStatusChangedWs uuid uuid string return_status notice
  | ProductModeratedWs uuid string moderation_action notice

datatype ws_emit = ToUser uuid ws_event | ToShop uuid ws_event | ToAdmins ws_event

datatype mail_template = ApprovePayoutMail | RejectPayoutMail | TakeDownProductMail

text \<open>A mail as handed to the mailer; the reason is absent when the default text is used.\<close>

record mail =
  ml_to :: string
  ml_template :: mail_template
  ml_name :: string
  ml_subject :: string
  ml_amount :: "rat option"
  ml_reason :: "string option"

definition truthy :: "string option \<Rightarrow> string option" where
  "truthy s = (case s of None \<Rightarrow> None | Some t \<Rightarrow> if t = [] then None else Some t)"

definition payout_mail :: "string \<Rightarrow> string \<Rightarrow> string \<Rightarrow> rat \<Rightarrow> payout_status \<Rightarrow> string option \<Rightarrow> mail" where
  "payout_mail email username shopName amount status reason =
     \<lparr>ml_to = email, ml_template = (if status = PayoutCompleted then ApprovePayoutMail else RejectPayoutMail),
      ml_name = username, ml_subject = shopName, ml_amount = Some amount, ml_reason = truthy reason\<rparr>"

definition product_mail :: "string \<Rightarrow> string \<Rightarrow> string \<Rightarrow> string option \<Rightarrow> mail" where
  "product_mail email username productName reason =
     \<lparr>ml_to = email, ml_template = TakeDownProductMail, ml_name = username, ml_subject = productName,
      ml_amount = None, ml_reason = truthy reason\<rparr>"

subsection \<open>Handlers\<close>

type_synonym handled = "poison + (ns_db \<times> ws_emit list \<times> mail list)"

text \<open>Create one notification and push it to its owner, then the messages that follow.\<close>

definition tell :: "notification_dto \<Rightarrow> ws_emit list \<Rightarrow> mail list \<Rightarrow> millis \<Rightarrow> ns_db \<Rightarrow> handled" where
  "tell dto emits mails now s =
     (let (s', saved) = ns_create dto now s
      in Inr (s', ToUser (n_user_id saved) (NotificationNewWs saved) # emits, mails))"

text \<open>One notification per admin, then the message to the room of the admins.\<close>

definition tell_admins :: "uuid list \<Rightarrow> (uuid \<Rightarrow> notification_dto) \<Rightarrow> ws_event \<Rightarrow> millis \<Rightarrow> ns_db \<Rightarrow> handled" where
  "tell_admins adminIds dto ev now s =
     (let (s', saved) = ns_createForUsers adminIds dto now s
      in Inr (s', map (\<lambda>n. ToUser (n_user_id n) (NotificationNewWs n)) saved @ [ToAdmins ev], []))"

definition tell_seller_of_order :: "uuid \<Rightarrow> string \<Rightarrow> millis \<Rightarrow> ns_db \<times> ws_emit list \<Rightarrow> uuid \<times> uuid option \<times> uuid \<Rightarrow> ns_db \<times> ws_emit list" where
  "tell_seller_of_order orderId orderNumber now acc line =
     (let (s, emits) = acc; (shopId, sellerId, subOrderId) = line
      in case sellerId of
           None \<Rightarrow> (s, emits)
         | Some seller \<Rightarrow>
             let (s', saved) = ns_create \<lparr>nd_user_id = seller, nd_type = TypeOrderCreated, nd_text = NewOrderText orderNumber,
                                          nd_data = OrderNewSellerData orderId orderNumber subOrderId\<rparr> now s
             in (s', emits @ [ToUser (n_user_id saved) (NotificationNewWs saved), ToShop shopId (OrderNewWs orderId orderNumber)]))"

definition handleOrderCreated ::
  "uuid \<Rightarrow> string \<Rightarrow> (uuid \<times> uuid option \<times> uuid) list \<Rightarrow> uuid \<Rightarrow> rat \<Rightarrow> millis \<Rightarrow> ns_db \<Rightarrow> handled" where
  "handleOrderCreated orderId orderNumber orderShops userId totalAmount now s =
     (if orderNumber = [] then Inl MissingField
      else
        let (s1, saved) = ns_create \<lparr>nd_user_id = userId, nd_type = TypeOrderCreated, nd_text = OrderPlacedText orderNumber totalAmount,
                                     nd_data = OrderPlacedData orderId orderNumber totalAmount\<rparr> now s;
            (s2, emits) = foldl (tell_seller_of_order orderId orderNumber now)
                            (s1, [ToUser (n_user_id saved) (NotificationNewWs saved)]) orderShops
        in Inr (s2, emits, []))"

definition handleOrderCancelled ::
  "uuid \<Rightarrow> string \<Rightarrow> uuid \<Rightarrow> uuid \<Rightarrow> uuid option \<Rightarrow> uuid option \<Rightarrow> millis \<Rightarrow> ns_db \<Rightarrow> handled" where
  "handleOrderCancelled orderId orderNumber subOrderId userId shopId sellerId now s =
     (if orderNumber = [] then Inl MissingField
      else case shopId of
        None \<Rightarrow> Inl MissingField
      | Some shop \<Rightarrow>
          let (s1, saved) = ns_create \<lparr>nd_user_id = userId, nd_type = TypeOrderStatusChanged, nd_text = SubOrderCancelledText orderNumber,
                                       nd_data = SubOrderCancelledCustomerData orderId orderNumber\<rparr> now s;
              emits = [ToUser (n_user_id saved) (NotificationNewWs saved)]
          in case sellerId of
               None \<Rightarrow> Inr (s1, emits, [])
             | Some seller \<Rightarrow>
                 let (s2, savedSeller) = ns_create \<lparr>nd_user_id = seller, nd_type = TypeOrderStatusChanged,
                                                    nd_text = OrderCancelledSellerText orderNumber,
                                                    nd_data = SubOrderCancelledSellerData orderId orderNumber subOrderId\<rparr> now s1
                 in Inr (s2, emits @ [ToUser (n_user_id savedSeller) (NotificationNewWs savedSeller),
                                      ToShop shop (OrderStatusChangedWs orderId orderNumber subOrderId Cancelled)], []))"

definition handleOrderStatusUpdated ::
  "uuid \<Rightarrow> string \<Rightarrow> uuid \<Rightarrow> uuid option \<Rightarrow> order_status \<Rightarrow> millis \<Rightarrow> ns_db \<Rightarrow> handled" where
  "handleOrderStatusUpdated orderId orderNumber subOrderId userId newStatus now s =
     (if orderNumber = [] then Inl MissingField
      else case userId of
        None \<Rightarrow> Inl MissingField
      | Some user \<Rightarrow>
          tell \<lparr>nd_user_id = user, nd_type = TypeOrderStatusChanged, nd_text = SubOrderMovedText orderNumber newStatus,
                nd_data = SubOrderStatusChangedData orderId orderNumber newStatus\<rparr>
            [ToUser user (OrderStatusChangedWs orderId orderNumber subOrderId newStatus)] [] now s)"

definition handleReviewCreated ::
  "uuid \<Rightarrow> uuid \<Rightarrow> string \<Rightarrow> uuid option \<Rightarrow> uuid option \<Rightarrow> int \<Rightarrow> millis \<Rightarrow> ns_db \<Rightarrow> handled" where
  "handleReviewCreated reviewId productId productName shopId sellerId rating now s =
     (if productName = [] then Inl MissingField
      else case shopId of
        None \<Rightarrow> Inl MissingField
      | Some shop \<Rightarrow>
          (case sellerId of
             None \<Rightarrow> Inr (s, [], [])
           | Some seller \<Rightarrow>
               tell \<lparr>nd_user_id = seller, nd_type = TypeReviewCreated, nd_text = NewReviewText productName rating,
                     nd_data = ReviewNewSellerData productId productName\<rparr>
                 [ToShop shop (ReviewNewWs reviewId productId productName rating)] [] now s))"

definition handleReviewReplied :: "uuid \<Rightarrow> uuid \<Rightarrow> string \<Rightarrow> uuid option \<Rightarrow> millis \<Rightarrow> ns_db \<Rightarrow> handled" where
  "handleReviewReplied reviewId productId productName customerId now s =
     (if productName = [] then Inl MissingField
      else case customerId of
        None \<Rightarrow> Inl MissingField
      | Some customer \<Rightarrow>
          tell \<lparr>nd_user_id = customer, nd_type = TypeReviewReplied, nd_text = ReviewRepliedText productName,
                nd_data = ReviewRepliedData productId productName\<rparr>
            [ToUser customer (ReviewRepliedWs reviewId productId productName)] [] now s)"

definition handlePayoutCreated :: "uuid \<Rightarrow> rat \<Rightarrow> uuid \<Rightarrow> string \<Rightarrow> uuid list \<Rightarrow> millis \<Rightarrow> ns_db \<Rightarrow> handled" where
  "handlePayoutCreated payoutId amount shopId shopName adminIds now s =
     (if shopName = [] then Inl MissingField
      else tell_admins adminIds
             (\<lambda>u. \<lparr>nd_user_id = u, nd_type = TypePayoutCreated, nd_text = PayoutRequestText shopName amount,
                   nd_data = PayoutCreatedData payoutId amount shopName\<rparr>)
             (PayoutCreatedWs payoutId amount shopId shopName) now s)"

definition handleShopRegistered :: "uuid \<Rightarrow> string \<Rightarrow> bool \<Rightarrow> uuid list \<Rightarrow> millis \<Rightarrow> ns_db \<Rightarrow> handled" where
  "handleShopRegistered shopId shopName isReapply adminIds now s =
     (if shopName = [] then Inl MissingField
      else
        let text = (if isReapply then ShopReappliedText shopName else ShopRegisteredText shopName)
        in tell_admins adminIds
             (\<lambda>u. \<lparr>nd_user_id = u, nd_type = TypeShopRegistered, nd_text = text, nd_data = ShopRegisteredData shopId shopName\<rparr>)
             (ShopRegisteredWs shopId shopName text) now s)"

definition handlePayoutStatusChanged ::
  "uuid \<Rightarrow> uuid \<Rightarrow> string \<Rightarrow> string \<Rightarrow> string \<Rightarrow> rat \<Rightarrow> payout_status \<Rightarrow> string option \<Rightarrow> millis \<Rightarrow> ns_db \<Rightarrow> handled" where
  "handlePayoutStatusChanged payoutId sellerId sellerEmail sellerName shopName amount status reason now s =
     (let text = (if status = PayoutCompleted then PayoutApprovedText amount else PayoutRejectedText amount reason)
      in tell \<lparr>nd_user_id = sellerId, nd_type = TypePayoutStatusChanged, nd_text = text,
               nd_data = PayoutStatusChangedData payoutId amount status reason\<rparr>
           [ToUser sellerId (PayoutStatusChangedWs payoutId amount status text)]
           [payout_mail sellerEmail sellerName shopName amount status reason] now s)"

definition handleReturnRequested ::
  "uuid \<Rightarrow> uuid \<Rightarrow> string \<Rightarrow> uuid option \<Rightarrow> uuid option \<Rightarrow> millis \<Rightarrow> ns_db \<Rightarrow> handled" where
  "handleReturnRequested returnId subOrderId orderNumber shopId sellerId now s =
     (if orderNumber = [] then Inl MissingField
      else case shopId of
        None \<Rightarrow> Inl MissingField
      | Some shop \<Rightarrow>
          (case sellerId of
             None \<Rightarrow> Inr (s, [], [])
           | Some seller \<Rightarrow>
               tell \<lparr>nd_user_id = seller, nd_type = TypeReturnRequested, nd_text = ReturnRequestedText orderNumber,
                     nd_data = ReturnRequestedSellerData returnId subOrderId orderNumber\<rparr>
                 [ToShop shop (ReturnRequestedWs returnId subOrderId orderNumber)] [] now s))"

definition return_text :: "return_status \<Rightarrow> string \<Rightarrow> string option \<Rightarrow> notice option" where
  "return_text status orderNumber sellerNote =
     (case status of
        Approved \<Rightarrow> Some (ReturnApprovedText orderNumber)
      | ReturnRejected \<Rightarrow> Some (ReturnRejectedText orderNumber (truthy sellerNote))
      | Received \<Rightarrow> Some (ReturnReceivedText orderNumber)
      | _ \<Rightarrow> None)"

definition handleReturnStatusChanged ::
  "uuid \<Rightarrow> uuid \<Rightarrow> string \<Rightarrow> uuid \<Rightarrow> return_status \<Rightarrow> string option \<Rightarrow> millis \<Rightarrow> ns_db \<Rightarrow> handled" where
  "handleReturnStatusChanged returnId subOrderId orderNumber customerId status sellerNote now s =
     (if orderNumber = [] then Inl MissingField
      else case return_text status orderNumber sellerNote of
        None \<Rightarrow> Inl UnknownStatus
      | Some text \<Rightarrow>
          tell \<lparr>nd_user_id = customerId, nd_type = TypeReturnStatusChanged, nd_text = text,
                nd_data = ReturnStatusCustomerData returnId subOrderId orderNumber status sellerNote\<rparr>
            [ToUser customerId (ReturnStatusChangedWs returnId subOrderId orderNumber status text)] [] now s)"

definition handleProductModerated ::
  "uuid \<Rightarrow> string \<Rightarrow> uuid option \<Rightarrow> uuid option \<Rightarrow> string option \<Rightarrow> string option \<Rightarrow> moderation_action \<Rightarrow> string option
     \<Rightarrow> millis \<Rightarrow> ns_db \<Rightarrow> handled" where
  "handleProductModerated productId productName shopId sellerId sellerEmail sellerName action reason now s =
     (if productName = [] then Inl MissingField
      else case shopId of
        None \<Rightarrow> Inl MissingField
      | Some shop \<Rightarrow>
          (case sellerId of
             None \<Rightarrow> Inr (s, [], [])
           | Some seller \<Rightarrow>
               let isTakenDown = (action = TakenDown);
                   text = (if isTakenDown then ProductTakenDownText productName (truthy reason) else ProductRestoredText productName);
                   mails = (case truthy sellerEmail of
                              None \<Rightarrow> []
                            | Some email \<Rightarrow>
                                if isTakenDown
                                then [product_mail email (case sellerName of None \<Rightarrow> [] | Some n \<Rightarrow> n) productName reason]
                                else [])
               in tell \<lparr>nd_user_id = seller, nd_type = TypeProductModerated, nd_text = text,
                        nd_data = ProductModeratedData productId productName action reason\<rparr>
                    [ToShop shop (ProductModeratedWs productId productName action text)] mails now s))"

fun dispatch :: "outbox_event \<Rightarrow> millis \<Rightarrow> ns_db \<Rightarrow> handled" where
  "dispatch (OrderCreated oid no ss u amt) now s = handleOrderCreated oid no ss u amt now s"
| "dispatch (OrderCancelledEv oid no sid u sh sel) now s = handleOrderCancelled oid no sid u sh sel now s"
| "dispatch (OrderStatusUpdated oid no sid u sh st) now s = handleOrderStatusUpdated oid no sid u st now s"
| "dispatch (ReviewCreated r p nm sh sel rt) now s = handleReviewCreated r p nm sh sel rt now s"
| "dispatch (ReviewReplied r p nm c) now s = handleReviewReplied r p nm c now s"
| "dispatch (PayoutCreated p amt sh nm adm) now s = handlePayoutCreated p amt sh nm adm now s"
| "dispatch (PayoutStatusChanged p sel em nm shn amt st re) now s = handlePayoutStatusChanged p sel em nm shn amt st re now s"
| "dispatch (ShopRegistered sh nm re adm) now s = handleShopRegistered sh nm re adm now s"
| "dispatch (ReturnRequested r sid no sh sel c) now s = handleReturnRequested r sid no sh sel now s"
| "dispatch (ReturnStatusChanged r sid no c st note) now s = handleReturnStatusChanged r sid no c st note now s"
| "dispatch (ProductModerated p nm sh sel em sn act re) now s = handleProductModerated p nm sh sel em sn act re now s"
| "dispatch (ProductCreated _) now s = Inl UnsupportedEvent"
| "dispatch (ProductUpdated _) now s = Inl UnsupportedEvent"
| "dispatch (ProductDeletedEv _) now s = Inl UnsupportedEvent"


subsection \<open>Who is told what\<close>

text \<open>The specification of the consumer: the owners and the types of the notifications of an event, and the
  events it accepts.\<close>

fun addressees :: "outbox_event \<Rightarrow> (uuid \<times> notification_type) list" where
  "addressees (OrderCreated _ _ ss u _) =
     (u, TypeOrderCreated) # concat (map (\<lambda>(sh, sel, sid). case sel of None \<Rightarrow> [] | Some x \<Rightarrow> [(x, TypeOrderCreated)]) ss)"
| "addressees (OrderCancelledEv _ _ _ u _ sel) =
     (u, TypeOrderStatusChanged) # (case sel of None \<Rightarrow> [] | Some x \<Rightarrow> [(x, TypeOrderStatusChanged)])"
| "addressees (OrderStatusUpdated _ _ _ u _ _) = (case u of None \<Rightarrow> [] | Some x \<Rightarrow> [(x, TypeOrderStatusChanged)])"
| "addressees (ReviewCreated _ _ _ _ sel _) = (case sel of None \<Rightarrow> [] | Some x \<Rightarrow> [(x, TypeReviewCreated)])"
| "addressees (ReviewReplied _ _ _ c) = (case c of None \<Rightarrow> [] | Some x \<Rightarrow> [(x, TypeReviewReplied)])"
| "addressees (PayoutCreated _ _ _ _ adm) = map (\<lambda>u. (u, TypePayoutCreated)) adm"
| "addressees (PayoutStatusChanged _ sel _ _ _ _ _ _) = [(sel, TypePayoutStatusChanged)]"
| "addressees (ShopRegistered _ _ _ adm) = map (\<lambda>u. (u, TypeShopRegistered)) adm"
| "addressees (ReturnRequested _ _ _ _ sel _) = (case sel of None \<Rightarrow> [] | Some x \<Rightarrow> [(x, TypeReturnRequested)])"
| "addressees (ReturnStatusChanged _ _ _ c _ _) = [(c, TypeReturnStatusChanged)]"
| "addressees (ProductModerated _ _ _ sel _ _ _ _) = (case sel of None \<Rightarrow> [] | Some x \<Rightarrow> [(x, TypeProductModerated)])"
| "addressees _ = []"

fun accepted :: "outbox_event \<Rightarrow> bool" where
  "accepted (OrderCreated _ no _ _ _) = (no \<noteq> [])"
| "accepted (OrderCancelledEv _ no _ _ sh _) = (no \<noteq> [] \<and> sh \<noteq> None)"
| "accepted (OrderStatusUpdated _ no _ u _ _) = (no \<noteq> [] \<and> u \<noteq> None)"
| "accepted (ReviewCreated _ _ nm sh _ _) = (nm \<noteq> [] \<and> sh \<noteq> None)"
| "accepted (ReviewReplied _ _ nm c) = (nm \<noteq> [] \<and> c \<noteq> None)"
| "accepted (PayoutCreated _ _ _ nm _) = (nm \<noteq> [])"
| "accepted (PayoutStatusChanged _ _ _ _ _ _ _ _) = True"
| "accepted (ShopRegistered _ nm _ _) = (nm \<noteq> [])"
| "accepted (ReturnRequested _ _ no sh _ _) = (no \<noteq> [] \<and> sh \<noteq> None)"
| "accepted (ReturnStatusChanged _ _ no _ st _) = (no \<noteq> [] \<and> st \<in> {Approved, ReturnRejected, Received})"
| "accepted (ProductModerated _ nm sh _ _ _ _ _) = (nm \<noteq> [] \<and> sh \<noteq> None)"
| "accepted _ = False"

text \<open>A transaction that writes notifications: each with its own row in the outbox, under new ids.\<close>

definition wrote :: "ns_db \<Rightarrow> ns_db \<Rightarrow> notification list \<Rightarrow> bool" where
  "wrote s s' new \<longleftrightarrow>
     ns_notifications s' = ns_notifications s @ new \<and> ns_processed s' = ns_processed s \<and> ns_next s \<le> ns_next s'
   \<and> (\<exists>rows. ns_outbox s' = ns_outbox s @ rows \<and> map nso_payload rows = new \<and> distinct (map nso_id rows)
        \<and> (\<forall>r \<in> set rows. nso_published_at r = None \<and> ns_next s \<le> nso_id r \<and> nso_id r < ns_next s'))
   \<and> distinct (map n_id new) \<and> (\<forall>n \<in> set new. ns_next s \<le> n_id n \<and> n_id n < ns_next s' \<and> \<not> n_is_read n)"

lemma wrote_refl [simp]: "wrote s s []"
  by (simp add: wrote_def)

lemma wrote_trans:
  assumes "wrote s s1 a" "wrote s1 s2 b"
  shows "wrote s s2 (a @ b)"
proof -
  from assms obtain r1 r2 where r: "ns_outbox s1 = ns_outbox s @ r1" "map nso_payload r1 = a" "distinct (map nso_id r1)"
    "\<forall>r \<in> set r1. nso_published_at r = None \<and> ns_next s \<le> nso_id r \<and> nso_id r < ns_next s1"
    "ns_outbox s2 = ns_outbox s1 @ r2" "map nso_payload r2 = b" "distinct (map nso_id r2)"
    "\<forall>r \<in> set r2. nso_published_at r = None \<and> ns_next s1 \<le> nso_id r \<and> nso_id r < ns_next s2"
    by (auto simp: wrote_def)
  have le: "ns_next s \<le> ns_next s1" "ns_next s1 \<le> ns_next s2" using assms by (simp_all add: wrote_def)
  have "distinct (map nso_id (r1 @ r2))" using r(3,4,7,8) by fastforce
  moreover have "\<forall>r \<in> set (r1 @ r2). nso_published_at r = None \<and> ns_next s \<le> nso_id r \<and> nso_id r < ns_next s2"
    using r(4,8) le by fastforce
  ultimately have "\<exists>rows. ns_outbox s2 = ns_outbox s @ rows \<and> map nso_payload rows = a @ b \<and> distinct (map nso_id rows)
      \<and> (\<forall>r \<in> set rows. nso_published_at r = None \<and> ns_next s \<le> nso_id r \<and> nso_id r < ns_next s2)"
    using r(1,2,5,6) by (intro exI [of _ "r1 @ r2"]) simp
  moreover have "distinct (map n_id (a @ b))" using assms by (fastforce simp: wrote_def)
  moreover have "\<forall>n \<in> set (a @ b). ns_next s \<le> n_id n \<and> n_id n < ns_next s2 \<and> \<not> n_is_read n"
    using assms le by (fastforce simp: wrote_def)
  ultimately show ?thesis using assms le by (simp add: wrote_def)
qed

lemma wrote_create:
  "wrote s (fst (ns_create dto now s)) [snd (ns_create dto now s)]"
  "n_user_id (snd (ns_create dto now s)) = nd_user_id dto" "n_type (snd (ns_create dto now s)) = nd_type dto"
  by (auto simp: wrote_def ns_create_def Let_def new_notification_def new_outbox_row_def)

lemma new_rows:
  assumes "length ks = length xs" "distinct ks"
  shows "map n_id (map2 (\<lambda>u k. new_notification k now (dto u)) xs ks) = ks"
    "map (\<lambda>n. (n_user_id n, n_type n)) (map2 (\<lambda>u k. new_notification k now (dto u)) xs ks) = map (\<lambda>u. (nd_user_id (dto u), nd_type (dto u))) xs"
    "\<forall>n \<in> set (map2 (\<lambda>u k. new_notification k now (dto u)) xs ks). \<not> n_is_read n"
  using assms(1) by (induction xs ks rule: list_induct2') (auto simp: new_notification_def)

lemma new_outbox_rows:
  assumes "length ks = length ns"
  shows "map nso_payload (map2 (\<lambda>x k. new_outbox_row k now x) ns ks) = ns"
    "map nso_id (map2 (\<lambda>x k. new_outbox_row k now x) ns ks) = ks"
    "\<forall>r \<in> set (map2 (\<lambda>x k. new_outbox_row k now x) ns ks). nso_published_at r = None"
  using assms by (induction ns ks rule: list_induct2') (auto simp: new_outbox_row_def)

lemma in_map_image: "x \<in> set xs \<Longrightarrow> f x \<in> set (map f xs)"
  by simp

lemma wrote_createForUsers:
  "wrote s (fst (ns_createForUsers us dto now s)) (snd (ns_createForUsers us dto now s))"
  "map (\<lambda>n. (n_user_id n, n_type n)) (snd (ns_createForUsers us dto now s)) = map (\<lambda>u. (nd_user_id (dto u), nd_type (dto u))) us"
proof -
  let ?n = "length us" and ?k = "ns_next s"
  let ?new = "map2 (\<lambda>u k. new_notification k now (dto u)) us [?k..<?k + ?n]"
  let ?rows = "map2 (\<lambda>x k. new_outbox_row k now x) ?new [?k + ?n..<?k + 2 * ?n]"
  have l: "length [?k..<?k + ?n] = length us" "length [?k + ?n..<?k + 2 * ?n] = length ?new" by simp_all
  note nr = new_rows [OF l(1) distinct_upt, of now dto] and orw = new_outbox_rows [OF l(2), of now]
  have n: "?k \<le> n_id n \<and> n_id n < ?k + 2 * ?n" if "n \<in> set ?new" for n
    using in_map_image [OF that, of n_id] unfolding nr(1) by simp
  have r: "?k \<le> nso_id r \<and> nso_id r < ?k + 2 * ?n" if "r \<in> set ?rows" for r
    using in_map_image [OF that, of nso_id] unfolding orw(2) by simp
  have "wrote s (s\<lparr>ns_notifications := ns_notifications s @ ?new, ns_outbox := ns_outbox s @ ?rows, ns_next := ?k + 2 * ?n\<rparr>) ?new"
    unfolding wrote_def using n r nr orw by (auto intro!: exI [of _ ?rows])
  then show "wrote s (fst (ns_createForUsers us dto now s)) (snd (ns_createForUsers us dto now s))"
    by (simp add: ns_createForUsers_def Let_def)
  show "map (\<lambda>n. (n_user_id n, n_type n)) (snd (ns_createForUsers us dto now s)) = map (\<lambda>u. (nd_user_id (dto u), nd_type (dto u))) us"
    using nr(2) by (simp add: ns_createForUsers_def Let_def)
qed

text \<open>The notifications pushed to their owners.\<close>

fun pushed :: "ws_emit list \<Rightarrow> notification list" where
  "pushed [] = []"
| "pushed (ToUser u (NotificationNewWs n) # ws) = n # pushed ws"
| "pushed (_ # ws) = pushed ws"

lemma pushed_append [simp]: "pushed (a @ b) = pushed a @ pushed b"
  by (induction a rule: pushed.induct) auto

lemma pushed_news: "pushed (map (\<lambda>n. ToUser (n_user_id n) (NotificationNewWs n)) ns) = ns"
  by (induction ns) auto

text \<open>What a handler that accepts its event does.\<close>

definition tells :: "ns_db \<Rightarrow> ns_db \<Rightarrow> ws_emit list \<Rightarrow> (uuid \<times> notification_type) list \<Rightarrow> bool" where
  "tells s s' ws audience \<longleftrightarrow> wrote s s' (pushed ws) \<and> map (\<lambda>n. (n_user_id n, n_type n)) (pushed ws) = audience"

lemma tell_tells:
  assumes "tell dto emits mails now s = Inr (s', ws, ms)" "pushed emits = []"
  shows "tells s s' ws [(nd_user_id dto, nd_type dto)]"
proof -
  obtain saved where c: "ns_create dto now s = (s', saved)" "ws = ToUser (n_user_id saved) (NotificationNewWs saved) # emits"
    using assms(1) by (auto simp: tell_def Let_def split: prod.splits)
  show ?thesis using wrote_create [where s = s and dto = dto and now = now] c assms(2) by (simp add: tells_def)
qed

lemma tell_admins_tells:
  assumes "tell_admins us dto ev now s = Inr (s', ws, ms)" "\<And>n. ev \<noteq> NotificationNewWs n"
  shows "tells s s' ws (map (\<lambda>u. (nd_user_id (dto u), nd_type (dto u))) us)"
proof -
  obtain saved where c: "ns_createForUsers us dto now s = (s', saved)"
    "ws = map (\<lambda>n. ToUser (n_user_id n) (NotificationNewWs n)) saved @ [ToAdmins ev]"
    using assms(1) by (auto simp: tell_admins_def Let_def split: prod.splits)
  show ?thesis using wrote_createForUsers [where s = s and us = us and dto = dto and now = now] c by (simp add: tells_def pushed_news)
qed

lemma sellers_told:
  assumes "foldl (tell_seller_of_order oid no now) (s1, ws1) ss = (s2, ws2)" "tells s s1 ws1 a"
  shows "tells s s2 ws2 (a @ concat (map (\<lambda>(sh, sel, sid). case sel of None \<Rightarrow> [] | Some x \<Rightarrow> [(x, TypeOrderCreated)]) ss))"
  using assms
proof (induction ss arbitrary: s1 ws1 a)
  case (Cons line ss)
  obtain sh sel sid where l: "line = (sh, sel, sid)" using prod_cases3 .
  show ?case
  proof (cases sel)
    case None
    then show ?thesis using Cons by (simp add: l tell_seller_of_order_def Let_def)
  next
    case (Some seller)
    let ?dto = "\<lparr>nd_user_id = seller, nd_type = TypeOrderCreated, nd_text = NewOrderText no, nd_data = OrderNewSellerData oid no sid\<rparr>"
    obtain s' saved where c: "ns_create ?dto now s1 = (s', saved)" by fastforce
    let ?ws = "ws1 @ [ToUser (n_user_id saved) (NotificationNewWs saved), ToShop sh (OrderNewWs oid no)]"
    have "tells s s' ?ws (a @ [(seller, TypeOrderCreated)])"
      using Cons.prems(2) wrote_create [where s = s1 and dto = ?dto and now = now] c
      by (auto simp: tells_def intro: wrote_trans)
    moreover have "tell_seller_of_order oid no now (s1, ws1) line = (s', ?ws)"
      by (simp add: l Some tell_seller_of_order_def Let_def c)
    then have "foldl (tell_seller_of_order oid no now) (s', ?ws) ss = (s2, ws2)" using Cons.prems(1) by simp
    ultimately show ?thesis using Cons.IH by (fastforce simp: l Some)
  qed
qed simp


lemma accepted_iff: "(\<exists>r. dispatch ev now s = Inr r) \<longleftrightarrow> accepted ev"
proof (cases ev)
  case (OrderCancelledEv oid no sid u sh sel)
  then show ?thesis by (auto simp: handleOrderCancelled_def Let_def split: prod.split option.split)
next
  case (ReturnStatusChanged r sid no c st msg)
  then show ?thesis
    by (cases st) (auto simp: handleReturnStatusChanged_def return_text_def tell_def Let_def split: prod.split)
qed (auto simp: handleOrderCreated_def handleOrderStatusUpdated_def handleReviewCreated_def handleReviewReplied_def
    handlePayoutCreated_def handleShopRegistered_def handlePayoutStatusChanged_def handleReturnRequested_def
    handleProductModerated_def tell_def tell_admins_def Let_def split: prod.split option.split)

lemma tells_nothing [simp]: "tells s s [] []"
  by (simp add: tells_def)

lemma dispatch_tells:
  assumes "dispatch ev now s = Inr (s', ws, ms)"
  shows "tells s s' ws (addressees ev)"
proof (cases ev)
  case (OrderCreated oid no ss u amt)
  let ?dto = "\<lparr>nd_user_id = u, nd_type = TypeOrderCreated, nd_text = OrderPlacedText no amt, nd_data = OrderPlacedData oid no amt\<rparr>"
  obtain s1 saved where c: "ns_create ?dto now s = (s1, saved)" by fastforce
  have "foldl (tell_seller_of_order oid no now) (s1, [ToUser (n_user_id saved) (NotificationNewWs saved)]) ss = (s', ws)"
    using assms by (auto simp: OrderCreated handleOrderCreated_def Let_def c split: if_splits prod.splits)
  from sellers_told [OF this] wrote_create [where s = s and dto = ?dto and now = now] c
  show ?thesis by (fastforce simp: OrderCreated tells_def)
next
  case (OrderCancelledEv oid no sid u sh sel)
  let ?dto = "\<lparr>nd_user_id = u, nd_type = TypeOrderStatusChanged, nd_text = SubOrderCancelledText no,
      nd_data = SubOrderCancelledCustomerData oid no\<rparr>"
  obtain s1 saved where c: "ns_create ?dto now s = (s1, saved)" by fastforce
  have one: "tells s s1 [ToUser (n_user_id saved) (NotificationNewWs saved)] [(u, TypeOrderStatusChanged)]"
    using wrote_create [where s = s and dto = ?dto and now = now] c by (simp add: tells_def)
  show ?thesis
  proof (cases sel)
    case None
    then show ?thesis using assms one
      by (auto simp: OrderCancelledEv handleOrderCancelled_def Let_def c split: if_splits option.splits)
  next
    case (Some seller)
    let ?dto2 = "\<lparr>nd_user_id = seller, nd_type = TypeOrderStatusChanged, nd_text = OrderCancelledSellerText no,
      nd_data = SubOrderCancelledSellerData oid no sid\<rparr>"
    obtain s2 saved2 where c2: "ns_create ?dto2 now s1 = (s2, saved2)" by fastforce
    have two: "wrote s1 s2 [saved2]" "n_user_id saved2 = seller" "n_type saved2 = TypeOrderStatusChanged"
      using wrote_create [where s = s1 and dto = ?dto2 and now = now] c2 by simp_all
    show ?thesis
      using assms wrote_trans [OF _ two(1), of s "[saved]"] one two(2,3)
      by (auto simp: OrderCancelledEv Some handleOrderCancelled_def Let_def c c2 tells_def split: if_splits option.splits)
  qed
next
  case (OrderStatusUpdated oid no sid u sh st)
  then show ?thesis using assms
    by (auto simp: handleOrderStatusUpdated_def split: if_splits option.splits dest!: tell_tells)
next
  case (ReviewCreated r p nm sh sel rt)
  then show ?thesis using assms
    by (auto simp: handleReviewCreated_def split: if_splits option.splits dest!: tell_tells)
next
  case (ReviewReplied r p nm c)
  then show ?thesis using assms
    by (auto simp: handleReviewReplied_def split: if_splits option.splits dest!: tell_tells)
next
  case (PayoutCreated p amt sh nm adm)
  then show ?thesis using assms
    by (auto simp: handlePayoutCreated_def split: if_splits dest!: tell_admins_tells)
next
  case (PayoutStatusChanged p sel em nm shn amt st re)
  then show ?thesis using assms by (auto simp: handlePayoutStatusChanged_def Let_def dest!: tell_tells)
next
  case (ShopRegistered sh nm re adm)
  then show ?thesis using assms
    by (auto simp: handleShopRegistered_def Let_def split: if_splits dest!: tell_admins_tells)
next
  case (ReturnRequested r sid no sh sel c)
  then show ?thesis using assms
    by (auto simp: handleReturnRequested_def split: if_splits option.splits dest!: tell_tells)
next
  case (ReturnStatusChanged r sid no c st msg)
  then show ?thesis using assms
    by (auto simp: handleReturnStatusChanged_def split: if_splits option.splits dest!: tell_tells)
next
  case (ProductModerated p nm sh sel em sn act re)
  then show ?thesis using assms
    by (auto simp: handleProductModerated_def Let_def split: if_splits option.splits dest!: tell_tells)
qed (use assms in simp_all)

end
