(* ===== verification/Delivery.thy ===== *)
theory Delivery
  imports Notifications
begin

text \<open>
  From the outbox of the monolith to the notification service: \<open>outbox.relay.ts\<close> publishes the rows
  that are not marked yet and marks them after the confirm of the broker, and \<open>rabbitmq.service.ts\<close>
  of the notification service takes the messages, once per event id, with retries through a queue
  with a time to live and a parking queue for what cannot be handled.

  RabbitMQ, the network and the two databases answer as they like within what they document: a
  confirmed message is in every queue bound to its key, a message stays until it is acknowledged, and
  a message that dies in the retry queue comes back with a larger death count.
\<close>

subsection \<open>The relay\<close>

record outbox_row =
  ob_id :: uuid
  ob_event :: outbox_event
  ob_published_at :: "millis option"
  ob_publish_attempts :: nat
  ob_created_at :: millis

definition relay_batch_size :: nat where "relay_batch_size = 10"

definition handled_event_types :: "string list" where
  "handled_event_types =
     [''order.created'', ''order.cancelled'', ''order.status_updated'', ''review.created'', ''review.replied'',
      ''payout.created'', ''payout.status_changed'', ''shop.registered'', ''return.requested'',
      ''return.status_changed'', ''product.moderated'', ''product.created'', ''product.updated'', ''product.deleted'']"

definition claimBatch :: "outbox_row list \<Rightarrow> outbox_row list" where
  "claimBatch rows =
     take relay_batch_size (sort_key ob_created_at
       (filter (\<lambda>r. ob_published_at r = None \<and> event_type (ob_event r) \<in> set handled_event_types) rows))"

datatype publish_result = PubOk | PubFailed | PubUnroutable

text \<open>What the world answers to one publication: the result the relay sees, whether the message reached the
  queue of the notification service, and whether the UPDATE of the row succeeds.\<close>

record broker_answer =
  ba_result :: publish_result
  ba_enqueued :: bool
  ba_marked :: bool

text \<open>A message: the envelope if its body parses, and the counts of the entries of its \<open>x-death\<close> header.\<close>

record message =
  m_envelope :: "(uuid \<times> outbox_event) option"
  m_xdeath :: "nat list"

definition mark_published :: "uuid \<Rightarrow> millis \<Rightarrow> outbox_row list \<Rightarrow> outbox_row list" where
  "mark_published k now rows =
     map (\<lambda>r. if ob_id r = k \<and> ob_published_at r = None
              then r\<lparr>ob_published_at := Some now, ob_publish_attempts := Suc (ob_publish_attempts r)\<rparr> else r) rows"

definition finishPublish :: "outbox_row \<Rightarrow> broker_answer \<Rightarrow> millis \<Rightarrow> outbox_row list \<Rightarrow> outbox_row list \<times> bool" where
  "finishPublish event ans now rows =
     (if ba_result ans = PubFailed then (rows, False)
      else (if ba_marked ans then mark_published (ob_id event) now rows else rows, ba_result ans = PubOk))"

definition publishOne ::
  "(uuid \<Rightarrow> broker_answer) \<Rightarrow> millis \<Rightarrow> outbox_row list \<times> message list \<times> nat \<Rightarrow> outbox_row \<Rightarrow> outbox_row list \<times> message list \<times> nat" where
  "publishOne broker now acc event =
     (let (rows, sent, publishedCount) = acc;
          ans = broker (ob_id event);
          envelope = (ob_id event, ob_event event);
          sent' = (if ba_enqueued ans then sent @ [\<lparr>m_envelope = Some envelope, m_xdeath = []\<rparr>] else sent);
          (rows', published) = finishPublish event ans now rows
      in (rows', sent', if published then Suc publishedCount else publishedCount))"

text \<open>The rows after a poll, the messages that reached the queue, and whether the service is woken up.\<close>

definition relayOutbox ::
  "bool \<Rightarrow> bool \<Rightarrow> (uuid \<Rightarrow> broker_answer) \<Rightarrow> millis \<Rightarrow> outbox_row list \<Rightarrow> outbox_row list \<times> message list \<times> bool" where
  "relayOutbox enabled isProcessing broker now rows =
     (if \<not> enabled \<or> isProcessing then (rows, [], False)
      else
        let events = claimBatch rows
        in if events = [] then (rows, [], False)
           else let (rows', sent, publishedCount) = foldl (publishOne broker now) (rows, [], 0) events
                in (rows', sent, 0 < publishedCount))"

subsection \<open>The consumer\<close>

definition max_retry :: nat where "max_retry = 5"

datatype channel_op = PublishDlq | PublishRetry | AckMessage

text \<open>What may go wrong with the database of the service while a message is handled.\<close>

datatype db_fault = NoFault | ReadFault | InsertFault | CommitFault

definition getRetryCount :: "message \<Rightarrow> nat" where
  "getRetryCount m = sum_list (m_xdeath m)"

definition handle_transient :: "message \<Rightarrow> channel_op list" where
  "handle_transient m = (if max_retry \<le> getRetryCount m then [PublishDlq, AckMessage] else [PublishRetry, AckMessage])"

record outcome =
  oc_ns :: ns_db
  oc_ws :: "ws_emit list"
  oc_mails :: "mail list"
  oc_ops :: "channel_op list"

text \<open>The whole handler. \<open>seen\<close> is what its read of \<open>processed_events\<close> saw; the insert then meets the
  table as it is, and a violation of its key means another delivery came first. A mail leaves when
  the handler asks for it, before the commit.\<close>

definition processMessage :: "db_fault \<Rightarrow> uuid list \<Rightarrow> message \<Rightarrow> millis \<Rightarrow> ns_db \<Rightarrow> outcome" where
  "processMessage fault seen m now s =
     (case m_envelope m of
        None \<Rightarrow> \<lparr>oc_ns = s, oc_ws = [], oc_mails = [], oc_ops = [PublishDlq, AckMessage]\<rparr>
      | Some (eventId, ev) \<Rightarrow>
          if fault = ReadFault then \<lparr>oc_ns = s, oc_ws = [], oc_mails = [], oc_ops = handle_transient m\<rparr>
          else if eventId \<in> set seen then \<lparr>oc_ns = s, oc_ws = [], oc_mails = [], oc_ops = [AckMessage]\<rparr>
          else if fault = InsertFault then \<lparr>oc_ns = s, oc_ws = [], oc_mails = [], oc_ops = handle_transient m\<rparr>
          else if eventId \<in> set (ns_processed s) then \<lparr>oc_ns = s, oc_ws = [], oc_mails = [], oc_ops = [AckMessage]\<rparr>
          else
            case dispatch ev now (s\<lparr>ns_processed := ns_processed s @ [eventId]\<rparr>) of
              Inl _ \<Rightarrow> \<lparr>oc_ns = s, oc_ws = [], oc_mails = [], oc_ops = [PublishDlq, AckMessage]\<rparr>
            | Inr (s', emits, mails) \<Rightarrow>
                if fault = CommitFault then \<lparr>oc_ns = s, oc_ws = [], oc_mails = mails, oc_ops = handle_transient m\<rparr>
                else \<lparr>oc_ns = s', oc_ws = emits, oc_mails = mails, oc_ops = [AckMessage]\<rparr>)"

subsection \<open>The pipeline\<close>

record pipeline =
  pi_rows :: "outbox_row list"
  pi_ready :: "message list"
  pi_retry :: "message list"
  pi_dlq :: "message list"
  pi_ns :: ns_db
  pi_ws :: "ws_emit list"
  pi_mails :: "mail list"

fun apply_op :: "message \<Rightarrow> channel_op \<Rightarrow> pipeline \<Rightarrow> pipeline" where
  "apply_op m PublishDlq st = st\<lparr>pi_dlq := pi_dlq st @ [m]\<rparr>"
| "apply_op m PublishRetry st = st\<lparr>pi_retry := pi_retry st @ [m]\<rparr>"
| "apply_op m AckMessage st = st\<lparr>pi_ready := remove1 m (pi_ready st)\<rparr>"

text \<open>The effects of a handler whose channel lives for the first \<open>k\<close> of its operations; a message that is not
  acknowledged stays in the queue and is delivered again.\<close>

definition run_handler :: "message \<Rightarrow> nat \<Rightarrow> outcome \<Rightarrow> pipeline \<Rightarrow> pipeline" where
  "run_handler m k oc st =
     fold (apply_op m) (take k (oc_ops oc))
       (st\<lparr>pi_ns := oc_ns oc, pi_ws := pi_ws st @ oc_ws oc, pi_mails := pi_mails st @ oc_mails oc\<rparr>)"

text \<open>What the broker documents: a confirmed message is in the queue when the queue is bound to its key, and one
  that is returned is in no queue.\<close>

definition honest :: "(string \<Rightarrow> bool) \<Rightarrow> (uuid \<Rightarrow> broker_answer) \<Rightarrow> outbox_row list \<Rightarrow> bool" where
  "honest bound broker rows \<longleftrightarrow>
     list_all (\<lambda>r. (case ba_result (broker (ob_id r)) of
                      PubOk \<Rightarrow> ba_enqueued (broker (ob_id r)) = bound (event_type (ob_event r))
                    | PubUnroutable \<Rightarrow> \<not> bound (event_type (ob_event r)) \<and> \<not> ba_enqueued (broker (ob_id r))
                    | PubFailed \<Rightarrow> True)) rows"

inductive pipeline_step :: "(string \<Rightarrow> bool) \<Rightarrow> (nat list \<Rightarrow> nat list) \<Rightarrow> pipeline \<Rightarrow> pipeline \<Rightarrow> bool" for bound deadletter where
  written: "ob_id r \<notin> ob_id ` set (pi_rows st) \<Longrightarrow> ob_published_at r = None \<Longrightarrow>
     pipeline_step bound deadletter st (st\<lparr>pi_rows := pi_rows st @ [r]\<rparr>)"
| relayed: "honest bound broker (pi_rows st) \<Longrightarrow> relayOutbox enabled busy broker now (pi_rows st) = (rows', sent, woken) \<Longrightarrow>
     pipeline_step bound deadletter st (st\<lparr>pi_rows := rows', pi_ready := pi_ready st @ sent\<rparr>)"
| handled: "m \<in> set (pi_ready st) \<Longrightarrow>
     pipeline_step bound deadletter st
       (run_handler m k (processMessage fault (take j (ns_processed (pi_ns st))) m now (pi_ns st)) st)"
| expired: "m \<in> set (pi_retry st) \<Longrightarrow>
     pipeline_step bound deadletter st
       (st\<lparr>pi_retry := remove1 m (pi_retry st), pi_ready := pi_ready st @ [m\<lparr>m_xdeath := deadletter (m_xdeath m)\<rparr>]\<rparr>)"


subsection \<open>A poll of the relay\<close>

definition row_key :: "outbox_row \<Rightarrow> uuid \<times> outbox_event" where
  "row_key r = (ob_id r, ob_event r)"

lemma mark_keys [simp]: "map row_key (mark_published k now rows) = map row_key rows"
  by (auto simp: mark_published_def row_key_def)

lemma mark_marked:
  "r' \<in> set (mark_published k now rows) \<Longrightarrow> ob_published_at r' \<noteq> None \<Longrightarrow>
   row_key r' \<in> row_key ` {r \<in> set rows. ob_published_at r \<noteq> None} \<or> ob_id r' = k"
  by (auto simp: mark_published_def row_key_def image_iff)

text \<open>What a batch writes: marks only on rows of the batch that the broker did not refuse, and a message for
  each that was enqueued.\<close>

lemma publish_effect:
  assumes "foldl (publishOne broker now) (rows, sent, c) evs = (rows', sent', c')"
  shows "map row_key rows' = map row_key rows \<and>
    (\<exists>new. sent' = sent @ new \<and> (\<forall>m \<in> set new. m_envelope m \<in> (Some \<circ> row_key) ` set evs \<and> m_xdeath m = []) \<and>
      (\<forall>r' \<in> set rows'. ob_published_at r' \<noteq> None \<longrightarrow>
         row_key r' \<in> row_key ` {r \<in> set rows. ob_published_at r \<noteq> None}
         \<or> (\<exists>e \<in> set evs. ob_id e = ob_id r' \<and> ba_result (broker (ob_id e)) \<noteq> PubFailed
              \<and> (ba_enqueued (broker (ob_id e)) \<longrightarrow> Some (row_key e) \<in> m_envelope ` set new))))"
  using assms
proof (induction evs arbitrary: rows sent c)
  case Nil
  then show ?case by (auto simp: row_key_def)
next
  case (Cons e evs)
  obtain rows1 sent1 c1 where one: "publishOne broker now (rows, sent, c) e = (rows1, sent1, c1)" using prod_cases3 .
  let ?b = "broker (ob_id e)" and ?m = "\<lparr>m_envelope = Some (row_key e), m_xdeath = []\<rparr>"
  have s1: "sent1 = sent @ (if ba_enqueued ?b then [?m] else [])"
    and r1: "rows1 = (if ba_result ?b \<noteq> PubFailed \<and> ba_marked ?b then mark_published (ob_id e) now rows else rows)"
    using one by (auto simp: publishOne_def finishPublish_def Let_def row_key_def split: if_splits)
  have k1: "map row_key rows1 = map row_key rows" by (simp add: r1)
  from Cons.IH [of rows1 sent1 c1] Cons.prems one obtain new where new:
    "map row_key rows' = map row_key rows1" "sent' = sent1 @ new"
    "\<forall>m \<in> set new. m_envelope m \<in> (Some \<circ> row_key) ` set evs \<and> m_xdeath m = []"
    "\<forall>r' \<in> set rows'. ob_published_at r' \<noteq> None \<longrightarrow>
         row_key r' \<in> row_key ` {r \<in> set rows1. ob_published_at r \<noteq> None}
         \<or> (\<exists>e \<in> set evs. ob_id e = ob_id r' \<and> ba_result (broker (ob_id e)) \<noteq> PubFailed
              \<and> (ba_enqueued (broker (ob_id e)) \<longrightarrow> Some (row_key e) \<in> m_envelope ` set new))"
    by auto
  let ?new = "(if ba_enqueued ?b then [?m] else []) @ new"
  have old: "row_key r' \<in> row_key ` {r \<in> set rows. ob_published_at r \<noteq> None}
      \<or> ob_id r' = ob_id e \<and> ba_result ?b \<noteq> PubFailed" if "row_key r' \<in> row_key ` {r \<in> set rows1. ob_published_at r \<noteq> None}" for r'
  proof -
    from that obtain r where r: "r \<in> set rows1" "ob_published_at r \<noteq> None" "row_key r' = row_key r" by auto
    show ?thesis
    proof (cases "ba_result ?b \<noteq> PubFailed \<and> ba_marked ?b")
      case True
      then show ?thesis using mark_marked [of r "ob_id e" now rows] r by (auto simp: r1 row_key_def)
    qed (use r in \<open>auto simp: r1\<close>)
  qed
  show ?case
  proof (intro conjI exI [of _ ?new] ballI impI)
    show "map row_key rows' = map row_key rows" using new(1) k1 by simp
    show "sent' = sent @ ?new" using new(2) s1 by simp
    fix m assume "m \<in> set ?new"
    then show "m_envelope m \<in> (Some \<circ> row_key) ` set (e # evs)" "m_xdeath m = []" using new(3) by (auto split: if_splits)
  next
    fix r' assume "r' \<in> set rows'" "ob_published_at r' \<noteq> None"
    with new(4) consider "row_key r' \<in> row_key ` {r \<in> set rows1. ob_published_at r \<noteq> None}"
      | x where "x \<in> set evs" "ob_id x = ob_id r'" "ba_result (broker (ob_id x)) \<noteq> PubFailed"
          "ba_enqueued (broker (ob_id x)) \<longrightarrow> Some (row_key x) \<in> m_envelope ` set new" by blast
    then show "row_key r' \<in> row_key ` {r \<in> set rows. ob_published_at r \<noteq> None}
         \<or> (\<exists>e \<in> set (e # evs). ob_id e = ob_id r' \<and> ba_result (broker (ob_id e)) \<noteq> PubFailed
              \<and> (ba_enqueued (broker (ob_id e)) \<longrightarrow> Some (row_key e) \<in> m_envelope ` set ?new))"
    proof cases
      case 1
      from old [OF this] show ?thesis by auto
    next
      case 2
      then have "ba_enqueued (broker (ob_id x)) \<longrightarrow> Some (row_key x) \<in> m_envelope ` set ?new" by auto
      with 2 show ?thesis by auto
    qed
  qed
qed

lemma claimed_rows: "set (claimBatch rows) \<subseteq> set rows"
  using set_take_subset unfolding claimBatch_def by fastforce

subsection \<open>The invariant\<close>

definition event_of :: "pipeline \<Rightarrow> uuid \<Rightarrow> outbox_event option" where
  "event_of st k = map_option ob_event (find_row ob_id k (pi_rows st))"

definition messages :: "pipeline \<Rightarrow> message set" where
  "messages st = set (pi_ready st) \<union> set (pi_retry st) \<union> set (pi_dlq st)"

text \<open>The abstract state: the events that were handled, in the order of their handling.\<close>

definition handled_log :: "pipeline \<Rightarrow> (uuid \<times> outbox_event option) list" where
  "handled_log st = map (\<lambda>k. (k, event_of st k)) (ns_processed (pi_ns st))"

definition audience :: "(uuid \<times> outbox_event option) list \<Rightarrow> (uuid \<times> notification_type) list" where
  "audience lg = concat (map (\<lambda>(k, ev). case ev of None \<Rightarrow> [] | Some e \<Rightarrow> addressees e) lg)"

definition pipeline_ok :: "(string \<Rightarrow> bool) \<Rightarrow> pipeline \<Rightarrow> bool" where
  "pipeline_ok bound st \<longleftrightarrow>
     unique_keys ob_id (pi_rows st)
   \<and> (\<forall>m \<in> messages st. m_envelope m \<in> (Some \<circ> row_key) ` set (pi_rows st))
   \<and> distinct (ns_processed (pi_ns st))
   \<and> (\<forall>k \<in> set (ns_processed (pi_ns st)). \<exists>ev. event_of st k = Some ev \<and> accepted ev)
   \<and> map (\<lambda>n. (n_user_id n, n_type n)) (ns_notifications (pi_ns st)) = audience (handled_log st)
   \<and> (\<forall>r \<in> set (pi_rows st). ob_published_at r \<noteq> None \<longrightarrow> bound (event_type (ob_event r)) \<longrightarrow>
        ob_id r \<in> set (ns_processed (pi_ns st)) \<or> Some (row_key r) \<in> m_envelope ` messages st)
   \<and> (\<forall>m \<in> set (pi_retry st). getRetryCount m < max_retry)
   \<and> (\<forall>m \<in> set (pi_dlq st). \<forall>k ev. m_envelope m = Some (k, ev) \<longrightarrow> accepted ev \<longrightarrow> max_retry \<le> getRetryCount m)"

lemma pipeline_okD:
  assumes "pipeline_ok bound st"
  shows "unique_keys ob_id (pi_rows st)" "\<forall>m \<in> messages st. m_envelope m \<in> (Some \<circ> row_key) ` set (pi_rows st)"
    "distinct (ns_processed (pi_ns st))" "\<forall>k \<in> set (ns_processed (pi_ns st)). \<exists>ev. event_of st k = Some ev \<and> accepted ev"
    "map (\<lambda>n. (n_user_id n, n_type n)) (ns_notifications (pi_ns st)) = audience (handled_log st)"
    "\<forall>r \<in> set (pi_rows st). ob_published_at r \<noteq> None \<longrightarrow> bound (event_type (ob_event r)) \<longrightarrow>
        ob_id r \<in> set (ns_processed (pi_ns st)) \<or> Some (row_key r) \<in> m_envelope ` messages st"
    "\<forall>m \<in> set (pi_retry st). getRetryCount m < max_retry"
    "\<forall>m \<in> set (pi_dlq st). \<forall>k ev. m_envelope m = Some (k, ev) \<longrightarrow> accepted ev \<longrightarrow> max_retry \<le> getRetryCount m"
  using assms unfolding pipeline_ok_def by blast+

lemma event_of_row: "pipeline_ok bound st \<Longrightarrow> r \<in> set (pi_rows st) \<Longrightarrow> event_of st (ob_id r) = Some (ob_event r)"
  using find_row_in_set [of ob_id "pi_rows st" r] by (simp add: event_of_def pipeline_ok_def)

lemma event_of_keys:
  assumes "map row_key (pi_rows st') = map row_key (pi_rows st)"
  shows "event_of st' = event_of st"
proof -
  have "map_option ob_event (find_row ob_id k rows) = map_of (map row_key rows) k" for k rows
    by (induction rows) (auto simp: find_row_Cons row_key_def)
  then show ?thesis using assms by (simp add: event_of_def fun_eq_iff)
qed


subsection \<open>Handling a message\<close>

lemma process_cases:
  assumes "set seen \<subseteq> set (ns_processed s)"
  obtains (known) "oc_ns (processMessage fault seen m now s) = s" "oc_ops (processMessage fault seen m now s) = [AckMessage]"
      "\<exists>k ev. m_envelope m = Some (k, ev) \<and> k \<in> set (ns_processed s)"
    | (parked) "oc_ns (processMessage fault seen m now s) = s" "oc_ops (processMessage fault seen m now s) = [PublishDlq, AckMessage]"
      "\<And>k ev. m_envelope m = Some (k, ev) \<Longrightarrow> accepted ev \<Longrightarrow> max_retry \<le> getRetryCount m"
    | (later) "oc_ns (processMessage fault seen m now s) = s" "oc_ops (processMessage fault seen m now s) = [PublishRetry, AckMessage]"
      "getRetryCount m < max_retry" "fault \<noteq> NoFault"
    | (told) k ev new where "m_envelope m = Some (k, ev)" "k \<notin> set (ns_processed s)" "accepted ev"
      "ns_processed (oc_ns (processMessage fault seen m now s)) = ns_processed s @ [k]"
      "ns_notifications (oc_ns (processMessage fault seen m now s)) = ns_notifications s @ new"
      "map (\<lambda>n. (n_user_id n, n_type n)) new = addressees ev"
      "oc_ops (processMessage fault seen m now s) = [AckMessage]"
proof -
  let ?oc = "processMessage fault seen m now s"
  have tr: thesis if "?oc = \<lparr>oc_ns = s, oc_ws = [], oc_mails = ms, oc_ops = handle_transient m\<rparr>" "fault \<noteq> NoFault" for ms
    using that parked later by (simp add: handle_transient_def split: if_splits)
  show thesis
  proof (cases "m_envelope m")
    case None
    then show thesis by (intro parked) (simp_all add: processMessage_def)
  next
    case (Some e)
    then obtain k ev where e: "m_envelope m = Some (k, ev)" by (cases e) auto
    let ?s = "s\<lparr>ns_processed := ns_processed s @ [k]\<rparr>"
    consider "fault = ReadFault" | "fault \<noteq> ReadFault" "k \<in> set seen"
      | "fault = InsertFault" "k \<notin> set seen" | "fault \<notin> {ReadFault, InsertFault}" "k \<notin> set seen" "k \<in> set (ns_processed s)"
      | "fault \<notin> {ReadFault, InsertFault}" "k \<notin> set seen" "k \<notin> set (ns_processed s)" by blast
    then show thesis
    proof cases
      case 1
      then show thesis by (intro tr) (simp_all add: processMessage_def e)
    next
      case 2
      then show thesis using assms by (intro known) (auto simp: processMessage_def e)
    next
      case 3
      then show thesis by (intro tr) (simp_all add: processMessage_def e)
    next
      case 4
      then show thesis by (intro known) (auto simp: processMessage_def e)
    next
      case 5
      show thesis
      proof (cases "dispatch ev now ?s")
        case (Inl x)
        then have "\<not> accepted ev" using accepted_iff [of ev now ?s] by simp
        then show thesis using 5 e Inl by (intro parked) (auto simp: processMessage_def)
      next
        case (Inr y)
        then obtain s' ws ms where d: "dispatch ev now ?s = Inr (s', ws, ms)" by (cases y) auto
        have t: "tells ?s s' ws (addressees ev)" by (rule dispatch_tells [OF d])
        have acc: "accepted ev" using accepted_iff [of ev now ?s] d by blast
        show thesis
        proof (cases "fault = CommitFault")
          case True
          then show thesis using 5 by (intro tr [of ms]) (simp_all add: processMessage_def e d)
        next
          case False
          then have "?oc = \<lparr>oc_ns = s', oc_ws = ws, oc_mails = ms, oc_ops = [AckMessage]\<rparr>"
            using 5 by (simp add: processMessage_def e d)
          note oc = this
          have p: "ns_processed s' = ns_processed s @ [k]" "ns_notifications s' = ns_notifications s @ pushed ws"
              "map (\<lambda>n. (n_user_id n, n_type n)) (pushed ws) = addressees ev"
            using t by (simp_all add: tells_def wrote_def)
          show thesis
            by (rule told [OF e 5(3) acc, of "pushed ws"]) (simp_all only: oc outcome.simps p)
        qed
      qed
    qed
  qed
qed

lemma run_handler_fields [simp]:
  "pi_rows (run_handler m k oc st) = pi_rows st" "pi_ns (run_handler m k oc st) = oc_ns oc"
proof -
  have "pi_rows (fold (apply_op m) ops st') = pi_rows st' \<and> pi_ns (fold (apply_op m) ops st') = pi_ns st'" for ops st'
  proof (induction ops arbitrary: st')
    case (Cons op ops)
    then show ?case by (cases op) simp_all
  qed simp
  then show "pi_rows (run_handler m k oc st) = pi_rows st" "pi_ns (run_handler m k oc st) = oc_ns oc"
    by (simp_all add: run_handler_def)
qed

lemma take_ops: "take k [a] = [] \<or> take k [a] = [a]" "take k [a, b] \<in> {[], [a], [a, b]}"
  by (auto simp: take_Cons')

lemma remove1_keeps: "x \<in> set xs \<Longrightarrow> x \<noteq> m \<Longrightarrow> x \<in> set (remove1 m xs)" "x \<in> set (remove1 m xs) \<Longrightarrow> x \<in> set xs"
  using set_remove1_subset [of m xs] by auto

text \<open>The queues after a handler, by the operations it asked for.\<close>

definition queues_after :: "message \<Rightarrow> channel_op list \<Rightarrow> pipeline \<Rightarrow> pipeline" where
  "queues_after m ops st = fold (apply_op m) ops st"

lemma run_handler_queues:
  "messages (run_handler m k oc st) = messages (queues_after m (take k (oc_ops oc)) st)"
  "pi_retry (run_handler m k oc st) = pi_retry (queues_after m (take k (oc_ops oc)) st)"
  "pi_dlq (run_handler m k oc st) = pi_dlq (queues_after m (take k (oc_ops oc)) st)"
proof -
  have same: "pi_ready (fold (apply_op m) ops a) = pi_ready (fold (apply_op m) ops b)
      \<and> pi_retry (fold (apply_op m) ops a) = pi_retry (fold (apply_op m) ops b)
      \<and> pi_dlq (fold (apply_op m) ops a) = pi_dlq (fold (apply_op m) ops b)"
    if "pi_ready a = pi_ready b" "pi_retry a = pi_retry b" "pi_dlq a = pi_dlq b" for a b ops
    using that
  proof (induction ops arbitrary: a b)
    case (Cons op ops)
    show ?case unfolding fold_simps by (rule Cons.IH) (cases op; simp add: Cons.prems)+
  qed simp
  let ?st = "st\<lparr>pi_ns := oc_ns oc, pi_ws := pi_ws st @ oc_ws oc, pi_mails := pi_mails st @ oc_mails oc\<rparr>"
  have q: "pi_ready (fold (apply_op m) (take k (oc_ops oc)) ?st) = pi_ready (fold (apply_op m) (take k (oc_ops oc)) st)
      \<and> pi_retry (fold (apply_op m) (take k (oc_ops oc)) ?st) = pi_retry (fold (apply_op m) (take k (oc_ops oc)) st)
      \<and> pi_dlq (fold (apply_op m) (take k (oc_ops oc)) ?st) = pi_dlq (fold (apply_op m) (take k (oc_ops oc)) st)"
    by (rule same) simp_all
  show "messages (run_handler m k oc st) = messages (queues_after m (take k (oc_ops oc)) st)"
    "pi_retry (run_handler m k oc st) = pi_retry (queues_after m (take k (oc_ops oc)) st)"
    "pi_dlq (run_handler m k oc st) = pi_dlq (queues_after m (take k (oc_ops oc)) st)"
    using q unfolding run_handler_def queues_after_def messages_def by (elim conjE, simp only:)+
qed

lemma queues_acked:
  assumes "oc_ops oc = [AckMessage]"
  shows "messages (run_handler m k oc st) \<subseteq> messages st" "messages st - {m} \<subseteq> messages (run_handler m k oc st)"
    "pi_retry (run_handler m k oc st) = pi_retry st" "pi_dlq (run_handler m k oc st) = pi_dlq st"
  unfolding run_handler_queues assms
  using take_ops(1) [of k AckMessage]
  by (elim disjE; force simp: queues_after_def messages_def intro: remove1_keeps(1) dest: remove1_keeps(2))+

lemma queues_parked:
  assumes "oc_ops oc = [PublishDlq, AckMessage]" "m \<in> set (pi_ready st)"
  shows "messages (run_handler m k oc st) = messages st" "pi_retry (run_handler m k oc st) = pi_retry st"
    "set (pi_dlq (run_handler m k oc st)) \<subseteq> insert m (set (pi_dlq st))"
  unfolding run_handler_queues assms(1)
  using take_ops(2) [of k PublishDlq AckMessage] assms(2) unfolding insert_iff empty_iff
  by (elim disjE; force simp: queues_after_def messages_def intro: remove1_keeps(1) dest: remove1_keeps(2))+

lemma queues_later:
  assumes "oc_ops oc = [PublishRetry, AckMessage]" "m \<in> set (pi_ready st)"
  shows "messages (run_handler m k oc st) = messages st" "pi_dlq (run_handler m k oc st) = pi_dlq st"
    "set (pi_retry (run_handler m k oc st)) \<subseteq> insert m (set (pi_retry st))"
  unfolding run_handler_queues assms(1)
  using take_ops(2) [of k PublishRetry AckMessage] assms(2) unfolding insert_iff empty_iff
  by (elim disjE; force simp: queues_after_def messages_def intro: remove1_keeps(1) dest: remove1_keeps(2))+

lemma handled_log_same:
  assumes "map row_key (pi_rows st') = map row_key (pi_rows st)" "ns_processed (pi_ns st') = ns_processed (pi_ns st)"
  shows "handled_log st' = handled_log st"
  using assms event_of_keys [OF assms(1)] by (simp add: handled_log_def)

text \<open>A handler that leaves the database alone.\<close>

lemma quiet_ok:
  assumes "pipeline_ok bound st" "pi_rows st' = pi_rows st" "pi_ns st' = pi_ns st" "messages st' \<subseteq> messages st"
    and "\<And>m. m \<in> messages st \<Longrightarrow> m \<notin> messages st' \<Longrightarrow> \<exists>k ev. m_envelope m = Some (k, ev) \<and> k \<in> set (ns_processed (pi_ns st))"
    and "\<forall>m \<in> set (pi_retry st'). getRetryCount m < max_retry"
    and "\<forall>m \<in> set (pi_dlq st'). \<forall>k ev. m_envelope m = Some (k, ev) \<longrightarrow> accepted ev \<longrightarrow> max_retry \<le> getRetryCount m"
  shows "pipeline_ok bound st'"
proof -
  note ok = pipeline_okD [OF assms(1)]
  have ev: "event_of st' = event_of st" "handled_log st' = handled_log st"
    by (simp_all add: event_of_def handled_log_def assms(2,3) fun_eq_iff)
  have "ob_id r \<in> set (ns_processed (pi_ns st)) \<or> Some (row_key r) \<in> m_envelope ` messages st'"
    if r: "r \<in> set (pi_rows st)" "ob_published_at r \<noteq> None" "bound (event_type (ob_event r))" for r
  proof -
    from ok(6) r consider "ob_id r \<in> set (ns_processed (pi_ns st))" | m where "m \<in> messages st" "m_envelope m = Some (row_key r)" by fastforce
    then show ?thesis
    proof cases
      case 2
      then show ?thesis using assms(5) [of m] by (cases "m \<in> messages st'") (force simp: row_key_def)+
    qed simp
  qed
  then show ?thesis using ok assms(4,6,7) unfolding pipeline_ok_def assms(2,3) ev by blast
qed

lemma told_ok:
  assumes "pipeline_ok bound st" "m \<in> set (pi_ready st)" "m_envelope m = Some (k, ev)" "k \<notin> set (ns_processed (pi_ns st))" "accepted ev"
    and "pi_rows st' = pi_rows st" "ns_processed (pi_ns st') = ns_processed (pi_ns st) @ [k]"
    and "ns_notifications (pi_ns st') = ns_notifications (pi_ns st) @ new"
    and "map (\<lambda>n. (n_user_id n, n_type n)) new = addressees ev"
    and "messages st' \<subseteq> messages st" "messages st - {m} \<subseteq> messages st'" "pi_retry st' = pi_retry st" "pi_dlq st' = pi_dlq st"
  shows "pipeline_ok bound st'" and "handled_log st' = handled_log st @ [(k, Some ev)]"
    and "(k, ev) \<in> row_key ` set (pi_rows st)"
proof -
  note ok = pipeline_okD [OF assms(1)]
  have "m \<in> messages st" using assms(2) by (simp add: messages_def)
  then obtain r where r: "r \<in> set (pi_rows st)" "row_key r = (k, ev)" using ok(2) assms(3) by fastforce
  then show "(k, ev) \<in> row_key ` set (pi_rows st)" by force
  have e: "event_of st k = Some ev" using event_of_row [OF assms(1) r(1)] r(2) by (simp add: row_key_def)
  have ev: "event_of st' = event_of st" by (simp add: event_of_def assms(6) fun_eq_iff)
  show lg: "handled_log st' = handled_log st @ [(k, Some ev)]" by (simp add: handled_log_def ev assms(7) e)
  have "ob_id r \<in> set (ns_processed (pi_ns st')) \<or> Some (row_key r) \<in> m_envelope ` messages st'"
    if r: "r \<in> set (pi_rows st)" "ob_published_at r \<noteq> None" "bound (event_type (ob_event r))" for r
  proof -
    from ok(6) r consider "ob_id r \<in> set (ns_processed (pi_ns st))" | x where "x \<in> messages st" "m_envelope x = Some (row_key r)" by fastforce
    then show ?thesis
    proof cases
      case 2
      show ?thesis
      proof (cases "x = m")
        case True
        then show ?thesis using 2(2) assms(3,7) by (simp add: row_key_def)
      next
        case False
        then have "x \<in> messages st'" using 2(1) assms(11) by blast
        then show ?thesis using 2(2) by force
      qed
    qed (simp add: assms(7))
  qed
  moreover have "map (\<lambda>n. (n_user_id n, n_type n)) (ns_notifications (pi_ns st')) = audience (handled_log st')"
    unfolding lg assms(8) using ok(5) assms(9) by (simp add: audience_def)
  moreover have "\<forall>j \<in> set (ns_processed (pi_ns st')). \<exists>x. event_of st' j = Some x \<and> accepted x"
    using ok(4) e assms(5) by (auto simp: assms(7) ev)
  moreover have "distinct (ns_processed (pi_ns st'))" using ok(3) assms(4) by (simp add: assms(7))
  ultimately show "pipeline_ok bound st'"
    using ok(1,2,7,8) assms(10) unfolding pipeline_ok_def assms(6,12,13) by blast
qed

text \<open>The abstract machine: the log of handled events grows by an event of the outbox that it does not hold yet.\<close>

definition log_step :: "(uuid \<times> outbox_event) set \<Rightarrow> (uuid \<times> outbox_event option) list \<Rightarrow> (uuid \<times> outbox_event option) list \<Rightarrow> bool" where
  "log_step events lg lg' \<longleftrightarrow> lg' = lg
     \<or> (\<exists>k ev. (k, ev) \<in> events \<and> accepted ev \<and> k \<notin> fst ` set lg \<and> lg' = lg @ [(k, Some ev)])"

lemma handled_ok:
  assumes "pipeline_ok bound st" "m \<in> set (pi_ready st)" "set seen \<subseteq> set (ns_processed (pi_ns st))"
    and "st' = run_handler m k (processMessage fault seen m now (pi_ns st)) st"
  shows "pipeline_ok bound st' \<and> log_step (row_key ` set (pi_rows st')) (handled_log st) (handled_log st')"
proof -
  note ok = pipeline_okD [OF assms(1)]
  let ?oc = "processMessage fault seen m now (pi_ns st)"
  have same: "log_step (row_key ` set (pi_rows st')) (handled_log st) (handled_log st')" if "oc_ns ?oc = pi_ns st"
  proof -
    have "handled_log st' = handled_log st" by (rule handled_log_same) (simp_all add: assms(4) that)
    then show ?thesis by (simp add: log_step_def)
  qed
  from assms(3) show ?thesis
  proof (cases rule: process_cases [where fault = fault and m = m and now = now])
    case known
    note q = queues_acked [OF known(2), where m = m and k = k and st = st, folded assms(4)]
    have "pipeline_ok bound st'"
    proof (rule quiet_ok [OF assms(1) _ _ q(1)])
      fix x assume "x \<in> messages st" "x \<notin> messages st'"
      then have "x = m" using q(2) by blast
      then show "\<exists>k ev. m_envelope x = Some (k, ev) \<and> k \<in> set (ns_processed (pi_ns st))" using known(3) by simp
    qed (use ok(7,8) q known(1) in \<open>simp_all add: assms(4)\<close>)
    then show ?thesis using same [OF known(1)] by simp
  next
    case parked
    note q = queues_parked [OF parked(2) assms(2), where k = k, folded assms(4)]
    have "pipeline_ok bound st'"
    proof (rule quiet_ok [OF assms(1)])
      show "\<forall>x \<in> set (pi_dlq st'). \<forall>k ev. m_envelope x = Some (k, ev) \<longrightarrow> accepted ev \<longrightarrow> max_retry \<le> getRetryCount x"
        using q(3) ok(8) parked(3) by blast
    qed (use ok(7) q(1,2) parked(1) in \<open>simp_all add: assms(4)\<close>)
    then show ?thesis using same [OF parked(1)] by simp
  next
    case later
    note q = queues_later [OF later(2) assms(2), where k = k, folded assms(4)]
    have "pipeline_ok bound st'"
    proof (rule quiet_ok [OF assms(1)])
      show "\<forall>x \<in> set (pi_retry st'). getRetryCount x < max_retry" using q(3) ok(7) later(3) by blast
    qed (use ok(8) q(1,2) later(1) in \<open>simp_all add: assms(4)\<close>)
    then show ?thesis using same [OF later(1)] by simp
  next
    case (told j ev new)
    note q = queues_acked [OF told(7), where m = m and k = k and st = st, folded assms(4)]
    have f: "pi_rows st' = pi_rows st" "ns_processed (pi_ns st') = ns_processed (pi_ns st) @ [j]"
      "ns_notifications (pi_ns st') = ns_notifications (pi_ns st) @ new"
      by (simp_all add: assms(4) told(4,5))
    note t = told_ok [OF assms(1,2) told(1-3) f told(6) q]
    have "j \<notin> fst ` set (handled_log st)" using told(2) by (auto simp: handled_log_def)
    then show ?thesis using t told(3) unfolding log_step_def f(1) by blast
  qed
qed


subsection \<open>The other steps\<close>

lemma written_ok:
  assumes "pipeline_ok bound st" "ob_id r \<notin> ob_id ` set (pi_rows st)" "ob_published_at r = None"
    and "st' = st\<lparr>pi_rows := pi_rows st @ [r]\<rparr>"
  shows "pipeline_ok bound st'" and "handled_log st' = handled_log st"
proof -
  note ok = pipeline_okD [OF assms(1)]
  have e: "event_of st' k = event_of st k" if "\<exists>ev. event_of st k = Some ev" for k
    using that by (auto simp: event_of_def assms(4) find_row_append)
  then have ev: "event_of st' k = event_of st k" if "k \<in> set (ns_processed (pi_ns st))" for k using that ok(4) by blast
  show lg: "handled_log st' = handled_log st" using ev by (simp add: handled_log_def assms(4))
  have f: "pi_rows st' = pi_rows st @ [r]" "pi_ns st' = pi_ns st" "messages st' = messages st"
    "pi_retry st' = pi_retry st" "pi_dlq st' = pi_dlq st" by (simp_all add: assms(4) messages_def)
  have "unique_keys ob_id (pi_rows st')" using ok(1) assms(2) by (simp add: f(1) unique_keys_def)
  moreover have "\<forall>k \<in> set (ns_processed (pi_ns st')). \<exists>x. event_of st' k = Some x \<and> accepted x"
    using ok(4) ev unfolding f(2) by metis
  moreover have "\<forall>r \<in> set (pi_rows st'). ob_published_at r \<noteq> None \<longrightarrow> bound (event_type (ob_event r)) \<longrightarrow>
        ob_id r \<in> set (ns_processed (pi_ns st')) \<or> Some (row_key r) \<in> m_envelope ` messages st'"
    using ok(6) assms(3) unfolding f by auto
  moreover have "\<forall>m \<in> messages st'. m_envelope m \<in> (Some \<circ> row_key) ` set (pi_rows st')" using ok(2) unfolding f by auto
  ultimately show "pipeline_ok bound st'" using ok(3,5,7,8) unfolding pipeline_ok_def lg f(2,4,5) by blast
qed

lemma claimed_key:
  assumes "unique_keys ob_id rows" "map row_key rows' = map row_key rows"
    and "r' \<in> set rows'" "e \<in> set (claimBatch rows)" "ob_id e = ob_id r'"
  shows "row_key e = row_key r'"
proof -
  have "row_key r' \<in> set (map row_key rows)" using assms(3) unfolding assms(2) [symmetric] by simp
  then obtain r where r: "r \<in> set rows" "row_key r = row_key r'" by auto
  have "e \<in> set rows" using claimed_rows assms(4) by blast
  then have "Some e = Some r" using find_row_in_set [OF assms(1), of e] find_row_in_set [OF assms(1) r(1)] assms(5) r(2)
    by (simp add: row_key_def)
  then show ?thesis using r(2) by simp
qed

lemma honest_enqueued:
  assumes "honest bound broker rows" "e \<in> set (claimBatch rows)" "ba_result (broker (ob_id e)) \<noteq> PubFailed"
    and "bound (event_type (ob_event e))"
  shows "ba_enqueued (broker (ob_id e))"
  using assms claimed_rows [of rows] unfolding honest_def list_all_iff
  by (cases "ba_result (broker (ob_id e))") force+

lemma relay_effect:
  assumes "honest bound broker rows" "unique_keys ob_id rows"
    and "relayOutbox enabled busy broker now rows = (rows', sent, woken)"
  shows "map row_key rows' = map row_key rows"
    and "\<forall>m \<in> set sent. m_envelope m \<in> (Some \<circ> row_key) ` set rows \<and> m_xdeath m = []"
    and "\<forall>r' \<in> set rows'. ob_published_at r' \<noteq> None \<longrightarrow> bound (event_type (ob_event r')) \<longrightarrow>
      row_key r' \<in> row_key ` {r \<in> set rows. ob_published_at r \<noteq> None} \<or> Some (row_key r') \<in> m_envelope ` set sent"
proof -
  have "map row_key rows' = map row_key rows
    \<and> (\<forall>m \<in> set sent. m_envelope m \<in> (Some \<circ> row_key) ` set rows \<and> m_xdeath m = [])
    \<and> (\<forall>r' \<in> set rows'. ob_published_at r' \<noteq> None \<longrightarrow> bound (event_type (ob_event r')) \<longrightarrow>
      row_key r' \<in> row_key ` {r \<in> set rows. ob_published_at r \<noteq> None} \<or> Some (row_key r') \<in> m_envelope ` set sent)"
  proof (cases "enabled \<and> \<not> busy \<and> claimBatch rows \<noteq> []")
    case False
    then have "rows' = rows" "sent = []" using assms(3) by (auto simp: relayOutbox_def Let_def split: if_splits)
    then show ?thesis by auto
  next
    case True
    then obtain c where "foldl (publishOne broker now) (rows, [], 0) (claimBatch rows) = (rows', sent, c)"
      using assms(3) by (auto simp: relayOutbox_def Let_def split: prod.splits if_splits)
    from publish_effect [OF this] obtain new where p: "map row_key rows' = map row_key rows" "sent = [] @ new"
      "\<forall>m \<in> set new. m_envelope m \<in> (Some \<circ> row_key) ` set (claimBatch rows) \<and> m_xdeath m = []"
      "\<forall>r' \<in> set rows'. ob_published_at r' \<noteq> None \<longrightarrow>
         row_key r' \<in> row_key ` {r \<in> set rows. ob_published_at r \<noteq> None}
         \<or> (\<exists>e \<in> set (claimBatch rows). ob_id e = ob_id r' \<and> ba_result (broker (ob_id e)) \<noteq> PubFailed
              \<and> (ba_enqueued (broker (ob_id e)) \<longrightarrow> Some (row_key e) \<in> m_envelope ` set new))" by (elim conjE exE) rule
    show ?thesis
    proof (intro conjI ballI impI)
      fix r' assume r': "r' \<in> set rows'" "ob_published_at r' \<noteq> None" "bound (event_type (ob_event r'))"
      with p(4) consider "row_key r' \<in> row_key ` {r \<in> set rows. ob_published_at r \<noteq> None}"
        | e where "e \<in> set (claimBatch rows)" "ob_id e = ob_id r'" "ba_result (broker (ob_id e)) \<noteq> PubFailed"
            "ba_enqueued (broker (ob_id e)) \<longrightarrow> Some (row_key e) \<in> m_envelope ` set new" by blast
      then show "row_key r' \<in> row_key ` {r \<in> set rows. ob_published_at r \<noteq> None} \<or> Some (row_key r') \<in> m_envelope ` set sent"
      proof cases
        case 2
        have k: "row_key e = row_key r'" by (rule claimed_key [OF assms(2) p(1) r'(1) 2(1,2)])
        then have "bound (event_type (ob_event e))" using r'(3) by (simp add: row_key_def)
        then show ?thesis using 2(4) honest_enqueued [OF assms(1) 2(1,3)] k p(2) by simp
      qed blast
    qed (use p(1-3) image_mono [OF claimed_rows, of "Some \<circ> row_key" rows] in auto)
  qed
  then show "map row_key rows' = map row_key rows"
    "\<forall>m \<in> set sent. m_envelope m \<in> (Some \<circ> row_key) ` set rows \<and> m_xdeath m = []"
    "\<forall>r' \<in> set rows'. ob_published_at r' \<noteq> None \<longrightarrow> bound (event_type (ob_event r')) \<longrightarrow>
      row_key r' \<in> row_key ` {r \<in> set rows. ob_published_at r \<noteq> None} \<or> Some (row_key r') \<in> m_envelope ` set sent"
    by blast+
qed

lemma row_key_map_ids: "map row_key rows' = map row_key rows \<Longrightarrow> map ob_id rows' = map ob_id rows"
proof -
  assume "map row_key rows' = map row_key rows"
  then have "map fst (map row_key rows') = map fst (map row_key rows)" by simp
  then show ?thesis by (simp add: row_key_def comp_def)
qed

lemma relayed_ok:
  assumes "pipeline_ok bound st" "honest bound broker (pi_rows st)"
    and "relayOutbox enabled busy broker now (pi_rows st) = (rows', sent, woken)"
    and "st' = st\<lparr>pi_rows := rows', pi_ready := pi_ready st @ sent\<rparr>"
  shows "pipeline_ok bound st'" and "handled_log st' = handled_log st"
proof -
  note ok = pipeline_okD [OF assms(1)]
  note eff = relay_effect [OF assms(2) ok(1) assms(3)]
  have f: "pi_rows st' = rows'" "pi_ns st' = pi_ns st" "messages st' = messages st \<union> set sent"
    "pi_retry st' = pi_retry st" "pi_dlq st' = pi_dlq st" by (auto simp: assms(4) messages_def)
  have keys: "map row_key (pi_rows st') = map row_key (pi_rows st)" by (simp add: f(1) eff(1))
  then have ids: "map ob_id (pi_rows st') = map ob_id (pi_rows st)" and im: "row_key ` set (pi_rows st') = row_key ` set (pi_rows st)"
    by (simp_all add: f(1) row_key_map_ids [OF eff(1)]) (metis eff(1) list.set_map)
  have ev: "event_of st' = event_of st" by (rule event_of_keys [OF keys])
  show lg: "handled_log st' = handled_log st" by (rule handled_log_same [OF keys]) (simp add: f(2))
  have "\<forall>m \<in> messages st'. m_envelope m \<in> (Some \<circ> row_key) ` set (pi_rows st')"
    using ok(2) eff(2) unfolding f(3) image_comp [symmetric] im by blast
  moreover have "\<forall>r \<in> set (pi_rows st'). ob_published_at r \<noteq> None \<longrightarrow> bound (event_type (ob_event r)) \<longrightarrow>
        ob_id r \<in> set (ns_processed (pi_ns st')) \<or> Some (row_key r) \<in> m_envelope ` messages st'"
  proof (intro ballI impI)
    fix r' assume r': "r' \<in> set (pi_rows st')" "ob_published_at r' \<noteq> None" "bound (event_type (ob_event r'))"
    with eff(3) consider r where "r \<in> set (pi_rows st)" "ob_published_at r \<noteq> None" "row_key r' = row_key r"
      | "Some (row_key r') \<in> m_envelope ` set sent" unfolding f(1) by blast
    then show "ob_id r' \<in> set (ns_processed (pi_ns st')) \<or> Some (row_key r') \<in> m_envelope ` messages st'"
    proof cases
      case 1
      then have "ob_id r = ob_id r'" "ob_event r = ob_event r'" by (simp_all add: row_key_def)
      then show ?thesis using ok(6) 1 r'(3) unfolding f(2,3) by fastforce
    qed (auto simp: f(3))
  qed
  moreover have "unique_keys ob_id (pi_rows st')" using ok(1) ids by (simp add: unique_keys_def)
  ultimately show "pipeline_ok bound st'" using ok(3,4,5,7,8) unfolding pipeline_ok_def lg ev f(2,4,5) by blast
qed

lemma expired_ok:
  assumes "pipeline_ok bound st" "m \<in> set (pi_retry st)"
    and "st' = st\<lparr>pi_retry := remove1 m (pi_retry st), pi_ready := pi_ready st @ [m\<lparr>m_xdeath := ds\<rparr>]\<rparr>"
  shows "pipeline_ok bound st'" and "handled_log st' = handled_log st"
proof -
  note ok = pipeline_okD [OF assms(1)]
  have f: "pi_rows st' = pi_rows st" "pi_ns st' = pi_ns st" "pi_dlq st' = pi_dlq st"
    "set (pi_retry st') \<subseteq> set (pi_retry st)" by (simp_all add: assms(3) set_remove1_subset)
  have env: "m_envelope ` messages st' = m_envelope ` messages st"
  proof
    show "m_envelope ` messages st' \<subseteq> m_envelope ` messages st"
      using assms(2) by (auto simp: assms(3) messages_def dest: remove1_keeps(2))
    show "m_envelope ` messages st \<subseteq> m_envelope ` messages st'"
    proof
      fix e assume "e \<in> m_envelope ` messages st"
      then obtain x where x: "x \<in> messages st" "e = m_envelope x" by blast
      show "e \<in> m_envelope ` messages st'"
      proof (cases "x = m")
        case True
        have "m\<lparr>m_xdeath := ds\<rparr> \<in> messages st'" by (simp add: assms(3) messages_def)
        then show ?thesis using True x(2) by (intro image_eqI [where x = "m\<lparr>m_xdeath := ds\<rparr>"]) simp_all
      next
        case False
        then have "x \<in> messages st'" using x(1) by (auto simp: assms(3) messages_def intro: remove1_keeps(1))
        then show ?thesis using x(2) by blast
      qed
    qed
  qed
  have ev: "event_of st' = event_of st" by (simp add: event_of_def f(1) fun_eq_iff)
  show lg: "handled_log st' = handled_log st" by (simp add: handled_log_def ev f(2))
  have "\<forall>m \<in> messages st'. m_envelope m \<in> (Some \<circ> row_key) ` set (pi_rows st')"
  proof
    fix x assume "x \<in> messages st'"
    then have "m_envelope x \<in> m_envelope ` messages st" using env by (metis imageI)
    then show "m_envelope x \<in> (Some \<circ> row_key) ` set (pi_rows st')" using ok(2) unfolding f(1) by (elim imageE) (simp only:)
  qed
  moreover have "\<forall>x \<in> set (pi_retry st'). getRetryCount x < max_retry" using ok(7) f(4) by blast
  ultimately show "pipeline_ok bound st'" using ok(1,3-6,8) unfolding pipeline_ok_def lg ev f(1-3) env by (intro conjI)
qed

subsection \<open>Every run\<close>

lemma pipeline_step_ok:
  assumes "pipeline_step bound deadletter st st'" "pipeline_ok bound st"
  shows "pipeline_ok bound st' \<and> log_step (row_key ` set (pi_rows st')) (handled_log st) (handled_log st')"
  using assms
proof (induction rule: pipeline_step.induct)
  case (written r st)
  from written_ok [OF written(3,1,2) refl] show ?case by (simp add: log_step_def)
next
  case (relayed broker st enabled busy now rows' sent woken)
  from relayed_ok [OF relayed(3,1,2) refl] show ?case by (simp add: log_step_def)
next
  case (handled m st k fault j now)
  show ?case by (rule handled_ok [OF handled(2,1) set_take_subset refl])
next
  case (expired m st)
  from expired_ok [OF expired(2,1) refl] show ?case by (simp add: log_step_def)
qed

lemma step_rows:
  assumes "pipeline_step bound deadletter st st'" "pipeline_ok bound st"
  shows "row_key ` set (pi_rows st) \<subseteq> row_key ` set (pi_rows st')"
  using assms
proof (induction rule: pipeline_step.induct)
  case (relayed broker st enabled busy now rows' sent woken)
  have "set (map row_key rows') = set (map row_key (pi_rows st))"
    using relay_effect(1) [OF relayed(1) pipeline_okD(1) [OF relayed(3)] relayed(2)] by simp
  then show ?case by simp
qed auto

definition pipeline_started :: "pipeline \<Rightarrow> bool" where
  "pipeline_started st \<longleftrightarrow> pi_rows st = [] \<and> pi_ready st = [] \<and> pi_retry st = [] \<and> pi_dlq st = []
     \<and> ns_processed (pi_ns st) = [] \<and> ns_notifications (pi_ns st) = []"

lemma started_ok: "pipeline_started st \<Longrightarrow> pipeline_ok bound st"
  by (simp add: pipeline_started_def pipeline_ok_def messages_def unique_keys_def handled_log_def audience_def)

text \<open>The abstract machine over its states, the events written so far and the log of the handled ones.\<close>

definition log_machine :: "(uuid \<times> outbox_event) set \<times> (uuid \<times> outbox_event option) list \<Rightarrow> (uuid \<times> outbox_event) set \<times> (uuid \<times> outbox_event option) list \<Rightarrow> bool" where
  "log_machine a b \<longleftrightarrow> fst a \<subseteq> fst b \<and> log_step (fst b) (snd a) (snd b)"

definition pipeline_view :: "pipeline \<Rightarrow> (uuid \<times> outbox_event) set \<times> (uuid \<times> outbox_event option) list" where
  "pipeline_view st = (row_key ` set (pi_rows st), handled_log st)"

interpretation delivery: simulation "pipeline_step bound deadletter" "pipeline_ok bound" pipeline_view log_machine
  for bound deadletter
proof unfold_locales
  fix s s' assume s: "pipeline_step bound deadletter s s'" "pipeline_ok bound s"
  show "pipeline_ok bound s'" using pipeline_step_ok [OF s] ..
  show "log_machine\<^sup>=\<^sup>= (pipeline_view s) (pipeline_view s')"
    using pipeline_step_ok [OF s] step_rows [OF s] by (simp add: log_machine_def pipeline_view_def)
qed

subsection \<open>A run\<close>

definition payout_row :: outbox_row where
  "payout_row = \<lparr>ob_id = 1, ob_event = PayoutStatusChanged 4 9 ''seller@shop'' ''Lan'' ''Den'' 50000 PayoutCompleted None,
     ob_published_at = None, ob_publish_attempts = 0, ob_created_at = 5\<rparr>"

definition payout_message :: message where
  "payout_message = \<lparr>m_envelope = Some (row_key payout_row), m_xdeath = []\<rparr>"

definition empty_ns :: ns_db where
  "empty_ns = \<lparr>ns_notifications = [], ns_outbox = [], ns_processed = [], ns_next = 100\<rparr>"

definition empty_pipeline :: pipeline where
  "empty_pipeline = \<lparr>pi_rows = [], pi_ready = [], pi_retry = [], pi_dlq = [], pi_ns = empty_ns, pi_ws = [], pi_mails = []\<rparr>"

definition sent_pipeline :: pipeline where
  "sent_pipeline = empty_pipeline\<lparr>pi_rows := [payout_row\<lparr>ob_published_at := Some 6, ob_publish_attempts := 1\<rparr>],
     pi_ready := [payout_message]\<rparr>"

definition told_pipeline :: pipeline where
  "told_pipeline = run_handler payout_message 5 (processMessage NoFault (take 0 (ns_processed (pi_ns sent_pipeline))) payout_message 7 (pi_ns sent_pipeline)) sent_pipeline"

lemma empty_started: "pipeline_started empty_pipeline"
  by (simp add: empty_pipeline_def pipeline_started_def empty_ns_def)

lemma sample_relay:
  "relayOutbox True False (\<lambda>_. \<lparr>ba_result = PubOk, ba_enqueued = True, ba_marked = True\<rparr>) 6 [payout_row]
   = ([payout_row\<lparr>ob_published_at := Some 6, ob_publish_attempts := 1\<rparr>], [payout_message], True)"
proof -
  have "claimBatch [payout_row] = [payout_row]"
    by (simp add: claimBatch_def payout_row_def handled_event_types_def relay_batch_size_def)
  then show ?thesis
    by (simp add: relayOutbox_def publishOne_def finishPublish_def mark_published_def payout_message_def row_key_def)
      (simp add: payout_row_def)
qed

lemma sample_sent: "(pipeline_step (\<lambda>_. True) deadletter)\<^sup>*\<^sup>* empty_pipeline sent_pipeline"
proof -
  let ?one = "empty_pipeline\<lparr>pi_rows := pi_rows empty_pipeline @ [payout_row]\<rparr>"
  have "pipeline_step (\<lambda>_. True) deadletter empty_pipeline ?one"
    by (rule pipeline_step.written) (simp_all add: empty_pipeline_def payout_row_def)
  moreover have one: "pi_rows ?one = [payout_row]" by (simp add: empty_pipeline_def)
  have "pipeline_step (\<lambda>_. True) deadletter ?one
      (?one\<lparr>pi_rows := [payout_row\<lparr>ob_published_at := Some 6, ob_publish_attempts := 1\<rparr>],
        pi_ready := pi_ready ?one @ [payout_message]\<rparr>)"
    by (rule pipeline_step.relayed [where broker = "\<lambda>_. \<lparr>ba_result = PubOk, ba_enqueued = True, ba_marked = True\<rparr>"
        and now = 6 and enabled = True and busy = False and woken = True])
      (simp add: honest_def list_all_iff, simp only: one sample_relay)
  moreover have "?one\<lparr>pi_rows := [payout_row\<lparr>ob_published_at := Some 6, ob_publish_attempts := 1\<rparr>],
        pi_ready := pi_ready ?one @ [payout_message]\<rparr> = sent_pipeline"
    by (simp add: sent_pipeline_def empty_pipeline_def)
  ultimately show ?thesis by (auto intro: rtranclp.rtrancl_into_rtrancl)
qed

lemma sample_told: "(pipeline_step (\<lambda>_. True) deadletter)\<^sup>*\<^sup>* empty_pipeline told_pipeline"
proof -
  have "pipeline_step (\<lambda>_. True) deadletter sent_pipeline told_pipeline"
    unfolding told_pipeline_def by (rule pipeline_step.handled) (simp add: sent_pipeline_def)
  with sample_sent show ?thesis by (rule rtranclp.rtrancl_into_rtrancl)
qed

lemma sample_dispatch:
  "dispatch (PayoutStatusChanged 4 9 ''seller@shop'' ''Lan'' ''Den'' 50000 PayoutCompleted None) now s
   = handlePayoutStatusChanged 4 9 ''seller@shop'' ''Lan'' ''Den'' 50000 PayoutCompleted None now s"
  by simp

text \<open>C13. Whatever the broker, the network and the two databases do, the notification service handles each
  event once: every run of the relay and the consumer (publications that fail, are repeated or returned,
  deliveries that are repeated, run concurrently, are interrupted before their acknowledgement, or fail
  on the database) is a run of the machine that appends events of the outbox, one at a time and each
  at most once, to a log; and the notifications in the database are those of the logged events, in that
  order, for exactly the users these events address.\<close>

theorem delivery_refines_log:
  assumes "(pipeline_step bound deadletter)\<^sup>*\<^sup>* st0 st" and "pipeline_started st0"
  shows "log_machine\<^sup>*\<^sup>* ({}, []) (pipeline_view st)
    \<and> distinct (map fst (handled_log st))
    \<and> map (\<lambda>n. (n_user_id n, n_type n)) (ns_notifications (pi_ns st)) = audience (handled_log st)"
proof -
  note ok0 = started_ok [OF assms(2), where bound = bound]
  have v: "pipeline_view st0 = ({}, [])" using assms(2) by (simp add: pipeline_view_def pipeline_started_def handled_log_def)
  note ok = pipeline_okD [OF delivery.run_keeps [OF assms(1) ok0]]
  have "map fst (handled_log st) = ns_processed (pi_ns st)" by (simp add: handled_log_def comp_def)
  then show ?thesis using delivery.run_simulates [OF assms(1) ok0] ok(3,5) by (simp only: v simp_thms)
qed

theorem delivery_refines_log_witness:
  "log_machine\<^sup>*\<^sup>* ({}, []) (pipeline_view told_pipeline)
   \<and> map (\<lambda>n. (n_user_id n, n_type n)) (ns_notifications (pi_ns told_pipeline)) = audience (handled_log told_pipeline)
   \<and> handled_log told_pipeline = [(1, Some (ob_event payout_row))]"
proof -
  have "handled_log told_pipeline = [(1, Some (ob_event payout_row))]"
    by (simp add: handled_log_def event_of_def told_pipeline_def processMessage_def sent_pipeline_def payout_message_def
        row_key_def payout_row_def empty_pipeline_def empty_ns_def sample_dispatch handlePayoutStatusChanged_def tell_def
        ns_create_def Let_def find_row_Cons)
  then show ?thesis using delivery_refines_log [OF sample_told empty_started] by simp
qed



subsection \<open>One message, from its delivery to its rest\<close>

text \<open>The deliveries of one message until the handler no longer sends it to the retry queue. The world may fail on
  each attempt in its own way; the broker gives the message back with the header that \<open>deadletter\<close> makes.\<close>

partial_function (option) settle ::
  "(nat list \<Rightarrow> nat list) \<Rightarrow> (nat \<Rightarrow> db_fault) \<Rightarrow> nat \<Rightarrow> message \<Rightarrow> millis \<Rightarrow> ns_db \<Rightarrow> (nat \<times> outcome) option" where
  "settle deadletter faults i m now s =
     (let oc = processMessage (faults i) (ns_processed s) m now s
      in if PublishRetry \<in> set (oc_ops oc)
         then settle deadletter faults (Suc i) (m\<lparr>m_xdeath := deadletter (m_xdeath m)\<rparr>) now (oc_ns oc)
         else Some (i, oc))"

lemma attempt_rests:
  assumes "PublishRetry \<notin> set (oc_ops (processMessage fault (ns_processed s) m now s))"
    and "m_envelope m = Some (k, ev)" "accepted ev" "fault = NoFault \<or> getRetryCount m < max_retry"
  shows "k \<in> set (ns_processed (oc_ns (processMessage fault (ns_processed s) m now s)))"
  using order_refl
proof (cases rule: process_cases [where fault = fault and m = m and now = now and s = s])
  case parked
  obtain x where d: "dispatch ev now (s\<lparr>ns_processed := ns_processed s @ [k]\<rparr>) = Inr x"
    using assms(3) accepted_iff [of ev now "s\<lparr>ns_processed := ns_processed s @ [k]\<rparr>"] by blast
  have "fault = NoFault" using parked(3) [OF assms(2,3)] assms(4) by auto
  then show ?thesis using parked(2) assms(2) d
    by (cases x) (auto simp: processMessage_def split: if_splits)
qed (use assms(1,2) in auto)

lemma attempt_retries:
  assumes "PublishRetry \<in> set (oc_ops (processMessage fault (ns_processed s) m now s))"
  shows "getRetryCount m < max_retry" "fault \<noteq> NoFault" "oc_ns (processMessage fault (ns_processed s) m now s) = s"
  using assms by (cases rule: process_cases [OF order_refl, where fault = fault and m = m and now = now and s = s]; simp)+

lemma settle_from:
  assumes "\<forall>ds. sum_list (deadletter ds) = Suc (sum_list ds)" "getRetryCount m = i" "i \<le> max_retry"
  shows "\<exists>j oc. settle deadletter faults i m now s = Some (j, oc) \<and> j \<le> max_retry
    \<and> (\<forall>k ev a. m_envelope m = Some (k, ev) \<longrightarrow> accepted ev \<longrightarrow> i \<le> a \<longrightarrow> a \<le> max_retry \<longrightarrow> faults a = NoFault \<longrightarrow>
          k \<in> set (ns_processed (oc_ns oc)))"
  using assms(2,3)
proof (induction "max_retry - i" arbitrary: i m rule: less_induct)
  case (less i m)
  let ?oc = "processMessage (faults i) (ns_processed s) m now s" and ?m = "m\<lparr>m_xdeath := deadletter (m_xdeath m)\<rparr>"
  show ?case
  proof (cases "PublishRetry \<in> set (oc_ops ?oc)")
    case False
    then have st: "settle deadletter faults i m now s = Some (i, ?oc)" by (simp add: settle.simps Let_def)
    have "k \<in> set (ns_processed (oc_ns ?oc))"
      if "m_envelope m = Some (k, ev)" "accepted ev" "i \<le> a" "a \<le> max_retry" "faults a = NoFault" for k ev a
      using attempt_rests [OF False that(1,2)] that(3-5) less(2) by (cases "a = i") auto
    then show ?thesis using st less(3) by blast
  next
    case True
    note r = attempt_retries [OF True]
    have c: "getRetryCount ?m = Suc i" using assms(1) less(2) by (simp add: getRetryCount_def)
    have st: "settle deadletter faults i m now s = settle deadletter faults (Suc i) ?m now s"
      using True r(3) by (simp add: settle.simps [of _ _ i m] Let_def)
    have "max_retry - Suc i < max_retry - i" "Suc i \<le> max_retry" using r(1) less(2) by arith+
    from less(1) [OF this(1) c this(2)] obtain j oc where
      j: "settle deadletter faults (Suc i) ?m now s = Some (j, oc)" "j \<le> max_retry"
        "\<forall>k ev a. m_envelope ?m = Some (k, ev) \<longrightarrow> accepted ev \<longrightarrow> Suc i \<le> a \<longrightarrow> a \<le> max_retry \<longrightarrow> faults a = NoFault \<longrightarrow>
          k \<in> set (ns_processed (oc_ns oc))" by auto
    have "k \<in> set (ns_processed (oc_ns oc))"
      if "m_envelope m = Some (k, ev)" "accepted ev" "i \<le> a" "a \<le> max_retry" "faults a = NoFault" for k ev a
    proof -
      have "a \<noteq> i" using r(2) that(5) by auto
      then have "Suc i \<le> a" using that(3) by simp
      then show ?thesis using j(3) that by simp
    qed
    then show ?thesis using j(1,2) unfolding st by blast
  qed
qed


definition count_death :: "nat list \<Rightarrow> nat list" where
  "count_death ds = (case ds of [] \<Rightarrow> [1] | d # r \<Rightarrow> Suc d # r)"


lemma settle_loops:
  "settle deadletter faults i m now s = Some y \<Longrightarrow>
   \<not> (deadletter = (\<lambda>_. [1]) \<and> faults = (\<lambda>_. ReadFault) \<and> m_envelope m \<noteq> None \<and> getRetryCount m < max_retry)"
proof (rule settle.raw_induct [where P = "\<lambda>deadletter faults i m now s y.
      \<not> (deadletter = (\<lambda>_. [1]) \<and> faults = (\<lambda>_. ReadFault) \<and> m_envelope m \<noteq> None \<and> getRetryCount m < max_retry)"])
  fix settle' :: "(nat list \<Rightarrow> nat list) \<Rightarrow> (nat \<Rightarrow> db_fault) \<Rightarrow> nat \<Rightarrow> message \<Rightarrow> millis \<Rightarrow> ns_db \<Rightarrow> (nat \<times> outcome) option"
    and deadletter faults i m now s y
  assume IH: "\<And>deadletter faults i m now s y. settle' deadletter faults i m now s = Some y \<Longrightarrow>
      \<not> (deadletter = (\<lambda>_. [1]) \<and> faults = (\<lambda>_. ReadFault) \<and> m_envelope m \<noteq> None \<and> getRetryCount m < max_retry)"
    and run: "(let oc = processMessage (faults i) (ns_processed s) m now s
      in if PublishRetry \<in> set (oc_ops oc)
         then settle' deadletter faults (Suc i) (m\<lparr>m_xdeath := deadletter (m_xdeath m)\<rparr>) now (oc_ns oc)
         else Some (i, oc)) = Some y"
  show "\<not> (deadletter = (\<lambda>_. [1]) \<and> faults = (\<lambda>_. ReadFault) \<and> m_envelope m \<noteq> None \<and> getRetryCount m < max_retry)"
  proof
    assume l: "deadletter = (\<lambda>_. [1]) \<and> faults = (\<lambda>_. ReadFault) \<and> m_envelope m \<noteq> None \<and> getRetryCount m < max_retry"
    then have oc: "processMessage (faults i) (ns_processed s) m now s
        = \<lparr>oc_ns = s, oc_ws = [], oc_mails = [], oc_ops = [PublishRetry, AckMessage]\<rparr>"
      by (auto simp: processMessage_def handle_transient_def)
    have "settle' deadletter faults (Suc i) (m\<lparr>m_xdeath := deadletter (m_xdeath m)\<rparr>) now s = Some y"
      using run unfolding Let_def oc by simp
    from IH [OF this] l show False by (simp add: getRetryCount_def max_retry_def)
  qed
qed

text \<open>The count in the header is all that ends the retries: with a broker that gives a message back without
  adding to it (every return shows one death), a message whose handling keeps failing is retried for ever
  and never reaches the parking queue.\<close>

theorem retries_need_the_count:
  assumes "m_envelope m = Some (k, ev)" and "m_xdeath m = []"
  shows "settle (\<lambda>_. [1]) (\<lambda>_. ReadFault) 0 m now s = None"
proof -
  have "getRetryCount m < max_retry" by (simp add: assms(2) getRetryCount_def max_retry_def)
  then show ?thesis
    using settle_loops [of "\<lambda>_. [1]" "\<lambda>_. ReadFault" 0 m now s] assms(1)
    by (cases "settle (\<lambda>_. [1]) (\<lambda>_. ReadFault) 0 m now s") auto
qed

theorem retries_need_the_count_witness:
  "settle (\<lambda>_. [1]) (\<lambda>_. ReadFault) 0 payout_message 7 empty_ns = None"
  by (rule retries_need_the_count [of _ 1 "ob_event payout_row"]) (simp_all add: payout_message_def row_key_def payout_row_def)

text \<open>A mail is not part of the transaction. When the commit fails after the handler asked for its mails, the
  mails have left, the database is as before and the message is retried; the attempt that succeeds sends
  the same mails again, although the notifications are written once.\<close>

theorem mail_may_repeat:
  assumes "m_envelope m = Some (k, ev)" and "k \<notin> set (ns_processed s)" and "getRetryCount m < max_retry"
    and "dispatch ev now (s\<lparr>ns_processed := ns_processed s @ [k]\<rparr>) = Inr (s', ws, mails)"
  shows "oc_mails (processMessage CommitFault (ns_processed s) m now s) = mails
    \<and> oc_ns (processMessage CommitFault (ns_processed s) m now s) = s
    \<and> oc_ops (processMessage CommitFault (ns_processed s) m now s) = [PublishRetry, AckMessage]
    \<and> oc_mails (processMessage NoFault (ns_processed s) (m\<lparr>m_xdeath := ds\<rparr>) now s) = mails
    \<and> ns_notifications (oc_ns (processMessage NoFault (ns_processed s) (m\<lparr>m_xdeath := ds\<rparr>) now s)) = ns_notifications s'"
  using assms by (simp add: processMessage_def handle_transient_def)

theorem mail_may_repeat_witness:
  "\<exists>mail n. oc_mails (processMessage CommitFault [] payout_message 7 empty_ns) = [mail]
    \<and> oc_ns (processMessage CommitFault [] payout_message 7 empty_ns) = empty_ns
    \<and> oc_mails (processMessage NoFault [] (payout_message\<lparr>m_xdeath := [1]\<rparr>) 7 empty_ns) = [mail]
    \<and> ns_notifications (oc_ns (processMessage NoFault [] (payout_message\<lparr>m_xdeath := [1]\<rparr>) 7 empty_ns)) = [n]"
proof -
  obtain s' ws mails where d: "dispatch (ob_event payout_row) 7 (empty_ns\<lparr>ns_processed := ns_processed empty_ns @ [1]\<rparr>)
      = Inr (s', ws, mails)" "length mails = 1" "length (ns_notifications s') = 1"
    by (simp add: payout_row_def handlePayoutStatusChanged_def tell_def ns_create_def Let_def empty_ns_def)
  then obtain mail n where "mails = [mail]" "ns_notifications s' = [n]" by (auto simp: length_Suc_conv)
  then show ?thesis
    using mail_may_repeat [of payout_message 1 "ob_event payout_row" empty_ns 7 s' ws mails "[1]"] d(1)
    by (simp add: payout_message_def row_key_def payout_row_def empty_ns_def getRetryCount_def max_retry_def)
qed

end
