(* ===== verification/ReadModel.thy ===== *)
theory ReadModel
  imports Delivery Pagination
begin

text \<open>
  The way back: the notification service publishes each notification it wrote
  (\<open>notification-outbox.relay.ts\<close>), the monolith copies it into its table \<open>notification_read\<close>
  (\<open>notification-projection.consumer.ts\<close>, \<open>notification.service.ts\<close>), where its user lists it
  and marks it as read. A row of that table is a notification again; its user must exist.
\<close>

subsection \<open>The relay of the notification service\<close>

definition ns_relay_batch_size :: nat where "ns_relay_batch_size = 20"

definition ns_claimBatch :: "ns_outbox_row list \<Rightarrow> ns_outbox_row list" where
  "ns_claimBatch rows =
     take ns_relay_batch_size (sort_key nso_created_at (filter (\<lambda>r. nso_published_at r = None) rows))"

record projection_message =
  pm_envelope :: "(uuid \<times> notification) option"
  pm_redelivered :: bool

definition ns_mark_published :: "uuid \<Rightarrow> millis \<Rightarrow> ns_outbox_row list \<Rightarrow> ns_outbox_row list" where
  "ns_mark_published k now rows =
     map (\<lambda>r. if nso_id r = k \<and> nso_published_at r = None
              then r\<lparr>nso_published_at := Some now, nso_publish_attempts := Suc (nso_publish_attempts r)\<rparr> else r) rows"

definition ns_publishOne ::
  "(uuid \<Rightarrow> broker_answer) \<Rightarrow> millis \<Rightarrow> ns_outbox_row list \<times> projection_message list \<Rightarrow> ns_outbox_row
    \<Rightarrow> ns_outbox_row list \<times> projection_message list" where
  "ns_publishOne broker now acc event =
     (let (rows, sent) = acc;
          ans = broker (nso_id event);
          envelope = (nso_id event, nso_payload event);
          sent' = (if ba_enqueued ans then sent @ [\<lparr>pm_envelope = Some envelope, pm_redelivered = False\<rparr>] else sent)
      in if ba_result ans = PubFailed then (rows, sent')
         else (if ba_marked ans then ns_mark_published (nso_id event) now rows else rows, sent'))"

definition ns_relayOutbox ::
  "bool \<Rightarrow> (uuid \<Rightarrow> broker_answer) \<Rightarrow> millis \<Rightarrow> ns_outbox_row list \<Rightarrow> ns_outbox_row list \<times> projection_message list" where
  "ns_relayOutbox isProcessing broker now rows =
     (if isProcessing then (rows, []) else foldl (ns_publishOne broker now) (rows, []) (ns_claimBatch rows))"

subsection \<open>The read model\<close>

record read_db =
  rd_rows :: "notification list"
  rd_processed :: "uuid list"
  rd_users :: "uuid list"

datatype read_error = NotificationNotFound | UserMissing

definition upsertProjection :: "notification \<Rightarrow> read_db \<Rightarrow> read_error + read_db" where
  "upsertProjection payload rd =
     (if n_id payload \<in> n_id ` set (rd_rows rd) then Inr rd
      else if n_user_id payload \<notin> set (rd_users rd) then Inl UserMissing
      else Inr (rd\<lparr>rd_rows := rd_rows rd @ [payload]\<rparr>))"

datatype settlement = Acked | Requeued

definition retry_once :: "projection_message \<Rightarrow> settlement" where
  "retry_once m = (if pm_redelivered m then Acked else Requeued)"

text \<open>The handler; \<open>seen\<close> and the faults are as for the notification service.\<close>

definition projectMessage :: "db_fault \<Rightarrow> uuid list \<Rightarrow> projection_message \<Rightarrow> read_db \<Rightarrow> read_db \<times> settlement" where
  "projectMessage fault seen m rd =
     (case pm_envelope m of
        None \<Rightarrow> (rd, Acked)
      | Some (eventId, payload) \<Rightarrow>
          if fault = ReadFault then (rd, retry_once m)
          else if eventId \<in> set seen then (rd, Acked)
          else if fault = InsertFault then (rd, retry_once m)
          else if eventId \<in> set (rd_processed rd) then (rd, Acked)
          else
            case upsertProjection payload (rd\<lparr>rd_processed := rd_processed rd @ [eventId]\<rparr>) of
              Inl _ \<Rightarrow> (rd, retry_once m)
            | Inr rd' \<Rightarrow> if fault = CommitFault then (rd, retry_once m) else (rd', Acked))"

definition user_notifications :: "uuid \<Rightarrow> bool option \<Rightarrow> read_db \<Rightarrow> notification list" where
  "user_notifications userId is_read rd =
     order_desc (\<lambda>n. Some (n_created_at n))
       (filter (\<lambda>n. n_user_id n = userId \<and> (case is_read of None \<Rightarrow> True | Some b \<Rightarrow> n_is_read n = b)) (rd_rows rd))"

definition getNotifications ::
  "uuid \<Rightarrow> bool option \<Rightarrow> nat option \<Rightarrow> nat option \<Rightarrow> read_db \<Rightarrow> notification paginated" where
  "getNotifications userId is_read qpage qlimit rd = paginate qpage qlimit (user_notifications userId is_read rd)"

definition markAsRead :: "uuid \<Rightarrow> uuid \<Rightarrow> read_db \<Rightarrow> read_error + (read_db \<times> notification)" where
  "markAsRead userId notificationId rd =
     (case find (\<lambda>n. n_id n = notificationId \<and> n_user_id n = userId) (rd_rows rd) of
        None \<Rightarrow> Inl NotificationNotFound
      | Some n \<Rightarrow> Inr (rd\<lparr>rd_rows := save_row n_id (n\<lparr>n_is_read := True\<rparr>) (rd_rows rd)\<rparr>, n\<lparr>n_is_read := True\<rparr>))"

definition markAllAsRead :: "uuid \<Rightarrow> read_db \<Rightarrow> read_db \<times> nat" where
  "markAllAsRead userId rd =
     (let unread = (\<lambda>n. n_user_id n = userId \<and> \<not> n_is_read n)
      in (rd\<lparr>rd_rows := map (\<lambda>n. if unread n then n\<lparr>n_is_read := True\<rparr> else n) (rd_rows rd)\<rparr>,
          length (filter unread (rd_rows rd))))"

subsection \<open>Runs\<close>

record feed =
  fe_ns :: ns_db
  fe_queue :: "projection_message list"
  fe_read :: read_db

text \<open>A message that is not acknowledged, because the handler asks for it or because the channel died, is
  delivered again with its flag set.\<close>

inductive feed_step :: "feed \<Rightarrow> feed \<Rightarrow> bool" where
  notified: "dispatch ev now (s\<lparr>ns_processed := ps\<rparr>) = Inr (s', ws, mails) \<Longrightarrow> s = fe_ns st \<Longrightarrow> feed_step st (st\<lparr>fe_ns := s'\<rparr>)"
| relayed: "ns_relayOutbox busy broker now (ns_outbox (fe_ns st)) = (rows', sent) \<Longrightarrow>
     feed_step st (st\<lparr>fe_ns := (fe_ns st)\<lparr>ns_outbox := rows'\<rparr>, fe_queue := fe_queue st @ sent\<rparr>)"
| projected: "m \<in> set (fe_queue st) \<Longrightarrow>
     projectMessage fault (take j (rd_processed (fe_read st))) m (fe_read st) = (rd', ans) \<Longrightarrow>
     feed_step st (st\<lparr>fe_read := rd',
       fe_queue := remove1 m (fe_queue st) @ (if ans = Acked \<and> alive then [] else [m\<lparr>pm_redelivered := True\<rparr>])\<rparr>)"
| read_one: "markAsRead u k (fe_read st) = Inr (rd', n) \<Longrightarrow> feed_step st (st\<lparr>fe_read := rd'\<rparr>)"
| read_all: "markAllAsRead u (fe_read st) = (rd', c) \<Longrightarrow> feed_step st (st\<lparr>fe_read := rd'\<rparr>)"
| registered: "feed_step st (st\<lparr>fe_read := (fe_read st)\<lparr>rd_users := rd_users (fe_read st) @ [u]\<rparr>\<rparr>)"

definition outbox_key :: "ns_outbox_row \<Rightarrow> uuid \<times> notification" where
  "outbox_key r = (nso_id r, nso_payload r)"

text \<open>What the service wrote: every row of its outbox holds one of its notifications, unread, under ids of its own.\<close>

definition ns_ok :: "ns_db \<Rightarrow> bool" where
  "ns_ok s \<longleftrightarrow>
     (\<forall>r \<in> set (ns_outbox s). nso_payload r \<in> set (ns_notifications s) \<and> \<not> n_is_read (nso_payload r))
   \<and> distinct (map n_id (ns_notifications s)) \<and> (\<forall>n \<in> set (ns_notifications s). n_id n < ns_next s)"

definition unread :: "notification \<Rightarrow> notification" where
  "unread n = n\<lparr>n_is_read := False\<rparr>"

definition feed_ok :: "feed \<Rightarrow> bool" where
  "feed_ok st \<longleftrightarrow> ns_ok (fe_ns st)
   \<and> (\<forall>m \<in> set (fe_queue st). \<forall>e. pm_envelope m = Some e \<longrightarrow> e \<in> outbox_key ` set (ns_outbox (fe_ns st)))
   \<and> distinct (map n_id (rd_rows (fe_read st)))
   \<and> (\<forall>n \<in> set (rd_rows (fe_read st)). unread n \<in> nso_payload ` set (ns_outbox (fe_ns st))
        \<and> n_user_id n \<in> set (rd_users (fe_read st)))"

lemma unread_simps [simp]:
  "n_id (unread n) = n_id n" "n_user_id (unread n) = n_user_id n" "unread (n\<lparr>n_is_read := b\<rparr>) = unread n"
  "unread (unread n) = unread n" "\<not> n_is_read (unread n)"
  by (simp_all add: unread_def)

lemma unread_id: "\<not> n_is_read n \<Longrightarrow> unread n = n"
  by (simp add: unread_def)

lemma wrote_ok:
  assumes "wrote s s' new" "ns_ok s"
  shows "ns_ok s'" "set (ns_outbox s) \<subseteq> set (ns_outbox s')"
proof -
  obtain rows where w: "ns_notifications s' = ns_notifications s @ new" "ns_next s \<le> ns_next s'"
    "ns_outbox s' = ns_outbox s @ rows" "map nso_payload rows = new" "distinct (map n_id new)"
    "\<forall>n \<in> set new. ns_next s \<le> n_id n \<and> n_id n < ns_next s' \<and> \<not> n_is_read n"
    using assms(1) unfolding wrote_def by blast
  show "set (ns_outbox s) \<subseteq> set (ns_outbox s')" by (simp add: w(3))
  have p: "nso_payload r \<in> set new" if "r \<in> set rows" for r using that w(4) by force
  have "n_id ` set (ns_notifications s) \<inter> n_id ` set new = {}" using assms(2) w(6) by (fastforce simp: ns_ok_def)
  then show "ns_ok s'" using assms(2) w(2,5,6) p by (fastforce simp: ns_ok_def w(1,3))
qed

lemma ns_publish_keys:
  assumes "foldl (ns_publishOne broker now) (rows, sent) evs = (rows', sent')"
  shows "map outbox_key rows' = map outbox_key rows
    \<and> (\<forall>m \<in> set sent'. m \<in> set sent \<or> pm_envelope m \<in> (Some \<circ> outbox_key) ` set evs)"
  using assms
proof (induction evs arbitrary: rows sent)
  case (Cons e evs)
  obtain rows1 sent1 where one: "ns_publishOne broker now (rows, sent) e = (rows1, sent1)" by fastforce
  have "map outbox_key rows1 = map outbox_key rows" "\<forall>m \<in> set sent1. m \<in> set sent \<or> pm_envelope m = Some (outbox_key e)"
    using one by (auto simp: ns_publishOne_def ns_mark_published_def outbox_key_def Let_def split: if_splits)
  then show ?case using Cons.IH [of rows1 sent1] Cons.prems one by auto
qed simp

lemma ns_relay_keys:
  assumes "ns_relayOutbox busy broker now rows = (rows', sent)"
  shows "map outbox_key rows' = map outbox_key rows" "\<forall>m \<in> set sent. pm_envelope m \<in> (Some \<circ> outbox_key) ` set rows"
proof -
  have c: "set (ns_claimBatch rows) \<subseteq> set rows" using set_take_subset unfolding ns_claimBatch_def by fastforce
  have "map outbox_key rows' = map outbox_key rows
    \<and> (\<forall>m \<in> set sent. pm_envelope m \<in> (Some \<circ> outbox_key) ` set (ns_claimBatch rows))"
    using assms ns_publish_keys [of broker now rows "[]" "ns_claimBatch rows" rows' sent]
    by (auto simp: ns_relayOutbox_def split: if_splits)
  then show "map outbox_key rows' = map outbox_key rows" "\<forall>m \<in> set sent. pm_envelope m \<in> (Some \<circ> outbox_key) ` set rows"
    using image_mono [OF c, of "Some \<circ> outbox_key"] by blast+
qed

subsection \<open>The invariant\<close>

lemma feed_okD:
  assumes "feed_ok st"
  shows "ns_ok (fe_ns st)"
    "\<forall>m \<in> set (fe_queue st). \<forall>e. pm_envelope m = Some e \<longrightarrow> e \<in> outbox_key ` set (ns_outbox (fe_ns st))"
    "distinct (map n_id (rd_rows (fe_read st)))"
    "\<forall>n \<in> set (rd_rows (fe_read st)). unread n \<in> nso_payload ` set (ns_outbox (fe_ns st))
       \<and> n_user_id n \<in> set (rd_users (fe_read st))"
  using assms unfolding feed_ok_def by blast+

text \<open>Only the read flags of the table change when its user reads.\<close>

lemma read_flags_ok:
  assumes "feed_ok st" "map unread (rd_rows rd') = map unread (rd_rows (fe_read st))" "rd_users rd' = rd_users (fe_read st)"
  shows "feed_ok (st\<lparr>fe_read := rd'\<rparr>)"
proof -
  note ok = feed_okD [OF assms(1)]
  have "map n_id (rd_rows rd') = map n_id (map unread (rd_rows rd'))" by (simp add: comp_def)
  also have "\<dots> = map n_id (rd_rows (fe_read st))" unfolding assms(2) by (simp add: comp_def)
  finally have ids: "map n_id (rd_rows rd') = map n_id (rd_rows (fe_read st))" .
  have "unread n \<in> nso_payload ` set (ns_outbox (fe_ns st)) \<and> n_user_id n \<in> set (rd_users rd')" if "n \<in> set (rd_rows rd')" for n
  proof -
    have "unread n \<in> set (map unread (rd_rows (fe_read st)))" using that unfolding assms(2) [symmetric] by simp
    then obtain y where y: "y \<in> set (rd_rows (fe_read st))" "unread n = unread y" by auto
    then have "n_user_id n = n_user_id y" by (metis unread_simps(2))
    then show ?thesis using ok(4) y assms(3) by simp
  qed
  then show ?thesis using ok(1-3) by (simp add: feed_ok_def ids)
qed

lemma mark_one_flags:
  assumes "markAsRead u k rd = Inr (rd', n)" "distinct (map n_id (rd_rows rd))"
  shows "map unread (rd_rows rd') = map unread (rd_rows rd)" "rd_users rd' = rd_users rd"
    "rd_rows rd' = map (\<lambda>x. if n_id x = k then x\<lparr>n_is_read := True\<rparr> else x) (rd_rows rd)"
proof -
  from assms(1) obtain y where y: "find (\<lambda>n. n_id n = k \<and> n_user_id n = u) (rd_rows rd) = Some y"
    "rd' = rd\<lparr>rd_rows := save_row n_id (y\<lparr>n_is_read := True\<rparr>) (rd_rows rd)\<rparr>"
    by (auto simp: markAsRead_def split: option.splits)
  then have m: "y \<in> set (rd_rows rd)" "n_id y = k" by (auto simp: find_Some_iff)
  have same: "x = y" if "x \<in> set (rd_rows rd)" "n_id x = k" for x
    using assms(2) m that by (metis distinct_map inj_onD)
  show rows: "rd_rows rd' = map (\<lambda>x. if n_id x = k then x\<lparr>n_is_read := True\<rparr> else x) (rd_rows rd)"
  proof -
    have "save_row n_id (y\<lparr>n_is_read := True\<rparr>) (rd_rows rd)
        = map (\<lambda>x. if n_id x = k then y\<lparr>n_is_read := True\<rparr> else x) (rd_rows rd)"
      using m by (force simp: save_row_def)
    also have "\<dots> = map (\<lambda>x. if n_id x = k then x\<lparr>n_is_read := True\<rparr> else x) (rd_rows rd)"
      by (rule map_cong [OF refl]) (use same in auto)
    finally show ?thesis by (simp add: y(2))
  qed
  show "map unread (rd_rows rd') = map unread (rd_rows rd)" unfolding rows by (auto intro!: map_cong simp: comp_def)
  show "rd_users rd' = rd_users rd" by (simp add: y(2))
qed

lemma mark_all_flags:
  "map unread (rd_rows (fst (markAllAsRead u rd))) = map unread (rd_rows rd)" "rd_users (fst (markAllAsRead u rd)) = rd_users rd"
  by (auto simp: markAllAsRead_def Let_def)

lemma project_cases:
  assumes "projectMessage fault seen m rd = (rd', ans)"
  obtains (same) "rd' = rd"
    | (known) k n where "rd_rows rd' = rd_rows rd" "rd_users rd' = rd_users rd" "pm_envelope m = Some (k, n)"
        "n_id n \<in> n_id ` set (rd_rows rd)"
    | (copied) k n where "rd_rows rd' = rd_rows rd @ [n]" "rd_users rd' = rd_users rd" "pm_envelope m = Some (k, n)"
        "n_id n \<notin> n_id ` set (rd_rows rd)" "n_user_id n \<in> set (rd_users rd)"
  using assms
  by (cases "pm_envelope m") (auto simp: projectMessage_def upsertProjection_def split: if_splits prod.splits)

lemma feed_step_ok:
  assumes "feed_step st st'" "feed_ok st"
  shows "feed_ok st'"
  using assms
proof (induction rule: feed_step.induct)
  case (notified ev now ps s s' ws mails st)
  note ok = feed_okD [OF notified(3)]
  have w: "wrote (s\<lparr>ns_processed := ps\<rparr>) s' (pushed ws)" using dispatch_tells [OF notified(1)] by (simp add: tells_def)
  have "ns_ok (s\<lparr>ns_processed := ps\<rparr>)" using ok(1) notified(2) by (simp add: ns_ok_def)
  note n = wrote_ok [OF w this]
  then have inc: "set (ns_outbox (fe_ns st)) \<subseteq> set (ns_outbox s')" using notified(2) by simp
  then show ?case using ok n(1) image_mono [OF inc, of outbox_key] image_mono [OF inc, of nso_payload]
    by (simp add: feed_ok_def) blast
next
  case (relayed busy broker now st rows' sent)
  note ok = feed_okD [OF relayed(2)] and k = ns_relay_keys [OF relayed(1)]
  have keys: "outbox_key ` set rows' = outbox_key ` set (ns_outbox (fe_ns st))" using k(1) by (metis list.set_map)
  then have "snd ` outbox_key ` set rows' = snd ` outbox_key ` set (ns_outbox (fe_ns st))" by simp
  then have pay: "nso_payload ` set rows' = nso_payload ` set (ns_outbox (fe_ns st))" by (simp add: image_image outbox_key_def)
  have "ns_ok ((fe_ns st)\<lparr>ns_outbox := rows'\<rparr>)"
  proof -
    have "nso_payload r \<in> set (ns_notifications (fe_ns st)) \<and> \<not> n_is_read (nso_payload r)" if "r \<in> set rows'" for r
    proof -
      have "nso_payload r \<in> nso_payload ` set (ns_outbox (fe_ns st))" using that unfolding pay [symmetric] by simp
      then show ?thesis using ok(1) unfolding ns_ok_def by (elim imageE) (simp only: simp_thms)
    qed
    then show ?thesis using ok(1) by (simp add: ns_ok_def)
  qed
  moreover have "\<forall>m \<in> set (fe_queue st @ sent). \<forall>e. pm_envelope m = Some e \<longrightarrow> e \<in> outbox_key ` set rows'"
  proof (intro ballI allI impI)
    fix x e assume x: "x \<in> set (fe_queue st @ sent)" "pm_envelope x = Some e"
    show "e \<in> outbox_key ` set rows'"
    proof (cases "x \<in> set (fe_queue st)")
      case True
      then show ?thesis using ok(2) x(2) unfolding keys by blast
    next
      case False
      then have "pm_envelope x \<in> (Some \<circ> outbox_key) ` set (ns_outbox (fe_ns st))" using k(2) x(1) by simp
      then show ?thesis unfolding keys x(2) by auto
    qed
  qed
  ultimately show ?case using ok(3,4) by (simp add: feed_ok_def pay)
next
  case (projected m st fault j rd' ans alive)
  note ok = feed_okD [OF projected(3)]
  have q: "\<forall>x \<in> set (remove1 m (fe_queue st) @ (if ans = Acked \<and> alive then [] else [m\<lparr>pm_redelivered := True\<rparr>])).
      \<forall>e. pm_envelope x = Some e \<longrightarrow> e \<in> outbox_key ` set (ns_outbox (fe_ns st))"
  proof (intro ballI allI impI)
    fix x e assume x: "x \<in> set (remove1 m (fe_queue st) @ (if ans = Acked \<and> alive then [] else [m\<lparr>pm_redelivered := True\<rparr>]))"
      "pm_envelope x = Some e"
    then consider "x \<in> set (fe_queue st)" | "x = m\<lparr>pm_redelivered := True\<rparr>"
      using remove1_keeps(2) [of x m "fe_queue st"] by (auto split: if_splits)
    then show "e \<in> outbox_key ` set (ns_outbox (fe_ns st))"
      by cases (use ok(2) projected(1) x(2) in \<open>cases e; simp\<close>)+
  qed
  from projected(2) show ?case
  proof (cases rule: project_cases)
    case same
    then show ?thesis using ok q by (simp add: feed_ok_def)
  next
    case (known k n)
    then show ?thesis using ok q by (simp add: feed_ok_def)
  next
    case (copied k n)
    have "(k, n) \<in> outbox_key ` set (ns_outbox (fe_ns st))" using ok(2) projected(1) copied(3) by blast
    then obtain r where r: "r \<in> set (ns_outbox (fe_ns st))" "nso_payload r = n" by (auto simp: outbox_key_def)
    then have "unread n = n" using ok(1) unread_id by (auto simp: ns_ok_def)
    then have "unread n \<in> nso_payload ` set (ns_outbox (fe_ns st))" using r by force
    then show ?thesis using ok q copied by (simp add: feed_ok_def)
  qed
next
  case (read_one u k st rd' n)
  from mark_one_flags(1,2) [OF read_one(1) feed_okD(3) [OF read_one(2)]] show ?case by (rule read_flags_ok [OF read_one(2)])
next
  case (read_all u st rd' c)
  then show ?case using mark_all_flags [of u "fe_read st"] by (intro read_flags_ok) simp_all
qed (auto simp: feed_ok_def)

text \<open>A row stays, and a row that is read stays read.\<close>

definition reads_kept :: "feed \<Rightarrow> feed \<Rightarrow> bool" where
  "reads_kept st st' \<longleftrightarrow> (\<forall>n \<in> set (rd_rows (fe_read st)).
     n \<in> set (rd_rows (fe_read st')) \<or> n\<lparr>n_is_read := True\<rparr> \<in> set (rd_rows (fe_read st')))"

lemma feed_step_reads:
  assumes "feed_step st st'" "feed_ok st"
  shows "reads_kept st st'"
  using assms
proof (induction rule: feed_step.induct)
  case (projected m st fault j rd' ans alive)
  from projected(2) show ?case by (cases rule: project_cases) (auto simp: reads_kept_def)
next
  case (read_one u k st rd' n)
  show ?case using mark_one_flags(3) [OF read_one(1) feed_okD(3) [OF read_one(2)]] by (auto simp: reads_kept_def)
next
  case (read_all u st rd' c)
  then have "rd_rows rd' = map (\<lambda>n. if n_user_id n = u \<and> \<not> n_is_read n then n\<lparr>n_is_read := True\<rparr> else n) (rd_rows (fe_read st))"
    by (auto simp: markAllAsRead_def Let_def)
  then show ?case by (auto simp: reads_kept_def)
qed (simp_all add: reads_kept_def)

lemma reads_kept_trans: "reads_kept a b \<Longrightarrow> reads_kept b c \<Longrightarrow> reads_kept a c"
  unfolding reads_kept_def by fastforce

interpretation feed: preserved feed_step feed_ok
  by unfold_locales (rule feed_step_ok)

definition feed_started :: "feed \<Rightarrow> bool" where
  "feed_started st \<longleftrightarrow> ns_notifications (fe_ns st) = [] \<and> ns_outbox (fe_ns st) = [] \<and> fe_queue st = [] \<and> rd_rows (fe_read st) = []"

lemma feed_started_ok: "feed_started st \<Longrightarrow> feed_ok st"
  by (simp add: feed_started_def feed_ok_def ns_ok_def)

subsection \<open>A run\<close>

definition empty_feed :: feed where
  "empty_feed = \<lparr>fe_ns = empty_ns, fe_queue = [], fe_read = \<lparr>rd_rows = [], rd_processed = [], rd_users = []\<rparr>\<rparr>"

definition paid_notice :: notification where
  "paid_notice = \<lparr>n_id = 100, n_user_id = 9, n_type = TypePayoutStatusChanged, n_text = PayoutApprovedText 50000,
     n_data = PayoutStatusChangedData 4 50000 PayoutCompleted None, n_is_read = False, n_created_at = 7\<rparr>"

definition paid_ns :: ns_db where
  "paid_ns = \<lparr>ns_notifications = [paid_notice], ns_outbox = [new_outbox_row 101 7 paid_notice], ns_processed = [1], ns_next = 102\<rparr>"

definition paid_message :: projection_message where
  "paid_message = \<lparr>pm_envelope = Some (101, paid_notice), pm_redelivered = False\<rparr>"

definition unread_feed :: feed where
  "unread_feed = \<lparr>fe_ns = paid_ns, fe_queue = [paid_message],
     fe_read = \<lparr>rd_rows = [paid_notice], rd_processed = [101], rd_users = [9]\<rparr>\<rparr>"

lemma empty_feed_started: "feed_started empty_feed"
  by (simp add: feed_started_def empty_feed_def empty_ns_def)

lemma sample_feed: "\<exists>st. feed_step\<^sup>*\<^sup>* empty_feed st \<and> rd_rows (fe_read st) = [paid_notice] \<and> fe_ns st = paid_ns \<and> feed_ok st"
proof -
  let ?users = "empty_feed\<lparr>fe_read := (fe_read empty_feed)\<lparr>rd_users := rd_users (fe_read empty_feed) @ [9]\<rparr>\<rparr>"
  have 1: "feed_step empty_feed ?users" by (rule feed_step.registered)
  have ns: "\<exists>ws mails. dispatch (PayoutStatusChanged 4 9 ''seller@shop'' ''Lan'' ''Den'' 50000 PayoutCompleted None) 7
      (empty_ns\<lparr>ns_processed := [1]\<rparr>) = Inr (paid_ns, ws, mails)"
    by (simp add: empty_ns_def paid_ns_def handlePayoutStatusChanged_def tell_def ns_create_def Let_def paid_notice_def
        new_notification_def)
  then obtain ws mails where d: "dispatch (PayoutStatusChanged 4 9 ''seller@shop'' ''Lan'' ''Den'' 50000 PayoutCompleted None) 7
      (empty_ns\<lparr>ns_processed := [1]\<rparr>) = Inr (paid_ns, ws, mails)" by blast
  let ?told = "?users\<lparr>fe_ns := paid_ns\<rparr>"
  have 2: "feed_step ?users ?told" by (rule feed_step.notified [OF d]) (simp add: empty_feed_def)
  let ?ans = "\<lparr>ba_result = PubFailed, ba_enqueued = True, ba_marked = False\<rparr>"
  have r: "ns_relayOutbox False (\<lambda>_. ?ans) 8 (ns_outbox (fe_ns ?told)) = (ns_outbox paid_ns, [paid_message])"
    by (simp add: paid_ns_def ns_relayOutbox_def ns_claimBatch_def ns_relay_batch_size_def new_outbox_row_def
        ns_publishOne_def paid_message_def)
  let ?sent = "?told\<lparr>fe_ns := (fe_ns ?told)\<lparr>ns_outbox := ns_outbox paid_ns\<rparr>, fe_queue := fe_queue ?told @ [paid_message]\<rparr>"
  have 3: "feed_step ?told ?sent" by (rule feed_step.relayed [OF r])
  let ?rd = "\<lparr>rd_rows = [paid_notice], rd_processed = [101], rd_users = [9]\<rparr>"
  have m: "paid_message \<in> set (fe_queue ?sent)" by simp
  have p: "projectMessage NoFault (take 0 (rd_processed (fe_read ?sent))) paid_message (fe_read ?sent) = (?rd, Acked)"
    by (simp add: projectMessage_def paid_message_def upsertProjection_def empty_feed_def) (simp add: paid_notice_def)
  note 4 = feed_step.projected [OF m p, of True]
  have run: "feed_step\<^sup>*\<^sup>* empty_feed (?sent\<lparr>fe_read := ?rd, fe_queue := remove1 paid_message (fe_queue ?sent) @ []\<rparr>)"
    using 1 2 3 4 by (auto intro: rtranclp.rtrancl_into_rtrancl)
  show ?thesis
    by (rule exI, intro conjI, rule run)
      (simp, simp add: paid_ns_def, rule feed.run_keeps [OF run feed_started_ok [OF empty_feed_started]])
qed

text \<open>C33. The table the users read mirrors what the notification service wrote. After every run of handled
  events, polls of the relay, deliveries (failed, repeated, interrupted) and users reading, the table
  holds each notification at most once, each is one that the service wrote, unchanged but for its read
  flag, and its user is known; so what a user is listed are notifications addressed to that user.\<close>

theorem read_model_mirrors:
  assumes "feed_step\<^sup>*\<^sup>* st0 st" and "feed_started st0"
  shows "distinct (map n_id (rd_rows (fe_read st)))
    \<and> (\<forall>n \<in> set (user_notifications u is_read (fe_read st)). n_user_id n = u
         \<and> n\<lparr>n_is_read := False\<rparr> \<in> set (ns_notifications (fe_ns st)))"
proof -
  note ok = feed_okD [OF feed.run_keeps [OF assms(1) feed_started_ok [OF assms(2)]]]
  have "n \<in> set (rd_rows (fe_read st)) \<Longrightarrow> unread n \<in> set (ns_notifications (fe_ns st))" for n
    using ok(1,4) unfolding ns_ok_def by (metis (no_types, lifting) imageE)
  then show ?thesis using ok(3) by (auto simp: user_notifications_def unread_def)
qed

theorem read_model_mirrors_witness:
  "\<exists>st. feed_step\<^sup>*\<^sup>* empty_feed st \<and> user_notifications 9 None (fe_read st) = [paid_notice]
     \<and> paid_notice \<in> set (ns_notifications (fe_ns st)) \<and> distinct (map n_id (rd_rows (fe_read st)))"
proof -
  obtain st where st: "feed_step\<^sup>*\<^sup>* empty_feed st" "rd_rows (fe_read st) = [paid_notice]" using sample_feed by blast
  have l: "user_notifications 9 None (fe_read st) = [paid_notice]"
    by (simp add: user_notifications_def st(2) order_desc_def) (simp add: paid_notice_def)
  have "paid_notice\<lparr>n_is_read := False\<rparr> = paid_notice" by (simp add: paid_notice_def)
  then show ?thesis using read_model_mirrors [OF st(1) empty_feed_started, of 9 None] st(1) l by auto
qed

text \<open>What a user has read stays read: no delivery of an event, repeated or late, and no poll of the relay resets
  the flag of a row or removes it.\<close>

theorem read_stays_read:
  assumes "feed_step\<^sup>*\<^sup>* st st'" and "feed_ok st" and "n \<in> set (rd_rows (fe_read st))"
  shows "\<exists>n' \<in> set (rd_rows (fe_read st')). n_id n' = n_id n \<and> n_user_id n' = n_user_id n \<and> (n_is_read n \<longrightarrow> n_is_read n')"
proof -
  have "reads_kept st st'" using assms(1)
  proof (induction rule: rtranclp_induct)
    case (step y z)
    then show ?case using reads_kept_trans feed_step_reads feed.run_keeps [OF step(1) assms(2)] by blast
  qed (simp add: reads_kept_def)
  then consider "n \<in> set (rd_rows (fe_read st'))" | "n\<lparr>n_is_read := True\<rparr> \<in> set (rd_rows (fe_read st'))"
    using assms(3) unfolding reads_kept_def by blast
  then show ?thesis by cases (force intro: bexI [of _ n], force intro: bexI [of _ "n\<lparr>n_is_read := True\<rparr>"])
qed

theorem read_stays_read_witness:
  "\<exists>st st'. feed_step\<^sup>*\<^sup>* st st' \<and> (\<exists>n \<in> set (rd_rows (fe_read st)). n_id n = 100 \<and> n_is_read n)
     \<and> (\<exists>n' \<in> set (rd_rows (fe_read st')). n_id n' = 100 \<and> n_is_read n')"
proof -
  obtain st where st: "feed_step\<^sup>*\<^sup>* empty_feed st" "rd_rows (fe_read st) = [paid_notice]" "feed_ok st"
    "fe_ns st = paid_ns" using sample_feed by blast
  let ?rd = "(fe_read st)\<lparr>rd_rows := [paid_notice\<lparr>n_is_read := True\<rparr>]\<rparr>"
  have "markAsRead 9 100 (fe_read st) = Inr (?rd, paid_notice\<lparr>n_is_read := True\<rparr>)"
    by (simp add: markAsRead_def st(2) save_row_def) (simp add: paid_notice_def)
  from feed_step.read_one [OF this] have s: "feed_step st (st\<lparr>fe_read := ?rd\<rparr>)" .
  let ?st = "st\<lparr>fe_read := ?rd\<rparr>"
  have "ns_relayOutbox False (\<lambda>_. \<lparr>ba_result = PubFailed, ba_enqueued = True, ba_marked = False\<rparr>) 8 (ns_outbox (fe_ns ?st))
      = (ns_outbox paid_ns, [paid_message])"
    by (simp add: st(4) paid_ns_def ns_relayOutbox_def ns_claimBatch_def ns_relay_batch_size_def new_outbox_row_def
        ns_publishOne_def paid_message_def)
  from feed_step.relayed [OF this] obtain st' where again: "feed_step\<^sup>*\<^sup>* ?st st'" by blast
  have n: "paid_notice\<lparr>n_is_read := True\<rparr> \<in> set (rd_rows (fe_read ?st))" "n_id (paid_notice\<lparr>n_is_read := True\<rparr>) = 100"
    "n_is_read (paid_notice\<lparr>n_is_read := True\<rparr>)"
    by (simp_all add: paid_notice_def)
  from read_stays_read [OF again feed_step_ok [OF s st(3)] n(1)] n(2,3)
  have "\<exists>n' \<in> set (rd_rows (fe_read st')). n_id n' = 100 \<and> n_is_read n'" by auto
  with again n show ?thesis by blast
qed

lemma filter_mark: "(\<And>x. P (g x) = P x) \<Longrightarrow> filter P (map g xs) = map g (filter P xs)"
  by (induction xs) auto

lemma order_desc_map: "order_desc f (map g xs) = map g (order_desc (\<lambda>x. f (g x)) xs)"
proof -
  have ins: "insort_key h (g x) (map g ys) = map g (insort_key (\<lambda>x. h (g x)) x ys)" for h :: "_ \<Rightarrow> int" and x ys
    by (induction ys) auto
  have "sort_key h (map g ys) = map g (sort_key (\<lambda>x. h (g x)) ys)" for h :: "_ \<Rightarrow> int" and ys
    by (induction ys) (auto simp: ins)
  then show ?thesis by (simp add: order_desc_def filter_map comp_def)
qed

text \<open>Marking everything as read: the answer is the number of notifications the user had not read, the user has
  none left to read, keeps all of them, and nobody else's list changes.\<close>

theorem mark_all_exact:
  assumes "markAllAsRead u rd = (rd', c)"
  shows "c = length (user_notifications u (Some False) rd)
    \<and> user_notifications u (Some False) rd' = []
    \<and> map n_id (user_notifications u None rd') = map n_id (user_notifications u None rd)
    \<and> (v \<noteq> u \<longrightarrow> user_notifications v f rd' = user_notifications v f rd)"
proof -
  have r: "rd_rows rd' = map (\<lambda>n. if n_user_id n = u \<and> \<not> n_is_read n then n\<lparr>n_is_read := True\<rparr> else n) (rd_rows rd)"
    and c: "c = length (filter (\<lambda>n. n_user_id n = u \<and> \<not> n_is_read n) (rd_rows rd))"
    using assms by (auto simp: markAllAsRead_def Let_def)
  let ?g = "\<lambda>n. if n_user_id n = u \<and> \<not> n_is_read n then n\<lparr>n_is_read := True\<rparr> else n"
  have ord: "map n_id (order_desc (\<lambda>n. Some (n_created_at n)) (map ?g xs)) = map n_id (order_desc (\<lambda>n. Some (n_created_at n)) xs)" for xs
    by (simp add: order_desc_map comp_def if_distrib [of n_id] if_distrib [of n_created_at] cong: if_cong)
  have all: "filter (\<lambda>n. n_user_id n = u) (rd_rows rd') = map ?g (filter (\<lambda>n. n_user_id n = u) (rd_rows rd))"
    unfolding r by (rule filter_mark) auto
  have nil: "filter (\<lambda>n. n_user_id n = u \<and> \<not> n_is_read n) (rd_rows rd') = []"
  proof -
    have "filter (\<lambda>n. n_user_id n = u \<and> \<not> n_is_read n) (map ?g xs) = []" for xs by (induction xs) auto
    then show ?thesis unfolding r .
  qed
  have other: "filter (\<lambda>n. n_user_id n = v \<and> P n) (rd_rows rd') = filter (\<lambda>n. n_user_id n = v \<and> P n) (rd_rows rd)"
    if "v \<noteq> u" for P
  proof -
    have "filter (\<lambda>n. n_user_id n = v \<and> P n) (map ?g xs) = filter (\<lambda>n. n_user_id n = v \<and> P n) xs" for xs
      using that by (induction xs) auto
    then show ?thesis unfolding r .
  qed
  have len: "length (order_desc (\<lambda>n. Some (n_created_at n)) xs) = length xs" for xs by (simp add: order_desc_def)
  have "c = length (user_notifications u (Some False) rd)" by (simp add: user_notifications_def len c)
  moreover have "user_notifications u (Some False) rd' = []" by (simp add: user_notifications_def nil order_desc_def)
  moreover have "map n_id (user_notifications u None rd') = map n_id (user_notifications u None rd)"
    using ord [of "filter (\<lambda>n. n_user_id n = u) (rd_rows rd)"] by (simp only: user_notifications_def option.case simp_thms all)
  moreover have "v \<noteq> u \<longrightarrow> user_notifications v f rd' = user_notifications v f rd"
    using other by (simp add: user_notifications_def)
  ultimately show ?thesis by blast
qed

theorem mark_all_exact_witness:
  "\<exists>rd'. markAllAsRead 9 (fe_read unread_feed) = (rd', 1) \<and> user_notifications 9 (Some False) rd' = []
     \<and> map n_id (user_notifications 9 None rd') = [100]"
proof -
  obtain rd' where m: "markAllAsRead 9 (fe_read unread_feed) = (rd', 1)"
    by (simp add: markAllAsRead_def unread_feed_def Let_def paid_notice_def)
  have "map n_id (user_notifications 9 None (fe_read unread_feed)) = [100]"
    by (simp add: user_notifications_def unread_feed_def order_desc_def paid_notice_def)
  then show ?thesis using mark_all_exact [OF m, of 9 None] m by simp
qed

end
