(* ===== verification/Accounts.thy ===== *)
theory Accounts
  imports Entities Pagination
begin

text \<open>
  Accounts, \<open>users.service.ts\<close> without its addresses: registration, passwords, profiles, the
  link to Google, the decisions of an administrator. An account is the whole row of \<open>User\<close>
  (\<open>Entities.user\<close> keeps only what the orders read).

  \<open>bcrypt\<close> and \<open>jsonwebtoken\<close> are arguments (\<open>crypto\<close>): a hash of a string under a salt,
  the comparison of a string with a hash, the signing of a payload, and its decoding with and without
  a check of the signature. E-mail addresses are ASCII.
\<close>

subsection \<open>Rows\<close>

record account =
  ac_id :: uuid
  ac_username :: string
  ac_email :: string
  ac_password :: "string option"
  ac_google_id :: "string option"
  ac_role :: user_role
  ac_status :: account_status
  ac_full_name :: "string option"
  ac_phone :: "string option"
  ac_avatar_url :: "string option"
  ac_password_changed_at :: "millis option"
  ac_created_at :: millis

record session =
  se_id :: uuid
  se_user_id :: uuid
  se_refresh_token :: string
  se_previous_refresh_token :: "string option"
  se_rotated_at :: "millis option"
  se_expires_at :: millis

datatype token_type = VerifyEmail | ResetPassword

record verification_token =
  vt_id :: uuid
  vt_user_id :: uuid
  vt_token :: uuid
  vt_type :: token_type
  vt_expires_at :: millis

record auth_db =
  accounts :: "account list"
  sessions :: "session list"
  tokens :: "verification_token list"
  auth_next :: uuid

datatype auth_msg =
  EmailTaken | UsernameTaken | UserNotFound | GoogleOnly | WrongOldPassword | SamePassword | PasswordExists
  | OwnStatus | OtherAdmin | UnknownEmail | AlreadyActive | BadToken | TokenExpired | WrongCredentials
  | NotVerified | EmailNotVerified | TokenReused | SessionExpired | UserGone | NoAccess | PasswordChanged
  | NoRefreshToken

datatype auth_error =
  AuthBadRequest auth_msg | AuthUnauthorized auth_msg | AuthForbidden auth_msg | AuthNotFound auth_msg
  | AuthInternal | AccountUnique

record access_payload =
  ap_sub :: uuid
  ap_username :: string
  ap_role :: user_role
  ap_status :: account_status
  ap_iat :: int

record refresh_payload =
  rp_sub :: uuid
  rp_session :: uuid
  rp_iat :: int

record crypto =
  cr_hash :: "nat \<Rightarrow> string \<Rightarrow> string"
  cr_compare :: "string \<Rightarrow> string \<Rightarrow> bool"
  cr_sign_access :: "access_payload \<Rightarrow> string"
  cr_sign_refresh :: "refresh_payload \<Rightarrow> string"
  cr_decode :: "string \<Rightarrow> refresh_payload option"
  cr_verify :: "string \<Rightarrow> millis \<Rightarrow> refresh_payload option"

subsection \<open>Lookups\<close>

text \<open>\<open>isDataExist\<close> and the \<open>find\<close> methods; the unique columns make a row unique.\<close>

definition findByEmail :: "string \<Rightarrow> auth_db \<Rightarrow> account option" where
  "findByEmail email d = find_row ac_email email (accounts d)"

definition findByUsername :: "string \<Rightarrow> auth_db \<Rightarrow> account option" where
  "findByUsername username d = find_row ac_username username (accounts d)"

definition findById :: "uuid \<Rightarrow> auth_db \<Rightarrow> account option" where
  "findById userID d = find_row ac_id userID (accounts d)"

definition findByGoogleId :: "string \<Rightarrow> auth_db \<Rightarrow> account option" where
  "findByGoogleId googleId d = find (\<lambda>a. ac_google_id a = Some googleId) (accounts d)"

definition emailExists :: "string \<Rightarrow> auth_db \<Rightarrow> bool" where
  "emailExists email d \<longleftrightarrow> findByEmail email d \<noteq> None"

definition usernameExists :: "string \<Rightarrow> auth_db \<Rightarrow> bool" where
  "usernameExists username d \<longleftrightarrow> findByUsername username d \<noteq> None"

definition findUserOrFail :: "uuid \<Rightarrow> auth_db \<Rightarrow> auth_error + account" where
  "findUserOrFail userId d = (case findById userId d of None \<Rightarrow> Inl (AuthNotFound UserNotFound) | Some a \<Rightarrow> Inr a)"

text \<open>A password that is null or empty counts as none.\<close>

definition truthy_password :: "account \<Rightarrow> string option" where
  "truthy_password a = (case ac_password a of Some (c # pw) \<Rightarrow> Some (c # pw) | _ \<Rightarrow> None)"

definition userHasPassword :: "uuid \<Rightarrow> auth_db \<Rightarrow> bool" where
  "userHasPassword userId d =
     (case findById userId d of None \<Rightarrow> False | Some a \<Rightarrow> truthy_password a \<noteq> None)"

definition users_countAll :: "auth_db \<Rightarrow> nat" where
  "users_countAll d = length (accounts d)"

definition countByRole :: "user_role \<Rightarrow> auth_db \<Rightarrow> nat" where
  "countByRole role d = length (filter (\<lambda>a. ac_role a = role) (accounts d))"

definition findAdminIds :: "auth_db \<Rightarrow> uuid list" where
  "findAdminIds d = map ac_id (filter (\<lambda>a. ac_role a = RoleAdmin) (accounts d))"

subsection \<open>Registration\<close>

text \<open>The unique columns of the table.\<close>

definition insert_account :: "account \<Rightarrow> auth_db \<Rightarrow> auth_error + (auth_db \<times> account)" where
  "insert_account a d =
     (if emailExists (ac_email a) d \<or> usernameExists (ac_username a) d
         \<or> (\<exists>b \<in> set (accounts d). ac_google_id a \<noteq> None \<and> ac_google_id b = ac_google_id a)
      then Inl AccountUnique
      else Inr (d\<lparr>accounts := accounts d @ [a], auth_next := Suc (auth_next d)\<rparr>, a))"

definition save_account :: "account \<Rightarrow> auth_db \<Rightarrow> auth_db" where
  "save_account a d = d\<lparr>accounts := save_row ac_id a (accounts d)\<rparr>"

definition new_account :: "uuid \<Rightarrow> string \<Rightarrow> string \<Rightarrow> string option \<Rightarrow> millis \<Rightarrow> account" where
  "new_account k username email password now =
     \<lparr>ac_id = k, ac_username = username, ac_email = email, ac_password = password, ac_google_id = None,
      ac_role = RoleCustomer, ac_status = AccPendingVerification, ac_full_name = None, ac_phone = None,
      ac_avatar_url = None, ac_password_changed_at = None, ac_created_at = now\<rparr>"

definition createCustomer ::
  "crypto \<Rightarrow> nat \<Rightarrow> string \<Rightarrow> string \<Rightarrow> string \<Rightarrow> millis \<Rightarrow> auth_db \<Rightarrow> auth_error + (auth_db \<times> account)" where
  "createCustomer C salt username password email now d =
     (if emailExists email d then Inl (AuthBadRequest EmailTaken)
      else if usernameExists username d then Inl (AuthBadRequest UsernameTaken)
      else insert_account (new_account (auth_next d) username email (Some (cr_hash C salt password)) now) d)"

definition createSeller ::
  "crypto \<Rightarrow> nat \<Rightarrow> string \<Rightarrow> string \<Rightarrow> string \<Rightarrow> millis \<Rightarrow> auth_db \<Rightarrow> auth_error + (auth_db \<times> account)" where
  "createSeller C salt username password email now d =
     (if emailExists email d then Inl (AuthBadRequest EmailTaken)
      else if usernameExists username d then Inl (AuthBadRequest UsernameTaken)
      else insert_account ((new_account (auth_next d) username email (Some (cr_hash C salt password)) now)\<lparr>ac_role := RoleSeller\<rparr>) d)"

subsection \<open>Passwords and profiles\<close>

definition changeUserPassword ::
  "crypto \<Rightarrow> nat \<Rightarrow> uuid \<Rightarrow> string \<Rightarrow> string \<Rightarrow> millis \<Rightarrow> auth_db \<Rightarrow> auth_error + auth_db" where
  "changeUserPassword C salt userID old_password new_password now d =
     (case findById userID d of
        None \<Rightarrow> Inl (AuthNotFound UserNotFound)
      | Some a \<Rightarrow>
          (case truthy_password a of
             None \<Rightarrow> Inl (AuthBadRequest GoogleOnly)
           | Some pw \<Rightarrow>
               if \<not> cr_compare C old_password pw then Inl (AuthBadRequest WrongOldPassword)
               else if old_password = new_password then Inl (AuthBadRequest SamePassword)
               else Inr (save_account (a\<lparr>ac_password := Some (cr_hash C salt new_password), ac_password_changed_at := Some now\<rparr>) d)))"

definition setUserPassword :: "crypto \<Rightarrow> nat \<Rightarrow> uuid \<Rightarrow> string \<Rightarrow> millis \<Rightarrow> auth_db \<Rightarrow> auth_error + auth_db" where
  "setUserPassword C salt userId newPassword now d =
     (case findById userId d of
        None \<Rightarrow> Inl (AuthNotFound UserNotFound)
      | Some a \<Rightarrow>
          if truthy_password a \<noteq> None then Inl (AuthBadRequest PasswordExists)
          else Inr (save_account (a\<lparr>ac_password := Some (cr_hash C salt newPassword), ac_password_changed_at := Some now\<rparr>) d))"

text \<open>A field that is absent (\<open>undefined\<close>) keeps its value; null is written.\<close>

definition updateProfile :: "uuid \<Rightarrow> string option option \<Rightarrow> string option option \<Rightarrow> auth_db \<Rightarrow> auth_error + (auth_db \<times> account)" where
  "updateProfile userId full_name phone d =
     (case findUserOrFail userId d of
        Inl e \<Rightarrow> Inl e
      | Inr a \<Rightarrow>
          let a1 = (case full_name of None \<Rightarrow> a | Some n \<Rightarrow> a\<lparr>ac_full_name := n\<rparr>);
              a2 = (case phone of None \<Rightarrow> a1 | Some p \<Rightarrow> a1\<lparr>ac_phone := p\<rparr>);
              d' = save_account a2 d
          in (case findUserOrFail userId d' of Inl e \<Rightarrow> Inl e | Inr r \<Rightarrow> Inr (d', r)))"

definition updateUserStatus ::
  "uuid \<Rightarrow> uuid \<Rightarrow> account_status \<Rightarrow> auth_db \<Rightarrow> auth_error + (auth_db \<times> account)" where
  "updateUserStatus adminId targetId status d =
     (if adminId = targetId then Inl (AuthBadRequest OwnStatus)
      else case findUserOrFail targetId d of
        Inl e \<Rightarrow> Inl e
      | Inr target \<Rightarrow>
          if ac_role target = RoleAdmin then Inl (AuthForbidden OtherAdmin)
          else let d' = save_account (target\<lparr>ac_status := status\<rparr>) d
               in (case findUserOrFail targetId d' of Inl e \<Rightarrow> Inl e | Inr r \<Rightarrow> Inr (d', r)))"

definition admin_settable_statuses :: "account_status list" where
  "admin_settable_statuses = [AccActive, AccSuspended, AccBanned]"

subsection \<open>Google\<close>

definition ascii_lower :: "char \<Rightarrow> char" where
  "ascii_lower c = (let n = of_char c :: nat in if 65 \<le> n \<and> n \<le> 90 then char_of (n + 32) else c)"

definition username_char :: "char \<Rightarrow> bool" where
  "username_char c = (let n = of_char c :: nat in 97 \<le> n \<and> n \<le> 122 \<or> 48 \<le> n \<and> n \<le> 57 \<or> n = 95)"

definition username_base :: "string \<Rightarrow> string" where
  "username_base email =
     (let base = take 20 (filter username_char (map ascii_lower (takeWhile (\<lambda>c. c \<noteq> CHR ''@'') email)))
      in if base = [] then ''user'' else base)"

text \<open>\<open>rnd\<close> is the random suffix of an attempt, \<open>stamp\<close> the one made of the clock.\<close>

definition generateUniqueUsername :: "(nat \<Rightarrow> string) \<Rightarrow> string \<Rightarrow> string \<Rightarrow> auth_db \<Rightarrow> string" where
  "generateUniqueUsername rnd stamp email d =
     (let base = username_base email;
          candidate = (\<lambda>attempt. if attempt = 0 then base else base @ ''_'' @ rnd attempt)
      in case find (\<lambda>attempt. \<not> usernameExists (candidate attempt) d) [0..<5] of
           Some attempt \<Rightarrow> candidate attempt
         | None \<Rightarrow> base @ ''_'' @ stamp)"

definition nonempty :: "string option \<Rightarrow> string option" where
  "nonempty s = (case s of Some (c # cs) \<Rightarrow> Some (c # cs) | _ \<Rightarrow> None)"

text \<open>The picture is copied to the own storage, or its address is kept when that fails.\<close>

definition google_avatar :: "(string \<Rightarrow> string option) \<Rightarrow> string \<Rightarrow> string" where
  "google_avatar mirror url = (case mirror url of None \<Rightarrow> url | Some u \<Rightarrow> u)"

definition createGoogleUser ::
  "(string \<Rightarrow> string option) \<Rightarrow> (nat \<Rightarrow> string) \<Rightarrow> string \<Rightarrow> string \<Rightarrow> string \<Rightarrow> string option \<Rightarrow> string option \<Rightarrow> millis \<Rightarrow> auth_db
    \<Rightarrow> auth_error + (auth_db \<times> account)" where
  "createGoogleUser mirror rnd stamp email googleId fullName avatarUrl now d =
     (let base = (new_account (auth_next d) (generateUniqueUsername rnd stamp email d) email None now)
                   \<lparr>ac_google_id := Some googleId, ac_status := AccActive, ac_full_name := nonempty fullName\<rparr>
      in case insert_account base d of
           Inl e \<Rightarrow> Inl e
         | Inr (d1, savedUser) \<Rightarrow>
             (case nonempty avatarUrl of
                None \<Rightarrow> Inr (d1, savedUser)
              | Some url \<Rightarrow>
                  let u = savedUser\<lparr>ac_avatar_url := Some (google_avatar mirror url)\<rparr>
                  in Inr (save_account u d1, u)))"

definition linkGoogleAccount ::
  "(string \<Rightarrow> string option) \<Rightarrow> account \<Rightarrow> string \<Rightarrow> string option \<Rightarrow> string option \<Rightarrow> bool \<Rightarrow> millis \<Rightarrow> auth_db \<Rightarrow> auth_db \<times> account" where
  "linkGoogleAccount mirror user googleId fullName avatarUrl takeoverPending now d =
     (let u1 = user\<lparr>ac_google_id := Some googleId\<rparr>;
          u2 = (if takeoverPending
                then u1\<lparr>ac_password := None, ac_password_changed_at := Some now,
                        ac_status := (if ac_role u1 = RoleSeller then AccNewSeller else AccActive)\<rparr>
                else u1);
          u3 = (if nonempty (ac_full_name u2) = None \<and> nonempty fullName \<noteq> None then u2\<lparr>ac_full_name := fullName\<rparr> else u2);
          u4 = (case nonempty avatarUrl of
                  Some url \<Rightarrow> if nonempty (ac_avatar_url u3) = None then u3\<lparr>ac_avatar_url := Some (google_avatar mirror url)\<rparr> else u3
                | None \<Rightarrow> u3)
      in (save_account u4 d, u4))"

end
