(* ===== verification/Sessions.thy ===== *)
theory Sessions
  imports Accounts
begin

text \<open>
  Signing in and staying signed in: \<open>auth.service.ts\<close>, \<open>session-rotation.service.ts\<close>, the
  strategies that check the tokens, and the operations of \<open>auth.controller.ts\<close> that do more than call them.

  A request brings its clock, salt, random strings and the outcome of copying a picture (\<open>auth_env\<close>);
  the several readings of the clock in one request are one. Mails are answers; the link in a mail is its token.
\<close>

record auth_env =
  ae_now :: millis
  ae_salt :: nat
  ae_cookie_max_age :: int
  ae_rnd :: "nat \<Rightarrow> string"
  ae_stamp :: string
  ae_mirror :: "string \<Rightarrow> string option"

datatype auth_mail = VerificationMail uuid uuid | ResetMail uuid uuid

record auth_response =
  ar_access_token :: string
  ar_refresh_token :: string
  ar_cookie_max_age :: int
  ar_user :: account

definition strip_password :: "account \<Rightarrow> account" where
  "strip_password a = a\<lparr>ac_password := None\<rparr>"

subsection \<open>Tokens and sessions\<close>

definition createTokens :: "crypto \<Rightarrow> auth_env \<Rightarrow> account \<Rightarrow> uuid \<Rightarrow> string \<times> string" where
  "createTokens C env user sessionId =
     (cr_sign_access C \<lparr>ap_sub = ac_id user, ap_username = ac_username user, ap_role = ac_role user,
                        ap_status = ac_status user, ap_iat = ae_now env div 1000\<rparr>,
      cr_sign_refresh C \<lparr>rp_sub = ac_id user, rp_session = sessionId, rp_iat = ae_now env div 1000\<rparr>)"

definition generateAndSaveSession :: "crypto \<Rightarrow> auth_env \<Rightarrow> account \<Rightarrow> auth_db \<Rightarrow> auth_db \<times> auth_response" where
  "generateAndSaveSession C env user d =
     (let sessionId = auth_next d;
          (accessToken, refreshToken) = createTokens C env user sessionId;
          se = \<lparr>se_id = sessionId, se_user_id = ac_id user, se_refresh_token = cr_hash C (ae_salt env) refreshToken,
                se_previous_refresh_token = None, se_rotated_at = None,
                se_expires_at = ae_now env + ae_cookie_max_age env\<rparr>
      in (d\<lparr>sessions := sessions d @ [se], auth_next := Suc sessionId\<rparr>,
          \<lparr>ar_access_token = accessToken, ar_refresh_token = refreshToken, ar_cookie_max_age = ae_cookie_max_age env,
           ar_user = strip_password user\<rparr>))"

definition delete_sessions_of :: "uuid \<Rightarrow> auth_db \<Rightarrow> auth_db" where
  "delete_sessions_of userId d = d\<lparr>sessions := delete_rows (\<lambda>s. se_user_id s = userId) (sessions d)\<rparr>"

definition delete_session :: "uuid \<Rightarrow> auth_db \<Rightarrow> auth_db" where
  "delete_session sessionId d = d\<lparr>sessions := delete_rows (\<lambda>s. se_id s = sessionId) (sessions d)\<rparr>"

definition verify_email_ttl :: millis where "verify_email_ttl = 300000"

definition reset_password_ttl :: millis where "reset_password_ttl = 900000"

text \<open>A new token row under a fresh id, its token a fresh uuid.\<close>

definition issue_token :: "uuid \<Rightarrow> token_type \<Rightarrow> millis \<Rightarrow> auth_db \<Rightarrow> auth_db \<times> uuid" where
  "issue_token userId ty expires d =
     (let t = Suc (auth_next d)
      in (d\<lparr>tokens := tokens d @ [\<lparr>vt_id = auth_next d, vt_user_id = userId, vt_token = t, vt_type = ty, vt_expires_at = expires\<rparr>],
            auth_next := Suc t\<rparr>, t))"

definition generateAndSendVerificationEmail :: "auth_env \<Rightarrow> account \<Rightarrow> auth_db \<Rightarrow> auth_db \<times> auth_mail list" where
  "generateAndSendVerificationEmail env user d =
     (let (d', t) = issue_token (ac_id user) VerifyEmail (ae_now env + verify_email_ttl) d
      in (d', [VerificationMail (ac_id user) t]))"

subsection \<open>Registration and the e-mail address\<close>

definition register :: "crypto \<Rightarrow> auth_env \<Rightarrow> string \<Rightarrow> string \<Rightarrow> string \<Rightarrow> auth_db \<Rightarrow> auth_error + (auth_db \<times> auth_mail list)" where
  "register C env username password email d =
     (case createCustomer C (ae_salt env) username password email (ae_now env) d of
        Inl e \<Rightarrow> Inl e | Inr (d1, newUser) \<Rightarrow> Inr (generateAndSendVerificationEmail env newUser d1))"

definition registerSeller :: "crypto \<Rightarrow> auth_env \<Rightarrow> string \<Rightarrow> string \<Rightarrow> string \<Rightarrow> auth_db \<Rightarrow> auth_error + (auth_db \<times> auth_mail list)" where
  "registerSeller C env username password email d =
     (case createSeller C (ae_salt env) username password email (ae_now env) d of
        Inl e \<Rightarrow> Inl e | Inr (d1, newUser) \<Rightarrow> Inr (generateAndSendVerificationEmail env newUser d1))"

definition already_active :: "account \<Rightarrow> bool" where
  "already_active user \<longleftrightarrow> ac_status user = AccActive
     \<or> (ac_role user = RoleSeller \<and> (ac_status user = AccPendingApproval \<or> ac_status user = AccNewSeller))"

definition delete_tokens_of :: "uuid \<Rightarrow> token_type \<Rightarrow> auth_db \<Rightarrow> auth_db" where
  "delete_tokens_of userId ty d = d\<lparr>tokens := delete_rows (\<lambda>t. vt_user_id t = userId \<and> vt_type t = ty) (tokens d)\<rparr>"

definition resendVerificationEmail :: "auth_env \<Rightarrow> string \<Rightarrow> auth_db \<Rightarrow> auth_error + (auth_db \<times> auth_mail list)" where
  "resendVerificationEmail env email d =
     (case findByEmail email d of
        None \<Rightarrow> Inl (AuthBadRequest UnknownEmail)
      | Some user \<Rightarrow>
          if already_active user then Inl (AuthBadRequest AlreadyActive)
          else Inr (generateAndSendVerificationEmail env user (delete_tokens_of (ac_id user) VerifyEmail d)))"

definition find_token :: "uuid \<Rightarrow> token_type \<Rightarrow> auth_db \<Rightarrow> verification_token option" where
  "find_token token ty d = find (\<lambda>t. vt_token t = token \<and> vt_type t = ty) (tokens d)"

definition remove_token :: "verification_token \<Rightarrow> auth_db \<Rightarrow> auth_db" where
  "remove_token t d = d\<lparr>tokens := delete_rows (\<lambda>x. vt_id x = vt_id t) (tokens d)\<rparr>"

definition verifyEmailAndActivateUser ::
  "crypto \<Rightarrow> auth_env \<Rightarrow> uuid \<Rightarrow> auth_db \<Rightarrow> auth_error + (auth_db \<times> auth_response)" where
  "verifyEmailAndActivateUser C env token d =
     (case find_token token VerifyEmail d of
        None \<Rightarrow> Inl (AuthBadRequest BadToken)
      | Some t \<Rightarrow>
          if vt_expires_at t < ae_now env then Inl (AuthBadRequest TokenExpired)
          else
            (case findById (vt_user_id t) d of
               None \<Rightarrow> Inl AuthInternal
             | Some user \<Rightarrow>
                 if already_active user then Inl (AuthBadRequest AlreadyActive)
                 else
                   let user' = user\<lparr>ac_status := (if ac_role user = RoleSeller then AccNewSeller else AccActive)\<rparr>;
                       d1 = remove_token t (save_account user' d)
                   in Inr (generateAndSaveSession C env user' (delete_sessions_of (ac_id user') d1))))"

subsection \<open>Signing in\<close>

text \<open>What \<open>LocalStrategy.validate\<close> answers; \<open>validateUser\<close> may write a token before it throws.\<close>

definition validateUser ::
  "crypto \<Rightarrow> auth_env \<Rightarrow> string \<Rightarrow> string \<Rightarrow> auth_db \<Rightarrow> auth_db \<times> auth_mail list \<times> (auth_error + account option)" where
  "validateUser C env username password d =
     (case (case findByUsername username d of Some u \<Rightarrow> Some u | None \<Rightarrow> findByEmail username d) of
        None \<Rightarrow> (d, [], Inl (AuthUnauthorized WrongCredentials))
      | Some user \<Rightarrow>
          (case truthy_password user of
             None \<Rightarrow> (d, [], Inl (AuthUnauthorized WrongCredentials))
           | Some pw \<Rightarrow>
               if \<not> cr_compare C password pw then (d, [], Inr None)
               else if ac_status user = AccPendingVerification
               then (case generateAndSendVerificationEmail env user d of
                       (d', mails) \<Rightarrow> (d', mails, Inl (AuthUnauthorized NotVerified)))
               else (d, [], Inr (Some (strip_password user)))))"

definition local_validate ::
  "crypto \<Rightarrow> auth_env \<Rightarrow> string \<Rightarrow> string \<Rightarrow> auth_db \<Rightarrow> auth_db \<times> auth_mail list \<times> (auth_error + account)" where
  "local_validate C env username password d =
     (case validateUser C env username password d of
        (d', mails, Inl e) \<Rightarrow> (d', mails, Inl e)
      | (d', mails, Inr None) \<Rightarrow> (d', mails, Inl (AuthUnauthorized WrongCredentials))
      | (d', mails, Inr (Some user)) \<Rightarrow> (d', mails, Inr user))"

definition handleLogin :: "crypto \<Rightarrow> auth_env \<Rightarrow> account \<Rightarrow> string option \<Rightarrow> auth_db \<Rightarrow> auth_db \<times> auth_response" where
  "handleLogin C env user oldRefreshToken d =
     (let d1 = (case Option.bind (nonempty oldRefreshToken) (cr_decode C) of
                  None \<Rightarrow> d | Some payload \<Rightarrow> delete_session (rp_session payload) d)
      in generateAndSaveSession C env user d1)"

text \<open>\<open>POST /auth/login\<close> behind its guard.\<close>

definition login ::
  "crypto \<Rightarrow> auth_env \<Rightarrow> string \<Rightarrow> string \<Rightarrow> string option \<Rightarrow> auth_db \<Rightarrow> auth_db \<times> auth_mail list \<times> (auth_error + auth_response)" where
  "login C env username password oldRefreshToken d =
     (case local_validate C env username password d of
        (d1, mails, Inl e) \<Rightarrow> (d1, mails, Inl e)
      | (d1, mails, Inr user) \<Rightarrow> (case handleLogin C env user oldRefreshToken d1 of (d2, rsp) \<Rightarrow> (d2, mails, Inr rsp)))"

definition locked_statuses :: "account_status list" where
  "locked_statuses = [AccBanned, AccSuspended, AccRejected]"

definition validateGoogleUser ::
  "auth_env \<Rightarrow> string \<Rightarrow> string \<Rightarrow> bool \<Rightarrow> string option \<Rightarrow> string option \<Rightarrow> auth_db \<Rightarrow> auth_error + (auth_db \<times> account)" where
  "validateGoogleUser env googleId email emailVerified fullName avatarUrl d =
     (if \<not> emailVerified then Inl (AuthUnauthorized EmailNotVerified)
      else case findByGoogleId googleId d of
        Some byGoogleId \<Rightarrow> Inr (d, strip_password byGoogleId)
      | None \<Rightarrow>
          (case findByEmail email d of
             Some byEmail \<Rightarrow>
               if ac_status byEmail \<in> set locked_statuses then Inr (d, strip_password byEmail)
               else (case linkGoogleAccount (ae_mirror env) byEmail googleId fullName avatarUrl
                            (ac_status byEmail = AccPendingVerification) (ae_now env) d of
                       (d', linked) \<Rightarrow> Inr (d', strip_password linked))
           | None \<Rightarrow>
               (case createGoogleUser (ae_mirror env) (ae_rnd env) (ae_stamp env) email googleId fullName avatarUrl (ae_now env) d of
                  Inl e \<Rightarrow> Inl e
                | Inr (d', created) \<Rightarrow> Inr (d', strip_password created))))"

datatype google_redirect = OauthStateError | AccountLocked | SignedIn auth_response

definition googleAuthCallback ::
  "crypto \<Rightarrow> auth_env \<Rightarrow> string option \<Rightarrow> string option \<Rightarrow> account \<Rightarrow> string option \<Rightarrow> auth_db \<Rightarrow> auth_db \<times> google_redirect" where
  "googleAuthCallback C env stateCookie stateQuery user oldRefreshToken d =
     (if nonempty stateCookie = None \<or> nonempty stateQuery = None \<or> stateCookie \<noteq> stateQuery then (d, OauthStateError)
      else if ac_status user \<in> set locked_statuses then (d, AccountLocked)
      else (case handleLogin C env user oldRefreshToken d of (d', rsp) \<Rightarrow> (d', SignedIn rsp)))"

subsection \<open>Passwords\<close>

definition auth_setPassword :: "crypto \<Rightarrow> auth_env \<Rightarrow> uuid \<Rightarrow> string \<Rightarrow> auth_db \<Rightarrow> auth_error + auth_db" where
  "auth_setPassword C env userId newPassword d = setUserPassword C (ae_salt env) userId newPassword (ae_now env) d"

definition changePassword :: "crypto \<Rightarrow> auth_env \<Rightarrow> uuid \<Rightarrow> string \<Rightarrow> string \<Rightarrow> auth_db \<Rightarrow> auth_error + auth_db" where
  "changePassword C env userId old_password new_password d =
     (case changeUserPassword C (ae_salt env) userId old_password new_password (ae_now env) d of
        Inl e \<Rightarrow> Inl e | Inr d1 \<Rightarrow> Inr (delete_sessions_of userId d1))"

definition handleForgotPassword :: "auth_env \<Rightarrow> string \<Rightarrow> auth_db \<Rightarrow> auth_db \<times> auth_mail list" where
  "handleForgotPassword env email d =
     (case findByEmail email d of
        None \<Rightarrow> (d, [])
      | Some user \<Rightarrow>
          (case issue_token (ac_id user) ResetPassword (ae_now env + reset_password_ttl)
                  (delete_tokens_of (ac_id user) ResetPassword d) of
             (d', t) \<Rightarrow> (d', [ResetMail (ac_id user) t])))"

definition resetPassword :: "crypto \<Rightarrow> auth_env \<Rightarrow> uuid \<Rightarrow> string \<Rightarrow> auth_db \<Rightarrow> auth_error + auth_db" where
  "resetPassword C env token new_password d =
     (case find_token token ResetPassword d of
        None \<Rightarrow> Inl (AuthBadRequest BadToken)
      | Some t \<Rightarrow>
          if vt_expires_at t < ae_now env then Inl (AuthBadRequest TokenExpired)
          else
            (case findById (vt_user_id t) d of
               None \<Rightarrow> Inl AuthInternal
             | Some user \<Rightarrow>
                 let u1 = user\<lparr>ac_password := Some (cr_hash C (ae_salt env) new_password), ac_password_changed_at := Some (ae_now env)\<rparr>;
                     u2 = (if ac_role u1 = RoleCustomer \<and> ac_status u1 = AccPendingVerification
                           then u1\<lparr>ac_status := AccActive\<rparr> else u1)
                 in Inr (delete_sessions_of (ac_id u2) (remove_token t (save_account u2 d)))))"

subsection \<open>Rotation of refresh tokens\<close>

definition refresh_rotation_grace_ms :: millis where "refresh_rotation_grace_ms = 10000"

datatype rotation_verdict = VNotFound | VExpired session | VReuseDetected session | VOk session bool

definition verifyAndLock :: "crypto \<Rightarrow> uuid \<Rightarrow> uuid \<Rightarrow> string \<Rightarrow> millis \<Rightarrow> auth_db \<Rightarrow> rotation_verdict" where
  "verifyAndLock C sessionId userId presentedToken now d =
     (case find (\<lambda>s. se_id s = sessionId \<and> se_user_id s = userId) (sessions d) of
        None \<Rightarrow> VNotFound
      | Some se \<Rightarrow>
          if se_expires_at se < now then VExpired se
          else if cr_compare C presentedToken (se_refresh_token se) then VOk se False
          else
            let withinGrace = (case se_rotated_at se of None \<Rightarrow> False | Some t \<Rightarrow> now - t \<le> refresh_rotation_grace_ms)
            in (case nonempty (se_previous_refresh_token se) of
                  Some prev \<Rightarrow> if withinGrace \<and> cr_compare C presentedToken prev then VOk se True else VReuseDetected se
                | None \<Rightarrow> VReuseDetected se))"

definition commitRotation :: "session \<Rightarrow> string \<Rightarrow> millis \<Rightarrow> millis \<Rightarrow> auth_db \<Rightarrow> auth_db" where
  "commitRotation se newRefreshTokenHash expiresAt now d =
     d\<lparr>sessions := update_row se_id (se_id se)
         (\<lambda>s. s\<lparr>se_previous_refresh_token := Some (se_refresh_token se), se_refresh_token := newRefreshTokenHash,
                se_rotated_at := Some now, se_expires_at := expiresAt\<rparr>) (sessions d)\<rparr>"

definition handleRefreshToken ::
  "crypto \<Rightarrow> auth_env \<Rightarrow> refresh_payload \<Rightarrow> string \<Rightarrow> auth_db \<Rightarrow> auth_db \<times> (auth_error + auth_response)" where
  "handleRefreshToken C env userPayload originalRefreshToken d =
     (case verifyAndLock C (rp_session userPayload) (rp_sub userPayload) originalRefreshToken (ae_now env) d of
        VReuseDetected _ \<Rightarrow> (delete_session (rp_session userPayload) d, Inl (AuthUnauthorized TokenReused))
      | VExpired _ \<Rightarrow> (delete_session (rp_session userPayload) d, Inl (AuthForbidden SessionExpired))
      | VNotFound \<Rightarrow> (d, Inl (AuthForbidden SessionExpired))
      | VOk se _ \<Rightarrow>
          (case findById (rp_sub userPayload) d of
             None \<Rightarrow> (d, Inl (AuthUnauthorized UserGone))
           | Some user \<Rightarrow>
               let (accessToken, refreshToken) = createTokens C env user (se_id se)
               in (commitRotation se (cr_hash C (ae_salt env) refreshToken) (ae_now env + ae_cookie_max_age env) (ae_now env) d,
                   Inr \<lparr>ar_access_token = accessToken, ar_refresh_token = refreshToken,
                        ar_cookie_max_age = ae_cookie_max_age env, ar_user = strip_password user\<rparr>)))"

text \<open>The guard of \<open>POST /auth/refresh\<close> checks the signature of the cookie.\<close>

definition refreshTokens :: "crypto \<Rightarrow> auth_env \<Rightarrow> string option \<Rightarrow> auth_db \<Rightarrow> auth_db \<times> (auth_error + auth_response)" where
  "refreshTokens C env cookie d =
     (case nonempty cookie of
        None \<Rightarrow> (d, Inl (AuthUnauthorized NoRefreshToken))
      | Some token \<Rightarrow>
          (case cr_verify C token (ae_now env) of
             None \<Rightarrow> (d, Inl (AuthUnauthorized NoRefreshToken))
           | Some payload \<Rightarrow> handleRefreshToken C env payload token d))"

definition handleLogout :: "crypto \<Rightarrow> millis \<Rightarrow> string option \<Rightarrow> auth_db \<Rightarrow> auth_db" where
  "handleLogout C now cookie d =
     (case Option.bind (nonempty cookie) (\<lambda>t. cr_verify C t now) of
        None \<Rightarrow> d | Some payload \<Rightarrow> delete_session (rp_session payload) d)"

subsection \<open>Access tokens\<close>

definition getCurrentUser :: "uuid \<Rightarrow> auth_db \<Rightarrow> auth_error + (account \<times> bool)" where
  "getCurrentUser userId d =
     (case findById userId d of
        None \<Rightarrow> Inl (AuthUnauthorized UserGone)
      | Some user \<Rightarrow> Inr (strip_password user, userHasPassword userId d))"

definition revoked_statuses :: "account_status list" where
  "revoked_statuses = [AccSuspended, AccBanned]"

text \<open>The strategy of the access token, after its signature and expiry were checked.\<close>

definition access_validate :: "access_payload \<Rightarrow> auth_db \<Rightarrow> auth_error + access_payload" where
  "access_validate payload d =
     (case findById (ap_sub payload) d of
        None \<Rightarrow> Inl (AuthUnauthorized NoAccess)
      | Some user \<Rightarrow>
          if ac_status user \<in> set revoked_statuses then Inl (AuthUnauthorized NoAccess)
          else if ap_iat payload \<noteq> 0
                  \<and> (case ac_password_changed_at user of None \<Rightarrow> False | Some t \<Rightarrow> ap_iat payload < t div 1000)
          then Inl (AuthUnauthorized PasswordChanged)
          else Inr (payload\<lparr>ap_sub := ac_id user, ap_username := ac_username user, ap_role := ac_role user,
                            ap_status := ac_status user\<rparr>))"

text \<open>The guards of the routes: the roles a route asks for, and the origin of a request that brings a cookie.
  \<open>toOrigin\<close> is the parser of URLs, which keeps what it cannot parse.\<close>

definition roles_canActivate :: "bool \<Rightarrow> user_role list option \<Rightarrow> user_role \<Rightarrow> bool" where
  "roles_canActivate isPublic requiredRoles role =
     (isPublic \<or> (case requiredRoles of None \<Rightarrow> True | Some rs \<Rightarrow> role \<in> set rs))"

definition resolveRequestOrigin :: "(string \<Rightarrow> string) \<Rightarrow> string option \<Rightarrow> string option \<Rightarrow> string option" where
  "resolveRequestOrigin toOrigin originHeader referer =
     (case nonempty originHeader of
        Some o' \<Rightarrow> Some (if o' = ''null'' then ''null'' else toOrigin o')
      | None \<Rightarrow> map_option toOrigin (nonempty referer))"

definition csrf_canActivate :: "(string \<Rightarrow> string) \<Rightarrow> string option \<Rightarrow> string option \<Rightarrow> string option \<Rightarrow> bool" where
  "csrf_canActivate toOrigin frontendUrl originHeader referer =
     (case nonempty (resolveRequestOrigin toOrigin originHeader referer) of
        None \<Rightarrow> True
      | Some requestOrigin \<Rightarrow>
          (case nonempty (map_option toOrigin (nonempty frontendUrl)) of
             None \<Rightarrow> True
           | Some allowedOrigin \<Rightarrow> requestOrigin = allowedOrigin))"

subsection \<open>Runs\<close>

text \<open>The requests, one after the other; \<open>staff\<close> says whether administrators take decisions in between.\<close>

inductive auth_step :: "bool \<Rightarrow> crypto \<Rightarrow> auth_db \<Rightarrow> auth_db \<Rightarrow> bool" for staff C where
  registered: "register C env n p e d = Inr (d', mails) \<Longrightarrow> auth_step staff C d d'"
| seller_registered: "registerSeller C env n p e d = Inr (d', mails) \<Longrightarrow> auth_step staff C d d'"
| resent: "resendVerificationEmail env e d = Inr (d', mails) \<Longrightarrow> auth_step staff C d d'"
| verified: "verifyEmailAndActivateUser C env t d = Inr (d', rsp) \<Longrightarrow> auth_step staff C d d'"
| signed_in: "login C env n p old d = (d', mails, ans) \<Longrightarrow> auth_step staff C d d'"
| google: "validateGoogleUser env g e v n pic d = Inr (d1, u) \<Longrightarrow>
     googleAuthCallback C env c q u old d1 = (d', ans2) \<Longrightarrow> auth_step staff C d d'"
| password_set: "auth_setPassword C env u p d = Inr d' \<Longrightarrow> auth_step staff C d d'"
| password_changed: "changePassword C env u p p' d = Inr d' \<Longrightarrow> auth_step staff C d d'"
| forgotten: "handleForgotPassword env e d = (d', mails) \<Longrightarrow> auth_step staff C d d'"
| password_reset: "resetPassword C env t p d = Inr d' \<Longrightarrow> auth_step staff C d d'"
| refreshed: "refreshTokens C env cookie d = (d', ans3) \<Longrightarrow> auth_step staff C d d'"
| signed_out: "handleLogout C now cookie d = d' \<Longrightarrow> auth_step staff C d d'"
| profile_updated: "updateProfile u n' ph d = Inr (d', a) \<Longrightarrow> auth_step staff C d d'"
| moderated: "staff \<Longrightarrow> updateUserStatus admin u st d = Inr (d', a) \<Longrightarrow> st \<in> set admin_settable_statuses \<Longrightarrow> auth_step staff C d d'"

end
