(* ===== verification/SessionHistory.thy ===== *)
theory SessionHistory
  imports Sessions
begin

text \<open>
  What holds in every history of the authentication: keys stay unique, every session holds the hash of a
  refresh token of its user, sellers do not activate themselves; and what a history can do to a session.
\<close>

subsection \<open>The writes behind the requests\<close>

definition same_identity :: "account \<Rightarrow> account \<Rightarrow> bool" where
  "same_identity a b \<longleftrightarrow> ac_id b = ac_id a \<and> ac_email b = ac_email a \<and> ac_username b = ac_username a \<and> ac_role b = ac_role a"

text \<open>\<open>admit\<close> is the condition on a new status.\<close>

inductive auth_write :: "bool \<Rightarrow> crypto \<Rightarrow> auth_db \<Rightarrow> auth_db \<Rightarrow> bool" for staff C where
  created: "insert_account a d = Inr (d', b) \<Longrightarrow> ac_id a = auth_next d \<Longrightarrow>
     ac_role a = RoleSeller \<longrightarrow> ac_status a \<noteq> AccActive \<Longrightarrow> auth_write staff C d d'"
| changed: "a \<in> set (accounts d) \<Longrightarrow> same_identity a b \<Longrightarrow>
     ac_role b = RoleSeller \<longrightarrow> staff \<or> ac_status b = ac_status a \<or> ac_status b \<noteq> AccActive \<Longrightarrow>
     auth_write staff C d (save_account b d)"
| sessions_cut: "auth_write staff C d (d\<lparr>sessions := delete_rows P (sessions d)\<rparr>)"
| tokens_cut: "auth_write staff C d (d\<lparr>tokens := delete_rows Q (tokens d)\<rparr>)"
| session_opened: "generateAndSaveSession C env u d = (d', rsp) \<Longrightarrow> auth_write staff C d d'"
| session_rotated: "se \<in> set (sessions d) \<Longrightarrow> rp_sub pl = se_user_id se \<Longrightarrow>
     auth_write staff C d (commitRotation se (cr_hash C salt (cr_sign_refresh C pl)) expires now d)"
| token_issued: "issue_token u ty expires d = (d', t) \<Longrightarrow> auth_write staff C d d'"

abbreviation auth_writes :: "bool \<Rightarrow> crypto \<Rightarrow> auth_db \<Rightarrow> auth_db \<Rightarrow> bool" where
  "auth_writes staff C \<equiv> (auth_write staff C)\<^sup>*\<^sup>*"

lemma one_write: "auth_write staff C d d' \<Longrightarrow> auth_writes staff C d d'"
  by (rule r_into_rtranclp)

lemma two_writes: "auth_write staff C a b \<Longrightarrow> auth_write staff C b d \<Longrightarrow> auth_writes staff C a d"
  by (rule rtranclp.rtrancl_into_rtrancl [OF r_into_rtranclp])

lemma found_in:
  "findById k d = Some a \<Longrightarrow> a \<in> set (accounts d) \<and> ac_id a = k"
  "findByEmail e d = Some a \<Longrightarrow> a \<in> set (accounts d) \<and> ac_email a = e"
  "findByUsername n d = Some a \<Longrightarrow> a \<in> set (accounts d) \<and> ac_username a = n"
  by (auto simp: findById_def findByEmail_def findByUsername_def dest: find_row_SomeD)

lemma mail_writes: "generateAndSendVerificationEmail env u d = (d', mails) \<Longrightarrow> auth_write staff C d d'"
  by (auto simp: generateAndSendVerificationEmail_def split: prod.splits intro: auth_write.token_issued)

lemma register_writes: "register C env n p e d = Inr (d', mails) \<Longrightarrow> auth_writes staff C d d'"
proof -
  assume a: "register C env n p e d = Inr (d', mails)"
  then obtain d1 b where 1: "insert_account (new_account (auth_next d) n e (Some (cr_hash C (ae_salt env) p)) (ae_now env)) d = Inr (d1, b)"
    and 2: "generateAndSendVerificationEmail env b d1 = (d', mails)"
    by (auto simp: register_def createCustomer_def split: sum.splits if_splits)
  have "auth_write staff C d d1" by (rule auth_write.created [OF 1]) (simp_all add: new_account_def)
  then show ?thesis by (rule two_writes) (rule mail_writes [OF 2])
qed

lemma registerSeller_writes: "registerSeller C env n p e d = Inr (d', mails) \<Longrightarrow> auth_writes staff C d d'"
proof -
  assume a: "registerSeller C env n p e d = Inr (d', mails)"
  then obtain d1 b where 1: "insert_account ((new_account (auth_next d) n e (Some (cr_hash C (ae_salt env) p)) (ae_now env))\<lparr>ac_role := RoleSeller\<rparr>) d = Inr (d1, b)"
    and 2: "generateAndSendVerificationEmail env b d1 = (d', mails)"
    by (auto simp: registerSeller_def createSeller_def split: sum.splits if_splits)
  have "auth_write staff C d d1" by (rule auth_write.created [OF 1]) (simp_all add: new_account_def)
  then show ?thesis by (rule two_writes) (rule mail_writes [OF 2])
qed

lemma resend_writes: "resendVerificationEmail env e d = Inr (d', mails) \<Longrightarrow> auth_writes staff C d d'"
proof -
  assume "resendVerificationEmail env e d = Inr (d', mails)"
  then obtain u where "generateAndSendVerificationEmail env u (delete_tokens_of (ac_id u) VerifyEmail d) = (d', mails)"
    by (auto simp: resendVerificationEmail_def split: option.splits if_splits)
  from mail_writes [OF this] auth_write.tokens_cut [of staff C d "\<lambda>t. vt_user_id t = ac_id u \<and> vt_type t = VerifyEmail"]
  show ?thesis unfolding delete_tokens_of_def by (blast intro: two_writes)
qed

lemma login_writes: "handleLogin C env u old d = (d', rsp) \<Longrightarrow> auth_writes staff C d d'"
proof -
  assume a: "handleLogin C env u old d = (d', rsp)"
  show ?thesis
  proof (cases "Option.bind (nonempty old) (cr_decode C)")
    case None
    then show ?thesis using a by (auto simp: handleLogin_def intro: one_write auth_write.session_opened)
  next
    case (Some pl)
    then have "generateAndSaveSession C env u (delete_session (rp_session pl) d) = (d', rsp)" using a by (simp add: handleLogin_def)
    from auth_write.session_opened [OF this, of staff] auth_write.sessions_cut [of staff C d "\<lambda>s. se_id s = rp_session pl"]
    show ?thesis unfolding delete_session_def by (blast intro: two_writes)
  qed
qed

lemma validate_writes: "validateUser C env n p d = (d', mails, ans) \<Longrightarrow> auth_writes staff C d d'"
  using mail_writes one_write
  by (fastforce simp: validateUser_def split: option.splits if_splits prod.splits)

lemma signin_writes: "login C env n p old d = (d', mails, ans) \<Longrightarrow> auth_writes staff C d d'"
proof -
  assume a: "login C env n p old d = (d', mails, ans)"
  obtain d1 m r where v: "validateUser C env n p d = (d1, m, r)" using prod_cases3 .
  note w = validate_writes [OF v, of staff]
  show ?thesis
  proof (cases "d' = d1")
    case False
    with a v obtain u rsp where "handleLogin C env u old d1 = (d', rsp)"
      by (auto simp: login_def local_validate_def split: sum.splits option.splits prod.splits)
    from w login_writes [OF this, of staff] show ?thesis by (rule rtranclp_trans)
  qed (use w in simp)
qed

lemma google_link_writes:
  assumes "linkGoogleAccount mirror a gid fn pic (ac_status a = AccPendingVerification) now d = (d', b)" "a \<in> set (accounts d)"
  shows "auth_write staff C d d'"
proof -
  have d': "d' = save_account b d" and s: "same_identity a b"
    and st: "ac_role b = RoleSeller \<longrightarrow> ac_status b = ac_status a \<or> ac_status b \<noteq> AccActive"
    using assms(1) by (auto simp: linkGoogleAccount_def Let_def same_identity_def split: if_splits option.splits)
  show ?thesis unfolding d' by (rule auth_write.changed [OF assms(2) s]) (use st in blast)
qed

lemma google_create_writes:
  assumes "createGoogleUser mirror rnd stamp e gid fn pic now d = Inr (d', b)"
  shows "auth_writes staff C d d'"
proof -
  let ?a = "(new_account (auth_next d) (generateUniqueUsername rnd stamp e d) e None now)
              \<lparr>ac_google_id := Some gid, ac_status := AccActive, ac_full_name := nonempty fn\<rparr>"
  obtain d1 b1 where 1: "insert_account ?a d = Inr (d1, b1)"
    using assms by (auto simp: createGoogleUser_def Let_def split: sum.splits)
  have "b1 = ?a" using 1 by (auto simp: insert_account_def split: if_splits)
  then have d': "d' = d1 \<or> (\<exists>u. d' = save_account (?a\<lparr>ac_avatar_url := u\<rparr>) d1)"
    using assms 1 by (auto simp: createGoogleUser_def Let_def split: option.splits)
  have w: "auth_write staff C d d1" by (rule auth_write.created [OF 1]) (simp_all add: new_account_def)
  have "?a \<in> set (accounts d1)" using 1 by (auto simp: insert_account_def split: if_splits)
  then have "auth_write staff C d1 (save_account (?a\<lparr>ac_avatar_url := u\<rparr>) d1)" for u
    by (rule auth_write.changed) (simp_all add: same_identity_def)
  then show ?thesis using d' one_write [OF w] two_writes [OF w] by blast
qed

lemma google_writes:
  assumes "validateGoogleUser env g e v fn pic d = Inr (d', u)"
  shows "auth_writes staff C d d'"
proof (cases "findByGoogleId g d")
  case (Some x)
  then show ?thesis using assms by (simp add: validateGoogleUser_def split: if_splits)
next
  case None
  show ?thesis
  proof (cases "findByEmail e d")
    case (Some a)
    show ?thesis
    proof (cases "ac_status a \<in> set locked_statuses")
      case True
      then show ?thesis using assms None Some by (simp add: validateGoogleUser_def split: if_splits)
    next
      case False
      obtain d1 b where l: "linkGoogleAccount (ae_mirror env) a g fn pic (ac_status a = AccPendingVerification) (ae_now env) d = (d1, b)"
        by (rule prod.exhaust)
      then have "d1 = d'" using assms None Some False by (simp add: validateGoogleUser_def split: if_splits)
      then show ?thesis using google_link_writes [OF l] found_in(2) [OF Some] one_write by blast
    qed
  next
    case none: None
    then obtain b where "createGoogleUser (ae_mirror env) (ae_rnd env) (ae_stamp env) e g fn pic (ae_now env) d = Inr (d', b)"
      using assms None by (auto simp: validateGoogleUser_def split: if_splits sum.splits)
    then show ?thesis by (rule google_create_writes)
  qed
qed

lemma callback_writes: "googleAuthCallback C env c q u old d = (d', ans) \<Longrightarrow> auth_writes staff C d d'"
proof -
  assume a: "googleAuthCallback C env c q u old d = (d', ans)"
  then obtain rsp where "d' = d \<or> handleLogin C env u old d = (d', rsp)"
    by (auto simp: googleAuthCallback_def split: if_splits prod.splits)
  then show ?thesis using login_writes by auto
qed

lemma save_writes:
  assumes "findById k d = Some a" "same_identity a b" "ac_role b = RoleSeller \<longrightarrow> staff \<or> ac_status b = ac_status a \<or> ac_status b \<noteq> AccActive"
  shows "auth_write staff C d (save_account b d)"
  by (rule auth_write.changed [OF _ assms(2,3)]) (use found_in(1) [OF assms(1)] in blast)

lemma cut_writes: "auth_writes staff C d d1 \<Longrightarrow> auth_writes staff C d (delete_sessions_of u d1)"
  unfolding delete_sessions_of_def by (erule rtranclp.rtrancl_into_rtrancl) (rule auth_write.sessions_cut)

lemma password_writes:
  "setUserPassword C salt u p now d = Inr d' \<Longrightarrow> auth_writes staff C d d'"
  "changeUserPassword C salt u p p' now d = Inr d' \<Longrightarrow> auth_writes staff C d d'"
  by (auto simp: setUserPassword_def changeUserPassword_def same_identity_def split: option.splits if_splits
      intro!: one_write save_writes)

lemma change_writes: "changePassword C env u p p' d = Inr d' \<Longrightarrow> auth_writes staff C d d'"
  by (auto simp: changePassword_def split: sum.splits intro: cut_writes password_writes)

lemma removed_writes: "auth_writes staff C d d1 \<Longrightarrow> auth_writes staff C d (remove_token t d1)"
  unfolding remove_token_def by (erule rtranclp.rtrancl_into_rtrancl) (rule auth_write.tokens_cut)

lemma forgot_writes: "handleForgotPassword env e d = (d', mails) \<Longrightarrow> auth_writes staff C d d'"
proof -
  assume a: "handleForgotPassword env e d = (d', mails)"
  show ?thesis
  proof (cases "findByEmail e d")
    case (Some u)
    with a obtain t where i: "issue_token (ac_id u) ResetPassword (ae_now env + reset_password_ttl)
        (delete_tokens_of (ac_id u) ResetPassword d) = (d', t)" by (auto simp: handleForgotPassword_def split: prod.splits)
    from auth_write.token_issued [OF i] auth_write.tokens_cut show ?thesis
      unfolding delete_tokens_of_def by (blast intro: two_writes)
  qed (use a in \<open>simp add: handleForgotPassword_def\<close>)
qed

lemma reset_writes: "resetPassword C env t p d = Inr d' \<Longrightarrow> auth_writes staff C d d'"
proof -
  assume a: "resetPassword C env t p d = Inr d'"
  then obtain tok u where f: "find_token t ResetPassword d = Some tok" "\<not> vt_expires_at tok < ae_now env"
    "findById (vt_user_id tok) d = Some u"
    by (auto simp: resetPassword_def Let_def split: option.splits if_splits)
  define b where "b = (let u1 = u\<lparr>ac_password := Some (cr_hash C (ae_salt env) p), ac_password_changed_at := Some (ae_now env)\<rparr>
    in if ac_role u1 = RoleCustomer \<and> ac_status u1 = AccPendingVerification then u1\<lparr>ac_status := AccActive\<rparr> else u1)"
  have d': "d' = delete_sessions_of (ac_id b) (remove_token tok (save_account b d))"
    using a by (simp add: resetPassword_def Let_def f b_def split: if_splits)
  have s: "same_identity u b" "ac_role b = RoleSeller \<longrightarrow> ac_status b = ac_status u"
    by (simp_all add: b_def Let_def same_identity_def)
  show ?thesis unfolding d' by (intro cut_writes removed_writes one_write save_writes [OF f(3) s(1)]) (use s(2) in blast)
qed

lemma verify_writes: "verifyEmailAndActivateUser C env t d = Inr (d', rsp) \<Longrightarrow> auth_writes staff C d d'"
proof -
  assume a: "verifyEmailAndActivateUser C env t d = Inr (d', rsp)"
  then obtain tok u where f: "find_token t VerifyEmail d = Some tok" "\<not> vt_expires_at tok < ae_now env"
    "findById (vt_user_id tok) d = Some u" "\<not> already_active u"
    by (auto simp: verifyEmailAndActivateUser_def Let_def split: option.splits if_splits)
  define b where "b = u\<lparr>ac_status := (if ac_role u = RoleSeller then AccNewSeller else AccActive)\<rparr>"
  have g: "generateAndSaveSession C env b (delete_sessions_of (ac_id b) (remove_token tok (save_account b d))) = (d', rsp)"
    using a by (simp add: verifyEmailAndActivateUser_def Let_def f b_def)
  have s: "same_identity u b" "ac_role b = RoleSeller \<longrightarrow> ac_status b \<noteq> AccActive" by (simp_all add: b_def same_identity_def)
  have "auth_writes staff C d (delete_sessions_of (ac_id b) (remove_token tok (save_account b d)))"
    by (intro cut_writes removed_writes one_write save_writes [OF f(3) s(1)]) (use s(2) in blast)
  then show ?thesis using auth_write.session_opened [OF g] by (rule rtranclp.rtrancl_into_rtrancl)
qed

lemma profile_writes: "updateProfile u n ph d = Inr (d', a) \<Longrightarrow> auth_writes staff C d d'"
  by (auto simp: updateProfile_def findUserOrFail_def Let_def same_identity_def split: option.splits sum.splits
      intro!: one_write save_writes)

lemma moderation_writes: "updateUserStatus admin u st d = Inr (d', a) \<Longrightarrow> auth_writes True C d d'"
  by (auto simp: updateUserStatus_def findUserOrFail_def Let_def same_identity_def split: option.splits sum.splits if_splits
      intro!: one_write save_writes)

lemma locked_session:
  assumes "find (\<lambda>s. se_id s = k \<and> se_user_id s = u) (sessions d) = Some se"
  shows "se \<in> set (sessions d)" "se_id se = k" "se_user_id se = u"
  using assms by (auto simp: find_Some_iff)

lemma verified_session:
  assumes "verifyAndLock C k u t now d = VOk se g"
  shows "se \<in> set (sessions d)" "se_id se = k" "se_user_id se = u"
proof -
  have "find (\<lambda>s. se_id s = k \<and> se_user_id s = u) (sessions d) = Some se"
    using assms by (auto simp: verifyAndLock_def Let_def split: option.splits if_splits)
  from locked_session [OF this] show "se \<in> set (sessions d)" "se_id se = k" "se_user_id se = u" .
qed

lemma refresh_writes: "handleRefreshToken C env pl t d = (d', ans) \<Longrightarrow> auth_writes staff C d d'"
proof -
  assume a: "handleRefreshToken C env pl t d = (d', ans)"
  have cut: "auth_writes staff C d (delete_session k d)" for k
    unfolding delete_session_def by (rule one_write) (rule auth_write.sessions_cut)
  show ?thesis
  proof (cases "verifyAndLock C (rp_session pl) (rp_sub pl) t (ae_now env) d")
    case (VOk se g)
    note v = verified_session [OF VOk]
    show ?thesis
    proof (cases "findById (rp_sub pl) d")
      case None
      then show ?thesis using a VOk by (simp add: handleRefreshToken_def)
    next
      case (Some user)
      let ?pl = "\<lparr>rp_sub = ac_id user, rp_session = se_id se, rp_iat = ae_now env div 1000\<rparr>"
      have "d' = commitRotation se (cr_hash C (ae_salt env) (cr_sign_refresh C ?pl)) (ae_now env + ae_cookie_max_age env) (ae_now env) d"
        using a VOk Some by (simp add: handleRefreshToken_def createTokens_def)
      moreover have "rp_sub ?pl = se_user_id se" using found_in(1) [OF Some] v(3) by simp
      ultimately show ?thesis using auth_write.session_rotated [OF v(1)] one_write by blast
    qed
  qed (use a cut in \<open>auto simp: handleRefreshToken_def\<close>)
qed

lemma step_writes: "auth_step staff C d d' \<Longrightarrow> auth_writes staff C d d'"
proof (induction rule: auth_step.induct)
  case (google env g e v fn pic d d1 u c q old d' ans)
  from google_writes [OF google(1)] callback_writes [OF google(2)] show ?case by (rule rtranclp_trans)
next
  case (refreshed env cookie d d' ans)
  then show ?case by (auto simp: refreshTokens_def split: option.splits intro: refresh_writes)
next
  case (signed_out now cookie d d')
  then show ?case by (auto simp: handleLogout_def delete_session_def split: option.splits intro: one_write auth_write.sessions_cut)
next
  case (moderated admin u st d d' a)
  then show ?case using moderation_writes by (cases staff) auto
qed (auto simp: auth_setPassword_def intro: register_writes registerSeller_writes resend_writes verify_writes signin_writes
  password_writes(1) change_writes forgot_writes reset_writes profile_writes)

lemma run_writes: "(auth_step staff C)\<^sup>*\<^sup>* d d' \<Longrightarrow> auth_writes staff C d d'"
  by (induction rule: rtranclp_induct) (auto intro: rtranclp_trans step_writes)

subsection \<open>Keys\<close>

definition auth_ok :: "auth_db \<Rightarrow> bool" where
  "auth_ok d \<longleftrightarrow>
     unique_keys ac_id (accounts d) \<and> unique_keys ac_email (accounts d) \<and> unique_keys ac_username (accounts d)
   \<and> unique_keys se_id (sessions d) \<and> unique_keys vt_id (tokens d) \<and> unique_keys vt_token (tokens d)
   \<and> (\<forall>a \<in> set (accounts d). ac_id a < auth_next d) \<and> (\<forall>s \<in> set (sessions d). se_id s < auth_next d)
   \<and> (\<forall>t \<in> set (tokens d). vt_id t < auth_next d \<and> vt_token t < auth_next d)"

lemma auth_okD:
  assumes "auth_ok d"
  shows "unique_keys ac_id (accounts d)" "unique_keys ac_email (accounts d)" "unique_keys ac_username (accounts d)"
    "unique_keys se_id (sessions d)" "unique_keys vt_id (tokens d)" "unique_keys vt_token (tokens d)"
    "\<forall>a \<in> set (accounts d). ac_id a < auth_next d" "\<forall>s \<in> set (sessions d). se_id s < auth_next d"
    "\<forall>t \<in> set (tokens d). vt_id t < auth_next d \<and> vt_token t < auth_next d"
  using assms unfolding auth_ok_def by blast+

lemma unique_append: "unique_keys key t \<Longrightarrow> key r \<notin> key ` set t \<Longrightarrow> unique_keys key (t @ [r])"
  by (simp add: unique_keys_def)

lemma delete_subset: "set (delete_rows P t) \<subseteq> set t"
  by (auto simp: delete_rows_def)

lemma save_identity:
  assumes "unique_keys ac_id t" "a \<in> set t" "ac_id b = ac_id a"
  shows "save_row ac_id b t = map (\<lambda>x. if x = a then b else x) t"
proof -
  have "x = a" if "x \<in> set t" "ac_id x = ac_id a" for x
    using assms(1,2) that by (simp add: unique_keys_def distinct_map inj_on_def)
  moreover have "ac_id b \<in> set (map ac_id t)" using assms(2,3) by simp
  ultimately show ?thesis using assms(3) by (auto simp: save_row_def intro: map_cong)
qed

lemma save_columns:
  assumes "unique_keys ac_id t" "a \<in> set t" "same_identity a b"
  shows "map ac_id (save_row ac_id b t) = map ac_id t" "map ac_email (save_row ac_id b t) = map ac_email t"
    "map ac_username (save_row ac_id b t) = map ac_username t"
  using assms(3) unfolding save_identity [OF assms(1,2) assms(3) [unfolded same_identity_def, THEN conjunct1]]
  by (auto simp: same_identity_def)

lemma insert_fields:
  assumes "insert_account a d = Inr (d', b)"
  shows "d' = d\<lparr>accounts := accounts d @ [a], auth_next := Suc (auth_next d)\<rparr>" "b = a"
    "ac_email a \<notin> ac_email ` set (accounts d)" "ac_username a \<notin> ac_username ` set (accounts d)"
  using assms
  by (auto simp: insert_account_def emailExists_def usernameExists_def findByEmail_def findByUsername_def find_row_None_iff
      split: if_splits)

lemma write_ok:
  assumes "auth_write staff C d d'" "auth_ok d"
  shows "auth_ok d'"
  using assms
proof (induction rule: auth_write.induct)
  case (created a d d' b)
  note f = insert_fields [OF created(1)] and k = auth_okD [OF created(4)]
  have "ac_id a \<notin> ac_id ` set (accounts d)" using k(7) created(2) by auto
  then have "unique_keys ac_id (accounts d')" "unique_keys ac_email (accounts d')" "unique_keys ac_username (accounts d')"
    using unique_append [OF k(1)] unique_append [OF k(2)] unique_append [OF k(3)] f(3,4) by (simp_all add: f(1))
  then show ?case using k created(2) unfolding auth_ok_def by (simp add: f(1) less_Suc_eq)
next
  case (changed a d b)
  note k = auth_okD [OF changed(4)] and c = save_columns [OF auth_okD(1) [OF changed(4)] changed(1,2)]
  have ids: "ac_id ` set (save_row ac_id b (accounts d)) = ac_id ` set (accounts d)" using c(1) by (metis list.set_map)
  have "\<forall>x \<in> set (save_row ac_id b (accounts d)). ac_id x < auth_next d"
  proof
    fix x assume "x \<in> set (save_row ac_id b (accounts d))"
    then have "ac_id x \<in> ac_id ` set (accounts d)" unfolding ids [symmetric] by simp
    then show "ac_id x < auth_next d" using k(7) by auto
  qed
  then show ?case using k unfolding auth_ok_def by (simp add: save_account_def unique_keys_def c)
next
  case (sessions_cut d P)
  note k = auth_okD [OF sessions_cut]
  show ?case using k delete_subset [of P "sessions d"] unique_keys_delete [OF k(4)] unfolding auth_ok_def by auto
next
  case (tokens_cut d Q)
  note k = auth_okD [OF tokens_cut]
  show ?case using k delete_subset [of Q "tokens d"] unique_keys_delete [OF k(5)] unique_keys_delete [OF k(6)]
    unfolding auth_ok_def by auto
next
  case (session_opened env u d d' rsp)
  note k = auth_okD [OF session_opened(2)]
  obtain se where d': "d' = d\<lparr>sessions := sessions d @ [se], auth_next := Suc (auth_next d)\<rparr>" "se_id se = auth_next d"
    using session_opened(1) by (auto simp: generateAndSaveSession_def Let_def split: prod.splits)
  have "se_id se \<notin> se_id ` set (sessions d)" using k(8) d'(2) by auto
  then show ?case using k unique_append [OF k(4), of se] d'(2) unfolding auth_ok_def by (simp add: d'(1) less_Suc_eq)
next
  case (session_rotated se d pl salt expires now)
  note k = auth_okD [OF session_rotated(3)]
  let ?f = "\<lambda>s. s\<lparr>se_previous_refresh_token := Some (se_refresh_token se), se_refresh_token := cr_hash C salt (cr_sign_refresh C pl),
      se_rotated_at := Some now, se_expires_at := expires\<rparr>"
  have keys: "map se_id (update_row se_id (se_id se) ?f (sessions d)) = map se_id (sessions d)"
    by (simp add: update_row_def)
  have "\<forall>s \<in> set (update_row se_id (se_id se) ?f (sessions d)). se_id s < auth_next d"
    using k(8) by (auto simp: update_row_def)
  then show ?case using k keys unfolding auth_ok_def by (simp add: commitRotation_def unique_keys_def)
next
  case (token_issued u ty expires d d' t)
  note k = auth_okD [OF token_issued(2)]
  obtain r where d': "d' = d\<lparr>tokens := tokens d @ [r], auth_next := Suc (Suc (auth_next d))\<rparr>"
    "vt_id r = auth_next d" "vt_token r = Suc (auth_next d)"
    using token_issued(1) by (auto simp: issue_token_def Let_def)
  have "vt_id r \<notin> vt_id ` set (tokens d)" "vt_token r \<notin> vt_token ` set (tokens d)" using k(9) d'(2,3) by auto
  then show ?case using k unique_append [OF k(5), of r] unique_append [OF k(6), of r] d'(2,3)
    unfolding auth_ok_def by (auto simp: d'(1) less_Suc_eq)
qed

interpretation auth_keys: preserved "auth_write staff C" auth_ok for staff C
  by unfold_locales (rule write_ok)

definition empty_auth :: auth_db where
  "empty_auth = \<lparr>accounts = [], sessions = [], tokens = [], auth_next = 0\<rparr>"

lemma empty_auth_ok: "auth_ok empty_auth"
  by (simp add: empty_auth_def auth_ok_def unique_keys_def)

end
