(* ===== verification/AuthSafety.thy ===== *)
theory AuthSafety
  imports SessionHistory
begin

text \<open>
  What the authentication guarantees, and where it fails: the rotation of refresh tokens against a hash that
  compares whole tokens and against \<open>bcrypt\<close>, which reads 72 bytes; the reset of a password; sellers; bans.
\<close>

subsection \<open>Sessions hold hashes of tokens of their user\<close>

definition hashed_ok :: "crypto \<Rightarrow> auth_db \<Rightarrow> bool" where
  "hashed_ok C d \<longleftrightarrow> auth_ok d
     \<and> (\<forall>se \<in> set (sessions d). \<exists>s pl. se_refresh_token se = cr_hash C s (cr_sign_refresh C pl) \<and> rp_sub pl = se_user_id se)"

lemma hashedD: "hashed_ok C d \<Longrightarrow> se \<in> set (sessions d) \<Longrightarrow>
    \<exists>s pl. se_refresh_token se = cr_hash C s (cr_sign_refresh C pl) \<and> rp_sub pl = se_user_id se"
  by (simp add: hashed_ok_def)

lemma keyed_unique:
  assumes "unique_keys key t" "a \<in> set t" "b \<in> set t" "key a = key b"
  shows "a = b"
  using assms by (auto simp: unique_keys_def distinct_map dest: inj_onD)

lemma write_hashed:
  assumes "auth_write staff C d d'" "hashed_ok C d"
  shows "hashed_ok C d'"
proof -
  have ok: "auth_ok d" "auth_ok d'" using assms write_ok by (auto simp: hashed_ok_def)
  have "\<exists>s pl. se_refresh_token se = cr_hash C s (cr_sign_refresh C pl) \<and> rp_sub pl = se_user_id se"
    if inside: "se \<in> set (sessions d')" for se
    using assms(1)
  proof (cases rule: auth_write.cases)
    case (created a b)
    then show ?thesis using inside hashedD [OF assms(2)] insert_fields(1) [OF created(1)] by simp
  next
    case (changed a b)
    then show ?thesis using inside hashedD [OF assms(2)] by (simp add: save_account_def)
  next
    case (sessions_cut P)
    then show ?thesis using inside hashedD [OF assms(2)] by (simp add: delete_rows_def)
  next
    case (tokens_cut Q)
    then show ?thesis using inside hashedD [OF assms(2)] by simp
  next
    case (session_opened env u rsp)
    then have "se \<in> set (sessions d) \<or> (\<exists>k. se_user_id se = ac_id u \<and> se_refresh_token se = cr_hash C (ae_salt env)
        (cr_sign_refresh C \<lparr>rp_sub = ac_id u, rp_session = k, rp_iat = ae_now env div 1000\<rparr>))"
      using inside by (auto simp: generateAndSaveSession_def createTokens_def Let_def)
    then show ?thesis
    proof
      assume "\<exists>k. se_user_id se = ac_id u \<and> se_refresh_token se = cr_hash C (ae_salt env)
        (cr_sign_refresh C \<lparr>rp_sub = ac_id u, rp_session = k, rp_iat = ae_now env div 1000\<rparr>)"
      then show ?thesis by (elim exE conjE) (intro exI conjI, assumption, simp)
    qed (rule hashedD [OF assms(2)])
  next
    case (session_rotated r pl salt expires now)
    show ?thesis
    proof (cases "se_id se = se_id r")
      case True
      obtain s0 where s0: "s0 \<in> set (sessions d)" "se_id s0 = se_id r"
        "se = s0\<lparr>se_previous_refresh_token := Some (se_refresh_token r), se_refresh_token := cr_hash C salt (cr_sign_refresh C pl),
           se_rotated_at := Some now, se_expires_at := expires\<rparr>"
        using inside True unfolding session_rotated(1) by (auto simp: commitRotation_def update_row_def split: if_splits)
      have "s0 = r" using keyed_unique [OF auth_okD(4) [OF ok(1)] s0(1) session_rotated(2) s0(2)] .
      then have "se_refresh_token se = cr_hash C salt (cr_sign_refresh C pl)" "rp_sub pl = se_user_id se"
        using s0(3) session_rotated(3) by simp_all
      then show ?thesis by blast
    next
      case False
      then have "se \<in> set (sessions d)"
        using inside unfolding session_rotated(1) by (auto simp: commitRotation_def update_row_def split: if_splits)
      then show ?thesis by (rule hashedD [OF assms(2)])
    qed
  next
    case (token_issued u ty expires t)
    then show ?thesis using inside hashedD [OF assms(2)] by (auto simp: issue_token_def Let_def)
  qed
  then show ?thesis using ok(2) by (simp add: hashed_ok_def)
qed

interpretation session_hashes: preserved "auth_write staff C" "hashed_ok C" for staff C
  by unfold_locales (rule write_hashed)

lemma empty_hashed: "hashed_ok C empty_auth"
  by (simp add: hashed_ok_def empty_auth_ok) (simp add: empty_auth_def)

lemma run_hashed: "(auth_step staff C)\<^sup>*\<^sup>* empty_auth d \<Longrightarrow> hashed_ok C d"
  by (rule session_hashes.run_keeps [OF run_writes empty_hashed])

subsection \<open>Refresh tokens as they are signed\<close>

text \<open>A compact signed token with the header of HS256: header and payload in base64url, then the signature.\<close>

definition b64_char :: "nat \<Rightarrow> char" where
  "b64_char i = ''ABCDEFGHIJKLMNOPQRSTUVWXYZabcdefghijklmnopqrstuvwxyz0123456789-_'' ! (i mod 64)"

fun base64url :: "string \<Rightarrow> string" where
  "base64url (a # b # c # cs) =
     (let n = of_char a * 65536 + of_char b * 256 + (of_char c :: nat)
      in b64_char (n div 262144) # b64_char (n div 4096) # b64_char (n div 64) # b64_char n # base64url cs)"
| "base64url [a, b] =
     (let n = of_char a * 65536 + of_char b * (256::nat)
      in [b64_char (n div 262144), b64_char (n div 4096), b64_char (n div 64)])"
| "base64url [a] = (let n = of_char a * (65536::nat) in [b64_char (n div 262144), b64_char (n div 4096)])"
| "base64url [] = []"

definition jws_header :: string where
  "jws_header = ''{\"alg\":\"HS256\",\"typ\":\"JWT\"}''"

definition refresh_jws :: "(uuid \<Rightarrow> string) \<Rightarrow> (refresh_payload \<Rightarrow> string) \<Rightarrow> (refresh_payload \<Rightarrow> string) \<Rightarrow> refresh_payload \<Rightarrow> string" where
  "refresh_jws uuid_text rest sig pl =
     base64url jws_header @ ''.'' @ base64url (''{\"sub\":\"'' @ uuid_text (rp_sub pl) @ rest pl) @ ''.'' @ sig pl"

text \<open>The documented behaviour of \<open>bcrypt\<close>: a string matches the hash of another one with the same first 72 bytes.\<close>

definition bcrypt_reads_72 :: "crypto \<Rightarrow> bool" where
  "bcrypt_reads_72 C \<longleftrightarrow> (\<forall>s p q. take 72 p = take 72 q \<longrightarrow> cr_compare C p (cr_hash C s q))"

lemma base64url_groups:
  "length xs = 3 * n \<Longrightarrow> base64url (xs @ ys) = base64url xs @ base64url ys \<and> length (base64url xs) = 4 * n"
proof (induction n arbitrary: xs)
  case (Suc n)
  then obtain a b c zs where xs: "xs = a # b # c # zs" "length zs = 3 * n"
    by (auto simp: numeral_3_eq_3 length_Suc_conv)
  with Suc.IH [OF xs(2)] show ?case by (simp add: Let_def)
qed simp

lemma header_length: "length (base64url jws_header) = 36"
  using base64url_groups [of jws_header 9 "[]"] by (simp add: jws_header_def)

lemma shared_prefix:
  assumes "length (uuid_text (rp_sub pl)) = 36" "rp_sub pl = rp_sub pl'"
  shows "take 72 (refresh_jws uuid_text rest sig pl) = take 72 (refresh_jws uuid_text rest sig pl')"
proof -
  let ?u = "uuid_text (rp_sub pl)"
  let ?p = "''{\"sub\":\"'' @ take 19 ?u"
  have len: "length ?p = 3 * 9" using assms(1) by simp
  have split: "''{\"sub\":\"'' @ ?u @ r = ?p @ drop 19 ?u @ r" for r by simp
  have "take 72 (base64url jws_header @ ''.'' @ base64url (''{\"sub\":\"'' @ ?u @ r) @ z)
      = take 72 (base64url jws_header @ ''.'' @ base64url ?p)" for r z
    unfolding split base64url_groups [OF len, THEN conjunct1]
    using base64url_groups [OF len, THEN conjunct2] header_length by simp
  then show ?thesis unfolding refresh_jws_def assms(2) by metis
qed

lemma find_the:
  assumes "x \<in> set xs" "P x" "\<And>y. y \<in> set xs \<Longrightarrow> P y \<Longrightarrow> y = x"
  shows "find P xs = Some x"
proof (cases "find P xs")
  case None
  then show ?thesis using assms(1,2) by (auto simp: find_None_iff)
next
  case (Some y)
  then have "y \<in> set xs" "P y" by (auto simp: find_Some_iff)
  then show ?thesis using Some assms(3) by simp
qed

subsection \<open>A sample history\<close>

definition sample_uuid :: "uuid \<Rightarrow> string" where
  "sample_uuid k = map (\<lambda>i. if i < k then CHR ''1'' else CHR ''0'') [0..<36]"

definition sample_rest :: "refresh_payload \<Rightarrow> string" where
  "sample_rest pl = ''\",\"sessionId\":\"'' @ sample_uuid (rp_session pl) @ ''\",\"iat\":'' @ show_nat (nat (rp_iat pl)) @ ''}''"

definition sample_sign :: "refresh_payload \<Rightarrow> string" where
  "sample_sign = refresh_jws sample_uuid sample_rest (\<lambda>pl. ''signature'')"

definition first_payload :: refresh_payload where
  "first_payload = \<lparr>rp_sub = 0, rp_session = 3, rp_iat = 1\<rparr>"

definition bcrypt_crypto :: crypto where
  "bcrypt_crypto = \<lparr>cr_hash = \<lambda>salt p. CHR ''$'' # take 72 p, cr_compare = \<lambda>p h. h = CHR ''$'' # take 72 p,
     cr_sign_access = \<lambda>pl. ''access'', cr_sign_refresh = sample_sign, cr_decode = \<lambda>t. None,
     cr_verify = \<lambda>t now. if t = sample_sign first_payload then Some first_payload else None\<rparr>"

definition env_at :: "millis \<Rightarrow> auth_env" where
  "env_at now = \<lparr>ae_now = now, ae_salt = 0, ae_cookie_max_age = 604800000, ae_rnd = (\<lambda>i. ''r''), ae_stamp = ''s'', ae_mirror = (\<lambda>u. None)\<rparr>"

definition ann :: "crypto \<Rightarrow> account" where
  "ann C = new_account 0 ''ann'' ''ann@x'' (Some (cr_hash C 0 ''secret'')) 0"

definition ann_registered :: "crypto \<Rightarrow> auth_db" where
  "ann_registered C = \<lparr>accounts = [ann C], sessions = [],
     tokens = [\<lparr>vt_id = 1, vt_user_id = 0, vt_token = 2, vt_type = VerifyEmail, vt_expires_at = verify_email_ttl\<rparr>], auth_next = 3\<rparr>"

definition ann_session :: "crypto \<Rightarrow> session" where
  "ann_session C = \<lparr>se_id = 3, se_user_id = 0, se_refresh_token = cr_hash C 0 (cr_sign_refresh C first_payload),
     se_previous_refresh_token = None, se_rotated_at = None, se_expires_at = 604801000\<rparr>"

definition ann_verified :: "crypto \<Rightarrow> auth_db" where
  "ann_verified C = \<lparr>accounts = [(ann C)\<lparr>ac_status := AccActive\<rparr>], sessions = [ann_session C], tokens = [], auth_next = 4\<rparr>"

lemma ann_registers: "register C (env_at 0) ''ann'' ''secret'' ''ann@x'' empty_auth = Inr (ann_registered C, [VerificationMail 0 2])"
  by (simp add: register_def createCustomer_def emailExists_def usernameExists_def findByEmail_def findByUsername_def
      insert_account_def empty_auth_def new_account_def generateAndSendVerificationEmail_def issue_token_def env_at_def
      ann_registered_def ann_def)

lemma ann_verifies: "\<exists>rsp. verifyEmailAndActivateUser C (env_at 1000) 2 (ann_registered C) = Inr (ann_verified C, rsp)"
  by (simp add: verifyEmailAndActivateUser_def find_token_def ann_registered_def ann_verified_def verify_email_ttl_def env_at_def
      findById_def find_row_Cons ann_def new_account_def already_active_def save_account_def save_row_def remove_token_def
      delete_rows_def delete_sessions_of_def generateAndSaveSession_def createTokens_def ann_session_def first_payload_def Let_def)

lemma ann_run: "(auth_step staff C)\<^sup>*\<^sup>* empty_auth (ann_verified C)"
proof -
  obtain rsp where v: "verifyEmailAndActivateUser C (env_at 1000) 2 (ann_registered C) = Inr (ann_verified C, rsp)"
    using ann_verifies by blast
  have "auth_step staff C empty_auth (ann_registered C)" by (rule auth_step.registered [OF ann_registers])
  then show ?thesis using auth_step.verified [OF v]
    by (rule rtranclp.rtrancl_into_rtrancl [OF r_into_rtranclp])
qed

text \<open>Ann refreshes a second after she verified her address.\<close>

definition second_payload :: refresh_payload where
  "second_payload = \<lparr>rp_sub = 0, rp_session = 3, rp_iat = 2\<rparr>"

definition ann_rotated_session :: "crypto \<Rightarrow> session" where
  "ann_rotated_session C = (ann_session C)\<lparr>se_previous_refresh_token := Some (cr_hash C 0 (cr_sign_refresh C first_payload)),
     se_refresh_token := cr_hash C 0 (cr_sign_refresh C second_payload), se_rotated_at := Some 2000, se_expires_at := 604802000\<rparr>"

definition ann_rotated :: "crypto \<Rightarrow> auth_db" where
  "ann_rotated C = (ann_verified C)\<lparr>sessions := [ann_rotated_session C]\<rparr>"

lemma ann_refreshes:
  assumes "cr_compare C (cr_sign_refresh C first_payload) (cr_hash C 0 (cr_sign_refresh C first_payload))"
  shows "\<exists>rsp. handleRefreshToken C (env_at 2000) first_payload (cr_sign_refresh C first_payload) (ann_verified C)
      = (ann_rotated C, Inr rsp) \<and> ar_refresh_token rsp = cr_sign_refresh C second_payload"
  using assms
  by (simp add: handleRefreshToken_def verifyAndLock_def ann_verified_def ann_session_def first_payload_def env_at_def
      findById_def find_row_Cons ann_def new_account_def createTokens_def commitRotation_def update_row_def ann_rotated_def
      ann_rotated_session_def second_payload_def)

lemma sample_uuid_length: "length (sample_uuid k) = 36"
  by (simp add: sample_uuid_def)

lemma bcrypt_crypto_72: "bcrypt_reads_72 bcrypt_crypto"
  by (simp add: bcrypt_reads_72_def bcrypt_crypto_def)

lemma sample_sign_nonempty: "nonempty (Some (sample_sign pl)) = Some (sample_sign pl)"
proof -
  have "sample_sign pl \<noteq> []" using header_length by (auto simp: sample_sign_def refresh_jws_def)
  then show ?thesis by (auto simp: nonempty_def split: list.splits)
qed

lemma ann_rotated_run: "(auth_step staff bcrypt_crypto)\<^sup>*\<^sup>* empty_auth (ann_rotated bcrypt_crypto)"
proof -
  let ?C = bcrypt_crypto
  obtain rsp where r: "handleRefreshToken ?C (env_at 2000) first_payload (cr_sign_refresh ?C first_payload) (ann_verified ?C)
      = (ann_rotated ?C, Inr rsp)"
    using ann_refreshes [of ?C] by (auto simp: bcrypt_crypto_def)
  have "refreshTokens ?C (env_at 2000) (Some (cr_sign_refresh ?C first_payload)) (ann_verified ?C) = (ann_rotated ?C, Inr rsp)"
    using r by (simp add: refreshTokens_def bcrypt_crypto_def sample_sign_nonempty)
  from rtranclp.rtrancl_into_rtrancl [OF ann_run auth_step.refreshed [OF this]] show ?thesis .
qed

subsection \<open>Rotation\<close>

text \<open>
  C7. With \<open>bcrypt\<close> and the tokens the code signs, the reuse of a refresh token is never detected: in every history,
  every refresh token ever signed for a user, of any age and even of another session, is accepted as the current token
  of each session of that user that has not expired. The first 72 bytes of such a token are its header and the start of
  the user's id, and \<open>bcrypt\<close> reads no more.
\<close>

theorem reuse_never_detected:
  assumes run: "(auth_step staff C)\<^sup>*\<^sup>* empty_auth d"
    and hash: "bcrypt_reads_72 C"
    and signed: "\<And>pl. cr_sign_refresh C pl = refresh_jws uuid_text rest sig pl" "\<And>k. length (uuid_text k) = 36"
    and session: "se \<in> set (sessions d)" "rp_sub pl = se_user_id se"
  shows "verifyAndLock C (se_id se) (se_user_id se) (cr_sign_refresh C pl) now d
       = (if se_expires_at se < now then VExpired se else VOk se False)"
proof -
  have ok: "auth_ok d" and h: "hashed_ok C d" using run_hashed [OF run] by (auto simp: hashed_ok_def)
  obtain s q where q: "se_refresh_token se = cr_hash C s (cr_sign_refresh C q)" "rp_sub q = se_user_id se"
    using hashedD [OF h session(1)] by blast
  have same: "take 72 (cr_sign_refresh C pl) = take 72 (cr_sign_refresh C q)"
    using shared_prefix [OF signed(2), of pl q] session(2) q(2) by (simp add: signed(1))
  have found: "find (\<lambda>s. se_id s = se_id se \<and> se_user_id s = se_user_id se) (sessions d) = Some se"
  proof (rule find_the)
    show "se \<in> set (sessions d)" "se_id se = se_id se \<and> se_user_id se = se_user_id se" using session(1) by simp_all
    show "x = se" if "x \<in> set (sessions d)" "se_id x = se_id se \<and> se_user_id x = se_user_id se" for x
      using keyed_unique [OF auth_okD(4) [OF ok] that(1) session(1)] that(2) by simp
  qed
  show ?thesis using hash same by (simp add: verifyAndLock_def found q(1) bcrypt_reads_72_def)
qed

theorem reuse_never_detected_witness:
  "(auth_step False bcrypt_crypto)\<^sup>*\<^sup>* empty_auth (ann_rotated bcrypt_crypto)
   \<and> se_rotated_at (ann_rotated_session bcrypt_crypto) = Some 2000
   \<and> verifyAndLock bcrypt_crypto 3 0 (cr_sign_refresh bcrypt_crypto first_payload) 86400000 (ann_rotated bcrypt_crypto)
     = VOk (ann_rotated_session bcrypt_crypto) False"
proof -
  let ?C = bcrypt_crypto and ?se = "ann_rotated_session bcrypt_crypto"
  have f: "se_id ?se = 3" "se_user_id ?se = 0" "se_expires_at ?se = 604802000" "se_rotated_at ?se = Some 2000"
    by (simp_all add: ann_rotated_session_def ann_session_def)
  have s: "cr_sign_refresh ?C pl = refresh_jws sample_uuid sample_rest (\<lambda>pl. ''signature'') pl" for pl
    by (simp add: bcrypt_crypto_def sample_sign_def)
  have "?se \<in> set (sessions (ann_rotated ?C))" "rp_sub first_payload = se_user_id ?se"
    by (simp_all add: ann_rotated_def f first_payload_def)
  from reuse_never_detected [OF ann_rotated_run bcrypt_crypto_72 s sample_uuid_length this, of 86400000] ann_rotated_run f
  show ?thesis by simp
qed


lemma rotated_state:
  assumes ok: "auth_ok d" and r: "handleRefreshToken C env pl t d = (d1, Inr rsp)"
    and v: "verifyAndLock C (rp_session pl) (rp_sub pl) t (ae_now env) d = VOk se g"
  shows "accounts d1 = accounts d"
    "find (\<lambda>s. se_id s = rp_session pl \<and> se_user_id s = rp_sub pl) (sessions d1)
     = Some (se\<lparr>se_previous_refresh_token := Some (se_refresh_token se),
                se_refresh_token := cr_hash C (ae_salt env) (ar_refresh_token rsp), se_rotated_at := Some (ae_now env),
                se_expires_at := ae_now env + ae_cookie_max_age env\<rparr>)"
proof -
  note vs = verified_session [OF v]
  obtain user where u: "findById (rp_sub pl) d = Some user" using r v by (auto simp: handleRefreshToken_def split: option.splits)
  have d1: "d1 = commitRotation se (cr_hash C (ae_salt env) (ar_refresh_token rsp)) (ae_now env + ae_cookie_max_age env) (ae_now env) d"
    using r by (auto simp: handleRefreshToken_def v u createTokens_def)
  show "accounts d1 = accounts d" by (simp add: d1 commitRotation_def)
  let ?f = "\<lambda>s. s\<lparr>se_previous_refresh_token := Some (se_refresh_token se), se_refresh_token := cr_hash C (ae_salt env) (ar_refresh_token rsp),
      se_rotated_at := Some (ae_now env), se_expires_at := ae_now env + ae_cookie_max_age env\<rparr>"
  have s: "sessions d1 = update_row se_id (se_id se) ?f (sessions d)" by (simp add: d1 commitRotation_def)
  show "find (\<lambda>s. se_id s = rp_session pl \<and> se_user_id s = rp_sub pl) (sessions d1) = Some (?f se)"
  proof (rule find_the)
    show "?f se \<in> set (sessions d1)" using vs(1) by (auto simp: s update_row_def image_iff)
    show "se_id (?f se) = rp_session pl \<and> se_user_id (?f se) = rp_sub pl" using vs(2,3) by simp
    fix y assume y: "y \<in> set (sessions d1)" "se_id y = rp_session pl \<and> se_user_id y = rp_sub pl"
    then obtain x where x: "x \<in> set (sessions d)" "y = (if se_id x = se_id se then ?f x else x)"
      by (auto simp: s update_row_def)
    then have "se_id x = se_id se" using y(2) vs(2) by (auto split: if_splits)
    with x show "y = ?f se" using keyed_unique [OF auth_okD(4) [OF ok] x(1) vs(1)] by simp
  qed
qed

definition whole_comparison :: "crypto \<Rightarrow> bool" where
  "whole_comparison C \<longleftrightarrow> (\<forall>s p q. cr_compare C p (cr_hash C s q) \<longleftrightarrow> p = q) \<and> (\<forall>s p. cr_hash C s p \<noteq> [])"

lemma nonempty_Some: "x \<noteq> [] \<Longrightarrow> nonempty (Some x) = Some x"
  by (auto simp: nonempty_def split: list.splits)

lemma current_token:
  assumes "hashed_ok C d" "whole_comparison C" "verifyAndLock C k u t now d = VOk se False"
  shows "\<exists>s. se_refresh_token se = cr_hash C s t"
proof -
  obtain s q where q: "se_refresh_token se = cr_hash C s (cr_sign_refresh C q)"
    using hashedD [OF assms(1) verified_session(1) [OF assms(3)]] by blast
  have "cr_compare C t (se_refresh_token se)"
    using assms(3) by (auto simp: verifyAndLock_def Let_def split: option.splits if_splits)
  then show ?thesis using assms(2) q by (auto simp: whole_comparison_def)
qed

lemma after_rotation:
  assumes h: "hashed_ok C d" and C: "whole_comparison C"
    and v: "verifyAndLock C (rp_session pl) (rp_sub pl) t (ae_now env) d = VOk se False"
    and r: "handleRefreshToken C env pl t d = (d1, Inr rsp)"
    and new: "ar_refresh_token rsp \<noteq> t" and alive: "now \<le> ae_now env + ae_cookie_max_age env"
  shows "\<exists>se1. verifyAndLock C (rp_session pl) (rp_sub pl) t now d1
      = (if now - ae_now env \<le> refresh_rotation_grace_ms then VOk se1 True else VReuseDetected se1)"
proof -
  have ok: "auth_ok d" using h by (simp add: hashed_ok_def)
  obtain s where s: "se_refresh_token se = cr_hash C s t" using current_token [OF h C v] by blast
  show ?thesis
    using C new alive
    by (auto simp: verifyAndLock_def rotated_state(2) [OF ok r v] s whole_comparison_def nonempty_Some Let_def)
qed

text \<open>
  Two tabs that refresh with the same token within ten seconds are both served (with a hash that compares whole
  tokens): the first rotates the session, the second is recognised by the previous token and rotates it again.
\<close>

theorem refresh_race_tolerated:
  assumes "(auth_step staff C)\<^sup>*\<^sup>* empty_auth d" "whole_comparison C"
    and "verifyAndLock C (rp_session pl) (rp_sub pl) t (ae_now env) d = VOk se False"
    and "handleRefreshToken C env pl t d = (d1, Inr rsp)" "ar_refresh_token rsp \<noteq> t"
    and "ae_now env' - ae_now env \<le> refresh_rotation_grace_ms" "ae_now env' \<le> ae_now env + ae_cookie_max_age env"
  shows "\<exists>d2 rsp2. handleRefreshToken C env' pl t d1 = (d2, Inr rsp2)"
proof -
  have h: "hashed_ok C d" by (rule run_hashed [OF assms(1)])
  then have ok: "auth_ok d" by (simp add: hashed_ok_def)
  obtain se1 where v: "verifyAndLock C (rp_session pl) (rp_sub pl) t (ae_now env') d1 = VOk se1 True"
    using after_rotation [OF h assms(2-5,7)] assms(6) by auto
  obtain user where "findById (rp_sub pl) d = Some user"
    using assms(3,4) by (auto simp: handleRefreshToken_def split: option.splits)
  then have "findById (rp_sub pl) d1 = Some user" using rotated_state(1) [OF ok assms(4,3)] by (simp add: findById_def)
  then show ?thesis by (simp add: handleRefreshToken_def v createTokens_def)
qed


text \<open>A hash that keeps the whole string.\<close>

definition whole_crypto :: crypto where
  "whole_crypto = bcrypt_crypto\<lparr>cr_hash := \<lambda>salt p. CHR ''$'' # p, cr_compare := \<lambda>p h. h = CHR ''$'' # p,
     cr_sign_refresh := \<lambda>pl. show_nat (nat (rp_iat pl))\<rparr>"

lemma whole_crypto_compares: "whole_comparison whole_crypto"
  by (auto simp: whole_comparison_def whole_crypto_def)

lemma ann_uses_whole:
  "verifyAndLock whole_crypto (rp_session first_payload) (rp_sub first_payload) (cr_sign_refresh whole_crypto first_payload)
     (ae_now (env_at 2000)) (ann_verified whole_crypto) = VOk (ann_session whole_crypto) False"
  "cr_sign_refresh whole_crypto second_payload \<noteq> cr_sign_refresh whole_crypto first_payload"
  by (simp_all add: verifyAndLock_def first_payload_def second_payload_def env_at_def ann_verified_def ann_session_def
      whole_crypto_def show_nat_inj)

theorem refresh_race_tolerated_witness:
  "\<exists>d2 rsp2. handleRefreshToken whole_crypto (env_at 9000) first_payload (cr_sign_refresh whole_crypto first_payload) (ann_rotated whole_crypto)
     = (d2, Inr rsp2)"
proof -
  let ?C = whole_crypto
  have c: "cr_compare ?C (cr_sign_refresh ?C first_payload) (cr_hash ?C 0 (cr_sign_refresh ?C first_payload))"
    using whole_crypto_compares by (simp add: whole_comparison_def)
  obtain rsp where r: "handleRefreshToken ?C (env_at 2000) first_payload (cr_sign_refresh ?C first_payload) (ann_verified ?C) = (ann_rotated ?C, Inr rsp)"
    "ar_refresh_token rsp = cr_sign_refresh ?C second_payload" using ann_refreshes [OF c] by blast
  show ?thesis
    by (rule refresh_race_tolerated [OF ann_run whole_crypto_compares ann_uses_whole(1) r(1)])
      (simp_all add: r(2) ann_uses_whole(2) env_at_def refresh_rotation_grace_ms_def)
qed



subsection \<open>Passwords\<close>

lemma find_row_after_save: "unique_keys ac_id (accounts d) \<Longrightarrow> findById (ac_id a) d \<noteq> None \<Longrightarrow> findById (ac_id a) (save_account a d) = Some a"
  by (simp add: findById_def save_account_def find_row_save)

lemma lookup_frames [simp]:
  "findById k (remove_token t d) = findById k d" "findById k (delete_sessions_of u d) = findById k d"
  "sessions (remove_token t d) = sessions d" "sessions (save_account a d) = sessions d"
  "tokens (delete_sessions_of u d) = tokens d" "tokens (save_account a d) = tokens d"
  by (simp_all add: findById_def remove_token_def delete_sessions_of_def save_account_def)

lemma token_spent:
  assumes "auth_ok d" "find_token t ty d = Some tok"
  shows "find_token t ty (delete_sessions_of u (remove_token tok (save_account a d))) = None"
proof -
  have tok: "tok \<in> set (tokens d)" "vt_token tok = t" using assms(2) by (auto simp: find_token_def find_Some_iff)
  have "x = tok" if "x \<in> set (tokens d)" "vt_token x = t" for x
    using keyed_unique [OF auth_okD(6) [OF assms(1)] that(1) tok(1)] that(2) tok(2) by simp
  then show ?thesis by (auto simp: find_token_def find_None_iff remove_token_def delete_sessions_of_def save_account_def)
qed

text \<open>
  C35. A password that was reset cuts off whoever was signed in: in every history, after the reset no session of the user
  can be refreshed, an access token issued in an earlier second is refused, the link in the mail is spent, and the stored
  password is the hash of the new one.
\<close>

theorem password_reset_cuts:
  assumes run: "(auth_step staff C)\<^sup>*\<^sup>* empty_auth d"
    and tok: "find_token t ResetPassword d = Some tok" and reset: "resetPassword C env t p d = Inr d'"
    and pl: "rp_sub pl = vt_user_id tok" and ap: "ap_sub ap = vt_user_id tok" "ap_iat ap \<noteq> 0" "ap_iat ap < ae_now env div 1000"
  shows "handleRefreshToken C env2 pl t2 d' = (d', Inl (AuthForbidden SessionExpired))
    \<and> (\<exists>m. access_validate ap d' = Inl (AuthUnauthorized m))
    \<and> resetPassword C env3 t p3 d' = Inl (AuthBadRequest BadToken)
    \<and> map_option ac_password (findById (vt_user_id tok) d') = Some (Some (cr_hash C (ae_salt env) p))"
proof -
  have ok: "auth_ok d" using run_hashed [OF run] by (simp add: hashed_ok_def)
  from reset tok obtain user where user: "findById (vt_user_id tok) d = Some user"
    by (auto simp: resetPassword_def split: option.splits if_splits)
  note id = found_in(1) [OF user, THEN conjunct2]
  obtain u where d': "d' = delete_sessions_of (ac_id u) (remove_token tok (save_account u d))" and u: "ac_id u = vt_user_id tok"
    "ac_password u = Some (cr_hash C (ae_salt env) p)" "ac_password_changed_at u = Some (ae_now env)"
    using reset tok user id by (auto simp: resetPassword_def Let_def split: if_splits)
  have f: "findById (vt_user_id tok) d' = Some u"
    using find_row_after_save [OF auth_okD(1) [OF ok], of u] user by (simp add: d' u(1))
  have "find (\<lambda>s. se_id s = rp_session pl \<and> se_user_id s = rp_sub pl) (sessions d') = None"
    by (auto simp: find_None_iff d' u(1) delete_sessions_of_def pl)
  then have "verifyAndLock C (rp_session pl) (rp_sub pl) t2 (ae_now env2) d' = VNotFound" by (simp add: verifyAndLock_def)
  moreover have "\<exists>m. access_validate ap d' = Inl (AuthUnauthorized m)" using ap by (simp add: access_validate_def f u(3))
  moreover have "find_token t ResetPassword d' = None" unfolding d' by (rule token_spent [OF ok tok])
  ultimately show ?thesis by (simp add: handleRefreshToken_def resetPassword_def f u(2))
qed

definition ann_forgot :: "crypto \<Rightarrow> auth_db" where
  "ann_forgot C = (ann_verified C)\<lparr>tokens := [\<lparr>vt_id = 4, vt_user_id = 0, vt_token = 5, vt_type = ResetPassword, vt_expires_at = 905000\<rparr>], auth_next := 6\<rparr>"

lemma ann_forgets: "handleForgotPassword (env_at 5000) ''ann@x'' (ann_verified C) = (ann_forgot C, [ResetMail 0 5])"
  by (simp add: handleForgotPassword_def findByEmail_def find_row_Cons ann_verified_def ann_def new_account_def issue_token_def
      delete_tokens_of_def delete_rows_def ann_forgot_def env_at_def reset_password_ttl_def)

theorem password_reset_cuts_witness:
  "\<exists>d'. resetPassword bcrypt_crypto (env_at 9000) 5 ''other'' (ann_forgot bcrypt_crypto) = Inr d'
    \<and> handleRefreshToken bcrypt_crypto (env_at 9500) first_payload (sample_sign first_payload) d' = (d', Inl (AuthForbidden SessionExpired))
    \<and> (\<exists>m. access_validate \<lparr>ap_sub = 0, ap_username = ''ann'', ap_role = RoleCustomer, ap_status = AccActive, ap_iat = 1\<rparr> d'
         = Inl (AuthUnauthorized m))"
proof -
  let ?C = bcrypt_crypto
  have run: "(auth_step False ?C)\<^sup>*\<^sup>* empty_auth (ann_forgot ?C)"
    by (rule rtranclp.rtrancl_into_rtrancl [OF ann_run auth_step.forgotten [OF ann_forgets]])
  have tok: "find_token 5 ResetPassword (ann_forgot ?C)
      = Some \<lparr>vt_id = 4, vt_user_id = 0, vt_token = 5, vt_type = ResetPassword, vt_expires_at = 905000\<rparr>"
    by (simp add: find_token_def ann_forgot_def)
  then have "\<exists>d'. resetPassword ?C (env_at 9000) 5 ''other'' (ann_forgot ?C) = Inr d'"
    by (simp add: resetPassword_def env_at_def findById_def ann_forgot_def ann_verified_def ann_def new_account_def find_row_Cons Let_def)
  then obtain d' where r: "resetPassword ?C (env_at 9000) 5 ''other'' (ann_forgot ?C) = Inr d'" by blast
  from password_reset_cuts [OF run tok r, of first_payload "\<lparr>ap_sub = 0, ap_username = ''ann'', ap_role = RoleCustomer, ap_status = AccActive, ap_iat = 1\<rparr>"
      "env_at 9500" "sample_sign first_payload"] r
  show ?thesis by (simp add: first_payload_def env_at_def)
qed

subsection \<open>Sellers and bans\<close>

definition sellers_inactive :: "auth_db \<Rightarrow> bool" where
  "sellers_inactive d \<longleftrightarrow> (\<forall>a \<in> set (accounts d). ac_role a = RoleSeller \<longrightarrow> ac_status a \<noteq> AccActive)"

lemma write_sellers:
  assumes "auth_write False C d d'" "sellers_inactive d"
  shows "sellers_inactive d'"
  using assms(1)
proof (cases rule: auth_write.cases)
  case (created a b)
  then show ?thesis using assms(2) insert_fields(1) [OF created(1)] by (auto simp: sellers_inactive_def)
next
  case (changed a b)
  have "ac_role b = RoleSeller \<longrightarrow> ac_status b \<noteq> AccActive"
    using changed(2-4) assms(2) by (auto simp: sellers_inactive_def same_identity_def)
  then show ?thesis using assms(2) set_save_row_subset [of ac_id b "accounts d"]
    unfolding changed(1) by (auto simp: sellers_inactive_def save_account_def)
next
  case (session_opened env u rsp)
  then show ?thesis using assms(2) by (auto simp: generateAndSaveSession_def createTokens_def sellers_inactive_def Let_def)
next
  case (token_issued u ty expires t)
  then show ?thesis using assms(2) by (auto simp: issue_token_def sellers_inactive_def Let_def)
qed (use assms(2) in \<open>simp_all add: sellers_inactive_def commitRotation_def\<close>)

interpretation waiting_sellers: preserved "auth_write False C" sellers_inactive for C
  by unfold_locales (rule write_sellers)

text \<open>
  C36. A seller does not activate itself: in every history without decisions of an administrator - registration, the
  verification of the address, resets, Google, in any order - no account with the role of a seller is ever active.
\<close>

theorem sellers_wait:
  assumes "(auth_step False C)\<^sup>*\<^sup>* empty_auth d" "a \<in> set (accounts d)" "ac_role a = RoleSeller"
  shows "ac_status a \<noteq> AccActive"
proof -
  have "sellers_inactive empty_auth" by (simp add: sellers_inactive_def empty_auth_def)
  from waiting_sellers.run_keeps [OF run_writes [OF assms(1)] this] assms(2,3) show ?thesis by (simp add: sellers_inactive_def)
qed

theorem sellers_wait_witness:
  "\<exists>d a. registerSeller bcrypt_crypto (env_at 0) ''bob'' ''secret'' ''bob@x'' empty_auth = Inr d
     \<and> a \<in> set (accounts (fst d)) \<and> ac_role a = RoleSeller \<and> ac_status a \<noteq> AccActive"
proof -
  have "\<exists>d mails a. registerSeller bcrypt_crypto (env_at 0) ''bob'' ''secret'' ''bob@x'' empty_auth = Inr (d, mails)
      \<and> a \<in> set (accounts d) \<and> ac_role a = RoleSeller"
    by (simp add: registerSeller_def createSeller_def emailExists_def usernameExists_def findByEmail_def findByUsername_def
        insert_account_def empty_auth_def new_account_def generateAndSendVerificationEmail_def issue_token_def)
  then obtain d mails a where d: "registerSeller bcrypt_crypto (env_at 0) ''bob'' ''secret'' ''bob@x'' empty_auth = Inr (d, mails)"
    "a \<in> set (accounts d)" "ac_role a = RoleSeller" by blast
  have "(auth_step False bcrypt_crypto)\<^sup>*\<^sup>* empty_auth d"
    by (rule r_into_rtranclp) (rule auth_step.seller_registered [OF d(1)])
  from sellers_wait [OF this d(2,3)] d
  show ?thesis by (intro exI conjI) (assumption | simp)+
qed

lemma resent_token:
  assumes ok: "auth_ok d" and a: "a \<in> set (accounts d)" "\<not> already_active a"
  shows "\<exists>d1 t tok. resendVerificationEmail env (ac_email a) d = Inr (d1, [VerificationMail (ac_id a) t])
    \<and> find_token t VerifyEmail d1 = Some tok \<and> vt_user_id tok = ac_id a \<and> vt_expires_at tok = ae_now env + verify_email_ttl
    \<and> accounts d1 = accounts d"
proof -
  let ?t = "Suc (auth_next d)"
  let ?tok = "\<lparr>vt_id = auth_next d, vt_user_id = ac_id a, vt_token = ?t, vt_type = VerifyEmail, vt_expires_at = ae_now env + verify_email_ttl\<rparr>"
  define d0 where "d0 = delete_tokens_of (ac_id a) VerifyEmail d"
  let ?d1 = "d0\<lparr>tokens := tokens d0 @ [?tok], auth_next := Suc ?t\<rparr>"
  have n0: "auth_next d0 = auth_next d" "accounts d0 = accounts d" by (simp_all add: d0_def delete_tokens_of_def)
  have "findByEmail (ac_email a) d = Some a"
    using find_row_in_set [OF auth_okD(2) [OF ok] a(1)] by (simp add: findByEmail_def)
  then have "resendVerificationEmail env (ac_email a) d = Inr (?d1, [VerificationMail (ac_id a) ?t])"
    using a(2) by (simp add: resendVerificationEmail_def generateAndSendVerificationEmail_def issue_token_def d0_def [symmetric] n0)
  moreover have "vt_token x \<noteq> ?t" if "x \<in> set (tokens d0)" for x
    using that auth_okD(9) [OF ok] by (auto simp: d0_def delete_tokens_of_def)
  then have "find_token ?t VerifyEmail ?d1 = Some ?tok" unfolding find_token_def by (intro find_the) auto
  ultimately show ?thesis by (intro exI conjI) (assumption | simp add: n0)+
qed

lemma verify_reactivates:
  assumes keys: "unique_keys ac_id (accounts d)" and a: "findById (vt_user_id tok) d = Some a" "\<not> already_active a"
    and tok: "find_token t VerifyEmail d = Some tok" "\<not> vt_expires_at tok < ae_now env"
  shows "\<exists>d' rsp. verifyEmailAndActivateUser C env t d = Inr (d', rsp)
    \<and> findById (ac_id a) d' = Some (a\<lparr>ac_status := (if ac_role a = RoleSeller then AccNewSeller else AccActive)\<rparr>)
    \<and> se_user_id (last (sessions d')) = ac_id a"
proof -
  define b where "b = a\<lparr>ac_status := (if ac_role a = RoleSeller then AccNewSeller else AccActive)\<rparr>"
  let ?d = "delete_sessions_of (ac_id b) (remove_token tok (save_account b d))"
  obtain d' rsp where g: "generateAndSaveSession C env b ?d = (d', rsp)" by (rule prod.exhaust)
  have v: "verifyEmailAndActivateUser C env t d = Inr (d', rsp)"
    using a tok g by (simp add: verifyEmailAndActivateUser_def b_def [symmetric])
  have id: "ac_id b = ac_id a" by (simp add: b_def)
  have "findById (ac_id b) ?d = Some b"
    using find_row_after_save [OF keys, of b] a(1) found_in(1) [OF a(1)] id by simp
  moreover have "accounts d' = accounts ?d" "se_user_id (last (sessions d')) = ac_id b"
    using g by (auto simp: generateAndSaveSession_def createTokens_def Let_def)
  ultimately show ?thesis using v id unfolding b_def [symmetric] findById_def by (intro exI conjI) simp_all
qed

text \<open>
  C37. A ban does not hold: a banned, suspended or rejected user asks for a new verification mail and follows its link
  within five minutes; the account is then active (a seller's: awaiting its shop) and signed in again.
\<close>

theorem ban_undone_by_email:
  assumes ok: "auth_ok d" and a: "a \<in> set (accounts d)" "ac_status a = AccBanned \<or> ac_status a = AccSuspended \<or> ac_status a = AccRejected"
    and soon: "ae_now env2 \<le> ae_now env1 + verify_email_ttl"
  shows "\<exists>d1 t d2 rsp. resendVerificationEmail env1 (ac_email a) d = Inr (d1, [VerificationMail (ac_id a) t])
    \<and> verifyEmailAndActivateUser C env2 t d1 = Inr (d2, rsp)
    \<and> findById (ac_id a) d2 = Some (a\<lparr>ac_status := (if ac_role a = RoleSeller then AccNewSeller else AccActive)\<rparr>)
    \<and> se_user_id (last (sessions d2)) = ac_id a"
proof -
  have na: "\<not> already_active a" using a(2) by (auto simp: already_active_def)
  obtain d1 t tok where s: "resendVerificationEmail env1 (ac_email a) d = Inr (d1, [VerificationMail (ac_id a) t])"
    "find_token t VerifyEmail d1 = Some tok" "vt_user_id tok = ac_id a" "vt_expires_at tok = ae_now env1 + verify_email_ttl"
    "accounts d1 = accounts d" using resent_token [OF ok a(1) na] by blast
  have "findById (vt_user_id tok) d1 = Some a"
    using find_row_in_set [OF auth_okD(1) [OF ok] a(1)] by (simp add: findById_def s(3,5))
  moreover have "\<not> vt_expires_at tok < ae_now env2" using soon by (simp add: s(4))
  ultimately show ?thesis
    using verify_reactivates [of d1 tok a t env2 C] auth_okD(1) [OF ok] na s(1,2) unfolding s(5) by blast
qed

theorem ban_undone_by_email_witness:
  "\<exists>d1 t d2 rsp. resendVerificationEmail (env_at 0) ''ann@x'' ((ann_verified bcrypt_crypto)\<lparr>accounts := [(ann bcrypt_crypto)\<lparr>ac_status := AccBanned\<rparr>]\<rparr>)
      = Inr (d1, [VerificationMail 0 t])
    \<and> verifyEmailAndActivateUser bcrypt_crypto (env_at 60000) t d1 = Inr (d2, rsp)
    \<and> findById 0 d2 = Some ((ann bcrypt_crypto)\<lparr>ac_status := AccActive\<rparr>) \<and> se_user_id (last (sessions d2)) = 0"
proof -
  let ?C = bcrypt_crypto and ?a = "(ann bcrypt_crypto)\<lparr>ac_status := AccBanned\<rparr>"
  let ?d = "(ann_verified bcrypt_crypto)\<lparr>accounts := [(ann bcrypt_crypto)\<lparr>ac_status := AccBanned\<rparr>]\<rparr>"
  have "auth_ok ?d" by (simp add: auth_ok_def unique_keys_def ann_verified_def ann_session_def ann_def new_account_def)
  moreover have "?a \<in> set (accounts ?d)" "ac_status ?a = AccBanned \<or> ac_status ?a = AccSuspended \<or> ac_status ?a = AccRejected" by simp_all
  moreover have "ae_now (env_at 60000) \<le> ae_now (env_at 0) + verify_email_ttl" by (simp add: env_at_def verify_email_ttl_def)
  ultimately have "\<exists>d1 t d2 rsp. resendVerificationEmail (env_at 0) (ac_email ?a) ?d = Inr (d1, [VerificationMail (ac_id ?a) t])
    \<and> verifyEmailAndActivateUser ?C (env_at 60000) t d1 = Inr (d2, rsp)
    \<and> findById (ac_id ?a) d2 = Some (?a\<lparr>ac_status := (if ac_role ?a = RoleSeller then AccNewSeller else AccActive)\<rparr>)
    \<and> se_user_id (last (sessions d2)) = ac_id ?a" by (rule ban_undone_by_email)
  then show ?thesis by (simp add: ann_def new_account_def)
qed

end
