(* ===== verification/Categories.thy ===== *)
theory Categories
  imports Entities Pagination
begin

text \<open>
  \<open>src/backend/src/modules/products/categories.service.ts\<close>: the categories of the catalogue, a forest of two
  levels. \<open>slugify\<close>, a package, is an argument. Deleting a row deletes the rows below it (ON DELETE CASCADE).
\<close>

record category =
  cat_id :: uuid
  cat_name :: string
  cat_slug :: string
  cat_parent_id :: "uuid option"
  cat_display_order :: "int option"

record category_db =
  categories :: "category list"
  cat_next :: uuid

datatype category_error =
  SlugTaken | ParentNotFound | OnlyTwoLevels | CategoryNotFound | OwnParent | HasChildren
  | LeafNotFound | LeafIsRoot | LeafHasChildren | RootNotFound | NotRoot | SomeMissing | SomeNotRoot | CategoryUnique

text \<open>The unique columns \<open>name\<close> and \<open>slug\<close>; a row is checked against the others.\<close>

definition save_category :: "category \<Rightarrow> category_db \<Rightarrow> category_error + category_db" where
  "save_category c d =
     (if \<exists>x \<in> set (categories d). cat_id x \<noteq> cat_id c \<and> (cat_name x = cat_name c \<or> cat_slug x = cat_slug c)
      then Inl CategoryUnique else Inr (d\<lparr>categories := save_row cat_id c (categories d)\<rparr>))"

definition find_category :: "uuid \<Rightarrow> category_db \<Rightarrow> category option" where
  "find_category k d = find_row cat_id k (categories d)"

definition children_of :: "uuid \<Rightarrow> category_db \<Rightarrow> category list" where
  "children_of k d = filter (\<lambda>c. cat_parent_id c = Some k) (categories d)"

subsection \<open>Creating and editing\<close>

definition place_below :: "uuid option \<Rightarrow> category \<Rightarrow> category_db \<Rightarrow> category_error + category" where
  "place_below parentId newCategory d =
     (case parentId of
        None \<Rightarrow> Inr (newCategory\<lparr>cat_parent_id := None\<rparr>)
      | Some k \<Rightarrow>
          (case find_category k d of
             None \<Rightarrow> Inl ParentNotFound
           | Some parent \<Rightarrow>
               if cat_parent_id parent \<noteq> None then Inl OnlyTwoLevels
               else Inr (newCategory\<lparr>cat_parent_id := Some (cat_id parent)\<rparr>)))"

definition category_create ::
  "(string \<Rightarrow> string) \<Rightarrow> string \<Rightarrow> int option \<Rightarrow> uuid option \<Rightarrow> category_db \<Rightarrow> category_error + (category_db \<times> category)" where
  "category_create slugify name display_order parentId d =
     (let newCategory = \<lparr>cat_id = cat_next d, cat_name = name, cat_slug = slugify name, cat_parent_id = None,
                         cat_display_order = display_order\<rparr>
      in if \<exists>x \<in> set (categories d). cat_slug x = cat_slug newCategory then Inl SlugTaken
         else
           (case place_below parentId newCategory d of
              Inl e \<Rightarrow> Inl e
            | Inr c \<Rightarrow>
                (case save_category c d of
                   Inl e \<Rightarrow> Inl e
                 | Inr d' \<Rightarrow> Inr (d'\<lparr>cat_next := Suc (cat_next d)\<rparr>, c))))"

text \<open>A category with its children, as \<open>relations: ['parent', 'children']\<close> loads it.\<close>

definition findOneById :: "uuid \<Rightarrow> category_db \<Rightarrow> category_error + (category \<times> category list)" where
  "findOneById k d =
     (case find_category k d of None \<Rightarrow> Inl CategoryNotFound | Some c \<Rightarrow> Inr (c, children_of k d))"

text \<open>NULLs come last in ascending order.\<close>

definition category_findAll :: "category_db \<Rightarrow> category list" where
  "category_findAll d = order_asc cat_display_order (categories d)"

record category_dto =
  cdt_name :: "string option"
  cdt_display_order :: "int option option"
  cdt_parent_id :: "uuid option option"

definition assign_category :: "(string \<Rightarrow> string) \<Rightarrow> category_dto \<Rightarrow> category \<Rightarrow> category" where
  "assign_category slugify dto c =
     (let c1 = (case cdt_name dto of
                  None \<Rightarrow> c
                | Some n \<Rightarrow> if n = [] then c\<lparr>cat_name := n\<rparr> else c\<lparr>cat_name := n, cat_slug := slugify n\<rparr>)
      in (case cdt_display_order dto of None \<Rightarrow> c1 | Some k \<Rightarrow> c1\<lparr>cat_display_order := k\<rparr>))"

definition move_category ::
  "uuid option option \<Rightarrow> uuid \<Rightarrow> category list \<Rightarrow> category \<Rightarrow> category_db \<Rightarrow> category_error + category" where
  "move_category target k children category d =
     (case target of
        None \<Rightarrow> Inr category
      | Some None \<Rightarrow> Inr (category\<lparr>cat_parent_id := None\<rparr>)
      | Some (Some parentId) \<Rightarrow>
          if parentId = k then Inl OwnParent
          else (case find_category parentId d of
                  None \<Rightarrow> Inl ParentNotFound
                | Some parent \<Rightarrow>
                    if cat_parent_id parent \<noteq> None then Inl OnlyTwoLevels
                    else if children \<noteq> [] then Inl HasChildren
                    else Inr (category\<lparr>cat_parent_id := Some (cat_id parent)\<rparr>)))"

definition updateById ::
  "(string \<Rightarrow> string) \<Rightarrow> uuid \<Rightarrow> category_dto \<Rightarrow> category_db \<Rightarrow> category_error + (category_db \<times> category)" where
  "updateById slugify k dto d =
     (case findOneById k d of
        Inl e \<Rightarrow> Inl e
      | Inr (category, children) \<Rightarrow>
          (case move_category (cdt_parent_id dto) k children (assign_category slugify dto category) d of
             Inl e \<Rightarrow> Inl e
           | Inr c \<Rightarrow> (case save_category c d of Inl e \<Rightarrow> Inl e | Inr d' \<Rightarrow> Inr (d', c))))"

text \<open>The cascade of the foreign key: as many rounds as there are rows reach everything below.\<close>

fun below :: "nat \<Rightarrow> uuid list \<Rightarrow> category list \<Rightarrow> uuid list" where
  "below 0 ks t = ks"
| "below (Suc n) ks t =
     below n (remdups (ks @ map cat_id (filter (\<lambda>c. case cat_parent_id c of None \<Rightarrow> False | Some p \<Rightarrow> p \<in> set ks) t))) t"

definition removeById :: "uuid \<Rightarrow> category_db \<Rightarrow> category_error + category_db" where
  "removeById k d =
     (case findOneById k d of
        Inl e \<Rightarrow> Inl e
      | Inr _ \<Rightarrow>
          let gone = below (length (categories d)) [k] (categories d)
          in Inr (d\<lparr>categories := delete_rows (\<lambda>c. cat_id c \<in> set gone) (categories d)\<rparr>))"

subsection \<open>Checks for products and shops\<close>

definition validateLeafCategory :: "uuid \<Rightarrow> category_db \<Rightarrow> category_error + category" where
  "validateLeafCategory k d =
     (case find_category k d of
        None \<Rightarrow> Inl LeafNotFound
      | Some c \<Rightarrow>
          if cat_parent_id c = None then Inl LeafIsRoot
          else if children_of k d \<noteq> [] then Inl LeafHasChildren
          else Inr c)"

definition validateRootCategory :: "uuid \<Rightarrow> category_db \<Rightarrow> category_error + category" where
  "validateRootCategory k d =
     (case find_category k d of
        None \<Rightarrow> Inl RootNotFound
      | Some c \<Rightarrow> if cat_parent_id c \<noteq> None then Inl NotRoot else Inr c)"

definition validateRootCategories :: "uuid list \<Rightarrow> category_db \<Rightarrow> category_error + category list" where
  "validateRootCategories ks d =
     (if ks = [] then Inr []
      else
        let found = filter (\<lambda>c. cat_id c \<in> set ks) (categories d)
        in if length found \<noteq> length ks then Inl SomeMissing
           else if filter (\<lambda>c. cat_parent_id c \<noteq> None) found \<noteq> [] then Inl SomeNotRoot
           else Inr found)"

definition category_countAll :: "category_db \<Rightarrow> nat" where
  "category_countAll d = length (categories d)"

subsection \<open>Two levels\<close>

definition two_levels :: "category_db \<Rightarrow> bool" where
  "two_levels d \<longleftrightarrow> unique_keys cat_id (categories d) \<and> unique_keys cat_name (categories d) \<and> unique_keys cat_slug (categories d)
     \<and> (\<forall>c \<in> set (categories d). cat_id c < cat_next d)
     \<and> (\<forall>c \<in> set (categories d). \<forall>p. cat_parent_id c = Some p \<longrightarrow>
          (\<exists>r \<in> set (categories d). cat_id r = p \<and> cat_parent_id r = None))"

inductive category_step :: "(string \<Rightarrow> string) \<Rightarrow> category_db \<Rightarrow> category_db \<Rightarrow> bool" for slugify where
  category_added: "category_create slugify n o' p d = Inr (d', c) \<Longrightarrow> category_step slugify d d'"
| category_edited: "updateById slugify k dto d = Inr (d', c) \<Longrightarrow> category_step slugify d d'"
| category_removed: "removeById k d = Inr d' \<Longrightarrow> category_step slugify d d'"

lemma two_levelsD:
  assumes "two_levels d"
  shows "unique_keys cat_id (categories d)" "unique_keys cat_name (categories d)" "unique_keys cat_slug (categories d)"
    "c \<in> set (categories d) \<Longrightarrow> cat_id c < cat_next d"
    "c \<in> set (categories d) \<Longrightarrow> cat_parent_id c = Some p \<Longrightarrow> \<exists>r \<in> set (categories d). cat_id r = p \<and> cat_parent_id r = None"
  using assms by (auto simp: two_levels_def)

lemma found_category: "find_category k d = Some c \<Longrightarrow> c \<in> set (categories d) \<and> cat_id c = k"
  by (auto simp: find_category_def dest: find_row_SomeD)

lemma column_save_new:
  assumes "unique_keys key t" "unique_keys cat_id t" "\<forall>x \<in> set t. cat_id x \<noteq> cat_id c \<longrightarrow> key x \<noteq> key c"
  shows "unique_keys key (save_row cat_id c t)"
proof -
  have m: "map key (save_row cat_id c t) =
    (if cat_id c \<in> cat_id ` set t then map (\<lambda>x. if cat_id x = cat_id c then key c else key x) t else map key t @ [key c])"
    by (auto simp: save_row_def)
  show ?thesis
  proof (cases "cat_id c \<in> cat_id ` set t")
    case True
    have "inj_on (\<lambda>x. if cat_id x = cat_id c then key c else key x) (set t)"
    proof (rule inj_onI)
      fix x y
      assume xy: "x \<in> set t" "y \<in> set t"
        "(if cat_id x = cat_id c then key c else key x) = (if cat_id y = cat_id c then key c else key y)"
      have same: "cat_id x = cat_id y \<Longrightarrow> x = y" "key x = key y \<Longrightarrow> x = y"
        using assms(1,2) xy(1,2) by (auto simp: unique_keys_def distinct_map dest: inj_onD)
      show "x = y" using same xy assms(3) by (cases "cat_id x = cat_id c"; cases "cat_id y = cat_id c") auto
    qed
    then show ?thesis using assms(2) unfolding unique_keys_def m by (simp add: True distinct_map)
  next
    case False
    have "key x \<noteq> key c" if x: "x \<in> set t" for x
    proof -
      have "cat_id x \<noteq> cat_id c" using False x by (metis image_eqI)
      then show ?thesis using assms(3) x by blast
    qed
    then have "key c \<notin> key ` set t" by force
    then show ?thesis using assms(1) unfolding unique_keys_def m by (simp add: False)
  qed
qed

text \<open>Saving a row that is a root, or hangs below a root and has nothing below it.\<close>

lemma save_two_levels:
  assumes ok: "two_levels d" and s: "save_category c d = Inr d'" and k: "cat_id c < cat_next d \<or> cat_id c = cat_next d"
    and place: "cat_parent_id c = None \<or> (\<exists>r \<in> set (categories d). cat_parent_id c = Some (cat_id r) \<and> cat_parent_id r = None
      \<and> cat_id r \<noteq> cat_id c \<and> children_of (cat_id c) d = [])"
  shows "two_levels (d'\<lparr>cat_next := max (cat_next d) (Suc (cat_id c))\<rparr>)"
proof -
  have d': "d' = d\<lparr>categories := save_row cat_id c (categories d)\<rparr>"
    and other: "\<forall>x \<in> set (categories d). cat_id x \<noteq> cat_id c \<longrightarrow> cat_name x \<noteq> cat_name c"
      "\<forall>x \<in> set (categories d). cat_id x \<noteq> cat_id c \<longrightarrow> cat_slug x \<noteq> cat_slug c"
    using s by (auto simp: save_category_def split: if_splits)
  have mem: "x \<in> set (categories d') \<longleftrightarrow> x = c \<or> (x \<in> set (categories d) \<and> cat_id x \<noteq> cat_id c)" for x
    unfolding d' by (auto simp: save_row_def image_iff)
  note keys = unique_keys_save [OF two_levelsD(1) [OF ok], of c]
    column_save_new [OF two_levelsD(2) [OF ok] two_levelsD(1) [OF ok] other(1)]
    column_save_new [OF two_levelsD(3) [OF ok] two_levelsD(1) [OF ok] other(2)]
  have "\<exists>r \<in> set (categories d'). cat_id r = p \<and> cat_parent_id r = None"
    if x: "x \<in> set (categories d')" "cat_parent_id x = Some p" for x p
  proof (cases "x = c")
    case True
    with place x obtain r where "r \<in> set (categories d)" "cat_id r = p" "cat_parent_id r = None" "cat_id r \<noteq> cat_id c" by auto
    then show ?thesis using mem by blast
  next
    case False
    then have xd: "x \<in> set (categories d)" using x mem by blast
    from two_levelsD(5) [OF ok xd x(2)] obtain r where r: "r \<in> set (categories d)" "cat_id r = p" "cat_parent_id r = None" by blast
    show ?thesis
    proof (cases "p = cat_id c")
      case True
      with xd x(2) have "children_of (cat_id c) d \<noteq> []" by (auto simp: children_of_def filter_empty_conv)
      then have "cat_parent_id c = None" using place by blast
      then show ?thesis using True mem by blast
    qed (use r mem in blast)
  qed
  moreover have "\<forall>x \<in> set (categories d'). cat_id x < max (cat_next d) (Suc (cat_id c))"
    using mem two_levelsD(4) [OF ok] by fastforce
  ultimately show ?thesis using keys unfolding two_levels_def by (simp add: d')
qed


lemma placed:
  "place_below p n d = Inr c \<Longrightarrow> cat_id c = cat_id n \<and> (cat_parent_id c = None \<or>
     (\<exists>r \<in> set (categories d). cat_parent_id c = Some (cat_id r) \<and> cat_parent_id r = None))"
  by (auto simp: place_below_def split: option.splits if_splits dest: found_category)

lemma moved:
  "move_category m k ch a d = Inr c \<Longrightarrow> cat_id c = cat_id a \<and> (cat_parent_id c = cat_parent_id a \<or> cat_parent_id c = None \<or>
     (\<exists>r \<in> set (categories d). cat_parent_id c = Some (cat_id r) \<and> cat_parent_id r = None \<and> cat_id r \<noteq> k \<and> ch = []))"
  by (auto simp: move_category_def split: option.splits if_splits dest: found_category)

lemma childless:
  assumes "two_levels d" "x \<in> set (categories d)" "cat_parent_id x \<noteq> None"
  shows "children_of (cat_id x) d = []"
proof -
  have "cat_parent_id y \<noteq> Some (cat_id x)" if y: "y \<in> set (categories d)" for y
  proof
    assume "cat_parent_id y = Some (cat_id x)"
    from two_levelsD(5) [OF assms(1) y this] obtain z where z: "z \<in> set (categories d)" "cat_id z = cat_id x" "cat_parent_id z = None" by blast
    have "z = x" using two_levelsD(1) [OF assms(1)] z(1,2) assms(2) by (auto simp: unique_keys_def distinct_map dest: inj_onD)
    then show False using z(3) assms(3) by simp
  qed
  then show ?thesis by (auto simp: children_of_def filter_empty_conv)
qed

lemma below_closed:
  assumes "\<And>c p. c \<in> set t \<Longrightarrow> cat_parent_id c = Some p \<Longrightarrow> p \<in> set ks \<Longrightarrow> cat_id c \<in> set ks"
  shows "set (below n ks t) = set ks"
  using assms
proof (induction n arbitrary: ks)
  case (Suc n)
  let ?ks = "remdups (ks @ map cat_id (filter (\<lambda>c. case cat_parent_id c of None \<Rightarrow> False | Some p \<Rightarrow> p \<in> set ks) t))"
  have "set ?ks = set ks" using Suc.prems by (auto split: option.splits)
  then show ?case using Suc.IH [of ?ks] Suc.prems by simp
qed simp

text \<open>In a forest of two levels a category goes with its children.\<close>

lemma below_one:
  assumes "two_levels d" "c \<in> set (categories d)"
  shows "set (below (length (categories d)) [cat_id c] (categories d)) = insert (cat_id c) (cat_id ` set (children_of (cat_id c) d))"
proof -
  obtain n where n: "length (categories d) = Suc n" using assms(2) by (cases "categories d") auto
  let ?ks = "remdups ([cat_id c] @ map cat_id (filter (\<lambda>x. case cat_parent_id x of None \<Rightarrow> False | Some p \<Rightarrow> p \<in> set [cat_id c]) (categories d)))"
  have ks: "set ?ks = insert (cat_id c) (cat_id ` set (children_of (cat_id c) d))"
    by (auto simp: children_of_def split: option.splits)
  have "set (below n ?ks (categories d)) = set ?ks"
  proof (rule below_closed)
    fix x p assume x: "x \<in> set (categories d)" "cat_parent_id x = Some p" "p \<in> set ?ks"
    show "cat_id x \<in> set ?ks"
    proof (cases "p = cat_id c")
      case True
      then show ?thesis using x unfolding ks by (auto simp: children_of_def)
    next
      case False
      with x(3) obtain y where "y \<in> set (categories d)" "cat_parent_id y = Some (cat_id c)" "p = cat_id y"
        unfolding ks by (auto simp: children_of_def)
      then have "children_of p d = []" using childless [OF assms(1)] by auto
      then show ?thesis using x(1,2) by (auto simp: children_of_def filter_empty_conv)
    qed
  qed
  then show ?thesis unfolding n below.simps ks .
qed

lemma step_two_levels:
  assumes "category_step slugify d d'" "two_levels d"
  shows "two_levels d'"
  using assms(1)
proof (cases rule: category_step.cases)
  case (category_added n o' p c)
  let ?new = "\<lparr>cat_id = cat_next d, cat_name = n, cat_slug = slugify n, cat_parent_id = None, cat_display_order = o'\<rparr>"
  have fresh: "x \<in> set (categories d) \<Longrightarrow> cat_id x \<noteq> cat_next d" for x using two_levelsD(4) [OF assms(2)] by fastforce
  have no_child: "children_of (cat_next d) d = []"
    using two_levelsD(5) [OF assms(2)] fresh by (auto simp: children_of_def filter_empty_conv)
  obtain d0 where s: "save_category c d = Inr d0" and d': "d' = d0\<lparr>cat_next := Suc (cat_next d)\<rparr>"
    and pl: "place_below p ?new d = Inr c"
    using category_added by (auto simp: category_create_def Let_def split: if_splits sum.splits)
  note c = placed [OF pl]
  have id: "cat_id c = cat_next d" using c by simp
  have place: "cat_parent_id c = None \<or> (\<exists>r \<in> set (categories d). cat_parent_id c = Some (cat_id r) \<and> cat_parent_id r = None
      \<and> cat_id r \<noteq> cat_id c \<and> children_of (cat_id c) d = [])"
    using c fresh no_child unfolding id by auto
  from save_two_levels [OF assms(2) s _ place] show ?thesis by (simp add: id d' max_def)
next
  case (category_edited k dto c)
  obtain x where x: "find_category k d = Some x" using category_edited by (auto simp: updateById_def findOneById_def split: option.splits)
  note xd = found_category [OF x]
  have a: "cat_id (assign_category slugify dto x) = k" "cat_parent_id (assign_category slugify dto x) = cat_parent_id x"
    using xd by (auto simp: assign_category_def Let_def split: option.splits)
  obtain "save_category c d = Inr d'" "move_category (cdt_parent_id dto) k (children_of k d) (assign_category slugify dto x) d = Inr c"
    using category_edited by (auto simp: updateById_def findOneById_def x split: sum.splits)
  then have s: "save_category c d = Inr d'" and m: "move_category (cdt_parent_id dto) k (children_of k d) (assign_category slugify dto x) d = Inr c" .
  have c: "cat_id c = k" "cat_parent_id c = cat_parent_id x \<or> cat_parent_id c = None \<or>
     (\<exists>r \<in> set (categories d). cat_parent_id c = Some (cat_id r) \<and> cat_parent_id r = None \<and> cat_id r \<noteq> k \<and> children_of k d = [])"
    using moved [OF m] a by simp_all
  have place: "cat_parent_id c = None \<or> (\<exists>r \<in> set (categories d). cat_parent_id c = Some (cat_id r) \<and> cat_parent_id r = None
      \<and> cat_id r \<noteq> cat_id c \<and> children_of (cat_id c) d = [])"
  proof (cases "cat_parent_id c = cat_parent_id x \<and> cat_parent_id x \<noteq> None")
    case True
    then obtain p where p: "cat_parent_id x = Some p" by auto
    from two_levelsD(5) [OF assms(2) xd [THEN conjunct1] p] obtain r where r: "r \<in> set (categories d)" "cat_id r = p" "cat_parent_id r = None" by blast
    have "children_of k d = []" using childless [OF assms(2) xd [THEN conjunct1]] xd p by simp
    moreover have "cat_id r \<noteq> k"
    proof
      assume "cat_id r = k"
      then have "r = x" using two_levelsD(1) [OF assms(2)] r xd by (auto simp: unique_keys_def distinct_map dest: inj_onD)
      then show False using r p by simp
    qed
    ultimately show ?thesis using True r p c(1) by auto
  next
    case False
    then show ?thesis using c by auto
  qed
  have "cat_id c < cat_next d" using two_levelsD(4) [OF assms(2), of x] xd c(1) by simp
  moreover from this have "max (cat_next d) (Suc (cat_id c)) = cat_next d" by simp
  moreover have "cat_next d' = cat_next d" using s by (auto simp: save_category_def split: if_splits)
  then have "d'\<lparr>cat_next := cat_next d\<rparr> = d'" by simp
  ultimately show ?thesis using save_two_levels [OF assms(2) s _ place] by simp
next
  case (category_removed k)
  let ?gone = "below (length (categories d)) [k] (categories d)"
  have d': "d' = d\<lparr>categories := delete_rows (\<lambda>c. cat_id c \<in> set ?gone) (categories d)\<rparr>"
    using category_removed by (auto simp: removeById_def Let_def split: sum.splits)
  obtain c where c: "c \<in> set (categories d)" "cat_id c = k"
    using category_removed found_category by (auto simp: removeById_def findOneById_def split: sum.splits option.splits)
  note gone = below_one [OF assms(2) c(1), unfolded c(2)]
  have "\<exists>r \<in> set (categories d'). cat_id r = p \<and> cat_parent_id r = None"
    if x: "x \<in> set (categories d')" "cat_parent_id x = Some p" for x p
  proof -
    have xd: "x \<in> set (categories d)" "cat_id x \<notin> set ?gone" using x(1) by (simp_all add: d')
    from two_levelsD(5) [OF assms(2) xd(1) x(2)] obtain r where r: "r \<in> set (categories d)" "cat_id r = p" "cat_parent_id r = None" by blast
    have "p \<notin> set ?gone"
    proof
      assume "p \<in> set ?gone"
      then consider "p = k" | y where "y \<in> set (children_of k d)" "cat_id y = p" unfolding gone by auto
      then show False
      proof cases
        case 1
        then show False using xd x(2) unfolding gone by (auto simp: children_of_def)
      next
        case 2
        then have "y = r" using two_levelsD(1) [OF assms(2)] r by (auto simp: children_of_def unique_keys_def distinct_map dest: inj_onD)
        then show False using 2 r(3) by (simp add: children_of_def)
      qed
    qed
    then show ?thesis using r by (auto simp: d')
  qed
  then have below_root: "\<forall>x \<in> set (categories d'). \<forall>p. cat_parent_id x = Some p \<longrightarrow>
      (\<exists>r \<in> set (categories d'). cat_id r = p \<and> cat_parent_id r = None)" by blast
  have keys: "unique_keys cat_id (categories d')" "unique_keys cat_name (categories d')" "unique_keys cat_slug (categories d')"
    using two_levelsD(1-3) [OF assms(2)] unfolding d' by (simp_all add: unique_keys_delete)
  have "\<forall>x \<in> set (categories d'). cat_id x < cat_next d'" using two_levelsD(4) [OF assms(2)] by (simp add: d')
  with keys below_root show ?thesis unfolding two_levels_def by blast
qed

interpretation category_tree: preserved "category_step slugify" two_levels for slugify
  by unfold_locales (rule step_two_levels)

definition no_categories :: category_db where
  "no_categories = \<lparr>categories = [], cat_next = 0\<rparr>"


definition sample_categories :: category_db where
  "sample_categories = \<lparr>categories = [\<lparr>cat_id = 0, cat_name = ''Home'', cat_slug = ''Home'', cat_parent_id = None, cat_display_order = None\<rparr>,
     \<lparr>cat_id = 1, cat_name = ''Lamps'', cat_slug = ''Lamps'', cat_parent_id = Some 0, cat_display_order = Some 2\<rparr>], cat_next = 2\<rparr>"

lemma sample_categories_run: "(category_step id)\<^sup>*\<^sup>* no_categories sample_categories"
proof -
  let ?d = "\<lparr>categories = [\<lparr>cat_id = 0, cat_name = ''Home'', cat_slug = ''Home'', cat_parent_id = None, cat_display_order = None\<rparr>], cat_next = 1\<rparr>"
  have "\<exists>c. category_create id ''Home'' None None no_categories = Inr (?d, c)"
    by (simp add: category_create_def no_categories_def place_below_def save_category_def save_row_def Let_def)
  moreover have "\<exists>c. category_create id ''Lamps'' (Some 2) (Some 0) ?d = Inr (sample_categories, c)"
    by (simp add: category_create_def place_below_def find_category_def find_row_Cons save_category_def save_row_def sample_categories_def Let_def)
  ultimately obtain c c' where "category_create id ''Home'' None None no_categories = Inr (?d, c)"
    "category_create id ''Lamps'' (Some 2) (Some 0) ?d = Inr (sample_categories, c')" by blast
  then have "category_step id no_categories ?d" "category_step id ?d sample_categories" by (blast intro: category_step.category_added)+
  then show ?thesis by (rule rtranclp.rtrancl_into_rtrancl [OF r_into_rtranclp])
qed


end
