(* ===== verification/VariantNames.thy ===== *)
theory VariantNames
  imports Entities "HOL-Library.AList"
begin

text \<open>
  \<open>src/backend/src/modules/products/product.utils.ts\<close>: the price range of a query and the attributes read from the
  name of a variant. Strings are UTF-8; \<open>lower\<close> and \<open>upper\<close> are the case mappings of the runtime. A case-insensitive
  pattern without metacharacters is looked for in the lower-case text, whose letters are as long as the original ones
  for the languages of the shop. The identifiers of products are numbers here, so \<open>extractId\<close> has nothing to do, and
  \<open>generateSlug\<close> is the package \<open>slugify\<close>, an argument where it is used.
\<close>

definition normalizePriceRange :: "rat option \<Rightarrow> rat option \<Rightarrow> rat option \<times> rat option" where
  "normalizePriceRange mn mx =
     (case (mn, mx) of (Some lo, Some hi) \<Rightarrow> if hi < lo then (Some hi, Some lo) else (Some lo, Some hi) | _ \<Rightarrow> (mn, mx))"

subsection \<open>Strings\<close>

fun starts_with :: "string \<Rightarrow> string \<Rightarrow> bool" where
  "starts_with [] s = True"
| "starts_with (p # ps) [] = False"
| "starts_with (p # ps) (c # cs) = (p = c \<and> starts_with ps cs)"

fun contains_text :: "string \<Rightarrow> string \<Rightarrow> bool" where
  "contains_text p [] = (p = [])"
| "contains_text p (c # cs) = (starts_with p (c # cs) \<or> contains_text p cs)"

text \<open>\<open>replace(/p/i, '')\<close>: the first occurrence, found in the lower-case text, goes; \<open>|\<close> is a list of alternatives.\<close>

fun remove_first :: "string list \<Rightarrow> string \<Rightarrow> string \<Rightarrow> string" where
  "remove_first ps [] s = s"
| "remove_first ps (l # ls) s =
     (case find (\<lambda>p. starts_with p (l # ls)) ps of
        Some p \<Rightarrow> drop (length p) s
      | None \<Rightarrow> take 1 s @ remove_first ps ls (drop 1 s))"

definition space_char :: "char \<Rightarrow> bool" where
  "space_char c = (let n = of_char c :: nat in n = 32 \<or> 9 \<le> n \<and> n \<le> 13)"

definition trim :: "string \<Rightarrow> string" where
  "trim s = rev (dropWhile space_char (rev (dropWhile space_char s)))"

fun split_on :: "(char \<Rightarrow> bool) \<Rightarrow> string \<Rightarrow> string \<Rightarrow> string list" where
  "split_on P acc [] = [rev acc]"
| "split_on P acc (c # cs) = (if P c then rev acc # split_on P [] cs else split_on P (c # acc) cs)"

definition separator_char :: "char \<Rightarrow> bool" where
  "separator_char c = (c \<in> set ''-,/|'')"

text \<open>The parts of a name: split at the separators, trimmed, without the empty ones.\<close>

definition name_parts :: "string \<Rightarrow> string list" where
  "name_parts name = filter (\<lambda>p. p \<noteq> []) (map trim (split_on separator_char [] name))"

subsection \<open>Attributes\<close>

definition color_words :: "string list" where
  "color_words =
     [[CHR 0xC4] @ [CHR 0x91] @ ''en'',
      ''tr'' @ [CHR 0xE1] @ [CHR 0xBA] @ [CHR 0xAF] @ ''ng'',
      [CHR 0xC4] @ [CHR 0x91] @ [CHR 0xE1] @ [CHR 0xBB] @ [CHR 0x8F],
      ''xanh'',
      ''v'' @ [CHR 0xC3] @ [CHR 0xA0] @ ''ng'',
      ''l'' @ [CHR 0xE1] @ [CHR 0xBB] @ [CHR 0xA5] @ ''c'',
      ''lam'',
      ''ch'' @ [CHR 0xC3] @ [CHR 0xA0] @ ''m'',
      ''t'' @ [CHR 0xC3] @ [CHR 0xAD] @ ''m'',
      ''h'' @ [CHR 0xE1] @ [CHR 0xBB] @ [CHR 0x93] @ ''ng'',
      ''x'' @ [CHR 0xC3] @ [CHR 0xA1] @ ''m'',
      ''cam'',
      ''n'' @ [CHR 0xC3] @ [CHR 0xA2] @ ''u'',
      ''b'' @ [CHR 0xE1] @ [CHR 0xBA] @ [CHR 0xA1] @ ''c'',
      ''titan'',
      ''gold'',
      ''silver'',
      ''black'',
      ''white'',
      ''red'',
      ''blue'',
      ''green'',
      ''yellow'',
      ''pink'',
      ''purple'',
      ''grey'',
      ''gray'',
      ''b'' @ [CHR 0xE1] @ [CHR 0xBA] @ [CHR 0xA1] @ ''ch kim'',
      ''be'',
      ''kem'',
      ''r'' @ [CHR 0xC3] @ [CHR 0xAA] @ ''u'',
      ''r'' @ [CHR 0xC3] @ [CHR 0xAA] @ ''u nh'' @ [CHR 0xE1] @ [CHR 0xBA] @ [CHR 0xA1] @ ''t'',
      ''nh'' @ [CHR 0xC3] @ [CHR 0xA1] @ ''m'',
      ''t'' @ [CHR 0xE1] @ [CHR 0xBB] @ [CHR 0xB1] @ '' nhi'' @ [CHR 0xC3] @ [CHR 0xAA] @ ''n'']"

definition size_words :: "string list" where
  "size_words = [''s'', ''m'', ''l'', ''xl'', ''xxl'', ''xxxl'', ''xs'', ''free size'', ''freesize'']"

definition storage_pattern :: "(string \<Rightarrow> string) \<Rightarrow> string \<Rightarrow> bool" where
  "storage_pattern lower part =
     (let rest = dropWhile is_digit part
      in takeWhile is_digit part \<noteq> [] \<and> lower (dropWhile space_char rest) \<in> {''gb'', ''tb''})"

definition shoe_size :: "string \<Rightarrow> bool" where
  "shoe_size part = (part \<noteq> [] \<and> list_all is_digit part \<and> 28 \<le> read_digits part \<and> read_digits part \<le> 48)"

definition color_of_part :: "(string \<Rightarrow> string) \<Rightarrow> string \<Rightarrow> string" where
  "color_of_part lower part =
     (let v = trim (remove_first [''m'' @ [CHR 0xC3] @ [CHR 0xA0] @ ''u ''] (lower part) part);
          v1 = remove_first ['' c'' @ [CHR 0xC3] @ [CHR 0xA1] @ '' t'' @ [CHR 0xC3] @ [CHR 0xAD] @ ''nh''] (lower v) v;
          v2 = remove_first ['' thanh l'' @ [CHR 0xE1] @ [CHR 0xBB] @ [CHR 0x8B] @ ''ch''] (lower v1) v1
      in trim (remove_first ['' sang tr'' @ [CHR 0xE1] @ [CHR 0xBB] @ [CHR 0x8D] @ ''ng''] (lower v2) v2))"

definition parsePart :: "(string \<Rightarrow> string) \<Rightarrow> (string \<Rightarrow> string) \<Rightarrow> string \<Rightarrow> (string \<times> string) option" where
  "parsePart lower upper part =
     (let lowerPart = lower part
      in if contains_text ''ram'' lowerPart then Some (''ram'', trim (remove_first [''ram''] lowerPart part))
         else if contains_text ''intel'' lowerPart \<or> contains_text ''core'' lowerPart \<or> contains_text ''amd'' lowerPart \<or> contains_text ''ryzen'' lowerPart
         then Some (''cpu'', part)
         else if storage_pattern lower part then Some (''storage'', filter (\<lambda>c. \<not> space_char c) (upper part))
         else if starts_with ''size'' lowerPart then Some (''size'', trim (remove_first [''size''] lowerPart part))
         else if starts_with (''k'' @ [CHR 0xC3] @ [CHR 0xAD] @ ''ch th'' @ [CHR 0xC6] @ [CHR 0xB0] @ [CHR 0xE1] @ [CHR 0xBB] @ [CHR 0x9B] @ ''c'') lowerPart \<or> starts_with (''k'' @ [CHR 0xC3] @ [CHR 0xAD] @ ''ch c'' @ [CHR 0xE1] @ [CHR 0xBB] @ [CHR 0xA1]) lowerPart
         then Some (''size'', trim (remove_first [''k'' @ [CHR 0xC3] @ [CHR 0xAD] @ ''ch th'' @ [CHR 0xC6] @ [CHR 0xB0] @ [CHR 0xE1] @ [CHR 0xBB] @ [CHR 0x9B] @ ''c'', ''k'' @ [CHR 0xC3] @ [CHR 0xAD] @ ''ch c'' @ [CHR 0xE1] @ [CHR 0xBB] @ [CHR 0xA1]] lowerPart part))
         else if lowerPart \<in> set size_words then Some (''size'', upper part)
         else if shoe_size part then Some (''size'', part)
         else if starts_with (''m'' @ [CHR 0xC3] @ [CHR 0xA0] @ ''u '') lowerPart then Some (''color'', color_of_part lower part)
         else if list_ex (\<lambda>c. contains_text c lowerPart) color_words then Some (''color'', part)
         else None)"

definition parseVariantAttributes :: "(string \<Rightarrow> string) \<Rightarrow> (string \<Rightarrow> string) \<Rightarrow> string \<Rightarrow> (string \<times> string) list" where
  "parseVariantAttributes lower upper name =
     foldl (\<lambda>attrs part. case parsePart lower upper part of None \<Rightarrow> attrs | Some (k, v) \<Rightarrow> AList.update k v attrs) [] (name_parts name)"

subsection \<open>Facts\<close>

lemma normalized_range:
  "normalizePriceRange mn mx = (Some lo, Some hi) \<Longrightarrow> lo \<le> hi"
  by (auto simp: normalizePriceRange_def split: option.splits if_splits)

text \<open>The keys of the attributes are those of the five kinds.\<close>

lemma parsed_keys: "parsePart lower upper part = Some (k, v) \<Longrightarrow> k \<in> {''ram'', ''cpu'', ''storage'', ''size'', ''color''}"
  unfolding parsePart_def Let_def by (simp split: if_splits)

lemma attribute_keys:
  "fst ` set (parseVariantAttributes lower upper name) \<subseteq> {''ram'', ''cpu'', ''storage'', ''size'', ''color''}"
proof -
  have "fst ` set (foldl (\<lambda>attrs part. case parsePart lower upper part of None \<Rightarrow> attrs | Some (k, v) \<Rightarrow> AList.update k v attrs) acc ps)
      \<subseteq> {''ram'', ''cpu'', ''storage'', ''size'', ''color''}"
    if "fst ` set acc \<subseteq> {''ram'', ''cpu'', ''storage'', ''size'', ''color''}" for acc ps
    using that
  proof (induction ps arbitrary: acc)
    case (Cons p ps)
    have "fst ` set (case parsePart lower upper p of None \<Rightarrow> acc | Some (k, v) \<Rightarrow> AList.update k v acc)
        \<subseteq> {''ram'', ''cpu'', ''storage'', ''size'', ''color''}"
    proof (cases "parsePart lower upper p")
      case (Some kv)
      obtain k v where kv: "kv = (k, v)" by fastforce
      have "fst ` set (AList.update k v acc) = insert k (fst ` set acc)" using dom_update [of k v acc] by (simp add: dom_update)
      then show ?thesis using Some kv parsed_keys [of lower upper p k v] Cons.prems by simp
    qed (use Cons.prems in simp)
    then show ?case using Cons.IH by simp
  qed simp
  then show ?thesis unfolding parseVariantAttributes_def by simp
qed

end
