(* ===== verification/Catalog.thy ===== *)
theory Catalog
  imports Categories VariantNames Promotions
begin

text \<open>
  \<open>src/backend/src/modules/products/products.service.ts\<close>, the writing side: creating, editing and removing products,
  moderation by administrators, the events for the search index. Here the row of a product is split: the columns the
  orders work with stay in \<open>products\<close> and \<open>variants\<close> of the database (\<open>Entities\<close>), the others are in \<open>rests\<close> and
  \<open>vrests\<close> under the same key.

  An uploaded file is the URL the file storage gives it, or \<open>None\<close> when the upload fails. The rows of \<open>media_assets\<close> and
  the files in the storage are not modelled; no other column depends on them. A JSON variant with a null in a field is
  left out (fields are absent or have a value), as are fractional quantities.
\<close>

subsection \<open>Rows\<close>

record color_group =
  cg_hex :: "string option"
  cg_images :: "string list"

record product_rest =
  pr_id :: uuid
  pr_slug :: string
  pr_sku :: "string option"
  pr_description :: "string option"
  pr_weight :: int
  pr_length :: "int option"
  pr_width :: "int option"
  pr_height :: "int option"
  pr_category_id :: "uuid option"
  pr_gallery :: "string list option"
  pr_color_groups :: "(string \<times> color_group) list option"
  pr_is_featured :: bool
  pr_moderation_reason :: "string option"
  pr_moderated_at :: "millis option"
  pr_moderated_by :: "uuid option"
  pr_avg_rating :: int
  pr_review_count :: int
  pr_created_at :: millis
  pr_updated_at :: millis

record variant_rest =
  vr_id :: uuid
  vr_sku :: "string option"
  vr_images :: "string list option"

record catalog =
  cdb :: db
  rests :: "product_rest list"
  vrests :: "variant_rest list"
  cats :: category_db

datatype catalog_msg =
  SellerInactive | CatalogShopInactive | ThumbnailRequired | GalleryRequired | VariantsMissing | ImageCountMismatch nat nat
  | CatalogProductNotFound | CannotTakeDownDeleted | AlreadyTakenDown | OnlyTakenDown | ProductTakenDown | SelfSuspend
  | ProductNotOwned | GalleryLimit | PriceAndStockRequired | StockOfVariants | UnknownVariant uuid | VariantImageLimit
  | VariantInfoMissing | NoVariants | ReindexRunning

datatype catalog_error =
  CatBad catalog_msg | CatForbidden catalog_msg | CatMissing catalog_msg | CatConflict catalog_msg | CatInternal
  | CatShop http_error | CatCategory category_error

type_synonym upload = "string option"

record product_files =
  pf_thumbnail :: "upload list"
  pf_general_gallery :: "upload list"
  pf_variant_images :: "upload list"
  pf_color_images :: "upload list"

text \<open>Slugs, the case mappings and the clock.\<close>

record catalog_env =
  ce_slugify :: "string \<Rightarrow> string"
  ce_lower :: "string \<Rightarrow> string"
  ce_upper :: "string \<Rightarrow> string"
  ce_now :: millis

definition max_gallery_images :: nat where "max_gallery_images = 5"

definition max_variant_images :: nat where "max_variant_images = 3"

subsection \<open>Events\<close>

definition emit :: "outbox_event \<Rightarrow> catalog \<Rightarrow> catalog" where
  "emit ev c = c\<lparr>cdb := (cdb c)\<lparr>outbox := outbox (cdb c) @ [ev]\<rparr>\<rparr>"

definition snapshot_of :: "product \<Rightarrow> product_rest \<Rightarrow> product_snapshot" where
  "snapshot_of p r =
     \<lparr>ps_product_id = p_id p, ps_name = p_name p, ps_slug = pr_slug r, ps_description = pr_description r,
      ps_price = p_price p, ps_shop_id = p_shop_id p, ps_category_id = pr_category_id r,
      ps_thumbnail_url = p_thumbnail_url p, ps_status = p_status p, ps_is_hidden = p_is_hidden p,
      ps_updated_at = pr_updated_at r\<rparr>"

definition getSellerContactByShopId :: "uuid \<Rightarrow> db \<Rightarrow> user option" where
  "getSellerContactByShopId shopId d =
     (case find_row s_id shopId (shops d) of None \<Rightarrow> None | Some s \<Rightarrow> find_row u_id (s_seller_id s) (users d))"

definition product_moderated_event :: "product \<Rightarrow> moderation_action \<Rightarrow> string option \<Rightarrow> catalog \<Rightarrow> outbox_event" where
  "product_moderated_event p action reason c =
     (let contact = Option.bind (p_shop_id p) (\<lambda>k. getSellerContactByShopId k (cdb c))
      in ProductModerated (p_id p) (p_name p) (p_shop_id p) (map_option u_id contact) (map_option u_email contact)
           (map_option u_username contact) action reason)"

subsection \<open>Rows of a product\<close>

definition find_product :: "uuid \<Rightarrow> catalog \<Rightarrow> (product \<times> product_rest) option" where
  "find_product k c =
     (case (find_row p_id k (products (cdb c)), find_row pr_id k (rests c)) of
        (Some p, Some r) \<Rightarrow> Some (p, r) | _ \<Rightarrow> None)"

definition save_product :: "product \<Rightarrow> product_rest \<Rightarrow> catalog \<Rightarrow> catalog" where
  "save_product p r c =
     c\<lparr>cdb := (cdb c)\<lparr>products := save_row p_id p (products (cdb c))\<rparr>, rests := save_row pr_id r (rests c)\<rparr>"

definition variants_of_product :: "uuid \<Rightarrow> catalog \<Rightarrow> (variant \<times> variant_rest) list" where
  "variants_of_product k c =
     map (\<lambda>v. (v, case find_row vr_id (v_id v) (vrests c) of
                    Some r \<Rightarrow> r | None \<Rightarrow> \<lparr>vr_id = v_id v, vr_sku = None, vr_images = None\<rparr>))
       (filter (\<lambda>v. v_product_id v = Some k) (variants (cdb c)))"

definition delete_variants :: "(variant \<Rightarrow> bool) \<Rightarrow> catalog \<Rightarrow> catalog" where
  "delete_variants P c = c\<lparr>cdb := (cdb c)\<lparr>variants := delete_rows P (variants (cdb c))\<rparr>\<rparr>"

text \<open>
  \<open>save(Product, product)\<close> with \<open>cascade: true\<close> on the variants: the loaded row overwrites the stored one, every
  variant of the entity is saved, and a variant of the product that is not among them loses its product.
  \<open>CHECK (stock_quantity >= 0)\<close> holds for every row.
\<close>

definition save_entity :: "product \<Rightarrow> product_rest \<Rightarrow> (variant \<times> variant_rest) list \<Rightarrow> catalog \<Rightarrow> catalog_error + catalog" where
  "save_entity p r vs c =
     (if p_stock_quantity p < 0 \<or> list_ex (\<lambda>(v, _). v_stock_quantity v < 0) vs then Inl CatInternal
      else
        let ids = map (v_id \<circ> fst) vs;
            kept = map (\<lambda>v. if v_product_id v = Some (p_id p) \<and> v_id v \<notin> set ids then v\<lparr>v_product_id := None\<rparr> else v)
                     (variants (cdb c));
            c1 = save_product p r c
        in Inr (c1\<lparr>cdb := (cdb c1)\<lparr>variants := foldl (\<lambda>t (v, _). save_row v_id (v\<lparr>v_product_id := Some (p_id p)\<rparr>) t) kept vs\<rparr>,
                   vrests := foldl (\<lambda>t (_, x). save_row vr_id x t) (vrests c1) vs\<rparr>))"

definition shop_for_seller :: "uuid \<Rightarrow> catalog \<Rightarrow> catalog_error + shop" where
  "shop_for_seller userId c =
     (case findOneByUserId userId (cdb c) of
        Inl e \<Rightarrow> Inl (CatShop e)
      | Inr s \<Rightarrow> if s_status s \<noteq> AccActive then Inl (CatBad CatalogShopInactive) else Inr s)"

text \<open>An optional text that is empty counts as absent.\<close>

definition nonempty_text :: "string option \<Rightarrow> string option" where
  "nonempty_text s = (case s of Some (x # xs) \<Rightarrow> Some (x # xs) | _ \<Rightarrow> None)"

text \<open>\<open>uploadMultipleFiles\<close>: all uploads, or the failure of one.\<close>

definition uploadMultipleFiles :: "upload list \<Rightarrow> catalog_error + string list" where
  "uploadMultipleFiles fs = (if None \<in> set fs then Inl CatInternal else Inr (map the fs))"

text \<open>Consecutive slices of the given lengths.\<close>

fun slices :: "nat list \<Rightarrow> 'a list \<Rightarrow> 'a list list" where
  "slices [] xs = []"
| "slices (n # ns) xs = take n xs # slices ns (drop n xs)"

subsection \<open>Creating\<close>

record new_variant =
  nv_name :: string
  nv_attributes :: "(string \<times> string) list option"
  nv_sku :: "string option"
  nv_additional_price :: "rat option"
  nv_stock_quantity :: int
  nv_image_count :: "nat option"

record color_images =
  ci_color :: string
  ci_hex :: "string option"
  ci_image_count :: nat

record create_product_dto =
  cp_name :: string
  cp_description :: "string option"
  cp_price :: rat
  cp_sku :: "string option"
  cp_weight :: int
  cp_length :: "int option"
  cp_width :: "int option"
  cp_height :: "int option"
  cp_category_id :: uuid
  cp_stock_quantity :: "int option"
  cp_has_variants :: bool
  cp_variants :: "new_variant list option"
  cp_color_images :: "color_images list option"

definition or_none :: "nat option \<Rightarrow> nat" where
  "or_none n = (case n of None \<Rightarrow> 0 | Some k \<Rightarrow> k)"

definition listed :: "'a list option \<Rightarrow> 'a list" where
  "listed xs = (case xs of None \<Rightarrow> [] | Some ys \<Rightarrow> ys)"

definition image_mismatch :: "create_product_dto \<Rightarrow> product_files \<Rightarrow> catalog_error option" where
  "image_mismatch dto files =
     (if \<not> cp_has_variants dto then None
      else if listed (cp_variants dto) = [] then Some (CatBad VariantsMissing)
      else if listed (cp_color_images dto) \<noteq> [] then
        (let total = sum_list (map ci_image_count (listed (cp_color_images dto))); actual = length (pf_color_images files)
         in if total \<noteq> actual then Some (CatBad (ImageCountMismatch total actual)) else None)
      else
        (let total = sum_list (map (or_none \<circ> nv_image_count) (listed (cp_variants dto))); actual = length (pf_variant_images files)
         in if total \<noteq> actual then Some (CatBad (ImageCountMismatch total actual)) else None))"

definition color_groups_of :: "color_images list \<Rightarrow> upload list \<Rightarrow> catalog_error + (string \<times> color_group) list" where
  "color_groups_of groups files =
     map_sum id (\<lambda>urls. foldl (\<lambda>m (g, us). AList.update (ci_color g) \<lparr>cg_hex = ci_hex g, cg_images = us\<rparr> m) [] (zip groups urls))
       (map_result uploadMultipleFiles (slices (map ci_image_count groups) files))"

definition variant_attributes :: "catalog_env \<Rightarrow> (string \<times> string) list option \<Rightarrow> string \<Rightarrow> (string \<times> string) list option" where
  "variant_attributes env attrs name =
     (if listed attrs \<noteq> [] then attrs else Some (parseVariantAttributes (ce_lower env) (ce_upper env) name))"

definition created_variant :: "catalog_env \<Rightarrow> uuid \<Rightarrow> new_variant \<Rightarrow> string list \<Rightarrow> variant \<times> variant_rest" where
  "created_variant env k nv urls =
     (\<lparr>v_id = k, v_product_id = None, v_name = Some (nv_name nv), v_attributes = variant_attributes env (nv_attributes nv) (nv_name nv),
       v_additional_price = (case nv_additional_price nv of None \<Rightarrow> 0 | Some x \<Rightarrow> dec_of_js x), v_stock_quantity = nv_stock_quantity nv\<rparr>,
      \<lparr>vr_id = k, vr_sku = nv_sku nv, vr_images = Some urls\<rparr>)"

definition created_variants ::
  "catalog_env \<Rightarrow> create_product_dto \<Rightarrow> product_files \<Rightarrow> uuid \<Rightarrow> catalog_error + (variant \<times> variant_rest) list" where
  "created_variants env dto files k =
     (if \<not> cp_has_variants dto \<or> cp_variants dto = None then Inr []
      else
        let vs = listed (cp_variants dto);
            parts = (if listed (cp_color_images dto) \<noteq> [] then map (\<lambda>_. []) vs
                     else slices (map (or_none \<circ> nv_image_count) vs) (pf_variant_images files))
        in map_sum id (\<lambda>urls. map (\<lambda>(i, nv, us). created_variant env (k + i) nv us) (zip [0..<length vs] (zip vs urls)))
             (map_result uploadMultipleFiles parts))"

definition product_create ::
  "catalog_env \<Rightarrow> create_product_dto \<Rightarrow> product_files \<Rightarrow> uuid \<Rightarrow> account_status \<Rightarrow> catalog \<Rightarrow> catalog_error + (catalog \<times> uuid)" where
  "product_create env dto files userId userStatus c =
     (if userStatus \<noteq> AccActive then Inl (CatBad SellerInactive)
      else case shop_for_seller userId c of Inl e \<Rightarrow> Inl e | Inr shop \<Rightarrow>
      case validateLeafCategory (cp_category_id dto) (cats c) of Inl e \<Rightarrow> Inl (CatCategory e) | Inr category \<Rightarrow>
      if pf_thumbnail files = [] then Inl (CatBad ThumbnailRequired)
      else if pf_general_gallery files = [] then Inl (CatBad GalleryRequired)
      else case image_mismatch dto files of Some e \<Rightarrow> Inl e | None \<Rightarrow>
      case hd (pf_thumbnail files) of None \<Rightarrow> Inl CatInternal | Some thumbnail \<Rightarrow>
      case uploadMultipleFiles (pf_general_gallery files) of Inl e \<Rightarrow> Inl e | Inr gallery \<Rightarrow>
      case color_groups_of (listed (cp_color_images dto)) (pf_color_images files) of Inl e \<Rightarrow> Inl e | Inr groups \<Rightarrow>
      let k = next_uuid (cdb c) in
      case created_variants env dto files (Suc k) of Inl e \<Rightarrow> Inl e | Inr vs \<Rightarrow>
      let stock = (if cp_has_variants dto \<and> cp_variants dto \<noteq> None then sum_list (map (v_stock_quantity \<circ> fst) vs)
                   else case cp_stock_quantity dto of None \<Rightarrow> 0 | Some q \<Rightarrow> q);
          p = \<lparr>p_id = k, p_shop_id = Some (s_id shop), p_name = cp_name dto, p_price = dec_of_js (cp_price dto),
               p_thumbnail_url = Some thumbnail, p_stock_quantity = stock, p_has_variants = cp_has_variants dto,
               p_is_hidden = False, p_status = ProductActive\<rparr>;
          r = \<lparr>pr_id = k, pr_slug = ce_slugify env (cp_name dto), pr_sku = cp_sku dto, pr_description = cp_description dto,
               pr_weight = cp_weight dto, pr_length = cp_length dto, pr_width = cp_width dto, pr_height = cp_height dto,
               pr_category_id = Some (cat_id category), pr_gallery = Some gallery,
               pr_color_groups = (if listed (cp_color_images dto) \<noteq> [] then Some groups else None), pr_is_featured = False,
               pr_moderation_reason = None, pr_moderated_at = None, pr_moderated_by = None, pr_avg_rating = 0,
               pr_review_count = 0, pr_created_at = ce_now env, pr_updated_at = ce_now env\<rparr>
      in case save_entity p r vs (c\<lparr>cdb := (cdb c)\<lparr>next_uuid := Suc k + length vs\<rparr>\<rparr>) of
           Inl e \<Rightarrow> Inl e
         | Inr c1 \<Rightarrow> Inr (emit (ProductCreated (snapshot_of p r)) c1, k))"

subsection \<open>Moderation\<close>

definition takeDown :: "catalog_env \<Rightarrow> uuid \<Rightarrow> uuid \<Rightarrow> string \<Rightarrow> catalog \<Rightarrow> catalog_error + catalog" where
  "takeDown env adminId productId reason c =
     (case find_product productId c of
        None \<Rightarrow> Inl (CatMissing CatalogProductNotFound)
      | Some (p, r) \<Rightarrow>
          if p_status p = ProductDeleted then Inl (CatBad CannotTakeDownDeleted)
          else if p_status p = ProductSuspended then Inl (CatBad AlreadyTakenDown)
          else
            let p' = p\<lparr>p_status := ProductSuspended\<rparr>;
                r' = r\<lparr>pr_moderation_reason := Some reason, pr_moderated_at := Some (ce_now env), pr_moderated_by := Some adminId,
                       pr_updated_at := ce_now env\<rparr>;
                c1 = save_product p' r' c
            in Inr (emit (ProductUpdated (snapshot_of p' r')) (emit (product_moderated_event p' TakenDown (Some reason) c1) c1)))"

definition product_restore :: "catalog_env \<Rightarrow> uuid \<Rightarrow> uuid \<Rightarrow> catalog \<Rightarrow> catalog_error + catalog" where
  "product_restore env adminId productId c =
     (case find_product productId c of
        None \<Rightarrow> Inl (CatMissing CatalogProductNotFound)
      | Some (p, r) \<Rightarrow>
          if p_status p \<noteq> ProductSuspended then Inl (CatBad OnlyTakenDown)
          else
            let p' = p\<lparr>p_status := ProductActive\<rparr>;
                r' = r\<lparr>pr_moderation_reason := None, pr_moderated_at := Some (ce_now env), pr_moderated_by := Some adminId,
                       pr_updated_at := ce_now env\<rparr>;
                c1 = save_product p' r' c
            in Inr (emit (ProductUpdated (snapshot_of p' r')) (emit (product_moderated_event p' Restored None c1) c1)))"

text \<open>
  \<open>reindexSearchIndex\<close>: pages of 200 by id, until a page is empty; each page is a transaction. The loop stops because
  the offset grows. \<open>running\<close> is the flag of the process.
\<close>

definition indexable :: "catalog \<Rightarrow> (product \<times> product_rest) list" where
  "indexable c = sort_key (\<lambda>(p, r). p_id p)
     (concat (map (\<lambda>p. case find_row pr_id (p_id p) (rests c) of Some r \<Rightarrow> [(p, r)] | None \<Rightarrow> [])
       (filter (\<lambda>p. p_status p \<noteq> ProductDeleted) (products (cdb c)))))"

definition reindex_page_size :: nat where "reindex_page_size = 200"

lemma emit_frames [simp]:
  "products (cdb (emit ev c)) = products (cdb c)" "variants (cdb (emit ev c)) = variants (cdb c)" "rests (emit ev c) = rests c"
  "vrests (emit ev c) = vrests c" "cats (emit ev c) = cats c" "shops (cdb (emit ev c)) = shops (cdb c)"
  "outbox (cdb (emit ev c)) = outbox (cdb c) @ [ev]" "indexable (emit ev c) = indexable c"
  "next_uuid (cdb (emit ev c)) = next_uuid (cdb c)"
  by (simp_all add: emit_def indexable_def)

lemma indexable_foldl [simp]: "indexable (foldl (\<lambda>t x. emit (f x) t) c page) = indexable c"
  by (induction page arbitrary: c) simp_all

function reindex_from :: "nat \<Rightarrow> nat \<Rightarrow> catalog \<Rightarrow> catalog \<times> nat" where
  "reindex_from skip queued c =
     (let page = take reindex_page_size (drop skip (indexable c))
      in if page = [] then (c, queued)
         else reindex_from (skip + reindex_page_size) (queued + length page)
                (foldl (\<lambda>t (p, r). emit (ProductUpdated (snapshot_of p r)) t) c page))"
  by pat_completeness auto

termination
proof (relation "measure (\<lambda>(skip, queued, c). length (indexable c) - skip)")
  fix skip queued and c :: catalog and page
  assume "page = take reindex_page_size (drop skip (indexable c))" "page \<noteq> []"
  then have "skip < length (indexable c)" by auto
  moreover have "(\<lambda>t (p, r). emit (ProductUpdated (snapshot_of p r)) t) = (\<lambda>t x. emit (case x of (p, r) \<Rightarrow> ProductUpdated (snapshot_of p r)) t)"
    by (auto simp: fun_eq_iff)
  ultimately show "((skip + reindex_page_size, queued + length page, foldl (\<lambda>t (p, r). emit (ProductUpdated (snapshot_of p r)) t) c page), skip, queued, c)
      \<in> measure (\<lambda>(skip, queued, c). length (indexable c) - skip)"
    by (simp add: reindex_page_size_def)
qed simp

declare reindex_from.simps [simp del]

definition reindexSearchIndex :: "bool \<Rightarrow> catalog \<Rightarrow> catalog_error + (catalog \<times> nat)" where
  "reindexSearchIndex running c =
     (if running then Inl (CatConflict ReindexRunning) else Inr (reindex_from 0 0 c))"

subsection \<open>Editing\<close>

record update_variant =
  uv_id :: "uuid option"
  uv_name :: "string option"
  uv_attributes :: "(string \<times> string) list option"
  uv_sku :: "string option"
  uv_additional_price :: "rat option"
  uv_stock_quantity :: "int option"
  uv_image_count :: "nat option"
  uv_existing_images :: "string list option"

record update_color =
  ucl_color :: string
  ucl_hex :: "string option"
  ucl_existing_images :: "string list option"
  ucl_image_count :: "nat option"

record update_product_dto =
  up_name :: "string option"
  up_description :: "string option"
  up_price :: "rat option"
  up_sku :: "string option"
  up_weight :: "int option"
  up_length :: "int option"
  up_width :: "int option"
  up_height :: "int option"
  up_status :: "product_status option"
  up_is_hidden :: "bool option"
  up_has_variants :: "bool option"
  up_stock_quantity :: "int option"
  up_category_id :: "uuid option"
  up_existing_gallery :: "string list option"
  up_color_images :: "update_color list option"
  up_variants :: "update_variant list option"

text \<open>The loaded entity: the row, its other columns, its variants. It is read before the transaction.\<close>

record loaded =
  ld_p :: product
  ld_r :: product_rest
  ld_vs :: "(variant \<times> variant_rest) list"

definition load_product :: "uuid \<Rightarrow> catalog \<Rightarrow> loaded option" where
  "load_product k c =
     (case find_product k c of None \<Rightarrow> None
      | Some (p, r) \<Rightarrow> Some \<lparr>ld_p = p, ld_r = r, ld_vs = variants_of_product k c\<rparr>)"

definition owned_by :: "product \<Rightarrow> shop \<Rightarrow> catalog_error option" where
  "owned_by p shop =
     (case p_shop_id p of None \<Rightarrow> Some CatInternal
      | Some k \<Rightarrow> if k = s_id shop then None else Some (CatBad ProductNotOwned))"

definition update_read :: "uuid \<Rightarrow> uuid \<Rightarrow> update_product_dto \<Rightarrow> catalog \<Rightarrow> catalog_error + loaded" where
  "update_read k userId dto c =
     (case load_product k c of None \<Rightarrow> Inl (CatMissing CatalogProductNotFound) | Some e \<Rightarrow>
      if p_status (ld_p e) = ProductSuspended then Inl (CatForbidden ProductTakenDown)
      else if up_status dto = Some ProductSuspended then Inl (CatForbidden SelfSuspend)
      else case shop_for_seller userId c of Inl er \<Rightarrow> Inl er | Inr shop \<Rightarrow>
      case owned_by (ld_p e) shop of Some er \<Rightarrow> Inl er | None \<Rightarrow> Inr e)"

definition step_thumbnail :: "product_files \<Rightarrow> loaded \<Rightarrow> catalog_error + loaded" where
  "step_thumbnail files e =
     (case pf_thumbnail files of
        [] \<Rightarrow> Inr e
      | u # _ \<Rightarrow> (case u of None \<Rightarrow> Inl CatInternal | Some url \<Rightarrow> Inr (e\<lparr>ld_p := (ld_p e)\<lparr>p_thumbnail_url := Some url\<rparr>\<rparr>)))"

definition step_gallery :: "update_product_dto \<Rightarrow> product_files \<Rightarrow> loaded \<Rightarrow> catalog_error + loaded" where
  "step_gallery dto files e =
     (if up_existing_gallery dto = None \<and> pf_general_gallery files = [] then Inr e
      else
        let existing = (case up_existing_gallery dto of Some g \<Rightarrow> g | None \<Rightarrow> listed (pr_gallery (ld_r e)))
        in case uploadMultipleFiles (pf_general_gallery files) of Inl er \<Rightarrow> Inl er | Inr urls \<Rightarrow>
           if max_gallery_images < length existing + length urls then Inl (CatBad GalleryLimit)
           else Inr (e\<lparr>ld_r := (ld_r e)\<lparr>pr_gallery := Some (existing @ urls)\<rparr>\<rparr>))"

definition given :: "'a option \<Rightarrow> ('a \<Rightarrow> 'b \<Rightarrow> 'b) \<Rightarrow> 'b \<Rightarrow> 'b" where
  "given x f y = (case x of None \<Rightarrow> y | Some v \<Rightarrow> f v y)"

definition step_basics :: "catalog_env \<Rightarrow> update_product_dto \<Rightarrow> loaded \<Rightarrow> loaded" where
  "step_basics env dto e =
     (let name = nonempty_text (up_name dto);
          p = given name (\<lambda>n p. p\<lparr>p_name := n\<rparr>)
             (given (up_price dto) (\<lambda>x p. if x = 0 then p else p\<lparr>p_price := dec_of_js x\<rparr>)
             (given (up_status dto) (\<lambda>x p. p\<lparr>p_status := x\<rparr>)
             (given (up_is_hidden dto) (\<lambda>x p. p\<lparr>p_is_hidden := x\<rparr>) (ld_p e))));
          r = given name (\<lambda>n r. r\<lparr>pr_slug := ce_slugify env n\<rparr>)
             (given (up_description dto) (\<lambda>x r. r\<lparr>pr_description := Some x\<rparr>)
             (given (up_sku dto) (\<lambda>x r. r\<lparr>pr_sku := Some x\<rparr>)
             (given (up_weight dto) (\<lambda>x r. r\<lparr>pr_weight := x\<rparr>)
             (given (up_length dto) (\<lambda>x r. r\<lparr>pr_length := Some x\<rparr>)
             (given (up_width dto) (\<lambda>x r. r\<lparr>pr_width := Some x\<rparr>)
             (given (up_height dto) (\<lambda>x r. r\<lparr>pr_height := Some x\<rparr>) (ld_r e)))))))
      in e\<lparr>ld_p := p, ld_r := r\<rparr>)"

text \<open>Switching the variants off deletes them, in the transaction.\<close>

definition step_has_variants :: "update_product_dto \<Rightarrow> loaded \<times> catalog \<Rightarrow> catalog_error + (loaded \<times> catalog)" where
  "step_has_variants dto ec =
     (case ec of (e, c) \<Rightarrow>
      (case up_has_variants dto of
         None \<Rightarrow> Inr (e, c)
       | Some hv \<Rightarrow>
           if \<not> hv \<and> p_has_variants (ld_p e) then
             (if up_price dto = None \<or> up_stock_quantity dto = None then Inl (CatBad PriceAndStockRequired)
              else Inr (e\<lparr>ld_p := (ld_p e)\<lparr>p_has_variants := hv\<rparr>, ld_r := (ld_r e)\<lparr>pr_color_groups := None\<rparr>, ld_vs := []\<rparr>,
                        delete_variants (\<lambda>v. v_product_id v = Some (p_id (ld_p e))) c))
           else Inr (e\<lparr>ld_p := (ld_p e)\<lparr>p_has_variants := hv\<rparr>\<rparr>, c)))"

definition step_stock :: "update_product_dto \<Rightarrow> loaded \<Rightarrow> catalog_error + loaded" where
  "step_stock dto e =
     (case up_stock_quantity dto of
        None \<Rightarrow> Inr e
      | Some q \<Rightarrow> if p_has_variants (ld_p e) then Inl (CatBad StockOfVariants)
                  else Inr (e\<lparr>ld_p := (ld_p e)\<lparr>p_stock_quantity := q\<rparr>\<rparr>))"

definition step_category :: "update_product_dto \<Rightarrow> catalog \<Rightarrow> loaded \<Rightarrow> catalog_error + loaded" where
  "step_category dto c e =
     (case up_category_id dto of
        None \<Rightarrow> Inr e
      | Some k \<Rightarrow> (case validateLeafCategory k (cats c) of
                     Inl er \<Rightarrow> Inl (CatCategory er)
                   | Inr category \<Rightarrow> Inr (e\<lparr>ld_r := (ld_r e)\<lparr>pr_category_id := Some (cat_id category)\<rparr>\<rparr>)))"

definition new_color_groups :: "update_color list \<Rightarrow> upload list \<Rightarrow> catalog_error + (string \<times> color_group) list" where
  "new_color_groups groups files =
     map_sum id (\<lambda>urls. foldl (\<lambda>m (g, us). AList.update (ucl_color g)
                    \<lparr>cg_hex = ucl_hex g, cg_images = listed (ucl_existing_images g) @ us\<rparr> m) [] (zip groups urls))
       (map_result uploadMultipleFiles (slices (map (or_none \<circ> ucl_image_count) groups) files))"

text \<open>
  The list of variants after an edit refers to stored variants, which the edit changes in place, and to new ones.
\<close>

datatype variant_ref = OldVariant uuid | NewVariant "variant \<times> variant_rest"

definition edit_variant :: "catalog_env \<Rightarrow> update_variant \<Rightarrow> string list \<Rightarrow> variant \<times> variant_rest \<Rightarrow> variant \<times> variant_rest" where
  "edit_variant env uv urls vr =
     (case vr of (v, r) \<Rightarrow>
        (given (uv_stock_quantity uv) (\<lambda>q v. v\<lparr>v_stock_quantity := q\<rparr>)
           (given (uv_additional_price uv) (\<lambda>x v. v\<lparr>v_additional_price := dec_of_js x\<rparr>)
             (case uv_name uv of
                Some n \<Rightarrow> v\<lparr>v_name := Some n, v_attributes := variant_attributes env (uv_attributes uv) n\<rparr>
              | None \<Rightarrow> given (uv_attributes uv) (\<lambda>a v. v\<lparr>v_attributes := Some a\<rparr>) v)),
         (given (uv_sku uv) (\<lambda>x r. r\<lparr>vr_sku := Some x\<rparr>) r)\<lparr>vr_images := Some (listed (uv_existing_images uv) @ urls)\<rparr>))"

type_synonym edit_state = "(variant \<times> variant_rest) list \<times> variant_ref list \<times> upload list \<times> uuid"

definition apply_variant :: "catalog_env \<Rightarrow> bool \<Rightarrow> update_variant \<Rightarrow> edit_state \<Rightarrow> catalog_error + edit_state" where
  "apply_variant env color_model uv st =
     (case st of (olds, refs, files, k) \<Rightarrow>
      let n = (if color_model then 0 else or_none (uv_image_count uv)) in
      case uploadMultipleFiles (take n files) of Inl er \<Rightarrow> Inl er | Inr urls \<Rightarrow>
      (case uv_id uv of
         Some i \<Rightarrow>
           (case find (\<lambda>(v, r). v_id v = i) olds of
              None \<Rightarrow> Inl (CatBad (UnknownVariant i))
            | Some _ \<Rightarrow>
                if max_variant_images < length (listed (uv_existing_images uv)) + length urls then Inl (CatBad VariantImageLimit)
                else Inr (map (\<lambda>x. if v_id (fst x) = i then edit_variant env uv urls x else x) olds,
                          refs @ [OldVariant i], drop n files, k))
       | None \<Rightarrow>
           if max_variant_images < length urls then Inl (CatBad VariantImageLimit)
           else if nonempty_text (uv_name uv) = None \<or> uv_stock_quantity uv = None then Inl (CatBad VariantInfoMissing)
           else
             let name = the (uv_name uv);
                 row = (\<lparr>v_id = k, v_product_id = None, v_name = Some name,
                         v_attributes = variant_attributes env (uv_attributes uv) name,
                         v_additional_price = (case uv_additional_price uv of None \<Rightarrow> 0 | Some x \<Rightarrow> dec_of_js x),
                         v_stock_quantity = the (uv_stock_quantity uv)\<rparr>,
                        \<lparr>vr_id = k, vr_sku = uv_sku uv, vr_images = Some urls\<rparr>)
             in Inr (olds, refs @ [NewVariant row], drop n files, Suc k)))"

fun apply_variants :: "catalog_env \<Rightarrow> bool \<Rightarrow> update_variant list \<Rightarrow> edit_state \<Rightarrow> catalog_error + edit_state" where
  "apply_variants env cm [] st = Inr st"
| "apply_variants env cm (uv # uvs) st =
     (case apply_variant env cm uv st of Inl er \<Rightarrow> Inl er | Inr st' \<Rightarrow> apply_variants env cm uvs st')"

definition resolve_ref :: "(variant \<times> variant_rest) list \<Rightarrow> variant_ref \<Rightarrow> (variant \<times> variant_rest) list" where
  "resolve_ref olds x =
     (case x of NewVariant row \<Rightarrow> [row]
      | OldVariant i \<Rightarrow> (case find (\<lambda>(v, r). v_id v = i) olds of None \<Rightarrow> [] | Some row \<Rightarrow> [row]))"

definition step_variants ::
  "catalog_env \<Rightarrow> update_product_dto \<Rightarrow> product_files \<Rightarrow> loaded \<times> catalog \<Rightarrow> catalog_error + (loaded \<times> catalog)" where
  "step_variants env dto files ec =
     (case ec of (e, c) \<Rightarrow>
      (case up_variants dto of
         None \<Rightarrow> Inr (e, c)
       | Some uvs \<Rightarrow>
           if \<not> p_has_variants (ld_p e) then Inr (e, c)
           else
             let k = p_id (ld_p e);
                 olds = variants_of_product k c;
                 incoming = List.map_filter uv_id uvs;
                 c1 = delete_variants (\<lambda>v. v_product_id v = Some k \<and> v_id v \<notin> set incoming) c
             in (case apply_variants env (up_color_images dto \<noteq> None) uvs (olds, [], pf_variant_images files, next_uuid (cdb c)) of
                   Inl er \<Rightarrow> Inl er
                 | Inr (olds', refs, _, k') \<Rightarrow>
                     let vs = concat (map (resolve_ref olds') refs)
                     in Inr (e\<lparr>ld_p := (ld_p e)\<lparr>p_stock_quantity := sum_list (map (v_stock_quantity \<circ> fst) vs)\<rparr>, ld_vs := vs\<rparr>,
                             c1\<lparr>cdb := (cdb c1)\<lparr>next_uuid := k'\<rparr>\<rparr>))))"

text \<open>The transaction of \<open>update\<close> on the entity \<open>e\<close>, read before.\<close>

definition update_commit ::
  "catalog_env \<Rightarrow> update_product_dto \<Rightarrow> product_files \<Rightarrow> loaded \<Rightarrow> catalog \<Rightarrow> catalog_error + catalog" where
  "update_commit env dto files e c =
     (case step_thumbnail files e of Inl er \<Rightarrow> Inl er | Inr e1 \<Rightarrow>
      case step_gallery dto files e1 of Inl er \<Rightarrow> Inl er | Inr e2 \<Rightarrow>
      case step_has_variants dto (step_basics env dto e2, c) of Inl er \<Rightarrow> Inl er | Inr (e3, c1) \<Rightarrow>
      case step_stock dto e3 of Inl er \<Rightarrow> Inl er | Inr e4 \<Rightarrow>
      case step_category dto c1 e4 of Inl er \<Rightarrow> Inl er | Inr e5 \<Rightarrow>
      case (case up_color_images dto of None \<Rightarrow> Inr None
            | Some groups \<Rightarrow> map_sum id Some (new_color_groups groups (pf_color_images files))) of Inl er \<Rightarrow> Inl er | Inr colors \<Rightarrow>
      case step_variants env dto files (e5, c1) of Inl er \<Rightarrow> Inl er | Inr (e6, c2) \<Rightarrow>
      let r = (given colors (\<lambda>m r. r\<lparr>pr_color_groups := Some m\<rparr>) (ld_r e6))\<lparr>pr_updated_at := ce_now env\<rparr>
      in if p_has_variants (ld_p e6) \<and> ld_vs e6 = [] then Inl (CatBad NoVariants)
         else case save_entity (ld_p e6) r (ld_vs e6) c2 of Inl er \<Rightarrow> Inl er | Inr c3 \<Rightarrow>
         Inr (emit (ProductUpdated (snapshot_of (ld_p e6) r)) c3))"

definition product_update ::
  "catalog_env \<Rightarrow> uuid \<Rightarrow> update_product_dto \<Rightarrow> product_files \<Rightarrow> uuid \<Rightarrow> catalog \<Rightarrow> catalog_error + catalog" where
  "product_update env k dto files userId c =
     (case update_read k userId dto c of Inl er \<Rightarrow> Inl er | Inr e \<Rightarrow> update_commit env dto files e c)"

subsection \<open>Removing\<close>

definition remove_read :: "uuid \<Rightarrow> uuid \<Rightarrow> catalog \<Rightarrow> catalog_error + loaded" where
  "remove_read k userId c =
     (case load_product k c of None \<Rightarrow> Inl (CatMissing CatalogProductNotFound) | Some e \<Rightarrow>
      case shop_for_seller userId c of Inl er \<Rightarrow> Inl er | Inr shop \<Rightarrow>
      case owned_by (ld_p e) shop of Some er \<Rightarrow> Inl er | None \<Rightarrow> Inr e)"

definition remove_commit :: "catalog_env \<Rightarrow> uuid \<Rightarrow> loaded \<Rightarrow> catalog \<Rightarrow> catalog" where
  "remove_commit env k e c =
     (let c1 = delete_variants (\<lambda>v. v_id v \<in> (v_id \<circ> fst) ` set (ld_vs e)) c;
          c2 = c1\<lparr>cdb := (cdb c1)\<lparr>products := update_row p_id k
                  (\<lambda>p. p\<lparr>p_status := ProductDeleted, p_has_variants := False, p_thumbnail_url := None, p_stock_quantity := 0\<rparr>)
                  (products (cdb c1))\<rparr>,
                  rests := update_row pr_id k (\<lambda>r. r\<lparr>pr_gallery := Some [], pr_updated_at := ce_now env\<rparr>) (rests c1)\<rparr>
      in emit (ProductDeletedEv k) c2)"

definition product_remove :: "catalog_env \<Rightarrow> uuid \<Rightarrow> uuid \<Rightarrow> catalog \<Rightarrow> catalog_error + catalog" where
  "product_remove env k userId c =
     (case remove_read k userId c of Inl er \<Rightarrow> Inl er | Inr e \<Rightarrow> Inr (remove_commit env k e c))"

text \<open>What the reviews use.\<close>

definition ensureExists :: "uuid \<Rightarrow> catalog \<Rightarrow> catalog_error option" where
  "ensureExists k c = (if find_row p_id k (products (cdb c)) = None then Some (CatMissing CatalogProductNotFound) else None)"

definition applyRatingStats :: "millis \<Rightarrow> uuid \<Rightarrow> int \<Rightarrow> nat \<Rightarrow> catalog \<Rightarrow> catalog" where
  "applyRatingStats now k avg cnt c =
     c\<lparr>rests := update_row pr_id k (\<lambda>r. r\<lparr>pr_avg_rating := avg, pr_review_count := int cnt, pr_updated_at := now\<rparr>) (rests c)\<rparr>"

end
