(* ===== verification/CatalogQueries.thy ===== *)
theory CatalogQueries
  imports Catalog
begin

text \<open>
  The reading side of \<open>products.service.ts\<close>: the public catalogue from the database or through the search service, the
  catalogue of one shop, the inventory of a seller, the listing for administrators, one product.

  \<open>ILIKE\<close> and the collation of names belong to PostgreSQL and are arguments (\<open>ilike pattern text\<close>, \<open>collate\<close>). The search
  A price bound of the query is a rational: the decimal its JavaScript number prints as. The search
  service (\<open>SearchClient.fetchCandidates\<close>) answers the ranked ids, or \<open>None\<close> when it cannot be used.
\<close>

record sql =
  ilike :: "string \<Rightarrow> string \<Rightarrow> bool"
  collate :: "string \<Rightarrow> int"

datatype sort_field = ByPrice | ByCreatedAt | ByName | ByAvgRating | ByFeatured | ByStock

record product_query =
  pq_q :: "string option"
  pq_category_id :: "uuid option"
  pq_min_price :: "rat option"
  pq_max_price :: "rat option"
  pq_rating :: "rat option"
  pq_sort :: "sort_field option"
  pq_ascending :: bool
  pq_page :: "nat option"
  pq_limit :: "nat option"

type_synonym listing = "product \<times> product_rest"

definition like_text :: "string \<Rightarrow> string" where
  "like_text q = ''%'' @ q @ ''%''"

definition listings :: "catalog \<Rightarrow> listing list" where
  "listings c = List.map_filter (\<lambda>p. map_option (Pair p) (find_row pr_id (p_id p) (rests c))) (products (cdb c))"

definition shop_of_product :: "product \<Rightarrow> catalog \<Rightarrow> shop option" where
  "shop_of_product p c = find_opt s_id (p_shop_id p) (shops (cdb c))"

text \<open>The column generated by the database.\<close>

definition is_out_of_stock :: "product \<Rightarrow> bool" where
  "is_out_of_stock p \<longleftrightarrow> p_stock_quantity p = 0"

definition sort_value :: "sql \<Rightarrow> sort_field \<Rightarrow> listing \<Rightarrow> int" where
  "sort_value S f l =
     (case l of (p, r) \<Rightarrow>
      (case f of ByPrice \<Rightarrow> p_price p | ByCreatedAt \<Rightarrow> pr_created_at r | ByName \<Rightarrow> collate S (p_name p)
       | ByAvgRating \<Rightarrow> pr_avg_rating r | ByFeatured \<Rightarrow> (if pr_is_featured r then 1 else 0)
       | ByStock \<Rightarrow> p_stock_quantity p))"

definition order_by :: "sql \<Rightarrow> sort_field \<Rightarrow> bool \<Rightarrow> listing list \<Rightarrow> listing list" where
  "order_by S f ascending ls =
     (if ascending then sort_key (sort_value S f) ls else sort_key (\<lambda>l. - sort_value S f l) ls)"

text \<open>What is in stock comes first: the first sort key, so the last stable sort.\<close>

definition in_stock_first :: "listing list \<Rightarrow> listing list" where
  "in_stock_first ls = sort_key (\<lambda>(p, r). if is_out_of_stock p then 1 else 0 :: int) ls"

definition public_sort :: "sort_field option \<Rightarrow> sort_field" where
  "public_sort s = (case s of Some ByStock \<Rightarrow> ByCreatedAt | Some f \<Rightarrow> f | None \<Rightarrow> ByCreatedAt)"

subsection \<open>Filters\<close>

text \<open>Active, not hidden, of an active shop.\<close>

definition public_listing :: "catalog \<Rightarrow> listing \<Rightarrow> bool" where
  "public_listing c l \<longleftrightarrow>
     p_status (fst l) = ProductActive \<and> \<not> p_is_hidden (fst l)
   \<and> (case shop_of_product (fst l) c of None \<Rightarrow> False | Some s \<Rightarrow> s_status s = AccActive)"

definition in_range :: "rat option \<Rightarrow> rat option \<Rightarrow> dec2 \<Rightarrow> bool" where
  "in_range mn mx v \<longleftrightarrow>
     (case mn of None \<Rightarrow> True | Some lo \<Rightarrow> lo \<le> of_int v / 100) \<and> (case mx of None \<Rightarrow> True | Some hi \<Rightarrow> of_int v / 100 \<le> hi)"

definition applyPriceFilter :: "rat option \<Rightarrow> rat option \<Rightarrow> catalog \<Rightarrow> listing \<Rightarrow> bool" where
  "applyPriceFilter mn mx c l =
     (if mn = None \<and> mx = None then True
      else if p_has_variants (fst l)
      then list_ex (\<lambda>v. v_product_id v = Some (p_id (fst l)) \<and> in_range mn mx (p_price (fst l) + v_additional_price v)) (variants (cdb c))
      else in_range mn mx (p_price (fst l)))"

definition resolveCategoryIds :: "uuid \<Rightarrow> category_db \<Rightarrow> uuid list" where
  "resolveCategoryIds k d =
     (case findOneById k d of Inl _ \<Rightarrow> [k] | Inr (c, children) \<Rightarrow> cat_id c # map cat_id children)"

definition category_filter :: "uuid option \<Rightarrow> catalog \<Rightarrow> listing \<Rightarrow> bool" where
  "category_filter k c l =
     (case k of None \<Rightarrow> True
      | Some i \<Rightarrow> (case pr_category_id (snd l) of None \<Rightarrow> False | Some j \<Rightarrow> j \<in> set (resolveCategoryIds i (cats c))))"

definition text_filter :: "sql \<Rightarrow> string option \<Rightarrow> listing \<Rightarrow> bool" where
  "text_filter S q l =
     (case nonempty_text q of None \<Rightarrow> True
      | Some t \<Rightarrow> ilike S (like_text t) (p_name (fst l))
               \<or> (case pr_description (snd l) of None \<Rightarrow> False | Some x \<Rightarrow> ilike S (like_text t) x))"

definition rating_filter :: "rat option \<Rightarrow> listing \<Rightarrow> bool" where
  "rating_filter x l =
     (case x of None \<Rightarrow> True | Some y \<Rightarrow> if y = 0 then True else y \<le> of_int (pr_avg_rating (snd l)) / 10)"

subsection \<open>The pictures of a variant\<close>

definition variant_color :: "variant \<Rightarrow> string option" where
  "variant_color v = nonempty_text (Option.bind (v_attributes v) (\<lambda>attrs. map_of attrs ''color''))"

definition resolved_images :: "product_rest \<Rightarrow> variant \<times> variant_rest \<Rightarrow> string list" where
  "resolved_images r vr =
     (case vr of (v, x) \<Rightarrow>
      (let imgs = (case variant_color v of None \<Rightarrow> None
                   | Some color \<Rightarrow> map_option cg_images (map_of (listed (pr_color_groups r)) color))
       in if listed imgs \<noteq> [] then listed imgs else listed (vr_images x)))"

definition resolveVariantImages :: "product_rest \<Rightarrow> (variant \<times> variant_rest) list \<Rightarrow> (variant \<times> variant_rest) list" where
  "resolveVariantImages r vs = map (\<lambda>(v, x). (v, x\<lparr>vr_images := Some (resolved_images r (v, x))\<rparr>)) vs"

text \<open>A product as it is answered, with its variants.\<close>

record answered =
  an_p :: product
  an_r :: product_rest
  an_vs :: "(variant \<times> variant_rest) list"

definition answer_of :: "catalog \<Rightarrow> listing \<Rightarrow> answered" where
  "answer_of c l = \<lparr>an_p = fst l, an_r = snd l, an_vs = resolveVariantImages (snd l) (variants_of_product (p_id (fst l)) c)\<rparr>"

text \<open>\<open>hydrateProductPage\<close>: the rows of the page again, in the order of the page.\<close>

definition hydrateProductPage :: "catalog \<Rightarrow> listing paginated \<Rightarrow> answered paginated" where
  "hydrateProductPage c pg =
     (let ids = map (p_id \<circ> fst) (pg_items pg);
          detailed = filter (\<lambda>l. p_id (fst l) \<in> set ids) (listings c)
      in \<lparr>pg_items = map (answer_of c) (List.map_filter (\<lambda>k. find (\<lambda>l. p_id (fst l) = k) detailed) ids),
          pg_page = pg_page pg, pg_limit = pg_limit pg, pg_totalItems = pg_totalItems pg, pg_totalPages = pg_totalPages pg\<rparr>)"

subsection \<open>The public catalogue\<close>

definition findAllViaDatabase :: "sql \<Rightarrow> product_query \<Rightarrow> catalog \<Rightarrow> answered paginated" where
  "findAllViaDatabase S query c =
     (let (mn, mx) = normalizePriceRange (pq_min_price query) (pq_max_price query);
          rows = filter (\<lambda>l. public_listing c l \<and> category_filter (pq_category_id query) c l \<and> text_filter S (pq_q query) l
                           \<and> applyPriceFilter mn mx c l \<and> rating_filter (pq_rating query) l) (listings c)
      in hydrateProductPage c (paginate (pq_page query) (pq_limit query)
           (in_stock_first (order_by S (public_sort (pq_sort query)) (pq_ascending query) rows))))"

definition getShopCatalogViaDatabase :: "sql \<Rightarrow> uuid \<Rightarrow> product_query \<Rightarrow> catalog \<Rightarrow> answered paginated" where
  "getShopCatalogViaDatabase S shopId query c =
     (let (mn, mx) = normalizePriceRange (pq_min_price query) (pq_max_price query);
          rows = filter (\<lambda>l. p_shop_id (fst l) = Some shopId \<and> public_listing c l \<and> category_filter (pq_category_id query) c l
                           \<and> text_filter S (pq_q query) l \<and> applyPriceFilter mn mx c l \<and> rating_filter (pq_rating query) l) (listings c)
      in hydrateProductPage c (paginate (pq_page query) (pq_limit query)
           (order_by S (public_sort (pq_sort query)) (pq_ascending query) rows)))"

subsection \<open>Through the search service\<close>

definition emptyPage :: "product_query \<Rightarrow> answered paginated" where
  "emptyPage query =
     \<lparr>pg_items = [], pg_page = or_default (pq_page query) 1, pg_limit = or_default (pq_limit query) 10, pg_totalItems = 0, pg_totalPages = 0\<rparr>"

definition rank_of :: "uuid list \<Rightarrow> uuid \<Rightarrow> nat" where
  "rank_of candidates k = (case find (\<lambda>i. candidates ! i = k) (rev [0..<length candidates]) of Some i \<Rightarrow> i | None \<Rightarrow> 9007199254740991)"

text \<open>The custom sort is done by SQL; otherwise the rank decides, after the stock.\<close>

definition rankSortPaginateHydrate :: "sql \<Rightarrow> listing list \<Rightarrow> uuid list \<Rightarrow> product_query \<Rightarrow> catalog \<Rightarrow> answered paginated" where
  "rankSortPaginateHydrate S filtered candidates query c =
     (let ordered = (case pq_sort query of
                       None \<Rightarrow> in_stock_first (sort_key (\<lambda>l. rank_of candidates (p_id (fst l))) filtered)
                     | Some ByStock \<Rightarrow> in_stock_first (sort_key (\<lambda>l. rank_of candidates (p_id (fst l))) filtered)
                     | Some f \<Rightarrow> in_stock_first (order_by S f (pq_ascending query) filtered))
      in hydrateProductPage c (paginate (pq_page query) (pq_limit query) ordered))"

definition authoritative :: "uuid option \<Rightarrow> uuid list \<Rightarrow> product_query \<Rightarrow> catalog \<Rightarrow> listing list" where
  "authoritative shopId candidates query c =
     filter (\<lambda>l. p_id (fst l) \<in> set candidates \<and> (case shopId of None \<Rightarrow> True | Some k \<Rightarrow> p_shop_id (fst l) = Some k)
               \<and> public_listing c l \<and> rating_filter (pq_rating query) l) (listings c)"

definition findAllViaSearchService ::
  "sql \<Rightarrow> uuid option \<Rightarrow> uuid list option \<Rightarrow> product_query \<Rightarrow> catalog \<Rightarrow> answered paginated option" where
  "findAllViaSearchService S shopId fetched query c =
     (case fetched of
        None \<Rightarrow> None
      | Some [] \<Rightarrow> Some (emptyPage query)
      | Some (k # ks) \<Rightarrow> Some (rankSortPaginateHydrate S (authoritative shopId (k # ks) query c) (k # ks) query c))"

definition has_keyword :: "product_query \<Rightarrow> bool" where
  "has_keyword query \<longleftrightarrow> (case pq_q query of None \<Rightarrow> False | Some q \<Rightarrow> trim q \<noteq> [])"

text \<open>The dispatchers; \<open>enabled\<close> is the switch of the search service.\<close>

definition product_findAll :: "sql \<Rightarrow> bool \<Rightarrow> uuid list option \<Rightarrow> product_query \<Rightarrow> catalog \<Rightarrow> answered paginated" where
  "product_findAll S enabled fetched query c =
     (if enabled \<and> has_keyword query then
        (case findAllViaSearchService S None fetched query c of Some pg \<Rightarrow> pg | None \<Rightarrow> findAllViaDatabase S query c)
      else findAllViaDatabase S query c)"

definition getPublicCatalogByShop ::
  "sql \<Rightarrow> bool \<Rightarrow> uuid list option \<Rightarrow> uuid \<Rightarrow> product_query \<Rightarrow> catalog \<Rightarrow> catalog_error + answered paginated" where
  "getPublicCatalogByShop S enabled fetched shopId query c =
     (case find (\<lambda>s. s_id s = shopId \<and> s_status s = AccActive) (shops (cdb c)) of
        None \<Rightarrow> Inl (CatMissing CatalogShopInactive)
      | Some shop \<Rightarrow>
          Inr (if enabled \<and> has_keyword query then
                 (case findAllViaSearchService S (Some (s_id shop)) fetched query c of
                    Some pg \<Rightarrow> pg | None \<Rightarrow> getShopCatalogViaDatabase S (s_id shop) query c)
               else getShopCatalogViaDatabase S (s_id shop) query c))"

subsection \<open>Sellers and administrators\<close>

datatype stock_filter = InStock | OutOfStockOnly

definition getSellerInventory ::
  "sql \<Rightarrow> uuid \<Rightarrow> bool option \<Rightarrow> stock_filter option \<Rightarrow> product_query \<Rightarrow> catalog \<Rightarrow> catalog_error + answered paginated" where
  "getSellerInventory S userId hidden stock query c =
     (case findOneByUserId userId (cdb c) of Inl e \<Rightarrow> Inl (CatShop e) | Inr shop \<Rightarrow>
      let rows = filter (\<lambda>l. p_shop_id (fst l) = Some (s_id shop) \<and> p_status (fst l) \<noteq> ProductDeleted
                   \<and> (case hidden of None \<Rightarrow> True | Some h \<Rightarrow> p_is_hidden (fst l) = h)
                   \<and> (case stock of None \<Rightarrow> True | Some InStock \<Rightarrow> 0 < p_stock_quantity (fst l) | Some OutOfStockOnly \<Rightarrow> p_stock_quantity (fst l) = 0)
                   \<and> (case nonempty_text (pq_q query) of None \<Rightarrow> True
                      | Some q \<Rightarrow> ilike S (like_text q) (p_name (fst l))
                          \<or> (case pr_sku (snd l) of None \<Rightarrow> False | Some x \<Rightarrow> ilike S (like_text q) x)
                          \<or> list_ex (\<lambda>(v, x). case vr_sku x of None \<Rightarrow> False | Some y \<Rightarrow> ilike S (like_text q) y)
                              (variants_of_product (p_id (fst l)) c))) (listings c);
          f = (case pq_sort query of Some ByAvgRating \<Rightarrow> ByCreatedAt | Some ByFeatured \<Rightarrow> ByCreatedAt | Some g \<Rightarrow> g | None \<Rightarrow> ByCreatedAt)
      in Inr (hydrateProductPage c (paginate (pq_page query) (pq_limit query) (order_by S f (pq_ascending query) rows))))"

definition product_findAllForAdmin ::
  "sql \<Rightarrow> product_status option \<Rightarrow> uuid option \<Rightarrow> string option \<Rightarrow> nat option \<Rightarrow> nat option \<Rightarrow> catalog \<Rightarrow> listing paginated" where
  "product_findAllForAdmin S status shopId q qpage qlimit c =
     paginate qpage qlimit (order_by S ByCreatedAt False
       (filter (\<lambda>l. (case status of Some s \<Rightarrow> p_status (fst l) = s | None \<Rightarrow> p_status (fst l) \<noteq> ProductDeleted)
                  \<and> (case shopId of None \<Rightarrow> True | Some k \<Rightarrow> map_option s_id (shop_of_product (fst l) c) = Some k)
                  \<and> (case nonempty_text q of None \<Rightarrow> True | Some t \<Rightarrow> ilike S (like_text t) (p_name (fst l)))) (listings c)))"

subsection \<open>One product\<close>

definition product_findOne :: "uuid \<Rightarrow> bool \<Rightarrow> catalog \<Rightarrow> catalog_error + (answered \<times> string list)" where
  "product_findOne k isPublic c =
     (case find (\<lambda>l. p_id (fst l) = k \<and> (isPublic \<longrightarrow> public_listing c l)) (listings c) of
        None \<Rightarrow> Inl (CatMissing CatalogProductNotFound)
      | Some l \<Rightarrow>
          let a = answer_of c l;
              urls = (case p_thumbnail_url (fst l) of None \<Rightarrow> [] | Some u \<Rightarrow> [u]) @ listed (pr_gallery (snd l))
                       @ concat (map (\<lambda>(v, x). listed (vr_images x)) (an_vs a))
          in Inr (a, rev (remdups (rev (filter (\<lambda>u. u \<noteq> []) urls)))))"

definition findOneForSeller :: "uuid \<Rightarrow> uuid \<Rightarrow> catalog \<Rightarrow> catalog_error + (answered \<times> string list)" where
  "findOneForSeller k userId c =
     (case findOneByUserId userId (cdb c) of Inl e \<Rightarrow> Inl (CatShop e) | Inr shop \<Rightarrow>
      case product_findOne k False c of Inl e \<Rightarrow> Inl e | Inr (a, g) \<Rightarrow>
      case owned_by (an_p a) shop of Some e \<Rightarrow> Inl e | None \<Rightarrow> Inr (a, g))"

end
