(* ===== verification/CatalogSafety.thy ===== *)
theory CatalogSafety
  imports CatalogQueries ProductStock
begin

text \<open>
  What holds of the catalogue: the public pages show only what may be seen; an edit overwrites what happened since it
  was read; a product that was taken down comes back without an administrator.
\<close>

subsection \<open>Public pages\<close>

lemma listing_rows: "l \<in> set (listings c) \<Longrightarrow> fst l \<in> set (products (cdb c)) \<and> find_row pr_id (p_id (fst l)) (rests c) = Some (snd l)"
  by (auto simp: listings_def map_filter_def)

lemma listing_unique:
  assumes "unique_keys p_id (products (cdb c))" "l \<in> set (listings c)" "m \<in> set (listings c)" "p_id (fst l) = p_id (fst m)"
  shows "l = m"
proof -
  note l = listing_rows [OF assms(2)] and m = listing_rows [OF assms(3)]
  have "fst l = fst m" using assms(1,4) l m by (auto simp: unique_keys_def distinct_map dest: inj_onD)
  moreover from this have "snd l = snd m" using l m by simp
  ultimately show ?thesis by (simp add: prod_eq_iff)
qed

lemma in_map_filter: "x \<in> set (List.map_filter f xs) \<Longrightarrow> \<exists>k \<in> set xs. f k = Some x"
  by (auto simp: map_filter_def)

lemma in_hydrated:
  assumes "unique_keys p_id (products (cdb c))" "\<forall>l \<in> set (pg_items pg). l \<in> set (listings c) \<and> P l"
    and "a \<in> set (pg_items (hydrateProductPage c pg))"
  shows "\<exists>l \<in> set (listings c). P l \<and> a = answer_of c l"
proof -
  let ?ids = "map (p_id \<circ> fst) (pg_items pg)"
  let ?det = "filter (\<lambda>x. p_id (fst x) \<in> set ?ids) (listings c)"
  have "a \<in> answer_of c ` set (List.map_filter (\<lambda>k. find (\<lambda>x. p_id (fst x) = k) ?det) ?ids)"
    using assms(3) unfolding hydrateProductPage_def Let_def paginated.select_convs set_map .
  then obtain l where a: "a = answer_of c l" and "l \<in> set (List.map_filter (\<lambda>k. find (\<lambda>x. p_id (fst x) = k) ?det) ?ids)" by blast
  from in_map_filter [OF this(2)] obtain k where k: "k \<in> set ?ids" and f: "find (\<lambda>x. p_id (fst x) = k) ?det = Some l" by blast
  have l: "l \<in> set (listings c)" "p_id (fst l) = k" using find_Some_iff [THEN iffD1, OF f] by (auto dest: nth_mem)
  from k obtain m where m: "m \<in> set (pg_items pg)" "p_id (fst m) = k" by auto
  then have "m = l" using listing_unique [OF assms(1) _ l(1), of m] assms(2) l(2) by auto
  then show ?thesis using m assms(2) a l(1) by blast
qed

lemma in_page: "x \<in> set (pg_items (paginate p l rows)) \<Longrightarrow> x \<in> set rows"
  by (auto simp: paginate_def Let_def dest: in_set_takeD in_set_dropD)

lemma ordered_set [simp]: "set (in_stock_first ls) = set ls" "set (order_by S f a ls) = set ls"
  by (simp_all add: in_stock_first_def order_by_def)

lemma database_page:
  assumes "unique_keys p_id (products (cdb c))"
  shows "a \<in> set (pg_items (findAllViaDatabase S query c)) \<Longrightarrow> \<exists>l \<in> set (listings c). public_listing c l \<and> a = answer_of c l"
    "a \<in> set (pg_items (getShopCatalogViaDatabase S k query c)) \<Longrightarrow>
      \<exists>l \<in> set (listings c). (public_listing c l \<and> p_shop_id (fst l) = Some k) \<and> a = answer_of c l"
  unfolding findAllViaDatabase_def getShopCatalogViaDatabase_def Let_def split_beta
  by (rule in_hydrated [OF assms]; auto dest!: in_page)+

lemma search_page:
  assumes "unique_keys p_id (products (cdb c))" "findAllViaSearchService S k fetched query c = Some pg" "a \<in> set (pg_items pg)"
  shows "\<exists>l \<in> set (listings c). (public_listing c l \<and> (case k of None \<Rightarrow> True | Some i \<Rightarrow> p_shop_id (fst l) = Some i)) \<and> a = answer_of c l"
proof -
  obtain x xs where f: "fetched = Some (x # xs)"
    and pg: "pg = rankSortPaginateHydrate S (authoritative k (x # xs) query c) (x # xs) query c"
    using assms(2,3) by (auto simp: findAllViaSearchService_def emptyPage_def split: option.splits list.splits)
  obtain ordered where o: "pg = hydrateProductPage c (paginate (pq_page query) (pq_limit query) ordered)"
    "set ordered = set (authoritative k (x # xs) query c)"
    unfolding pg rankSortPaginateHydrate_def Let_def
    by (cases "pq_sort query") (simp, auto split: sort_field.splits)
  show ?thesis
    by (rule in_hydrated [OF assms(1) _ assms(3) [unfolded o(1)]]) (auto dest!: in_page simp: o(2) authoritative_def)
qed

text \<open>What the public may see.\<close>

definition may_be_seen :: "catalog \<Rightarrow> product \<Rightarrow> bool" where
  "may_be_seen c p \<longleftrightarrow> p_status p \<notin> {ProductSuspended, ProductDeleted} \<and> p_is_hidden p = False
     \<and> (\<exists>s \<in> set (shops (cdb c)). p_shop_id p = Some (s_id s) \<and> s_status s = AccActive)"

lemma listing_seen: "public_listing c l \<Longrightarrow> may_be_seen c (fst l)"
  by (auto simp: public_listing_def may_be_seen_def shop_of_product_def find_opt_def dest!: find_row_SomeD split: option.splits)

text \<open>
  C6. No public page shows a product that is suspended, removed or hidden, or whose shop is not active, whatever the query
  and whatever ids the search service answers: not the catalogue, not the catalogue of a shop (which shows products of
  that shop only), not the page of one product.
\<close>

theorem public_pages_safe:
  assumes "unique_keys p_id (products (cdb c))"
  shows "(a \<in> set (pg_items (product_findAll S enabled fetched query c)) \<longrightarrow> may_be_seen c (an_p a))
    \<and> (getPublicCatalogByShop S enabled fetched k query c = Inr pg \<and> b \<in> set (pg_items pg)
        \<longrightarrow> may_be_seen c (an_p b) \<and> p_shop_id (an_p b) = Some k)
    \<and> (product_findOne i True c = Inr (x, urls) \<longrightarrow> may_be_seen c (an_p x) \<and> p_id (an_p x) = i)"
proof (intro conjI impI)
  assume "a \<in> set (pg_items (product_findAll S enabled fetched query c))"
  then have "\<exists>l \<in> set (listings c). public_listing c l \<and> a = answer_of c l"
    using database_page(1) [OF assms] search_page [OF assms, where k = None]
    by (auto simp: product_findAll_def split: if_splits option.splits)
  then show "may_be_seen c (an_p a)" by (auto simp: answer_of_def dest: listing_seen)
next
  assume b: "getPublicCatalogByShop S enabled fetched k query c = Inr pg \<and> b \<in> set (pg_items pg)"
  then obtain s where s: "find (\<lambda>s. s_id s = k \<and> s_status s = AccActive) (shops (cdb c)) = Some s"
    by (auto simp: getPublicCatalogByShop_def split: option.splits)
  then have k: "s_id s = k" by (auto simp: find_Some_iff)
  have "\<exists>l \<in> set (listings c). (public_listing c l \<and> p_shop_id (fst l) = Some k) \<and> b = answer_of c l"
  proof (cases "findAllViaSearchService S (Some k) fetched query c")
    case None
    then show ?thesis using b s k database_page(2) [OF assms] by (auto simp: getPublicCatalogByShop_def split: if_splits)
  next
    case (Some q)
    then show ?thesis using b s k database_page(2) [OF assms, where k = k] search_page [OF assms Some]
      by (auto simp: getPublicCatalogByShop_def split: if_splits)
  qed
  then show "may_be_seen c (an_p b)" "p_shop_id (an_p b) = Some k" by (auto simp: answer_of_def dest: listing_seen)
next
  assume "product_findOne i True c = Inr (x, urls)"
  then obtain l where "find (\<lambda>l. p_id (fst l) = i \<and> (True \<longrightarrow> public_listing c l)) (listings c) = Some l" "x = answer_of c l"
    by (auto simp: product_findOne_def Let_def split: option.splits)
  then show "may_be_seen c (an_p x)" "p_id (an_p x) = i" by (auto simp: answer_of_def find_Some_iff dest: listing_seen)
qed

text \<open>A small catalogue: the products of \<open>demo_db\<close>.\<close>

definition demo_rest :: "uuid \<Rightarrow> product_rest" where
  "demo_rest k = \<lparr>pr_id = k, pr_slug = ''slug'', pr_sku = None, pr_description = None, pr_weight = 1, pr_length = None,
     pr_width = None, pr_height = None, pr_category_id = None, pr_gallery = None, pr_color_groups = None, pr_is_featured = False,
     pr_moderation_reason = None, pr_moderated_at = None, pr_moderated_by = None, pr_avg_rating = 0, pr_review_count = 0,
     pr_created_at = 0, pr_updated_at = 0\<rparr>"

definition demo_catalog :: catalog where
  "demo_catalog = \<lparr>cdb = demo_db, rests = [demo_rest 21, demo_rest 22], vrests = [], cats = no_categories\<rparr>"

definition demo_catalog_env :: catalog_env where
  "demo_catalog_env = \<lparr>ce_slugify = id, ce_lower = id, ce_upper = id, ce_now = 5\<rparr>"

lemma demo_catalog_simps [simp]:
  "cdb demo_catalog = demo_db" "rests demo_catalog = [demo_rest 21, demo_rest 22]" "pr_id (demo_rest k) = k"
  by (simp_all add: demo_catalog_def demo_rest_def)

theorem public_pages_safe_witness:
  "\<exists>x urls. product_findOne 21 True demo_catalog = Inr (x, urls) \<and> may_be_seen demo_catalog (an_p x) \<and> p_id (an_p x) = 21"
proof -
  have keys: "unique_keys p_id (products (cdb demo_catalog))" by (simp add: demo_db_def unique_keys_def)
  obtain x urls where f: "product_findOne 21 True demo_catalog = Inr (x, urls)"
    by (simp add: product_findOne_def listings_def List.map_filter_simps find_row_def demo_db_def public_listing_def shop_of_product_def
        find_opt_def Let_def)
  then show ?thesis using public_pages_safe [OF keys] by blast
qed

subsection \<open>Edits that are too old\<close>

definition no_change :: update_product_dto where
  "no_change = \<lparr>up_name = None, up_description = None, up_price = None, up_sku = None, up_weight = None, up_length = None,
     up_width = None, up_height = None, up_status = None, up_is_hidden = None, up_has_variants = None, up_stock_quantity = None,
     up_category_id = None, up_existing_gallery = None, up_color_images = None, up_variants = None\<rparr>"

definition no_files :: product_files where
  "no_files = \<lparr>pf_thumbnail = [], pf_general_gallery = [], pf_variant_images = [], pf_color_images = []\<rparr>"

lemma given_simps [simp]: "given None f y = y" "given (Some v) f y = f v y"
  by (simp_all add: given_def)

text \<open>An edit of the columns alone: the description or the status.\<close>

definition plain_edit :: "string option \<Rightarrow> product_status option \<Rightarrow> update_product_dto" where
  "plain_edit words st = no_change\<lparr>up_description := words, up_status := st\<rparr>"

lemma plain_commit:
  assumes "p_has_variants (ld_p e) \<longrightarrow> ld_vs e \<noteq> []"
  shows "update_commit env (plain_edit words st) no_files e c =
    (let p = given st (\<lambda>x p. p\<lparr>p_status := x\<rparr>) (ld_p e);
         r = (given words (\<lambda>x r. r\<lparr>pr_description := Some x\<rparr>) (ld_r e))\<lparr>pr_updated_at := ce_now env\<rparr>
     in case save_entity p r (ld_vs e) c of Inl er \<Rightarrow> Inl er | Inr c3 \<Rightarrow> Inr (emit (ProductUpdated (snapshot_of p r)) c3))"
  using assms [unfolded imp_conv_disj]
  by (elim disjE; cases st; cases words)
    (simp_all add: update_commit_def plain_edit_def no_change_def no_files_def step_thumbnail_def step_gallery_def step_basics_def
        step_has_variants_def step_stock_def step_category_def step_variants_def nonempty_text_def Let_def split: sum.split)

lemma saved_product:
  "save_entity p r vs c = Inr c' \<Longrightarrow> find_row p_id (p_id p) (products (cdb c')) = Some p"
  "save_entity p r vs c = Inr c' \<Longrightarrow> find_row pr_id (pr_id r) (rests c') = Some r"
  by (auto simp: save_entity_def save_product_def Let_def find_row_save split: if_splits)

text \<open>
  C39. An edit that was read before and is saved after something else overwrites it: a seller who changes only the
  description of a product puts the whole row back as it was when the form was read. What was sold in between is on the
  shelf again, a product that an administrator took down in between is active again, and a review written in between is
  not counted; \<open>c'\<close> is the state the transaction finds, whatever happened since \<open>c\<close>.
\<close>

theorem stale_edit_undoes:
  assumes read: "update_read k userId (plain_edit (Some words) None) c = Inr e"
    and ok: "0 \<le> p_stock_quantity (ld_p e)" "list_all (\<lambda>(v, x). 0 \<le> v_stock_quantity v) (ld_vs e)" "p_has_variants (ld_p e) \<longrightarrow> ld_vs e \<noteq> []"
  shows "\<exists>c2. update_commit env (plain_edit (Some words) None) no_files e c' = Inr c2
    \<and> find_row p_id k (products (cdb c2)) = find_row p_id k (products (cdb c))
    \<and> map_option pr_review_count (find_row pr_id k (rests c2)) = map_option pr_review_count (find_row pr_id k (rests c))
    \<and> map_option p_status (find_row p_id k (products (cdb c2))) \<noteq> Some ProductSuspended"
proof -
  obtain p r where f: "find_row p_id k (products (cdb c)) = Some p" "find_row pr_id k (rests c) = Some r"
    and e: "e = \<lparr>ld_p = p, ld_r = r, ld_vs = variants_of_product k c\<rparr>" and st: "p_status p \<noteq> ProductSuspended"
    using read by (auto simp: update_read_def load_product_def find_product_def split: option.splits if_splits sum.splits)
  have k: "p_id p = k" using find_row_SomeD [OF f(1)] by simp
  let ?r = "r\<lparr>pr_description := Some words, pr_updated_at := ce_now env\<rparr>"
  have "\<not> list_ex (\<lambda>(v, x). v_stock_quantity v < 0) (ld_vs e)"
    using ok(2) by (fastforce simp: list_ex_iff list_all_iff)
  then obtain c3 where s: "save_entity p ?r (ld_vs e) c' = Inr c3"
    using ok(1) by (simp add: save_entity_def Let_def e)
  then have "update_commit env (plain_edit (Some words) None) no_files e c' = Inr (emit (ProductUpdated (snapshot_of p ?r)) c3)"
    unfolding plain_commit [OF ok(3)] by (simp add: e)
  moreover have "find_row p_id k (products (cdb c3)) = Some p" "find_row pr_id k (rests c3) = Some ?r"
    using saved_product [OF s] k find_row_SomeD [OF f(2)] by simp_all
  ultimately show ?thesis using f st by (intro exI conjI) (assumption | simp)+
qed

theorem stale_edit_undoes_witness:
  "\<exists>e c1 c2. update_read 21 2 (plain_edit (Some ''new'') None) demo_catalog = Inr e
    \<and> takeDown demo_catalog_env 4 21 ''fake'' demo_catalog = Inr c1
    \<and> update_commit demo_catalog_env (plain_edit (Some ''new'') None) no_files e c1 = Inr c2
    \<and> map_option p_status (find_row p_id 21 (products (cdb c2))) \<noteq> Some ProductSuspended"
proof -
  obtain e where read: "update_read 21 2 (plain_edit (Some ''new'') None) demo_catalog = Inr e"
    and e: "p_stock_quantity (ld_p e) = 5" "ld_vs e = []" "\<not> p_has_variants (ld_p e)"
    by (simp add: update_read_def load_product_def find_product_def find_row_def demo_db_def shop_for_seller_def findOneByUserId_def
        owned_by_def plain_edit_def no_change_def variants_of_product_def)
  obtain c1 where down: "takeDown demo_catalog_env 4 21 ''fake'' demo_catalog = Inr c1"
    by (simp add: takeDown_def find_product_def find_row_def demo_db_def Let_def)
  show ?thesis using stale_edit_undoes [OF read, of demo_catalog_env c1] e down read by auto
qed

text \<open>
  C40. A seller gets a product back that an administrator took down: removing is not refused for a suspended product, and
  a removed product may be edited, its status set to active.
\<close>

theorem take_down_bypassed:
  assumes keys: "unique_keys p_id (products (cdb c))" "unique_keys v_id (variants (cdb c))"
    and p: "find_product k c = Some (p, r)" "p_status p = ProductSuspended" "p_shop_id p = Some (s_id shop)"
    and shop: "findOneByUserId userId (cdb c) = Inr shop" "s_status shop = AccActive"
  shows "\<exists>c1 c2. product_remove env k userId c = Inr c1
    \<and> product_update env k (plain_edit None (Some ProductActive)) no_files userId c1 = Inr c2
    \<and> map_option p_status (find_row p_id k (products (cdb c2))) = Some ProductActive"
proof -
  have f: "find_row p_id k (products (cdb c)) = Some p" "find_row pr_id k (rests c) = Some r"
    using p(1) by (auto simp: find_product_def split: option.splits)
  have k: "p_id p = k" using find_row_SomeD [OF f(1)] by simp
  let ?e = "\<lparr>ld_p = p, ld_r = r, ld_vs = variants_of_product k c\<rparr>"
  define c1 where "c1 = remove_commit env k ?e c"
  define p1 where "p1 = p\<lparr>p_status := ProductDeleted, p_has_variants := False, p_thumbnail_url := None, p_stock_quantity := 0\<rparr>"
  define r1 where "r1 = r\<lparr>pr_gallery := Some [], pr_updated_at := ce_now env\<rparr>"
  have rem: "product_remove env k userId c = Inr c1"
    by (simp add: product_remove_def remove_read_def load_product_def p shop shop_for_seller_def owned_by_def c1_def)
  have rows: "find_row p_id k (products (cdb c1)) = Some p1" "find_row pr_id k (rests c1) = Some r1" "shops (cdb c1) = shops (cdb c)"
    by (simp_all add: c1_def remove_commit_def Let_def delete_variants_def find_row_update_row f p1_def r1_def)
  have vs: "variants (cdb c1) = delete_rows (\<lambda>v. v_id v \<in> (v_id \<circ> fst) ` set (variants_of_product k c)) (variants (cdb c))"
    by (simp add: c1_def remove_commit_def Let_def delete_variants_def)
  have "filter (\<lambda>v. v_product_id v = Some k) (variants (cdb c1)) = []"
    unfolding vs by (auto simp: filter_empty_conv variants_of_product_def image_iff)
  then have none: "variants_of_product k c1 = []" by (simp add: variants_of_product_def)
  let ?e1 = "\<lparr>ld_p = p1, ld_r = r1, ld_vs = []\<rparr>"
  have read: "update_read k userId (plain_edit None (Some ProductActive)) c1 = Inr ?e1"
    using shop p(3)
    by (simp add: update_read_def load_product_def find_product_def rows none shop_for_seller_def findOneByUserId_def owned_by_def
        plain_edit_def no_change_def p1_def)
  let ?p = "p1\<lparr>p_status := ProductActive\<rparr>" and ?r = "r1\<lparr>pr_updated_at := ce_now env\<rparr>"
  obtain c3 where s: "save_entity ?p ?r [] c1 = Inr c3" by (simp add: save_entity_def Let_def p1_def)
  then have "product_update env k (plain_edit None (Some ProductActive)) no_files userId c1 = Inr (emit (ProductUpdated (snapshot_of ?p ?r)) c3)"
    by (simp add: product_update_def read plain_commit p1_def)
  moreover have "find_row p_id k (products (cdb c3)) = Some ?p" using saved_product(1) [OF s] k by (simp add: p1_def)
  ultimately show ?thesis using rem by (intro exI conjI) (assumption | simp)+
qed

theorem take_down_bypassed_witness:
  "\<exists>c c1 c2. map_option p_status (find_row p_id 21 (products (cdb c))) = Some ProductSuspended
    \<and> product_remove demo_catalog_env 21 2 c = Inr c1
    \<and> product_update demo_catalog_env 21 (plain_edit None (Some ProductActive)) no_files 2 c1 = Inr c2
    \<and> map_option p_status (find_row p_id 21 (products (cdb c2))) = Some ProductActive"
proof -
  let ?c = "demo_catalog\<lparr>cdb := demo_db\<lparr>products := update_row p_id 21 (\<lambda>p. p\<lparr>p_status := ProductSuspended\<rparr>) (products demo_db)\<rparr>\<rparr>"
  obtain p r shop where "find_product 21 ?c = Some (p, r)" "p_status p = ProductSuspended" "p_shop_id p = Some (s_id shop)"
    "findOneByUserId 2 (cdb ?c) = Inr shop" "s_status shop = AccActive"
    by atomize_elim (simp add: find_product_def find_row_def update_row_def demo_db_def findOneByUserId_def)
  moreover have "unique_keys p_id (products (cdb ?c))" "unique_keys v_id (variants (cdb ?c))"
    by (simp_all add: unique_keys_def update_row_def demo_db_def)
  ultimately have "\<exists>c1 c2. product_remove demo_catalog_env 21 2 ?c = Inr c1
      \<and> product_update demo_catalog_env 21 (plain_edit None (Some ProductActive)) no_files 2 c1 = Inr c2
      \<and> map_option p_status (find_row p_id 21 (products (cdb c2))) = Some ProductActive"
    by (intro take_down_bypassed)
  moreover have "map_option p_status (find_row p_id 21 (products (cdb ?c))) = Some ProductSuspended"
    by (simp add: find_row_def update_row_def demo_db_def)
  ultimately show ?thesis by blast
qed

end
