(* ===== verification/CatalogStock.thy ===== *)
theory CatalogStock
  imports CatalogSafety
begin

text \<open>
  The stock of a product with variants is the sum of its variants' in every history of edits and sales: the invariant
  \<open>products_ok\<close>, what an entity about to be saved must satisfy (\<open>draft_ok\<close>), its preservation by every step of
  \<open>update\<close>, then by every operation of \<open>Catalog\<close> and by the sales of \<open>ProductStock\<close>.
\<close>

subsection \<open>Sums over the variants\<close>

lemma total_as_filter: "variants_total vs k = sum_list (map v_stock_quantity (filter (\<lambda>v. v_product_id v = Some k) vs))"
  by (induction vs) (simp_all add: variants_total_def)

lemma total_as_sum:
  assumes "unique_keys v_id vs"
  shows "variants_total vs k = (\<Sum>v \<in> {v \<in> set vs. v_product_id v = Some k}. v_stock_quantity v)"
proof -
  have "distinct (filter (\<lambda>v. v_product_id v = Some k) vs)"
    using assms by (simp add: unique_keys_def distinct_map)
  then show ?thesis by (simp add: total_as_filter sum_list_distinct_conv_sum_set)
qed

lemma totals_agree:
  assumes "unique_keys v_id vs" "unique_keys v_id ws"
    and "{v \<in> set vs. v_product_id v = Some k} = {v \<in> set ws. v_product_id v = Some k}"
  shows "variants_total vs k = variants_total ws k"
  unfolding total_as_sum [OF assms(1)] total_as_sum [OF assms(2)] assms(3) ..

text \<open>Saving rows one after the other.\<close>

lemma saved_rows:
  fixes f :: "'a \<Rightarrow> 'r" and key :: "'r \<Rightarrow> 'k"
  assumes "distinct (map (key \<circ> f) xs)" "unique_keys key t"
  shows "set (foldl (\<lambda>t x. save_row key (f x) t) t xs) = f ` set xs \<union> {r \<in> set t. key r \<notin> (key \<circ> f) ` set xs}"
    "unique_keys key (foldl (\<lambda>t x. save_row key (f x) t) t xs)"
proof -
  have "set (foldl (\<lambda>t x. save_row key (f x) t) t xs) = f ` set xs \<union> {r \<in> set t. key r \<notin> (key \<circ> f) ` set xs}
      \<and> unique_keys key (foldl (\<lambda>t x. save_row key (f x) t) t xs)"
    using assms(1)
  proof (induction xs rule: rev_induct)
    case (snoc x xs)
    let ?t = "foldl (\<lambda>t x. save_row key (f x) t) t xs"
    have IH: "set ?t = f ` set xs \<union> {r \<in> set t. key r \<notin> (key \<circ> f) ` set xs}" "unique_keys key ?t"
      using snoc by simp_all
    have new: "key (f x) \<notin> (key \<circ> f) ` set xs" using snoc.prems by simp
    have "r \<in> set (save_row key (f x) ?t) \<longleftrightarrow> r \<in> f ` set (xs @ [x]) \<union> {r \<in> set t. key r \<notin> (key \<circ> f) ` set (xs @ [x])}" for r
      unfolding in_set_save_row [OF IH(2)] IH(1) using new by (auto simp: image_iff)
    then show ?case using unique_keys_save [OF IH(2)] by auto
  qed (simp add: assms(2))
  then show "set (foldl (\<lambda>t x. save_row key (f x) t) t xs) = f ` set xs \<union> {r \<in> set t. key r \<notin> (key \<circ> f) ` set xs}"
    "unique_keys key (foldl (\<lambda>t x. save_row key (f x) t) t xs)" by blast+
qed

subsection \<open>The invariant\<close>

text \<open>What holds of every product but \<open>skip\<close>.\<close>

definition products_ok :: "uuid option \<Rightarrow> db \<Rightarrow> bool" where
  "products_ok skip d \<longleftrightarrow>
     unique_keys p_id (products d) \<and> unique_keys v_id (variants d)
   \<and> (\<forall>p \<in> set (products d). p_id p < next_uuid d)
   \<and> (\<forall>v \<in> set (variants d). v_id v < next_uuid d \<and> (\<forall>k. v_product_id v = Some k \<longrightarrow> k < next_uuid d))
   \<and> (\<forall>p \<in> set (products d). Some (p_id p) \<noteq> skip \<longrightarrow>
        (if p_has_variants p then p_stock_quantity p = variants_total (variants d) (p_id p)
         else \<forall>v \<in> set (variants d). v_product_id v \<noteq> Some (p_id p)))"

lemma products_okD:
  assumes "products_ok skip d"
  shows "unique_keys p_id (products d)" "unique_keys v_id (variants d)"
    "p \<in> set (products d) \<Longrightarrow> p_id p < next_uuid d" "v \<in> set (variants d) \<Longrightarrow> v_id v < next_uuid d"
    "v \<in> set (variants d) \<Longrightarrow> v_product_id v = Some k \<Longrightarrow> k < next_uuid d"
    "p \<in> set (products d) \<Longrightarrow> Some (p_id p) \<noteq> skip \<Longrightarrow> p_has_variants p \<Longrightarrow> p_stock_quantity p = variants_total (variants d) (p_id p)"
    "p \<in> set (products d) \<Longrightarrow> Some (p_id p) \<noteq> skip \<Longrightarrow> \<not> p_has_variants p \<Longrightarrow> v \<in> set (variants d) \<Longrightarrow> v_product_id v \<noteq> Some (p_id p)"
  using assms unfolding products_ok_def by auto

lemma variant_unique:
  "products_ok skip d \<Longrightarrow> v \<in> set (variants d) \<Longrightarrow> w \<in> set (variants d) \<Longrightarrow> v_id v = v_id w \<Longrightarrow> v = w"
  using products_okD(2) by (auto simp: unique_keys_def distinct_map dest: inj_onD)

lemma ok_in_sync: "products_ok None d \<Longrightarrow> stock_in_sync d"
  by (auto simp: stock_in_sync_def products_ok_def)

lemma ok_weaken: "products_ok None d \<Longrightarrow> products_ok skip d"
  by (auto simp: products_ok_def)

text \<open>The entity that is about to be saved, against the rows that are there.\<close>

definition draft_ok :: "uuid \<Rightarrow> db \<Rightarrow> product \<Rightarrow> (variant \<times> variant_rest) list \<Rightarrow> bool" where
  "draft_ok k d p vs \<longleftrightarrow> p_id p = k \<and> k < next_uuid d \<and> distinct (map (v_id \<circ> fst) vs)
     \<and> (\<forall>x \<in> set vs. v_id (fst x) < next_uuid d \<and> (\<forall>w \<in> set (variants d). v_id w = v_id (fst x) \<longrightarrow> v_product_id w = Some k))
     \<and> (p_has_variants p \<and> vs \<noteq> [] \<longrightarrow> p_stock_quantity p = sum_list (map (v_stock_quantity \<circ> fst) vs))
     \<and> (\<not> p_has_variants p \<longrightarrow> vs = [])"

lemma saved_entity_ok:
  assumes ok: "products_ok (Some k) (cdb c)" and dr: "draft_ok k (cdb c) p vs" and nv: "p_has_variants p \<longrightarrow> vs \<noteq> []"
    and s: "save_entity p r vs c = Inr c'"
  shows "products_ok None (cdb c')"
proof -
  let ?d = "cdb c" and ?g = "\<lambda>x :: variant \<times> variant_rest. (fst x)\<lparr>v_product_id := Some k\<rparr>"
  let ?kept = "map (\<lambda>v. if v_product_id v = Some k \<and> v_id v \<notin> set (map (v_id \<circ> fst) vs) then v\<lparr>v_product_id := None\<rparr> else v) (variants ?d)"
  let ?T = "foldl (\<lambda>t x. save_row v_id (?g x) t) ?kept vs"
  have pk: "p_id p = k" and kn: "k < next_uuid ?d" and dist: "distinct (map (v_id \<circ> ?g) vs)"
    and mem: "\<And>x. x \<in> set vs \<Longrightarrow> v_id (fst x) < next_uuid ?d \<and> (\<forall>w \<in> set (variants ?d). v_id w = v_id (fst x) \<longrightarrow> v_product_id w = Some k)"
    using dr by (simp_all add: draft_ok_def comp_def)
  have gs: "(\<lambda>t (v, uu :: variant_rest). save_row v_id (v\<lparr>v_product_id := Some k\<rparr>) t) = (\<lambda>t x. save_row v_id (?g x) t)"
    by (auto simp: fun_eq_iff)
  have c': "products (cdb c') = save_row p_id p (products ?d)" "variants (cdb c') = ?T" "next_uuid (cdb c') = next_uuid ?d"
    using s by (auto simp: save_entity_def save_product_def Let_def pk gs split: if_splits)
  have keys: "map v_id ?kept = map v_id (variants ?d)" by (simp add: comp_def)
  then have uk: "unique_keys v_id ?kept" using products_okD(2) [OF ok] by (simp only: unique_keys_def)
  note T = saved_rows [OF dist uk]
  have set_T: "set ?T = ?g ` set vs \<union> {w \<in> set ?kept. v_id w \<notin> (v_id \<circ> ?g) ` set vs}" by (rule T(1))
  have uT: "unique_keys v_id ?T" by (rule T(2))
  have of_k: "{v \<in> set ?T. v_product_id v = Some k} = ?g ` set vs"
    unfolding set_T by (auto simp: image_iff)
  have of_other: "{v \<in> set ?T. v_product_id v = Some j} = {v \<in> set (variants ?d). v_product_id v = Some j}" if "j \<noteq> k" for j
  proof -
    have "w \<in> set ?kept \<and> v_product_id w = Some j \<longleftrightarrow> w \<in> set (variants ?d) \<and> v_product_id w = Some j" for w
      using that by auto
    moreover have "v_id w \<notin> (v_id \<circ> ?g) ` set vs" if "w \<in> set (variants ?d)" "v_product_id w = Some j" for w
      using mem that \<open>j \<noteq> k\<close> by fastforce
    ultimately show ?thesis unfolding set_T using that by auto
  qed
  have stock_k: "p_has_variants p \<Longrightarrow> p_stock_quantity p = variants_total ?T k"
  proof -
    assume hv: "p_has_variants p"
    have "inj_on (v_id \<circ> ?g) (set vs)" using dist unfolding distinct_map by blast
    then have "inj_on ?g (set vs)" by (rule inj_on_imageI2)
    then have "variants_total ?T k = (\<Sum>x \<in> set vs. v_stock_quantity (fst x))"
      unfolding total_as_sum [OF uT] of_k by (simp add: sum.reindex)
    also have "\<dots> = sum_list (map (v_stock_quantity \<circ> fst) vs)"
      using dist by (simp add: sum_list_distinct_conv_sum_set distinct_map comp_def)
    finally show ?thesis using dr hv nv by (simp add: draft_ok_def)
  qed
  have ids: "v_id v < next_uuid ?d \<and> (\<forall>j. v_product_id v = Some j \<longrightarrow> j < next_uuid ?d)" if "v \<in> set ?T" for v
    using that mem kn products_okD(4,5) [OF ok] unfolding set_T by auto
  have prod: "if p_has_variants q then p_stock_quantity q = variants_total ?T (p_id q) else \<forall>v \<in> set ?T. v_product_id v \<noteq> Some (p_id q)"
    if q: "q \<in> set (save_row p_id p (products ?d))" for q
  proof (cases "q = p")
    case True
    have "\<not> p_has_variants p \<Longrightarrow> vs = []" using dr by (simp add: draft_ok_def)
    then show ?thesis using True stock_k of_k pk by auto
  next
    case False
    then have q': "q \<in> set (products ?d)" "p_id q \<noteq> k" using q in_set_save_row [OF products_okD(1) [OF ok]] pk by auto
    have "variants_total ?T (p_id q) = variants_total (variants ?d) (p_id q)"
      by (rule totals_agree [OF uT products_okD(2) [OF ok] of_other [OF q'(2)]])
    then show ?thesis using products_okD(6,7) [OF ok q'(1)] q'(2) of_other [OF q'(2)] by auto
  qed
  have pids: "\<forall>q \<in> set (save_row p_id p (products ?d)). p_id q < next_uuid ?d"
    using products_okD(3) [OF ok] in_set_save_row [OF products_okD(1) [OF ok]] pk kn by auto
  show ?thesis
    unfolding products_ok_def c' using unique_keys_save [OF products_okD(1) [OF ok]] uT pids ids prod by blast
qed


subsection \<open>The steps of an edit\<close>

text \<open>What an edit of the columns leaves alone.\<close>

definition same_core :: "loaded \<Rightarrow> loaded \<Rightarrow> bool" where
  "same_core e e' \<longleftrightarrow> ld_vs e' = ld_vs e \<and> p_id (ld_p e') = p_id (ld_p e) \<and> p_has_variants (ld_p e') = p_has_variants (ld_p e)
     \<and> p_stock_quantity (ld_p e') = p_stock_quantity (ld_p e)"

lemma same_core_trans [trans]: "same_core a b \<Longrightarrow> same_core b c \<Longrightarrow> same_core a c"
  by (simp add: same_core_def)

lemma draft_same: "same_core e e' \<Longrightarrow> draft_ok k d (ld_p e) (ld_vs e) \<Longrightarrow> draft_ok k d (ld_p e') (ld_vs e')"
  by (simp add: same_core_def draft_ok_def)

lemma given_keeps: "(\<And>v y. f (g v y) = f y) \<Longrightarrow> f (given x g y) = f y"
  by (simp add: given_def split: option.split)

lemma column_steps:
  "step_thumbnail files e = Inr e' \<Longrightarrow> same_core e e'"
  "step_gallery dto files e = Inr e' \<Longrightarrow> same_core e e'"
  "same_core e (step_basics env dto e)"
  "step_category dto c e = Inr e' \<Longrightarrow> same_core e e'"
  by (auto simp: same_core_def step_thumbnail_def step_gallery_def step_basics_def step_category_def Let_def given_keeps
      split: list.splits option.splits if_splits sum.splits)

lemma products_ok_fewer:
  assumes "products_ok (Some k) (cdb c)" "\<And>v. v \<in> set (variants (cdb c)) \<Longrightarrow> P v \<Longrightarrow> v_product_id v = Some k"
  shows "products_ok (Some k) (cdb (delete_variants P c))"
proof -
  have "{v \<in> set (delete_rows P (variants (cdb c))). v_product_id v = Some j} = {v \<in> set (variants (cdb c)). v_product_id v = Some j}"
    if "j \<noteq> k" for j
    using assms(2) that by auto
  note same = totals_agree [OF unique_keys_delete products_okD(2) [OF assms(1)] this, OF products_okD(2) [OF assms(1)]]
  show ?thesis
    using assms(1) same by (auto simp: products_ok_def delete_variants_def intro: unique_keys_delete)
qed

lemma products_ok_ids:
  "products_ok skip d \<Longrightarrow> next_uuid d \<le> n \<Longrightarrow> products_ok skip (d\<lparr>next_uuid := n\<rparr>)"
  unfolding products_ok_def by fastforce

text \<open>The variants of the edit: every reference is an old variant that was listed or a new one, and none occurs twice.\<close>

definition ref_id :: "variant_ref \<Rightarrow> uuid" where
  "ref_id x = (case x of OldVariant i \<Rightarrow> i | NewVariant row \<Rightarrow> v_id (fst row))"

lemma ref_id_simps [simp]: "ref_id (OldVariant i) = i" "ref_id (NewVariant row) = v_id (fst row)"
  by (simp_all add: ref_id_def)

definition ref_from :: "uuid set \<Rightarrow> uuid set \<Rightarrow> uuid \<Rightarrow> uuid \<Rightarrow> variant_ref \<Rightarrow> bool" where
  "ref_from ids listed_ids n n' x \<longleftrightarrow>
     (case x of OldVariant i \<Rightarrow> i \<in> ids \<and> i \<in> listed_ids | NewVariant row \<Rightarrow> n \<le> v_id (fst row) \<and> v_id (fst row) < n')"

lemma ref_from_simps [simp]:
  "ref_from ids ls n n' (OldVariant i) \<longleftrightarrow> i \<in> ids \<and> i \<in> ls"
  "ref_from ids ls n n' (NewVariant row) \<longleftrightarrow> n \<le> v_id (fst row) \<and> v_id (fst row) < n'"
  by (simp_all add: ref_from_def)

lemma edit_variant_id [simp]: "v_id (fst (edit_variant env uv urls x)) = v_id (fst x)"
  by (cases x) (simp add: edit_variant_def given_keeps split: option.split)

lemma found_variant: "find (\<lambda>(v, r). v_id v = i) olds = Some y \<Longrightarrow> i \<in> (\<lambda>x. v_id (fst x)) ` set olds"
  by (auto simp: find_Some_iff split_beta)

lemma apply_variant_effect:
  assumes "apply_variant env cm uv (olds, refs, files, n) = Inr st"
  shows "\<exists>olds' x files' n'. st = (olds', refs @ [x], files', n') \<and> map (v_id \<circ> fst) olds' = map (v_id \<circ> fst) olds
    \<and> ((\<exists>i. x = OldVariant i \<and> uv_id uv = Some i \<and> i \<in> (v_id \<circ> fst) ` set olds \<and> n' = n)
      \<or> (\<exists>row. x = NewVariant row \<and> uv_id uv = None \<and> v_id (fst row) = n \<and> n' = Suc n))"
  using assms
  by (auto simp: apply_variant_def Let_def comp_def split: sum.splits option.splits if_splits dest: found_variant)

lemma apply_variants_effect:
  assumes "apply_variants env cm uvs (olds, refs, files, n) = Inr (olds', refs', files', n')"
    and "distinct (List.map_filter uv_id uvs)" "\<forall>i \<in> (v_id \<circ> fst) ` set olds. i < n0" "n0 \<le> n"
  shows "n \<le> n' \<and> map (v_id \<circ> fst) olds' = map (v_id \<circ> fst) olds
    \<and> (\<exists>new. refs' = refs @ new \<and> distinct (map ref_id new)
          \<and> (\<forall>x \<in> set new. ref_from ((v_id \<circ> fst) ` set olds) (set (List.map_filter uv_id uvs)) n n' x))"
  using assms
proof (induction uvs arbitrary: olds refs files n)
  case (Cons uv uvs)
  from Cons.prems(1) obtain st where st: "apply_variant env cm uv (olds, refs, files, n) = Inr st"
    and more: "apply_variants env cm uvs st = Inr (olds', refs', files', n')" by (auto split: sum.splits)
  from apply_variant_effect [OF st] obtain olds1 x files1 n1 where st': "st = (olds1, refs @ [x], files1, n1)"
    and keys: "map (v_id \<circ> fst) olds1 = map (v_id \<circ> fst) olds"
    and x: "(\<exists>i. x = OldVariant i \<and> uv_id uv = Some i \<and> i \<in> (v_id \<circ> fst) ` set olds \<and> n1 = n)
      \<or> (\<exists>row. x = NewVariant row \<and> uv_id uv = None \<and> v_id (fst row) = n \<and> n1 = Suc n)" by blast
  have img: "(v_id \<circ> fst) ` set olds1 = (v_id \<circ> fst) ` set olds" using arg_cong [OF keys, of set] by simp
  have dist: "distinct (List.map_filter uv_id uvs)" using Cons.prems(2) by (simp add: map_filter_simps split: option.splits)
  have "n0 \<le> n1" using x Cons.prems(4) by auto
  from Cons.IH [OF more [unfolded st'] dist Cons.prems(3) [folded img] this, unfolded img] obtain new where IH: "n1 \<le> n'" "map (v_id \<circ> fst) olds' = map (v_id \<circ> fst) olds1"
    "refs' = (refs @ [x]) @ new" "distinct (map ref_id new)"
    "\<forall>y \<in> set new. ref_from ((v_id \<circ> fst) ` set olds) (set (List.map_filter uv_id uvs)) n1 n' y" by blast
  have fresh: "ref_id x \<notin> ref_id ` set new"
  proof
    assume "ref_id x \<in> ref_id ` set new"
    then obtain y where y: "y \<in> set new" "ref_id y = ref_id x" by auto
    show False using IH(5) [rule_format, OF y(1)] y(2) x Cons.prems(2-4)
      by (cases y) (fastforce simp: map_filter_simps)+
  qed
  have "ref_from ((v_id \<circ> fst) ` set olds) (set (List.map_filter uv_id (uv # uvs))) n n' y" if "y \<in> set (x # new)" for y
  proof (cases "y = x")
    case True
    then show ?thesis using x IH(1) by (elim disjE exE conjE) (simp_all add: map_filter_simps)
  next
    case False
    then show ?thesis using that x IH(5) [rule_format, of y] by (cases y) (auto simp: map_filter_simps)
  qed
  then have "\<exists>m. refs' = refs @ m \<and> distinct (map ref_id m)
      \<and> (\<forall>y \<in> set m. ref_from ((v_id \<circ> fst) ` set olds) (set (List.map_filter uv_id (uv # uvs))) n n' y)"
    using IH(3,4) fresh by (intro exI [of _ "x # new"]) simp
  moreover have "n \<le> n'" using x IH(1) by auto
  ultimately show ?case using trans [OF IH(2) keys] by blast
qed (simp add: map_filter_simps)

lemma resolved_ids:
  assumes "\<forall>x \<in> set refs. ref_from ((v_id \<circ> fst) ` set olds) ls n n' x"
  shows "map (v_id \<circ> fst) (concat (map (resolve_ref olds) refs)) = map ref_id refs"
  using assms
proof (induction refs)
  case (Cons x refs)
  have "map (v_id \<circ> fst) (resolve_ref olds x) = [ref_id x]"
  proof (cases x)
    case (OldVariant i)
    with Cons.prems obtain y where "y \<in> set olds" "v_id (fst y) = i" by auto
    then have "find (\<lambda>(v, r). v_id v = i) olds \<noteq> None" unfolding find_None_iff split_beta by blast
    then obtain z where f: "find (\<lambda>(v, r). v_id v = i) olds = Some z" by blast
    then have "v_id (fst z) = i" by (auto simp: find_Some_iff split_beta)
    then show ?thesis using OldVariant f by (simp add: resolve_ref_def)
  qed (simp add: resolve_ref_def)
  moreover have "map (v_id \<circ> fst) (concat (map (resolve_ref olds) refs)) = map ref_id refs"
    by (rule Cons.IH) (use Cons.prems in simp)
  ultimately show ?case by (simp only: list.map concat.simps map_append append_Cons append_Nil)
qed simp

lemma loaded_ids: "(v_id \<circ> fst) ` set (variants_of_product k c) = v_id ` {v \<in> set (variants (cdb c)). v_product_id v = Some k}"
  by (auto simp: variants_of_product_def image_image)

lemma step_variants_draft:
  assumes ok: "products_ok (Some k) (cdb c)" and dr: "draft_ok k (cdb c) (ld_p e) (ld_vs e)"
    and once: "\<forall>uvs. up_variants dto = Some uvs \<longrightarrow> distinct (List.map_filter uv_id uvs)"
    and s: "step_variants env dto files (e, c) = Inr (e', c')"
  shows "products_ok (Some k) (cdb c') \<and> draft_ok k (cdb c') (ld_p e') (ld_vs e')"
proof (cases "\<exists>uvs. up_variants dto = Some uvs \<and> p_has_variants (ld_p e)")
  case False
  then show ?thesis using s ok dr by (auto simp: step_variants_def split: option.splits)
next
  case True
  then obtain uvs where uvs: "up_variants dto = Some uvs" "p_has_variants (ld_p e)" by blast
  let ?d = "cdb c" and ?olds = "variants_of_product k c" and ?ls = "set (List.map_filter uv_id uvs)"
  let ?c1 = "delete_variants (\<lambda>v. v_product_id v = Some k \<and> v_id v \<notin> ?ls) c"
  have pk: "p_id (ld_p e) = k" "k < next_uuid ?d" using dr by (simp_all add: draft_ok_def)
  obtain olds' refs files' n' where a: "apply_variants env (up_color_images dto \<noteq> None) uvs (?olds, [], pf_variant_images files, next_uuid ?d)
      = Inr (olds', refs, files', n')"
    and c': "c' = ?c1\<lparr>cdb := (cdb ?c1)\<lparr>next_uuid := n'\<rparr>\<rparr>"
    and e': "ld_vs e' = concat (map (resolve_ref olds') refs)"
      "ld_p e' = (ld_p e)\<lparr>p_stock_quantity := sum_list (map (v_stock_quantity \<circ> fst) (ld_vs e'))\<rparr>"
    using s uvs pk by (auto simp: step_variants_def Let_def split: sum.splits)
  have "\<forall>i \<in> (v_id \<circ> fst) ` set ?olds. i < next_uuid ?d" using products_okD(4) [OF ok] unfolding loaded_ids by auto
  note eff = apply_variants_effect [OF a once [rule_format, OF uvs(1)] this order_refl]
  have n: "next_uuid ?d \<le> n'" and keys: "map (v_id \<circ> fst) olds' = map (v_id \<circ> fst) ?olds" using eff by blast+
  have img: "(v_id \<circ> fst) ` set olds' = (v_id \<circ> fst) ` set ?olds" using arg_cong [OF keys, of set] by simp
  have dist: "distinct (map ref_id refs)" and from_ids: "\<forall>x \<in> set refs. ref_from ((v_id \<circ> fst) ` set ?olds) ?ls (next_uuid ?d) n' x"
    using eff by auto
  have ids: "map (v_id \<circ> fst) (ld_vs e') = map ref_id refs"
    unfolding e'(1) by (rule resolved_ids) (use from_ids img in simp)
  have row: "v_id (fst x) < n' \<and> (\<forall>w \<in> set (variants ?d). v_id w = v_id (fst x) \<longrightarrow> v_product_id w = Some k)" if "x \<in> set (ld_vs e')" for x
  proof -
    have "v_id (fst x) \<in> ref_id ` set refs" using that arg_cong [OF ids, of set] by auto
    then obtain y where y: "y \<in> set refs" "v_id (fst x) = ref_id y" by blast
    show ?thesis
    proof (cases y)
      case (OldVariant i)
      then obtain v where v: "v \<in> set (variants ?d)" "v_product_id v = Some k" "v_id v = v_id (fst x)"
        using from_ids y unfolding loaded_ids by fastforce
      have "v_product_id w = Some k" if "w \<in> set (variants ?d)" "v_id w = v_id (fst x)" for w
        using variant_unique [OF ok that(1) v(1)] that(2) v(2,3) by simp
      moreover have "v_id (fst x) < n'" using products_okD(4) [OF ok v(1)] v(3) n by simp
      ultimately show ?thesis by blast
    next
      case (NewVariant row)
      then have "next_uuid ?d \<le> v_id (fst x)" "v_id (fst x) < n'" using bspec [OF from_ids y(1)] y(2) by simp_all
      then show ?thesis using products_okD(4) [OF ok] by (metis leD)
    qed
  qed
  have "products_ok (Some k) (cdb ?c1)" by (rule products_ok_fewer [OF ok]) simp
  then have "products_ok (Some k) (cdb c')" unfolding c' using n products_ok_ids by (simp add: delete_variants_def)
  moreover have "draft_ok k (cdb c') (ld_p e') (ld_vs e')"
    using row pk n uvs dist ids unfolding draft_ok_def e'(2) c' by (simp add: delete_variants_def)
  ultimately show ?thesis ..
qed

text \<open>An edit, read and saved in one go.\<close>

lemma loaded_draft:
  assumes ok: "products_ok None (cdb c)" and l: "load_product k c = Some e"
  shows "draft_ok k (cdb c) (ld_p e) (ld_vs e)"
proof -
  obtain p r where f: "find_row p_id k (products (cdb c)) = Some p" and e: "ld_p e = p" "ld_vs e = variants_of_product k c"
    using l by (auto simp: load_product_def find_product_def split: option.splits)
  note p = find_row_SomeD [OF f]
  have dist: "distinct (map (v_id \<circ> fst) (variants_of_product k c))"
    using products_okD(2) [OF ok] by (simp add: variants_of_product_def comp_def unique_keys_def distinct_map_filter)
  have total: "sum_list (map (v_stock_quantity \<circ> fst) (variants_of_product k c)) = variants_total (variants (cdb c)) k"
    by (simp add: variants_of_product_def comp_def total_as_filter)
  have row: "v_id (fst x) < next_uuid (cdb c) \<and> (\<forall>w \<in> set (variants (cdb c)). v_id w = v_id (fst x) \<longrightarrow> v_product_id w = Some k)"
    if "x \<in> set (variants_of_product k c)" for x
  proof -
    from that have v: "fst x \<in> set (variants (cdb c))" "v_product_id (fst x) = Some k" by (auto simp: variants_of_product_def)
    have "v_product_id w = Some k" if "w \<in> set (variants (cdb c))" "v_id w = v_id (fst x)" for w
      using variant_unique [OF ok that(1) v(1) that(2)] v(2) by simp
    then show ?thesis using products_okD(4) [OF ok v(1)] by blast
  qed
  have none: "\<not> p_has_variants p \<Longrightarrow> variants_of_product k c = []"
    using products_okD(7) [OF ok, of p] p by (auto simp: variants_of_product_def filter_empty_conv)
  show ?thesis
    using p products_okD(3,6) [OF ok, of p] dist total row none unfolding draft_ok_def e by auto
qed

lemma step_has_variants_draft:
  assumes ok: "products_ok (Some k) (cdb c)" and dr: "draft_ok k (cdb c) (ld_p e) (ld_vs e)"
    and s: "step_has_variants dto (e, c) = Inr (e', c')"
  shows "products_ok (Some k) (cdb c') \<and> draft_ok k (cdb c') (ld_p e') (ld_vs e')"
proof -
  have pk: "p_id (ld_p e) = k" using dr by (simp add: draft_ok_def)
  have "products_ok (Some k) (cdb (delete_variants (\<lambda>v. v_product_id v = Some k) c))" by (rule products_ok_fewer [OF ok])
  then show ?thesis
    using s ok dr pk by (auto simp: step_has_variants_def draft_ok_def delete_variants_def split: option.splits if_splits)
qed

lemma step_stock_draft:
  "draft_ok k d (ld_p e) (ld_vs e) \<Longrightarrow> step_stock dto e = Inr e' \<Longrightarrow> draft_ok k d (ld_p e') (ld_vs e')"
  by (auto simp: step_stock_def draft_ok_def split: option.splits if_splits)

definition listed_once :: "update_product_dto \<Rightarrow> bool" where
  "listed_once dto \<longleftrightarrow> (case up_variants dto of None \<Rightarrow> True | Some uvs \<Rightarrow> distinct (List.map_filter uv_id uvs))"

lemma shelf_update_ok:
  assumes ok: "products_ok None (cdb c)" and once: "listed_once dto" and u: "product_update env k dto files userId c = Inr c'"
  shows "products_ok None (cdb c')"
proof -
  from u obtain e where read: "update_read k userId dto c = Inr e" and commit: "update_commit env dto files e c = Inr c'"
    by (auto simp: product_update_def split: sum.splits)
  have "load_product k c = Some e" using read by (auto simp: update_read_def split: option.splits if_splits sum.splits)
  note d0 = loaded_draft [OF ok this]
  from commit obtain e1 where c1: "step_thumbnail files e = Inr e1" by (auto simp: update_commit_def split: sum.splits)
  with commit obtain e2 where c2: "step_gallery dto files e1 = Inr e2" by (auto simp: update_commit_def split: sum.splits)
  with commit c1 obtain e3 ca where c3: "step_has_variants dto (step_basics env dto e2, c) = Inr (e3, ca)"
    by (auto simp: update_commit_def split: sum.splits)
  with commit c1 c2 obtain e4 where c4: "step_stock dto e3 = Inr e4" by (auto simp: update_commit_def split: sum.splits)
  with commit c1 c2 c3 obtain e5 where c5: "step_category dto ca e4 = Inr e5" by (auto simp: update_commit_def split: sum.splits)
  with commit c1 c2 c3 c4 obtain e6 cb where c6: "step_variants env dto files (e5, ca) = Inr (e6, cb)"
    by (auto simp: update_commit_def split: sum.splits)
  with commit c1 c2 c3 c4 c5 obtain r cc where c7: "save_entity (ld_p e6) r (ld_vs e6) cb = Inr cc" "\<not> (p_has_variants (ld_p e6) \<and> ld_vs e6 = [])"
    "products (cdb c') = products (cdb cc)" "variants (cdb c') = variants (cdb cc)" "next_uuid (cdb c') = next_uuid (cdb cc)"
    by (auto simp: update_commit_def Let_def split: sum.splits if_splits)
  have "same_core e (step_basics env dto e2)"
    using column_steps(1) [OF c1] column_steps(2) [OF c2] column_steps(3) same_core_trans by blast
  note d1 = step_has_variants_draft [OF ok_weaken [OF ok] draft_same [OF this d0] c3]
  note d2 = draft_same [OF column_steps(4) [OF c5] step_stock_draft [OF d1 [THEN conjunct2] c4]]
  have "\<forall>uvs. up_variants dto = Some uvs \<longrightarrow> distinct (List.map_filter uv_id uvs)" using once by (auto simp: listed_once_def)
  note d3 = step_variants_draft [OF d1 [THEN conjunct1] d2 this c6]
  have "products_ok None (cdb cc)" by (rule saved_entity_ok [OF _ _ _ c7(1)]) (use d3 c7(2) in auto)
  then show ?thesis by (simp add: products_ok_def c7)
qed

subsection \<open>The other operations\<close>

lemma length_slices [simp]: "length (slices ns xs) = length ns"
  by (induction ns arbitrary: xs) simp_all

lemma map_sum_Inr_elim: "map_sum id f x = Inr y \<Longrightarrow> (\<And>z. x = Inr z \<Longrightarrow> y = f z \<Longrightarrow> P) \<Longrightarrow> P"
  by (cases x) auto

lemma created_ids:
  assumes "created_variants env dto files k = Inr vs" "cp_has_variants dto" "cp_variants dto = Some nvs"
  shows "map (v_id \<circ> fst) vs = [k..<k + length nvs] \<and> length vs = length nvs"
proof -
  obtain urls where len: "length urls = length nvs"
    and vs: "vs = map (\<lambda>(i, nv, us). created_variant env (k + i) nv us) (zip [0..<length nvs] (zip nvs urls))"
    using assms by (auto simp: created_variants_def Let_def listed_def dest!: map_result_length split: if_splits sum.splits elim!: map_sum_Inr_elim)
  have "map (v_id \<circ> fst) vs = map (\<lambda>x. k + fst x) (zip [0..<length nvs] (zip nvs urls))"
    unfolding vs by (simp add: created_variant_def split_beta)
  also have "\<dots> = map (\<lambda>i. k + i) (map fst (zip [0..<length nvs] (zip nvs urls)))" by (simp add: comp_def)
  also have "\<dots> = [k..<k + length nvs]" using len by (simp add: map_fst_zip) (rule nth_equalityI, simp_all)
  finally show ?thesis using len vs by simp
qed

lemma shelf_create_ok:
  assumes ok: "products_ok None (cdb c)" and u: "product_create env dto files userId st c = Inr (c', k)"
  shows "products_ok None (cdb c')"
proof -
  let ?k = "next_uuid (cdb c)"
  have "\<exists>p r vs cc. save_entity p r vs (c\<lparr>cdb := (cdb c)\<lparr>next_uuid := Suc ?k + length vs\<rparr>\<rparr>) = Inr cc
      \<and> created_variants env dto files (Suc ?k) = Inr vs \<and> image_mismatch dto files = None
      \<and> p_id p = ?k \<and> p_has_variants p = cp_has_variants dto
      \<and> (cp_has_variants dto \<and> cp_variants dto \<noteq> None \<longrightarrow> p_stock_quantity p = sum_list (map (v_stock_quantity \<circ> fst) vs))
      \<and> products (cdb c') = products (cdb cc) \<and> variants (cdb c') = variants (cdb cc) \<and> next_uuid (cdb c') = next_uuid (cdb cc)"
    using u unfolding product_create_def Let_def
    by (clarsimp split: sum.splits if_splits option.splits) ((intro exI conjI, assumption, auto)[1])+
  then obtain vs p r cc where s: "save_entity p r vs (c\<lparr>cdb := (cdb c)\<lparr>next_uuid := Suc ?k + length vs\<rparr>\<rparr>) = Inr cc"
    and vs: "created_variants env dto files (Suc ?k) = Inr vs" and m: "image_mismatch dto files = None"
    and p: "p_id p = ?k" "p_has_variants p = cp_has_variants dto"
      "cp_has_variants dto \<and> cp_variants dto \<noteq> None \<longrightarrow> p_stock_quantity p = sum_list (map (v_stock_quantity \<circ> fst) vs)"
    and c': "products (cdb c') = products (cdb cc)" "variants (cdb c') = variants (cdb cc)" "next_uuid (cdb c') = next_uuid (cdb cc)"
    by blast
  have listed: "cp_has_variants dto \<Longrightarrow> \<exists>x xs. cp_variants dto = Some (x # xs)" using m
    by (auto simp: image_mismatch_def listed_def neq_Nil_conv split: option.splits if_splits)
  have nv: "\<not> cp_has_variants dto \<longrightarrow> vs = []" using vs by (auto simp: created_variants_def)
  have ids: "map (v_id \<circ> fst) vs = [Suc ?k..<Suc ?k + length vs] \<and> (cp_has_variants dto \<longrightarrow> vs \<noteq> [])"
  proof (cases "cp_has_variants dto")
    case True
    then obtain x xs where "cp_variants dto = Some (x # xs)" using listed by blast
    from created_ids [OF vs True this] show ?thesis by auto
  qed (use nv in simp)
  let ?c = "c\<lparr>cdb := (cdb c)\<lparr>next_uuid := Suc ?k + length vs\<rparr>\<rparr>"
  have ok': "products_ok (Some ?k) (cdb ?c)" using products_ok_ids [OF ok_weaken [OF ok]] by simp
  have new: "v_id (fst x) < Suc ?k + length vs \<and> ?k < v_id (fst x)" if "x \<in> set vs" for x
  proof -
    have "v_id (fst x) \<in> set (map (v_id \<circ> fst) vs)" using that by auto
    then have "v_id (fst x) \<in> {Suc ?k..<Suc ?k + length vs}" unfolding ids [THEN conjunct1] set_upt .
    then show ?thesis by simp
  qed
  have old: "v_id v < ?k" if "v \<in> set (variants (cdb ?c))" for v using products_okD(4) [OF ok] that by simp
  have "draft_ok ?k (cdb ?c) p vs"
    unfolding draft_ok_def
  proof (intro conjI ballI impI)
    show "distinct (map (v_id \<circ> fst) vs)" using ids by simp
    show "v_product_id w = Some ?k" if "x \<in> set vs" "w \<in> set (variants (cdb ?c))" "v_id w = v_id (fst x)" for x w
      using new [OF that(1)] old [OF that(2)] that(3) by simp
  qed (use p listed nv new in auto)
  then have "products_ok None (cdb cc)" by (rule saved_entity_ok [OF ok' _ _ s]) (use ids p in simp)
  then show ?thesis by (simp add: products_ok_def c')
qed

lemma shelf_remove_ok:
  assumes ok: "products_ok None (cdb c)" and u: "product_remove env k userId c = Inr c'"
  shows "products_ok None (cdb c')"
proof -
  from u obtain e where read: "remove_read k userId c = Inr e" and c': "c' = remove_commit env k e c"
    by (auto simp: product_remove_def split: sum.splits)
  have "load_product k c = Some e" using read by (auto simp: remove_read_def split: option.splits sum.splits)
  then have vs: "ld_vs e = variants_of_product k c" by (auto simp: load_product_def split: option.splits)
  let ?P = "\<lambda>v. v_id v \<in> (v_id \<circ> fst) ` set (ld_vs e)"
  have P: "?P v \<longleftrightarrow> v_product_id v = Some k" if "v \<in> set (variants (cdb c))" for v
    unfolding vs loaded_ids using variant_unique [OF ok _ that] that by auto
  let ?c1 = "delete_variants ?P c"
  have ok1: "products_ok (Some k) (cdb ?c1)" using P by (intro products_ok_fewer [OF ok_weaken [OF ok]]) blast
  have none: "v_product_id v \<noteq> Some k" if "v \<in> set (variants (cdb ?c1))" for v using that P by (auto simp: delete_variants_def)
  let ?f = "\<lambda>p. p\<lparr>p_status := ProductDeleted, p_has_variants := False, p_thumbnail_url := None, p_stock_quantity := 0\<rparr>"
  have eq: "products (cdb c') = map (\<lambda>p. if p_id p = k then ?f p else p) (products (cdb ?c1))"
    "variants (cdb c') = variants (cdb ?c1)" "next_uuid (cdb c') = next_uuid (cdb ?c1)"
    by (simp_all add: c' remove_commit_def Let_def update_row_def)
  have keys: "map p_id (products (cdb c')) = map p_id (products (cdb ?c1))" unfolding eq by simp
  show ?thesis
    unfolding products_ok_def
  proof (intro conjI ballI impI)
    show "unique_keys p_id (products (cdb c'))" using products_okD(1) [OF ok1] unfolding unique_keys_def keys .
    show "if p_has_variants q then p_stock_quantity q = variants_total (variants (cdb c')) (p_id q)
        else \<forall>v \<in> set (variants (cdb c')). v_product_id v \<noteq> Some (p_id q)" if "q \<in> set (products (cdb c'))" for q
      using that none products_okD(6,7) [OF ok1] unfolding eq by auto
  qed (use products_okD(2-5) [OF ok1] eq in auto)
qed

lemma resaved_ok:
  assumes ok: "products_ok None (cdb c)" and f: "find_row p_id k (products (cdb c)) = Some p"
    and same: "p_id p' = p_id p" "p_has_variants p' = p_has_variants p" "p_stock_quantity p' = p_stock_quantity p"
  shows "products_ok None (cdb (save_product p' r c))"
proof -
  note p = find_row_SomeD [OF f]
  have c': "products (cdb (save_product p' r c)) = save_row p_id p' (products (cdb c))"
    "variants (cdb (save_product p' r c)) = variants (cdb c)" "next_uuid (cdb (save_product p' r c)) = next_uuid (cdb c)"
    by (simp_all add: save_product_def)
  have row: "\<exists>q' \<in> set (products (cdb c)). p_id q = p_id q' \<and> p_has_variants q = p_has_variants q' \<and> p_stock_quantity q = p_stock_quantity q'"
    if q: "q \<in> set (save_row p_id p' (products (cdb c)))" for q
  proof (cases "q = p'")
    case True
    then show ?thesis using p(1) same by blast
  next
    case False
    then show ?thesis using q in_set_save_row [OF products_okD(1) [OF ok]] by blast
  qed
  show ?thesis
    unfolding products_ok_def c'
  proof (intro conjI ballI impI)
    show "p_id q < next_uuid (cdb c)" if "q \<in> set (save_row p_id p' (products (cdb c)))" for q
      using row [OF that] products_okD(3) [OF ok] by auto
    show "if p_has_variants q then p_stock_quantity q = variants_total (variants (cdb c)) (p_id q)
        else \<forall>v \<in> set (variants (cdb c)). v_product_id v \<noteq> Some (p_id q)" if "q \<in> set (save_row p_id p' (products (cdb c)))" for q
      using row [OF that] products_okD(6,7) [OF ok] by auto
  qed (use products_okD(2,4,5) [OF ok] unique_keys_save [OF products_okD(1) [OF ok]] in auto)
qed

lemma moderated_ok:
  assumes ok: "products_ok None (cdb c)"
  shows "takeDown env adminId k reason c = Inr c' \<Longrightarrow> products_ok None (cdb c')"
    "product_restore env adminId k c = Inr c' \<Longrightarrow> products_ok None (cdb c')"
proof -
  have emits: "products_ok None (cdb (emit ev c)) = products_ok None (cdb c)" for ev c by (simp add: products_ok_def)
  show "takeDown env adminId k reason c = Inr c' \<Longrightarrow> products_ok None (cdb c')"
    "product_restore env adminId k c = Inr c' \<Longrightarrow> products_ok None (cdb c')"
    by (auto simp: takeDown_def product_restore_def find_product_def Let_def emits split: option.splits if_splits) (rule resaved_ok [OF ok], assumption, simp_all)+
qed

lemma moved_ok:
  assumes ok: "products_ok None d" and fits: "\<forall>item \<in> set items. line_fits d item"
  shows "products_ok None (move_stock c items d)"
proof -
  have "stock_in_sync (move_stock c items d)" by (rule move_stock_in_sync [OF products_okD(2) [OF ok] ok_in_sync [OF ok] fits])
  moreover have "unique_keys p_id (products (move_stock c items d))" "unique_keys v_id (variants (move_stock c items d))"
    using products_okD(1,2) [OF ok] by simp_all
  ultimately show ?thesis
    using products_okD(3-5,7) [OF ok]
    by (auto simp: products_ok_def stock_in_sync_def move_stock_def move_product_def move_variant_def)
qed

lemma sale_moves:
  assumes "products_ok None d"
  shows "lockAndDeductStockForCheckout items d = Inr (d', rs) \<Longrightarrow> d' = move_stock (-1) items d"
    "lockAndRestock items d = Inr d' \<Longrightarrow> d' = move_stock 1 items d"
  using products_okD(1,2) [OF assms] save_stock_locked [OF products_okD(1,2) [OF assms]]
  by (auto simp: deduct_cases restock_unfold split: if_splits)

subsection \<open>Histories\<close>

text \<open>
  One step: a seller creates, edits (read and saved at once) or removes a product, an administrator takes one down or
  restores it, an order takes stock or gives it back, or something else happens that leaves the products alone.
\<close>

inductive catalog_step :: "catalog \<Rightarrow> catalog \<Rightarrow> bool" where
  created: "product_create env dto files userId st c = Inr (c', k) \<Longrightarrow> catalog_step c c'"
| edited: "product_update env k dto files userId c = Inr c' \<Longrightarrow> listed_once dto \<Longrightarrow> catalog_step c c'"
| removed: "product_remove env k userId c = Inr c' \<Longrightarrow> catalog_step c c'"
| taken_down: "takeDown env adminId k reason c = Inr c' \<Longrightarrow> catalog_step c c'"
| restored: "product_restore env adminId k c = Inr c' \<Longrightarrow> catalog_step c c'"
| sold: "lockAndDeductStockForCheckout items (cdb c) = Inr (d', rs) \<Longrightarrow> \<forall>item \<in> set items. line_fits (cdb c) item
    \<Longrightarrow> catalog_step c (c\<lparr>cdb := d'\<rparr>)"
| restocked: "lockAndRestock items (cdb c) = Inr d' \<Longrightarrow> \<forall>item \<in> set items. line_fits (cdb c) item
    \<Longrightarrow> catalog_step c (c\<lparr>cdb := d'\<rparr>)"
| elsewhere: "products (cdb c') = products (cdb c) \<Longrightarrow> variants (cdb c') = variants (cdb c)
    \<Longrightarrow> next_uuid (cdb c) \<le> next_uuid (cdb c') \<Longrightarrow> catalog_step c c'"

lemma catalog_step_ok: "catalog_step c c' \<Longrightarrow> products_ok None (cdb c) \<Longrightarrow> products_ok None (cdb c')"
proof (induction rule: catalog_step.induct)
  case (elsewhere c' c)
  then show ?case using products_ok_ids [of None "cdb c" "next_uuid (cdb c')"] by (simp add: products_ok_def)
qed (auto dest: shelf_create_ok shelf_update_ok shelf_remove_ok moderated_ok sale_moves moved_ok)

interpretation shelf: preserved catalog_step "\<lambda>c. products_ok None (cdb c)"
  by unfold_locales (rule catalog_step_ok)



end
