(* ===== verification/Spec2Isabelle.thy ===== *)
theory Spec2Isabelle
  imports Prelude JsNumber Enums Entities Pagination ProductStock Promotions ShippingFee Carts OrderPricing VnpaySignature Payments Checkout Idempotency OrderHistory OrderQueries Payouts Returns ReturnHistory Notifications Delivery ReadModel Accounts Sessions SessionHistory AuthSafety Categories VariantNames Catalog CatalogQueries CatalogSafety CatalogStock
begin

text \<open>
  A model of the order pipeline of the shop platform.
\<close>

end
